(* ===== verification/Omp_Prelude.thy ===== *)
theory Omp_Prelude
  imports Main "HOL-Library.AList" "HOL-Library.Char_ord" "HOL-Library.List_Lexorder"
begin

text \<open>
  What every component of the gateway and of the tools shares: Python strings, decimal
  numerals, dicts, and exceptions as values.

  A Python \<open>str\<close> is represented by its UTF-8 bytes, a HOL \<^typ>\<open>string\<close>. Equality,
  concatenation and the order used by \<open>sorted\<close> agree with Python's (UTF-8 preserves code point
  order), and \<open>.encode("utf-8")\<close> is the identity. Lone surrogates, which have no UTF-8
  encoding, are outside the model.

  A dict is an association list in insertion order; \<^const>\<open>AList.update\<close> replaces a value
  in place or appends, as assignment to a dict key does.
\<close>

section \<open>Theorem collections\<close>

named_theorems res_inv \<open>what follows when an operation that may raise has returned a value\<close>
named_theorems dict_access \<open>the two ways to read a dict, unfolded to \<^const>\<open>map_of\<close>\<close>

section \<open>Exceptions as values\<close>

text \<open>
  The exception classes the code raises or catches. \<open>RegistryError\<close>, \<open>ModbusError\<close> and
  \<open>JSONDecodeError\<close> are subclasses of \<open>ValueError\<close>; the rest are not. \<open>SystemExit\<close> is not a subclass
  of \<open>Exception\<close>, so that \<open>except Exception\<close> does not catch it.
\<close>

datatype pyexn =
    ValueError string
  | JSONDecodeError
  | RegistryError string
  | ModbusError string
  | KeyError string
  | TypeError
  | IndexError
  | OverflowError
  | StructError
  | IntegrityError
  | DatabaseFull
  | ExporterClosed
  | SystemExit string
  | OtherError string

fun is_value_error :: "pyexn \<Rightarrow> bool" where
  "is_value_error (ValueError m) = True"
| "is_value_error JSONDecodeError = True"
| "is_value_error (RegistryError m) = True"
| "is_value_error (ModbusError m) = True"
| "is_value_error _ = False"

fun is_exception :: "pyexn \<Rightarrow> bool" where
  "is_exception (SystemExit m) = False"
| "is_exception e = True"

type_synonym 'a res = "pyexn + 'a"

definition res_bind :: "'a res \<Rightarrow> ('a \<Rightarrow> 'b res) \<Rightarrow> 'b res" where
  "res_bind m f = (case m of Inl e \<Rightarrow> Inl e | Inr x \<Rightarrow> f x)"

lemma res_bind_simps [simp]:
  "res_bind (Inl e) f = Inl e"
  "res_bind (Inr x) f = f x"
  by (simp_all add: res_bind_def)

lemma res_bind_eq_Inr [res_inv]: "res_bind m f = Inr y \<longleftrightarrow> (\<exists>x. m = Inr x \<and> f x = Inr y)"
  by (cases m) auto

lemma res_bind_eq_Inl: "res_bind m f = Inl e \<longleftrightarrow> m = Inl e \<or> (\<exists>x. m = Inr x \<and> f x = Inl e)"
  by (cases m) auto

text \<open>A list comprehension whose element expression may raise: the first exception wins.\<close>

fun res_map :: "('a \<Rightarrow> 'b res) \<Rightarrow> 'a list \<Rightarrow> 'b list res" where
  "res_map f [] = Inr []"
| "res_map f (x # xs) =
     (case f x of Inl e \<Rightarrow> Inl e
      | Inr y \<Rightarrow> (case res_map f xs of Inl e \<Rightarrow> Inl e | Inr ys \<Rightarrow> Inr (y # ys)))"

lemma res_map_Inr [simp]: "res_map (\<lambda>x. Inr (f x)) xs = Inr (map f xs)"
  by (induction xs) auto

lemma res_map_all_Inr: "(\<And>x. x \<in> set xs \<Longrightarrow> f x = Inr (g x)) \<Longrightarrow> res_map f xs = Inr (map g xs)"
  by (induction xs) auto

lemma res_map_Inr_iff:
  "res_map f xs = Inr ys \<longleftrightarrow> list_all2 (\<lambda>x y. f x = Inr y) xs ys"
proof (induction xs arbitrary: ys)
  case Nil
  then show ?case by auto
next
  case (Cons x xs)
  then show ?case by (cases ys) (fastforce split: sum.splits)+
qed

section \<open>Text forms\<close>

text \<open>
  The contract of every pair of a printer and a parser of the program: what was printed is read back, for the values
  \<open>ok\<close> admits. It is met by decimal numerals, by JSON with and without escapes, by base64 and by the hexadecimal
  text of a capture.
\<close>

locale codec =
  fixes encode :: "'a \<Rightarrow> string" and decode :: "string \<Rightarrow> 'a option" and ok :: "'a \<Rightarrow> bool"
  assumes decode_encode: "ok x \<Longrightarrow> decode (encode x) = Some x"
begin

lemma encode_inject: "ok x \<Longrightarrow> ok y \<Longrightarrow> encode x = encode y \<longleftrightarrow> x = y"
  by (metis decode_encode option.inject)

lemma decode_encode_all: "list_all ok xs \<Longrightarrow> map decode (map encode xs) = map Some xs"
  by (induction xs) (simp_all add: decode_encode)

end

section \<open>Strings\<close>

text \<open>\<open>sep.join(parts)\<close>\<close>

fun join :: "string \<Rightarrow> string list \<Rightarrow> string" where
  "join sep [] = []"
| "join sep [x] = x"
| "join sep (x # y # xs) = x @ sep @ join sep (y # xs)"

lemma join_Cons: "join sep (x # xs) = x @ (if xs = [] then [] else sep @ join sep xs)"
  by (cases xs) auto

text \<open>\<open>s.split(sep)[0]\<close> for a one-character separator\<close>

definition split_first :: "char \<Rightarrow> string \<Rightarrow> string" where
  "split_first c s = takeWhile (\<lambda>x. x \<noteq> c) s"

text \<open>\<open>str.strip()\<close> with Python's white space in ASCII. Python also removes the white space outside ASCII, such as the
  no-break space, which is not modelled.\<close>

definition is_space :: "char \<Rightarrow> bool" where
  "is_space c = (of_char c \<in> {9, 10, 11, 12, 13, 28, 29, 30, 31, 32 :: nat})"

definition lstrip :: "string \<Rightarrow> string" where
  "lstrip s = dropWhile is_space s"

definition strip :: "string \<Rightarrow> string" where
  "strip s = rev (dropWhile is_space (rev (lstrip s)))"

section \<open>Decimal numerals\<close>

definition digit_char :: "nat \<Rightarrow> char" where
  "digit_char d = char_of (48 + d)"

definition is_digit :: "char \<Rightarrow> bool" where
  "is_digit c = (48 \<le> (of_char c :: nat) \<and> (of_char c :: nat) \<le> 57)"

definition digit_val :: "char \<Rightarrow> nat" where
  "digit_val c = of_char c - 48"

fun show_nat :: "nat \<Rightarrow> string" where
  "show_nat n = (if n < 10 then [digit_char n] else show_nat (n div 10) @ [digit_char (n mod 10)])"

declare show_nat.simps [simp del]

text \<open>\<open>str(i)\<close> for a Python int\<close>

definition show_int :: "int \<Rightarrow> string" where
  "show_int i = (if i < 0 then CHR ''-'' # show_nat (nat (- i)) else show_nat (nat i))"

definition read_nat :: "string \<Rightarrow> nat" where
  "read_nat s = foldl (\<lambda>n c. 10 * n + digit_val c) 0 s"

lemma digit_char_props:
  assumes "d < 10"
  shows "is_digit (digit_char d)" "digit_val (digit_char d) = d"
  using assms by (simp_all add: is_digit_def digit_char_def digit_val_def)

lemma show_nat_digits: "c \<in> set (show_nat n) \<Longrightarrow> is_digit c"
proof (induction n rule: show_nat.induct)
  case (1 n)
  then show ?case
    by (cases "n < 10") (auto simp: show_nat.simps [of n] digit_char_props)
qed

lemma show_nat_nonempty [simp]: "show_nat n \<noteq> []"
  by (subst show_nat.simps) simp

lemma read_nat_snoc: "read_nat (s @ [c]) = 10 * read_nat s + digit_val c"
  by (simp add: read_nat_def)

lemma read_show_nat [simp]: "read_nat (show_nat n) = n"
proof (induction n rule: show_nat.induct)
  case (1 n)
  show ?case
  proof (cases "n < 10")
    case True
    then show ?thesis
      by (simp add: show_nat.simps [of n] read_nat_def digit_char_props)
  next
    case False
    with "1.IH" have "read_nat (show_nat (n div 10)) = n div 10" by simp
    with False show ?thesis
      by (simp add: show_nat.simps [of n] read_nat_snoc digit_char_props)
  qed
qed

interpretation decimal: codec show_nat "\<lambda>s. Some (read_nat s)" "\<lambda>_. True"
  by unfold_locales simp

lemma show_nat_inject [simp]: "show_nat m = show_nat n \<longleftrightarrow> m = n"
  by (rule decimal.encode_inject) simp_all

text \<open>No leading zero: the first digit of a positive number is not \<open>0\<close>.\<close>

lemma show_nat_hd: "0 < n \<Longrightarrow> hd (show_nat n) \<noteq> CHR ''0''"
proof (induction n rule: show_nat.induct)
  case (1 n)
  show ?case
  proof (cases "n < 10")
    case True
    have "digit_char n \<noteq> CHR ''0''"
    proof
      assume eq: "digit_char n = CHR ''0''"
      have "digit_val (CHR ''0'') = 0" by (simp add: digit_val_def)
      with eq digit_char_props(2) [OF True] "1.prems" show False by simp
    qed
    with True show ?thesis by (simp add: show_nat.simps [of n])
  next
    case False
    then have "hd (show_nat (n div 10)) \<noteq> CHR ''0''"
      using "1.IH" by simp
    with False show ?thesis by (simp add: show_nat.simps [of n])
  qed
qed

lemma show_nat_0 [simp]: "show_nat 0 = ''0''"
  by (simp add: show_nat.simps digit_char_def char_of_def bit_0)

lemma not_digit_minus [simp]: "\<not> is_digit (CHR ''-'')"
  by (simp add: is_digit_def)

lemma show_int_inject [simp]: "show_int i = show_int j \<longleftrightarrow> i = j"
proof
  assume eq: "show_int i = show_int j"
  have neg: "show_nat m \<noteq> CHR ''-'' # s" for m s
    using show_nat_digits [of "CHR ''-''" m] by auto
  show "i = j"
    using eq neg by (auto simp: show_int_def split: if_splits) (metis neg)+
qed simp

lemma show_int_nonempty [simp]: "show_int i \<noteq> []"
  by (simp add: show_int_def)

section \<open>Dicts\<close>

type_synonym 'v dict = "(string \<times> 'v) list"

text \<open>\<open>d.get(k, default)\<close> and \<open>d[k]\<close>\<close>

definition dict_get :: "'v dict \<Rightarrow> string \<Rightarrow> 'v \<Rightarrow> 'v" where [dict_access]:
  "dict_get d k v = (case map_of d k of None \<Rightarrow> v | Some x \<Rightarrow> x)"

definition dict_item :: "'v dict \<Rightarrow> string \<Rightarrow> 'v res" where [dict_access]:
  "dict_item d k = (case map_of d k of None \<Rightarrow> Inl (KeyError k) | Some x \<Rightarrow> Inr x)"

definition dict_keys :: "'v dict \<Rightarrow> string list" where
  "dict_keys d = map fst d"

text \<open>A dict has each key once.\<close>

definition wf_dict :: "'v dict \<Rightarrow> bool" where
  "wf_dict d = distinct (map fst d)"

lemma map_of_update [simp]: "map_of (AList.update k v d) k' = (if k' = k then Some v else map_of d k')"
  by (simp add: AList.update_conv')

lemma wf_dict_Nil [simp]: "wf_dict []"
  by (simp add: wf_dict_def)

lemma wf_dict_update [simp]: "wf_dict d \<Longrightarrow> wf_dict (AList.update k v d)"
  by (simp add: wf_dict_def AList.distinct_update)

lemma wf_dict_delete [simp]: "wf_dict d \<Longrightarrow> wf_dict (AList.delete k d)"
  by (simp add: wf_dict_def AList.distinct_delete)

section \<open>Lists\<close>

lemma sorted_distinct_map_of_eq:
  assumes "sorted (map fst xs)" "sorted (map fst ys)"
    and "distinct (map fst xs)" "distinct (map fst ys)"
    and "set xs = set (ys :: ('a::linorder \<times> 'b) list)"
  shows "xs = ys"
  using assms by (metis map_sorted_distinct_set_unique distinct_map inj_on_Un sup_idem)

lemma takeWhile_append_stop:
  "(\<And>x. x \<in> set xs \<Longrightarrow> P x) \<Longrightarrow> (ys = [] \<or> \<not> P (hd ys)) \<Longrightarrow> takeWhile P (xs @ ys) = xs"
  by (induction xs) (auto simp: takeWhile_eq_Nil_iff)

lemma dropWhile_append_stop:
  "(\<And>x. x \<in> set xs \<Longrightarrow> P x) \<Longrightarrow> (ys = [] \<or> \<not> P (hd ys)) \<Longrightarrow> dropWhile P (xs @ ys) = ys"
  by (induction xs) (auto simp: dropWhile_eq_self_iff)

end
