(* ===== verification/Py_Float.thy ===== *)
theory Py_Float
  imports Complex_Main "HOL-Library.Log_Nat" Omp_Prelude
begin

text \<open>
  Python floats: IEEE 754 binary64 values. A finite value is the rational number it denotes
  (\<open>-0.0\<close> apart), and \<open>to_double\<close> is the rounding that every arithmetic operation and
  every conversion of the language performs: to the nearest representable value, ties to even,
  with gradual underflow and overflow to infinity.
\<close>

section \<open>Values and rounding\<close>

datatype pyfloat = Fin rat | NegZero | PosInf | NegInf | NaN

fun is_finite :: "pyfloat \<Rightarrow> bool" where
  "is_finite (Fin q) = True"
| "is_finite NegZero = True"
| "is_finite _ = False"

text \<open>The rational value of a finite float.\<close>

fun fval :: "pyfloat \<Rightarrow> rat" where
  "fval (Fin q) = q"
| "fval _ = 0"

definition pow2 :: "int \<Rightarrow> rat" where
  "pow2 e = (if 0 \<le> e then 2 ^ nat e else 1 / 2 ^ nat (- e))"

text \<open>\<open>floor(log2(q))\<close> of a positive rational, from the bit lengths of its quotient.\<close>

definition floor_log2 :: "rat \<Rightarrow> int" where
  "floor_log2 q =
     (let (n, d) = quotient_of q; k = bitlen n - bitlen d in if pow2 k \<le> q then k else k - 1)"

definition round_half_even :: "rat \<Rightarrow> int" where
  "round_half_even q =
     (let f = \<lfloor>q\<rfloor>; r = q - of_int f
      in if r < 1 / 2 then f else if 1 / 2 < r then f + 1 else if even f then f else f + 1)"

text \<open>The exponent of the unit in the last place: 53 significant bits, never below \<open>2 ^ -1074\<close>.\<close>

definition ulp_exp :: "rat \<Rightarrow> int" where
  "ulp_exp q = max (floor_log2 q - 52) (- 1074)"

definition round_pos :: "rat \<Rightarrow> rat" where
  "round_pos q = of_int (round_half_even (q / pow2 (ulp_exp q))) * pow2 (ulp_exp q)"

definition to_double :: "rat \<Rightarrow> pyfloat" where
  "to_double q =
     (if q = 0 then Fin 0
      else if 0 < q then (let r = round_pos q in if pow2 1024 \<le> r then PosInf else Fin r)
      else (let r = round_pos (- q)
            in if pow2 1024 \<le> r then NegInf else if r = 0 then NegZero else Fin (- r)))"

section \<open>Powers of two and logarithms\<close>

lemma pow2_pos [simp]: "0 < pow2 e"
  by (simp add: pow2_def)

lemma pow2_nonzero [simp]: "pow2 e \<noteq> 0"
  using pow2_pos [of e] by linarith

lemma pow2_powi: "pow2 e = 2 powi e"
  by (simp add: pow2_def power_int_def field_simps)

lemma pow2_add: "pow2 (a + b) = pow2 a * pow2 b"
  by (simp add: pow2_powi power_int_add)

lemma pow2_0 [simp]: "pow2 0 = 1"
  by (simp add: pow2_def)

lemma pow2_1 [simp]: "pow2 1 = 2"
  by (simp add: pow2_def)

lemma pow2_nat: "0 \<le> e \<Longrightarrow> pow2 e = of_int (2 ^ nat e)"
  by (simp add: pow2_def)

lemma pow2_mono: "a \<le> b \<Longrightarrow> pow2 a \<le> pow2 b"
  by (simp add: pow2_powi power_int_increasing)

lemma pow2_strict_mono: "a < b \<Longrightarrow> pow2 a < pow2 b"
  by (simp add: pow2_powi power_int_strict_increasing)

lemma pow2_less_iff [simp]: "pow2 a < pow2 b \<longleftrightarrow> a < b"
  by (metis not_less_iff_gr_or_eq order.asym pow2_strict_mono)

lemma pow2_le_iff [simp]: "pow2 a \<le> pow2 b \<longleftrightarrow> a \<le> b"
  by (meson linorder_not_less pow2_less_iff)

lemma bitlen_rat_bounds:
  assumes "0 < n"
  shows "pow2 (bitlen n - 1) \<le> of_int n" "of_int n < pow2 (bitlen n)"
proof -
  have "(2::int) ^ nat (bitlen n - 1) \<le> n \<and> n < 2 ^ nat (bitlen n)"
    using bitlen_bounds [OF assms] .
  moreover have "0 \<le> bitlen n - 1" using assms by (simp add: bitlen_alt_def)
  ultimately show "pow2 (bitlen n - 1) \<le> of_int n" "of_int n < pow2 (bitlen n)"
    by (simp_all add: pow2_nat del: of_int_power)
qed

lemma floor_log2_bounds:
  assumes "0 < q"
  shows "pow2 (floor_log2 q) \<le> q" "q < pow2 (floor_log2 q + 1)"
proof -
  obtain n d where nd: "quotient_of q = (n, d)" by (cases "quotient_of q")
  then have d: "0 < d" and q: "q = of_int n / of_int d"
    by (auto dest: quotient_of_denom_pos quotient_of_div)
  with assms have n: "0 < n" by (simp add: zero_less_divide_iff)
  let ?k = "bitlen n - bitlen d"
  have qd: "q * of_int d = of_int n" using q d by simp
  have "pow2 (?k - 1) * of_int d < pow2 (?k - 1) * pow2 (bitlen d)"
    using bitlen_rat_bounds(2) [OF d] by (intro mult_strict_left_mono) simp_all
  also have "\<dots> = pow2 (bitlen n - 1)" by (simp flip: pow2_add)
  also have "\<dots> \<le> q * of_int d" using bitlen_rat_bounds(1) [OF n] by (simp only: qd)
  finally have lo: "pow2 (?k - 1) * of_int d < q * of_int d" .
  have "q * of_int d < pow2 (bitlen n)" using bitlen_rat_bounds(2) [OF n] by (simp only: qd)
  also have "\<dots> = pow2 (?k + 1) * pow2 (bitlen d - 1)" by (simp flip: pow2_add)
  also have "\<dots> \<le> pow2 (?k + 1) * of_int d"
    using bitlen_rat_bounds(1) [OF d] by (intro mult_left_mono) (simp_all add: less_imp_le)
  finally have hi: "q * of_int d < pow2 (?k + 1) * of_int d" .
  from d have d': "(0::rat) < of_int d" by simp
  have "pow2 (?k - 1) < q" "q < pow2 (?k + 1)"
    using mult_less_cancel_right_pos [OF d'] lo hi by blast+
  then show "pow2 (floor_log2 q) \<le> q" "q < pow2 (floor_log2 q + 1)"
    by (auto simp: floor_log2_def nd Let_def)
qed

lemma floor_log2_unique:
  assumes "pow2 k \<le> q" "q < pow2 (k + 1)"
  shows "floor_log2 q = k"
proof -
  have "0 < q" using assms(1) pow2_pos [of k] by linarith
  from floor_log2_bounds [OF this] assms
  have "pow2 (floor_log2 q) < pow2 (k + 1)" "pow2 k < pow2 (floor_log2 q + 1)"
    by (auto simp del: pow2_less_iff)
  then show ?thesis by simp
qed

section \<open>Rounding\<close>

lemma round_half_even_of_int [simp]: "round_half_even (of_int n) = n"
  by (simp add: round_half_even_def)

lemma round_half_even_bounds: "\<lfloor>q\<rfloor> \<le> round_half_even q" "round_half_even q \<le> \<lfloor>q\<rfloor> + 1"
  by (simp_all add: round_half_even_def Let_def)

lemma round_half_even_le: "q \<le> of_int n \<Longrightarrow> round_half_even q \<le> n"
proof -
  assume q: "q \<le> of_int n"
  show ?thesis
  proof (cases "q = of_int n")
    case False
    with q have "\<lfloor>q\<rfloor> < n" by linarith
    with round_half_even_bounds(2) [of q] show ?thesis by linarith
  qed simp
qed

lemma round_half_even_ge: "of_int n \<le> q \<Longrightarrow> n \<le> round_half_even q"
  using round_half_even_bounds(1) [of q] by linarith

lemma round_half_even_error: "\<bar>of_int (round_half_even q) - q\<bar> \<le> 1 / 2"
proof -
  have "of_int \<lfloor>q\<rfloor> \<le> q" "q < of_int \<lfloor>q\<rfloor> + 1" by linarith+
  then show ?thesis unfolding round_half_even_def Let_def abs_if
    by (simp split: if_split) linarith
qed

text \<open>The values with a 53-bit significand are exactly representable.\<close>

lemma round_pos_exact:
  assumes "0 < q" "q = of_int m * pow2 (ulp_exp q)"
  shows "round_pos q = q"
proof -
  from assms(2) have "q / pow2 (ulp_exp q) = of_int m" by (simp add: field_simps)
  with assms(2) show ?thesis by (simp add: round_pos_def)
qed

lemma round_pos_int:
  assumes "0 < n" "n \<le> 2 ^ 53"
  shows "round_pos (of_int n) = of_int n"
proof (cases "n = 2 ^ 53")
  case True
  have "floor_log2 (of_int n) = 53"
    by (rule floor_log2_unique) (simp_all add: True pow2_def)
  then have "of_int n = of_int (2 ^ 52) * pow2 (ulp_exp (of_int n))"
    by (simp add: True ulp_exp_def)
  then show ?thesis using assms(1) by (intro round_pos_exact [where m = "2 ^ 52"]) auto
next
  case False
  let ?k = "floor_log2 (of_int n)"
  have k: "pow2 ?k \<le> of_int n" "of_int n < pow2 (?k + 1)"
    using floor_log2_bounds [of "of_int n"] assms(1) by auto
  have "of_int n < (of_int (2 ^ 53) :: rat)" using assms(2) False by (subst of_int_less_iff) linarith
  with k(1) have "pow2 ?k < pow2 53" by (simp add: pow2_def)
  moreover have "(1::rat) \<le> of_int n" using assms(1) by linarith
  with k(2) have "pow2 0 < pow2 (?k + 1)" by (simp del: pow2_less_iff)
  then have "0 < ?k + 1" by (simp only: pow2_less_iff)
  ultimately have kb: "0 \<le> ?k" "?k \<le> 52" by auto
  then have e: "ulp_exp (of_int n) = ?k - 52" by (simp add: ulp_exp_def)
  have "pow2 (52 - ?k) * pow2 (?k - 52) = 1" by (simp flip: pow2_add)
  then have "of_int n = of_int (n * 2 ^ nat (52 - ?k)) * pow2 (ulp_exp (of_int n))"
    using kb by (simp add: e pow2_nat mult.assoc)
  then show ?thesis using assms(1) by (intro round_pos_exact [where m = "n * 2 ^ nat (52 - ?k)"]) simp_all
qed

lemma to_double_int:
  assumes "\<bar>n\<bar> \<le> 2 ^ 53"
  shows "to_double (of_int n) = Fin (of_int n)"
proof -
  have small: "\<not> pow2 1024 \<le> of_int m" if "m \<le> 2 ^ 53" for m
  proof -
    have "(of_int m :: rat) \<le> of_int (2 ^ 53)" using that by (subst of_int_le_iff)
    also have "\<dots> = pow2 53" by (simp add: pow2_def)
    also have "\<dots> < pow2 1024" by simp
    finally show ?thesis by simp
  qed
  show ?thesis
    using assms small [of n] small [of "- n"] round_pos_int [of n] round_pos_int [of "- n"]
    by (auto simp: to_double_def Let_def)
qed

text \<open>Rounding never crosses an integer that is itself representable.\<close>

lemma ulp_exp_le_0:
  assumes "0 < q" "q < 2 ^ 53"
  shows "ulp_exp q \<le> 0"
proof -
  from floor_log2_bounds(1) [OF assms(1)] assms(2) have "pow2 (floor_log2 q) < pow2 53"
    by (simp add: pow2_def del: pow2_less_iff)
  then show ?thesis by (simp add: ulp_exp_def)
qed

lemma of_int_div_ulp:
  assumes "ulp_exp q \<le> 0"
  shows "of_int n / pow2 (ulp_exp q) = of_int (n * 2 ^ nat (- ulp_exp q))"
proof -
  have "pow2 (- ulp_exp q) * pow2 (ulp_exp q) = 1" by (simp flip: pow2_add)
  moreover have "pow2 (- ulp_exp q) = of_int (2 ^ nat (- ulp_exp q))" using assms by (intro pow2_nat) simp
  ultimately show ?thesis by (simp add: field_simps)
qed

lemma round_pos_le_int:
  assumes "0 < q" "q < 2 ^ 53" "q \<le> of_int n"
  shows "round_pos q \<le> of_int n"
proof -
  let ?u = "pow2 (ulp_exp q)"
  have "q / ?u \<le> of_int n / ?u" using assms(3) by (intro divide_right_mono) (simp_all add: less_imp_le)
  then have "round_half_even (q / ?u) \<le> n * 2 ^ nat (- ulp_exp q)"
    by (intro round_half_even_le) (simp only: of_int_div_ulp [OF ulp_exp_le_0 [OF assms(1,2)]])
  then have "of_int (round_half_even (q / ?u)) \<le> of_int n / ?u"
    by (simp only: of_int_div_ulp [OF ulp_exp_le_0 [OF assms(1,2)]] of_int_le_iff)
  then show ?thesis by (simp add: round_pos_def field_simps)
qed

lemma round_pos_ge_int:
  assumes "0 < q" "q < 2 ^ 53" "of_int n \<le> q"
  shows "of_int n \<le> round_pos q"
proof -
  let ?u = "pow2 (ulp_exp q)"
  have "of_int n / ?u \<le> q / ?u" using assms(3) by (intro divide_right_mono) (simp_all add: less_imp_le)
  then have "n * 2 ^ nat (- ulp_exp q) \<le> round_half_even (q / ?u)"
    by (intro round_half_even_ge) (simp only: of_int_div_ulp [OF ulp_exp_le_0 [OF assms(1,2)]])
  then have "of_int n / ?u \<le> of_int (round_half_even (q / ?u))"
    by (simp only: of_int_div_ulp [OF ulp_exp_le_0 [OF assms(1,2)]] of_int_le_iff)
  then show ?thesis by (simp add: round_pos_def field_simps)
qed

text \<open>The relative error of a rounding is at most \<open>2 ^ -53\<close> where no underflow occurs.\<close>

lemma round_pos_error:
  assumes "pow2 (- 1022) \<le> q"
  shows "\<bar>round_pos q - q\<bar> \<le> q * pow2 (- 53)"
proof -
  have q: "0 < q" using assms pow2_pos [of "- 1022"] by linarith
  let ?k = "floor_log2 q"
  have "pow2 (- 1022) < pow2 (?k + 1)"
    using assms floor_log2_bounds(2) [OF q] by (simp del: pow2_less_iff)
  then have e: "ulp_exp q = ?k - 52" by (simp add: ulp_exp_def)
  let ?u = "pow2 (ulp_exp q)"
  have "\<bar>round_pos q - q\<bar> = \<bar>of_int (round_half_even (q / ?u)) - q / ?u\<bar> * ?u"
    using abs_mult [of "of_int (round_half_even (q / ?u)) - q / ?u" ?u]
    by (simp add: round_pos_def left_diff_distrib abs_of_pos)
  also have "\<dots> \<le> 1 / 2 * ?u"
    by (intro mult_right_mono round_half_even_error) (simp add: less_imp_le)
  also have "\<dots> = pow2 ?k * pow2 (- 53)"
  proof -
    have "1 / 2 = pow2 (- 1)" by (simp add: pow2_def)
    then have "1 / 2 * ?u = pow2 (- 1 + (?k - 52))" by (simp only: e pow2_add)
    also have "\<dots> = pow2 (?k + - 53)" by (rule arg_cong [where f = pow2]) simp
    finally show ?thesis by (simp only: pow2_add)
  qed
  also have "\<dots> \<le> q * pow2 (- 53)"
    using floor_log2_bounds(1) [OF q] by (intro mult_right_mono) (simp_all add: less_imp_le)
  finally show ?thesis .
qed

section \<open>Conversion to int, true division\<close>

text \<open>\<open>int(x)\<close>: truncation towards zero; infinities and NaN raise.\<close>

definition trunc_rat :: "rat \<Rightarrow> int" where
  "trunc_rat q = (if 0 \<le> q then \<lfloor>q\<rfloor> else - \<lfloor>- q\<rfloor>)"

fun float_to_int :: "pyfloat \<Rightarrow> int res" where
  "float_to_int (Fin q) = Inr (trunc_rat q)"
| "float_to_int NegZero = Inr 0"
| "float_to_int NaN = Inl (ValueError ''cannot convert float NaN to integer'')"
| "float_to_int _ = Inl OverflowError"

text \<open>\<open>a / b\<close> on ints: the correctly rounded quotient, an overflow raises.\<close>

definition int_truediv :: "int \<Rightarrow> int \<Rightarrow> pyfloat res" where
  "int_truediv a b =
     (if b = 0 then Inl (OtherError ''ZeroDivisionError'')
      else (let r = to_double (of_int a / of_int b)
            in if is_finite r then Inr r else Inl OverflowError))"

lemma trunc_rat_of_int [simp]: "trunc_rat (of_int n) = n"
  by (simp add: trunc_rat_def)

lemma trunc_rat_0 [simp]: "trunc_rat 0 = 0"
  by (simp add: trunc_rat_def)

lemma trunc_rat_minus: "trunc_rat (- q) = - trunc_rat q"
  by (cases "q = 0") (auto simp: trunc_rat_def)

text \<open>
  Rounding a quotient of small integers does not move it to another integer part: the rounding
  error is below \<open>1/b\<close>, the distance of a fractional quotient to the next integer.
\<close>

lemma floor_round_pos_div:
  assumes "0 < a" "a < 2 ^ 53" "0 < b" "b < 2 ^ 53"
  shows "\<lfloor>round_pos (of_int a / of_int b)\<rfloor> = a div b"
    and "0 \<le> round_pos (of_int a / of_int b)" and "round_pos (of_int a / of_int b) \<le> 2 ^ 53"
proof -
  let ?q = "of_int a / of_int b :: rat"
  let ?f = "a div b"
  have b: "(1::rat) \<le> of_int b" using assms by linarith
  have a: "of_int a < (2 ^ 53 :: rat)"
  proof -
    have "of_int a < (of_int (2 ^ 53) :: rat)" using assms(2) by (subst of_int_less_iff)
    then show ?thesis by simp
  qed
  have q0: "0 < ?q" using assms by simp
  have "?q \<le> of_int a" using b assms by (simp add: field_simps mult_le_cancel_left1)
  then have q53: "?q < 2 ^ 53" using a by linarith
  have fl: "\<lfloor>?q\<rfloor> = ?f" by (simp add: floor_divide_of_int_eq)
  have lo: "of_int ?f \<le> round_pos ?q"
    using fl by (intro round_pos_ge_int [OF q0 q53]) linarith
  have hi: "round_pos ?q < of_int ?f + 1"
  proof (cases "?q = of_int ?f")
    case True
    then show ?thesis using round_pos_le_int [OF q0 q53, of ?f] by simp
  next
    case False
    have "pow2 (- 53) \<le> ?q"
    proof -
      have "of_int b < (of_int (2 ^ 53) :: rat)" using assms(4) by (subst of_int_less_iff)
      then have "pow2 (- 53) * of_int b \<le> 1" by (simp add: pow2_def)
      also have "(1::rat) \<le> of_int a" using assms(1) by linarith
      finally show ?thesis using b by (simp add: field_simps)
    qed
    then have "pow2 (- 1022) \<le> ?q"
      using pow2_mono [of "- 1022" "- 53"] by (simp del: pow2_le_iff)
    then have "round_pos ?q \<le> ?q + ?q * pow2 (- 53)"
      using round_pos_error [of ?q] by linarith
    moreover have "?q * pow2 (- 53) < 1 / of_int b"
    proof -
      have "of_int a * pow2 (- 53) < 1" using a by (simp add: pow2_def)
      then have "of_int a * pow2 (- 53) / of_int b < 1 / of_int b"
        using b by (intro divide_strict_right_mono) linarith+
      then show ?thesis by simp
    qed
    moreover have "?q \<le> of_int ?f + 1 - 1 / of_int b"
    proof -
      have "a = b * ?f + a mod b" "a mod b \<le> b - 1" using assms by simp_all
      then have "of_int a \<le> (of_int (b * ?f + (b - 1)) :: rat)" by (subst of_int_le_iff) linarith
      then show ?thesis using b by (simp add: field_simps)
    qed
    ultimately show ?thesis by linarith
  qed
  show "\<lfloor>round_pos ?q\<rfloor> = ?f" using lo hi by linarith
  have "0 \<le> ?f" using assms by (simp add: pos_imp_zdiv_nonneg_iff)
  then have "(0::rat) \<le> of_int ?f" by simp
  with lo show "0 \<le> round_pos ?q" by linarith
  show "round_pos ?q \<le> 2 ^ 53"
    using round_pos_le_int [OF q0 q53, of "2 ^ 53"] q53 by simp
qed

lemma trunc_int_truediv_pos:
  assumes "0 < a" "a < 2 ^ 53" "0 < b" "b < 2 ^ 53"
  shows "to_double (of_int a / of_int b) = Fin (round_pos (of_int a / of_int b))"
    and "trunc_rat (round_pos (of_int a / of_int b)) = a div b"
proof -
  note fr = floor_round_pos_div [OF assms]
  have "(2::rat) ^ 53 < pow2 1024" by (simp add: pow2_def)
  with fr(3) have "\<not> pow2 1024 \<le> round_pos (of_int a / of_int b)" by linarith
  moreover have "0 < (of_int a / of_int b :: rat)" using assms by simp
  ultimately show "to_double (of_int a / of_int b) = Fin (round_pos (of_int a / of_int b))"
    using assms(1,3) by (simp add: to_double_def)
  show "trunc_rat (round_pos (of_int a / of_int b)) = a div b"
    using fr(1,2) by (simp add: trunc_rat_def)
qed

lemma int_of_truediv:
  assumes "\<bar>a\<bar> < 2 ^ 53" "0 < b" "b < 2 ^ 53"
  shows "res_bind (int_truediv a b) float_to_int = Inr (sgn a * (\<bar>a\<bar> div b))"
proof -
  consider "a = 0" | "0 < a" | "a < 0" by linarith
  then show ?thesis
  proof cases
    case 1
    then show ?thesis using assms by (simp add: int_truediv_def to_double_def trunc_rat_def)
  next
    case 2
    with assms show ?thesis
      using trunc_int_truediv_pos [of a b] by (simp add: int_truediv_def)
  next
    case 3
    then have m: "0 < - a" "- a < 2 ^ 53" using assms by auto
    let ?r = "round_pos (of_int (- a) / of_int b)"
    have neg: "of_int a / of_int b < (0::rat)" using 3 assms by (simp add: divide_neg_pos)
    have "pow2 1024 > ?r"
      using floor_round_pos_div(3) [OF m assms(2,3)] by (rule le_less_trans) (simp add: pow2_def)
    then have "to_double (of_int a / of_int b) = (if ?r = 0 then NegZero else Fin (- ?r))"
      using neg 3 assms by (simp add: to_double_def Let_def)
    then show ?thesis
      using trunc_int_truediv_pos(2) [OF m assms(2,3)] 3 assms
      by (auto simp: int_truediv_def trunc_rat_minus)
  qed
qed

section \<open>repr\<close>

text \<open>
  \<open>repr(x)\<close> is the shortest decimal that rounds back to \<open>x\<close>: \<open>m * 10 ^ (p - n)\<close>
  with \<open>n\<close> digits, where \<open>p\<close> is the position of the decimal point. The search tries
  \<open>n = 1, 2, ..., 17\<close>; for each \<open>n\<close> the nearest \<open>n\<close>-digit decimal, then its other
  neighbour.
\<close>

definition pow10 :: "int \<Rightarrow> rat" where
  "pow10 e = (if 0 \<le> e then 10 ^ nat e else 1 / 10 ^ nat (- e))"

text \<open>The decimal point position: \<open>10 ^ (p - 1) \<le> q < 10 ^ p\<close>.\<close>

definition dec_point :: "rat \<Rightarrow> int" where
  "dec_point q =
     (let i = \<lfloor>q\<rfloor> in
      if 0 < i then int (length (show_nat (nat i)))
      else 1 - int (length (show_nat (nat \<lfloor>1 / q\<rfloor>)))
           + (if q * 10 ^ (length (show_nat (nat \<lfloor>1 / q\<rfloor>)) - 1) = 1 then 1 else 0))"

definition dec_candidates :: "rat \<Rightarrow> int \<Rightarrow> int list" where
  "dec_candidates q e =
     (let x = q / pow10 e; m = round_half_even x
      in [m, if of_int m \<le> x then m + 1 else m - 1])"

fun shortest_from :: "nat \<Rightarrow> rat \<Rightarrow> int \<Rightarrow> nat \<Rightarrow> int \<times> int" where
  "shortest_from 0 q p n = (hd (dec_candidates q (p - 17)), p - 17)"
| "shortest_from (Suc k) q p n =
     (case filter (\<lambda>m. 0 < m \<and> to_double (of_int m * pow10 (p - int n)) = Fin q)
             (dec_candidates q (p - int n)) of
        m # _ \<Rightarrow> (m, p - int n)
      | [] \<Rightarrow> shortest_from k q p (n + 1))"

definition shortest :: "rat \<Rightarrow> int \<times> int" where
  "shortest q = shortest_from 17 q (dec_point q) 1"

definition two_digits :: "nat \<Rightarrow> string" where
  "two_digits n = (if n < 10 then CHR ''0'' # show_nat n else show_nat n)"

text \<open>Fixed notation for \<open>1e-4 \<le> x < 1e16\<close>, exponent notation otherwise.\<close>

definition format_dec :: "int \<Rightarrow> int \<Rightarrow> string" where
  "format_dec m e =
     (let ds = show_nat (nat m); n = int (length ds); p = n + e in
      if -4 < p \<and> p \<le> 16 then
        (if p \<le> 0 then ''0.'' @ replicate (nat (- p)) (CHR ''0'') @ ds
         else if p < n then take (nat p) ds @ ''.'' @ drop (nat p) ds
         else ds @ replicate (nat (p - n)) (CHR ''0'') @ ''.0'')
      else hd ds # (if tl ds = [] then [] else CHR ''.'' # tl ds)
           @ ''e'' @ (if p - 1 < 0 then ''-'' else ''+'') @ two_digits (nat \<bar>p - 1\<bar>))"

definition repr_pos :: "rat \<Rightarrow> string" where
  "repr_pos q = (let (m, e) = shortest q in format_dec m e)"

fun float_repr :: "pyfloat \<Rightarrow> string" where
  "float_repr (Fin q) =
     (if q = 0 then ''0.0'' else if q < 0 then CHR ''-'' # repr_pos (- q) else repr_pos q)"
| "float_repr NegZero = ''-0.0''"
| "float_repr PosInf = ''inf''"
| "float_repr NegInf = ''-inf''"
| "float_repr NaN = ''nan''"

text \<open>The text of a finite float is never the text of an integer: it has a point or an exponent.\<close>

lemma format_dec_mark: "CHR ''.'' \<in> set (format_dec m e) \<or> CHR ''e'' \<in> set (format_dec m e)"
  by (auto simp: format_dec_def Let_def)

lemma float_repr_mark: "is_finite x \<Longrightarrow> CHR ''.'' \<in> set (float_repr x) \<or> CHR ''e'' \<in> set (float_repr x)"
proof -
  have p: "CHR ''.'' \<in> set (repr_pos q) \<or> CHR ''e'' \<in> set (repr_pos q)" for q
    by (cases "shortest q") (simp add: repr_pos_def format_dec_mark)
  assume "is_finite x"
  then show ?thesis using p by (cases x) auto
qed

lemma show_int_no_mark: "CHR ''.'' \<notin> set (show_int i)" "CHR ''e'' \<notin> set (show_int i)"
  by (auto simp: show_int_def is_digit_def dest: show_nat_digits)

lemma float_repr_not_int: "is_finite x \<Longrightarrow> float_repr x \<noteq> show_int i"
  using float_repr_mark [of x] show_int_no_mark [of i] by metis

section \<open>float() of a decimal numeral\<close>

text \<open>
  The value of the numeral \<open>[-] ip [. fr] [e ex]\<close>, correctly rounded; a negative zero keeps its
  sign.
\<close>

definition neg_float :: "pyfloat \<Rightarrow> pyfloat" where
  "neg_float x = (case x of Fin q \<Rightarrow> if q = 0 then NegZero else Fin (- q)
     | NegZero \<Rightarrow> Fin 0 | PosInf \<Rightarrow> NegInf | NegInf \<Rightarrow> PosInf | NaN \<Rightarrow> NaN)"

definition float_of_dec :: "bool \<Rightarrow> string \<Rightarrow> string \<Rightarrow> int \<Rightarrow> pyfloat" where
  "float_of_dec neg ip fr ex =
     (let x = to_double (of_nat (read_nat (ip @ fr)) * pow10 (ex - int (length fr)))
      in if neg then neg_float x else x)"

end
