(* ===== verification/Iso_Time.thy ===== *)
theory Iso_Time
  imports Json
begin

text \<open>
  The timestamps of the gateway: \<open>now_iso\<close> of \<open>gateway/omp/adapter.py\<close>, \<open>_now_iso\<close> and
  \<open>_iso_minus_days\<close> of \<open>gateway/omp/core/store.py\<close>, over Python's proleptic Gregorian
  \<open>datetime\<close>. The clock is an argument.

  The text form is compared as text by the store (\<open>stored_at < ?\<close>). The lemmas show that this
  order is the chronological one, for years of four digits.
\<close>

section \<open>Calendar\<close>

definition is_leap :: "nat \<Rightarrow> bool" where
  "is_leap y = (y mod 4 = 0 \<and> (y mod 100 \<noteq> 0 \<or> y mod 400 = 0))"

definition days_before_year :: "nat \<Rightarrow> nat" where
  "days_before_year y = (y - 1) * 365 + (y - 1) div 4 - (y - 1) div 100 + (y - 1) div 400"

definition days_in_month :: "nat \<Rightarrow> nat \<Rightarrow> nat" where
  "days_in_month y m =
     (if m = 2 then if is_leap y then 29 else 28
      else if m \<in> {4, 6, 9, 11} then 30 else 31)"

fun days_before_month :: "nat \<Rightarrow> nat \<Rightarrow> nat" where
  "days_before_month y 0 = 0"
| "days_before_month y (Suc 0) = 0"
| "days_before_month y (Suc (Suc m)) = days_before_month y (Suc m) + days_in_month y (Suc m)"

record datetime =
  dt_year :: nat
  dt_month :: nat
  dt_day :: nat
  dt_hour :: nat
  dt_minute :: nat
  dt_second :: nat
  dt_us :: nat

definition valid_datetime :: "datetime \<Rightarrow> bool" where
  "valid_datetime t =
     (1 \<le> dt_year t \<and> dt_year t \<le> 9999 \<and> 1 \<le> dt_month t \<and> dt_month t \<le> 12
      \<and> 1 \<le> dt_day t \<and> dt_day t \<le> days_in_month (dt_year t) (dt_month t)
      \<and> dt_hour t < 24 \<and> dt_minute t < 60 \<and> dt_second t < 60 \<and> dt_us t < 1000000)"

text \<open>\<open>toordinal\<close>: 1 January of year 1 is day 1.\<close>

definition to_ordinal :: "datetime \<Rightarrow> nat" where
  "to_ordinal t = days_before_year (dt_year t) + days_before_month (dt_year t) (dt_month t) + dt_day t"

definition us_of_day :: "datetime \<Rightarrow> nat" where
  "us_of_day t = ((dt_hour t * 60 + dt_minute t) * 60 + dt_second t) * 1000000 + dt_us t"

definition day_us :: nat where "day_us = 86400000000"

text \<open>Microseconds since the start of day 0: the instant a datetime denotes.\<close>

definition instant :: "datetime \<Rightarrow> nat" where
  "instant t = to_ordinal t * day_us + us_of_day t"

lemma days_before_year_Suc:
  assumes "1 \<le> y"
  shows "days_before_year (Suc y) = days_before_year y + (if is_leap y then 366 else 365)"
proof -
  obtain z where y: "y = Suc z" using assms by (cases y) auto
  have s: "Suc z div k = z div k + (if Suc z mod k = 0 then 1 else 0)" for k
    by (simp add: div_Suc)
  have a: "z div 100 \<le> z div 4" by (simp add: div_le_mono2)
  have b: "Suc z mod 100 = 0 \<Longrightarrow> Suc z mod 4 = 0" by presburger
  have c: "Suc z mod 400 = 0 \<Longrightarrow> Suc z mod 100 = 0" by presburger
  have l: "is_leap y \<longleftrightarrow> Suc z mod 4 = 0 \<and> (Suc z mod 100 \<noteq> 0 \<or> Suc z mod 400 = 0)"
    by (simp add: is_leap_def y)
  have d: "days_before_year (Suc y) = Suc z * 365 + Suc z div 4 - Suc z div 100 + Suc z div 400"
    "days_before_year y = z * 365 + z div 4 - z div 100 + z div 400"
    by (simp_all add: days_before_year_def y)
  have arith: "(z * 365 + 365) + (A + p) - (C + q) + (D + r) = z * 365 + A - C + D + k"
    if "C \<le> A" "365 + p + r = k + q" "q \<le> p" for A C D p q r k :: nat
    using that by linarith
  have m: "Suc z * 365 = z * 365 + 365" by simp
  show ?thesis
    unfolding d l s [of 4] s [of 100] s [of 400] m
    by (rule arith [OF a]) (use b c in \<open>auto split: if_splits\<close>)
qed

lemma days_before_year_1 [simp]: "days_before_year 1 = 0" "days_before_year (Suc 0) = 0"
  by (simp_all add: days_before_year_def)

lemma days_before_year_mono: "1 \<le> y \<Longrightarrow> y \<le> z \<Longrightarrow> days_before_year y \<le> days_before_year z"
proof (induction z)
  case (Suc z)
  then show ?case using days_before_year_Suc [of z] by (cases "y = Suc z") auto
qed simp

lemma days_before_year_le: "1 \<le> y \<Longrightarrow> days_before_year y \<le> 366 * (y - 1)"
proof (induction y rule: nat_induct_at_least)
  case (Suc y)
  then show ?case by (cases y) (simp_all add: days_before_year_Suc)
qed simp

section \<open>From a day number to a date\<close>

function find_year :: "nat \<Rightarrow> nat \<Rightarrow> nat" where
  "find_year y n = (if n \<le> days_before_year (Suc y) then y else find_year (Suc y) n)"
  by auto
termination
proof (relation "measure (\<lambda>(y, n). n - days_before_year (Suc y))", goal_cases)
  case (2 y n)
  have "days_before_year (Suc y) < days_before_year (Suc (Suc y))"
    using days_before_year_Suc [of "Suc y"] by simp
  with 2 show ?case by simp
qed simp

declare find_year.simps [simp del]

function find_month :: "nat \<Rightarrow> nat \<Rightarrow> nat \<Rightarrow> nat \<times> nat" where
  "find_month y m d =
     (if m \<ge> 12 \<or> d \<le> days_in_month y m then (m, d) else find_month y (Suc m) (d - days_in_month y m))"
  by auto
termination by (relation "measure (\<lambda>(y, m, d). 12 - m)") auto

declare find_month.simps [simp del]

text \<open>\<open>date.fromordinal\<close>: the year, the month, the day.\<close>

definition of_ordinal :: "nat \<Rightarrow> nat \<times> nat \<times> nat" where
  "of_ordinal n =
     (let y = find_year (1 + (n - 1) div 366) n in (y, find_month y 1 (n - days_before_year y)))"

text \<open>The datetime of an instant; what \<open>datetime\<close> arithmetic computes, or \<open>OverflowError\<close>.\<close>

definition of_instant :: "int \<Rightarrow> datetime res" where
  "of_instant i =
     (let n = nat (i div int day_us); u = nat (i mod int day_us); (y, m, d) = of_ordinal n in
      if i < int day_us \<or> 9999 < y then Inl OverflowError
      else Inr \<lparr>dt_year = y, dt_month = m, dt_day = d, dt_hour = u div 3600000000,
                dt_minute = u div 60000000 mod 60, dt_second = u div 1000000 mod 60,
                dt_us = u mod 1000000\<rparr>)"

lemma find_year_props:
  "1 \<le> y \<Longrightarrow> days_before_year y < n \<Longrightarrow>
     y \<le> find_year y n \<and> days_before_year (find_year y n) < n
     \<and> n \<le> days_before_year (Suc (find_year y n))"
proof (induction y n rule: find_year.induct)
  case (1 y n)
  show ?case
  proof (cases "n \<le> days_before_year (Suc y)")
    case True
    with 1 show ?thesis by (simp add: find_year.simps [of y])
  next
    case False
    with 1 have "Suc y \<le> find_year (Suc y) n \<and> days_before_year (find_year (Suc y) n) < n
      \<and> n \<le> days_before_year (Suc (find_year (Suc y) n))" by simp
    with False show ?thesis by (simp add: find_year.simps [of y])
  qed
qed

lemma days_in_month_bounds: "28 \<le> days_in_month y m" "days_in_month y m \<le> 31"
  by (simp_all add: days_in_month_def)

lemma days_before_month_Suc: "1 \<le> m \<Longrightarrow> days_before_month y (Suc m) = days_before_month y m + days_in_month y m"
  by (cases m) auto

lemma find_month_props:
  assumes "1 \<le> m" "m \<le> 12" "1 \<le> d"
    "days_before_month y m + d \<le> days_before_month y 13"
  shows "\<exists>m' d'. find_month y m d = (m', d') \<and> m \<le> m' \<and> m' \<le> 12 \<and> 1 \<le> d' \<and> d' \<le> days_in_month y m'
    \<and> days_before_month y m' + d' = days_before_month y m + d"
  using assms
proof (induction y m d rule: find_month.induct)
  case (1 y m d)
  show ?case
  proof (cases "m \<ge> 12 \<or> d \<le> days_in_month y m")
    case True
    then have fm: "find_month y m d = (m, d)" by (simp add: find_month.simps [of y m d])
    have "d \<le> days_in_month y m"
    proof (cases "m \<ge> 12")
      case True
      with "1.prems" have "m = 12" by simp
      moreover have "days_before_month y 13 = days_before_month y 12 + days_in_month y 12"
        using days_before_month_Suc [of 12 y] by simp
      ultimately show ?thesis using "1.prems" by simp
    qed (use True in simp)
    with "1.prems" fm show ?thesis by simp
  next
    case False
    then have "find_month y m d = find_month y (Suc m) (d - days_in_month y m)"
      by (simp add: find_month.simps [of y m d])
    moreover have "\<exists>m' d'. find_month y (Suc m) (d - days_in_month y m) = (m', d') \<and> Suc m \<le> m'
      \<and> m' \<le> 12 \<and> 1 \<le> d' \<and> d' \<le> days_in_month y m'
      \<and> days_before_month y m' + d' = days_before_month y (Suc m) + (d - days_in_month y m)"
      using "1.IH" False "1.prems" by (auto simp: days_before_month_Suc)
    ultimately show ?thesis
      using False "1.prems" by (auto simp: days_before_month_Suc)
  qed
qed

lemma days_before_month_13: "days_before_month y 13 = (if is_leap y then 366 else 365)"
proof -
  have "days_before_month y 13 = days_before_month y (Suc (Suc (Suc (Suc (Suc (Suc (Suc (Suc (Suc (Suc (Suc (Suc (Suc 0)))))))))))))"
    by (simp add: eval_nat_numeral)
  also have "\<dots> = (if is_leap y then 366 else 365)"
    by (simp only: days_before_month.simps) (simp add: days_in_month_def)
  finally show ?thesis .
qed

lemma of_ordinal_props:
  assumes "1 \<le> n"
  obtains y m d where "of_ordinal n = (y, m, d)" "1 \<le> y" "1 \<le> m" "m \<le> 12" "1 \<le> d"
    "d \<le> days_in_month y m" "days_before_year y + days_before_month y m + d = n"
proof -
  define y where "y = find_year (1 + (n - 1) div 366) n"
  have "days_before_year (1 + (n - 1) div 366) \<le> 366 * ((n - 1) div 366)"
    using days_before_year_le [of "1 + (n - 1) div 366"] by simp
  also have "\<dots> < n" using assms mult_div_mod_eq [of 366 "n - 1"] by linarith
  finally have y: "1 \<le> y" "days_before_year y < n" "n \<le> days_before_year (Suc y)"
    using find_year_props [of "1 + (n - 1) div 366" n] unfolding y_def by auto
  then have "1 \<le> n - days_before_year y" "n - days_before_year y \<le> days_before_month y 13"
    by (auto simp: days_before_year_Suc days_before_month_13)
  then obtain m d where md: "find_month y 1 (n - days_before_year y) = (m, d)" "1 \<le> m" "m \<le> 12" "1 \<le> d"
    "d \<le> days_in_month y m" "days_before_month y m + d = n - days_before_year y"
    using find_month_props [of 1 "n - days_before_year y" y] by auto
  have "of_ordinal n = (y, m, d)" using md(1) by (simp only: of_ordinal_def Let_def y_def)
  moreover have "days_before_year y + days_before_month y m + d = n" using md(6) y(2) by linarith
  ultimately show thesis using y md that by blast
qed

lemma of_instant_ok:
  assumes "of_instant i = Inr t"
  shows "valid_datetime t" "int (instant t) = i"
proof -
  define u where "u = nat (i mod int day_us)"
  define n where "n = nat (i div int day_us)"
  obtain y m d where o: "of_ordinal n = (y, m, d)" by (cases "of_ordinal n")
  from assms o have ge: "int day_us \<le> i" and y: "y \<le> 9999"
    and t: "t = \<lparr>dt_year = y, dt_month = m, dt_day = d, dt_hour = u div 3600000000,
                dt_minute = u div 60000000 mod 60, dt_second = u div 1000000 mod 60,
                dt_us = u mod 1000000\<rparr>"
    by (auto simp: of_instant_def Let_def u_def n_def split: if_splits)
  have u: "u < day_us" unfolding u_def by (simp add: day_us_def nat_less_iff)
  have "1 \<le> i div int day_us" using ge by (simp add: day_us_def)
  then have n: "1 \<le> n" unfolding n_def by simp
  have i: "i = int n * int day_us + int u"
    using \<open>1 \<le> i div int day_us\<close> unfolding n_def u_def by (simp add: day_us_def)
  from of_ordinal_props [OF n] o have od: "1 \<le> y" "1 \<le> m" "m \<le> 12" "1 \<le> d"
    "d \<le> days_in_month y m" "days_before_year y + days_before_month y m + d = n"
    by (metis prod.inject)+
  have h: "u div 3600000000 < 24" using u by (simp add: day_us_def less_mult_imp_div_less)
  show "valid_datetime t" using od y h by (simp add: valid_datetime_def t)
  have "((u div 3600000000 * 60 + u div 60000000 mod 60) * 60 + u div 1000000 mod 60) * 1000000
    + u mod 1000000 = u"
  proof -
    have "u div 3600000000 = u div 1000000 div 60 div 60" "u div 60000000 = u div 1000000 div 60"
      by (simp_all flip: div_mult2_eq)
    then show ?thesis by (simp only: div_mult_mod_eq)
  qed
  then have us: "us_of_day t = u" by (simp add: us_of_day_def t)
  have "to_ordinal t = n" using od by (simp add: to_ordinal_def t)
  with us show "int (instant t) = i" by (simp add: instant_def i)
qed

section \<open>Text form\<close>

text \<open>A number of exactly \<open>k\<close> digits, with leading zeros.\<close>

fun pad :: "nat \<Rightarrow> nat \<Rightarrow> string" where
  "pad 0 n = []"
| "pad (Suc k) n = pad k (n div 10) @ [digit_char (n mod 10)]"

text \<open>\<open>strftime("%Y-%m-%dT%H:%M:%S.") + f"{microsecond // 1000:03d}Z"\<close>\<close>

definition iso_text :: "datetime \<Rightarrow> string" where
  "iso_text t =
     show_nat (dt_year t) @ ''-'' @ pad 2 (dt_month t) @ ''-'' @ pad 2 (dt_day t) @ ''T''
     @ pad 2 (dt_hour t) @ '':'' @ pad 2 (dt_minute t) @ '':'' @ pad 2 (dt_second t) @ ''.''
     @ pad 3 (dt_us t div 1000) @ ''Z''"

definition now_iso :: "datetime \<Rightarrow> string" where
  "now_iso clock = iso_text clock"

lemma length_pad [simp]: "length (pad k n) = k"
  by (induction k n rule: pad.induct) simp_all

lemma pad_digits: "c \<in> set (pad k n) \<Longrightarrow> is_digit c"
  by (induction k n rule: pad.induct) (auto simp: digit_char_props)

lemma read_pad [simp]: "n < 10 ^ k \<Longrightarrow> read_nat (pad k n) = n"
proof (induction k n rule: pad.induct)
  case (2 k n)
  then have "n div 10 < 10 ^ k" by (simp add: less_mult_imp_div_less mult.commute)
  with 2 show ?case by (simp add: read_nat_snoc digit_char_props)
qed (simp add: read_nat_def)

lemma append_less_append:
  fixes xs ys :: "'a::order list"
  assumes "length xs = length ys"
  shows "xs @ zs < ys @ ws \<longleftrightarrow> xs < ys \<or> (xs = ys \<and> zs < ws)"
  using assms by (induction xs ys rule: list_induct2) auto

lemma of_char_digit: "d < 10 \<Longrightarrow> of_char (digit_char d) = (48 + d :: nat)"
  by (simp add: digit_char_def)

lemma digit_char_less: "a < 10 \<Longrightarrow> b < 10 \<Longrightarrow> digit_char a < digit_char b \<longleftrightarrow> a < b"
  by (simp add: less_char_def of_char_digit)

lemma pad_less: "n < 10 ^ k \<Longrightarrow> m < 10 ^ k \<Longrightarrow> pad k n < pad k m \<longleftrightarrow> n < m"
proof (induction k arbitrary: n m)
  case (Suc k)
  then have IH: "pad k (n div 10) < pad k (m div 10) \<longleftrightarrow> n div 10 < m div 10"
    and inj: "pad k (n div 10) = pad k (m div 10) \<longleftrightarrow> n div 10 = m div 10"
    by (auto simp: less_mult_imp_div_less mult.commute intro: Suc.IH dest: arg_cong [where f = read_nat])
  have ar: "10 * a + b < 10 * c + d \<longleftrightarrow> a < c \<or> (a = c \<and> b < d)" if "b < 10" "d < 10" for a b c d :: nat
    using that by auto
  have "n < m \<longleftrightarrow> n div 10 < m div 10 \<or> (n div 10 = m div 10 \<and> n mod 10 < m mod 10)"
    using ar [of "n mod 10" "m mod 10" "n div 10" "m div 10"] by simp
  with IH inj show ?case
    by (simp add: append_less_append digit_char_less)
qed simp

lemma show_nat_pad:
  assumes "10 ^ k \<le> n" "n < 10 ^ Suc k"
  shows "show_nat n = pad (Suc k) n"
  using assms
proof (induction k arbitrary: n)
  case 0
  then show ?case by (simp add: show_nat.simps)
next
  case (Suc k)
  then have "10 ^ k \<le> n div 10" "n div 10 < 10 ^ Suc k"
    by (auto simp: less_mult_imp_div_less mult.commute less_eq_div_iff_mult_less_eq)
  with Suc.IH have "show_nat (n div 10) = pad (Suc k) (n div 10)" by blast
  moreover have "10 \<le> n" using Suc.prems(1) by (simp add: order_trans [OF _ Suc.prems(1)])
  ultimately show ?case by (simp add: show_nat.simps [of n])
qed

section \<open>The order of the text form\<close>

text \<open>The whole milliseconds of the instant: what the text form keeps.\<close>

definition instant_ms :: "datetime \<Rightarrow> nat" where
  "instant_ms t = instant t div 1000"

lemma instant_ms_eq:
  "instant_ms t = to_ordinal t * 86400000
     + ((dt_hour t * 60 + dt_minute t) * 60 + dt_second t) * 1000 + dt_us t div 1000"
proof -
  have "instant t = (to_ordinal t * 86400000
    + ((dt_hour t * 60 + dt_minute t) * 60 + dt_second t) * 1000) * 1000 + dt_us t"
    by (simp add: instant_def day_us_def us_of_day_def)
  then show ?thesis unfolding instant_ms_def by (simp only: div_mult_self3)
qed

definition ms_of_day :: "datetime \<Rightarrow> nat" where
  "ms_of_day t = ((dt_hour t * 60 + dt_minute t) * 60 + dt_second t) * 1000 + dt_us t div 1000"

lemma ms_arith:
  fixes h m s k :: nat
  assumes "m \<le> 59" "s \<le> 59" "k \<le> 999"
  shows "h \<le> 23 \<Longrightarrow> ((h * 60 + m) * 60 + s) * 1000 + k < 86400000"
    "h < h' \<or> (h = h' \<and> (m < m' \<or> (m = m' \<and> (s < s' \<or> (s = s' \<and> k < k'))))) \<Longrightarrow>
      ((h * 60 + m) * 60 + s) * 1000 + k < ((h' * 60 + m') * 60 + s') * 1000 + k'"
proof -
  assume "h \<le> 23"
  with assms show "((h * 60 + m) * 60 + s) * 1000 + k < 86400000" by (simp add: add_mult_distrib)
next
  assume "h < h' \<or> (h = h' \<and> (m < m' \<or> (m = m' \<and> (s < s' \<or> (s = s' \<and> k < k')))))"
  then consider "h < h'" | "h = h'" "m < m'" | "h = h'" "m = m'" "s < s'"
    | "h = h'" "m = m'" "s = s'" "k < k'" by blast
  then show "((h * 60 + m) * 60 + s) * 1000 + k < ((h' * 60 + m') * 60 + s') * 1000 + k'"
    using assms by cases (simp_all add: add_mult_distrib)
qed

lemma time_bounds:
  "valid_datetime t \<Longrightarrow> dt_hour t \<le> 23 \<and> dt_minute t \<le> 59 \<and> dt_second t \<le> 59 \<and> dt_us t div 1000 \<le> 999"
  by (auto simp: valid_datetime_def)

lemma ms_of_day_less: "valid_datetime t \<Longrightarrow> ms_of_day t < 86400000"
  unfolding ms_of_day_def using time_bounds [of t] by (intro ms_arith) auto

lemma instant_ms_split: "instant_ms t = to_ordinal t * 86400000 + ms_of_day t"
  by (simp only: instant_ms_eq ms_of_day_def add.assoc)

lemma days_before_month_mono: "1 \<le> m \<Longrightarrow> m \<le> n \<Longrightarrow> days_before_month y m \<le> days_before_month y n"
proof (induction n)
  case (Suc n)
  then show ?case by (cases "m = Suc n") (auto simp: days_before_month_Suc)
qed simp

lemma valid_date:
  assumes "valid_datetime t"
  shows "days_before_month (dt_year t) (dt_month t) + dt_day t \<le> days_before_month (dt_year t) (Suc (dt_month t))"
    "to_ordinal t \<le> days_before_year (Suc (dt_year t))" "days_before_year (dt_year t) < to_ordinal t"
proof -
  show a: "days_before_month (dt_year t) (dt_month t) + dt_day t \<le> days_before_month (dt_year t) (Suc (dt_month t))"
    using assms by (simp add: valid_datetime_def days_before_month_Suc)
  also have "\<dots> \<le> days_before_month (dt_year t) 13"
    using assms by (intro days_before_month_mono) (auto simp: valid_datetime_def)
  finally show "to_ordinal t \<le> days_before_year (Suc (dt_year t))"
    using assms by (simp add: valid_datetime_def to_ordinal_def days_before_year_Suc days_before_month_13)
  show "days_before_year (dt_year t) < to_ordinal t"
    using assms by (simp add: valid_datetime_def to_ordinal_def)
qed

lemma to_ordinal_less:
  assumes "valid_datetime s" "valid_datetime t"
    and "dt_year s < dt_year t \<or> (dt_year s = dt_year t \<and> (dt_month s < dt_month t
      \<or> (dt_month s = dt_month t \<and> dt_day s < dt_day t)))"
  shows "to_ordinal s < to_ordinal t"
proof -
  consider "dt_year s < dt_year t" | "dt_year s = dt_year t" "dt_month s < dt_month t"
    | "dt_year s = dt_year t" "dt_month s = dt_month t" "dt_day s < dt_day t"
    using assms(3) by auto
  then show ?thesis
  proof cases
    case 1
    then have "days_before_year (Suc (dt_year s)) \<le> days_before_year (dt_year t)"
      by (intro days_before_year_mono) auto
    with valid_date [OF assms(1)] valid_date [OF assms(2)] show ?thesis by linarith
  next
    case 2
    then have "days_before_month (dt_year s) (Suc (dt_month s)) \<le> days_before_month (dt_year t) (dt_month t)"
      by (auto intro: days_before_month_mono)
    with 2 valid_date(1) [OF assms(1)] assms(2) show ?thesis
      by (simp add: to_ordinal_def valid_datetime_def)
  next
    case 3
    then show ?thesis by (simp add: to_ordinal_def)
  qed
qed

lemma iso_text_pad:
  assumes "valid_datetime t" "1000 \<le> dt_year t"
  shows "iso_text t = pad 4 (dt_year t) @ ''-'' @ pad 2 (dt_month t) @ ''-'' @ pad 2 (dt_day t) @ ''T''
     @ pad 2 (dt_hour t) @ '':'' @ pad 2 (dt_minute t) @ '':'' @ pad 2 (dt_second t) @ ''.''
     @ pad 3 (dt_us t div 1000) @ ''Z''"
proof -
  have k: "10 ^ 3 \<le> dt_year t" "dt_year t < 10 ^ Suc 3" using assms by (simp_all add: valid_datetime_def)
  have four: "Suc 3 = 4" by simp
  show ?thesis unfolding iso_text_def show_nat_pad [OF k] four ..
qed

lemma append_less_sep:
  fixes xs ys :: "'a::order list"
  assumes "length xs = length ys"
  shows "xs @ c # zs < ys @ c # ws \<longleftrightarrow> xs < ys \<or> (xs = ys \<and> zs < ws)"
  using append_less_append [OF assms, of "c # zs" "c # ws"] by simp

lemma pad_inject: "n < 10 ^ k \<Longrightarrow> m < 10 ^ k \<Longrightarrow> pad k n = pad k m \<longleftrightarrow> n = m"
  by (metis read_pad)

lemma pad_sep_less:
  "n < 10 ^ k \<Longrightarrow> m < 10 ^ k \<Longrightarrow> pad k n @ c # zs < pad k m @ c # ws \<longleftrightarrow> n < m \<or> (n = m \<and> zs < ws)"
  by (simp only: append_less_sep length_pad pad_less pad_inject)

text \<open>The fields of the text form in the order they are compared.\<close>

definition iso_fields :: "datetime \<Rightarrow> nat list" where
  "iso_fields t = [dt_year t, dt_month t, dt_day t, dt_hour t, dt_minute t, dt_second t, dt_us t div 1000]"

lemma valid_bounds:
  assumes "valid_datetime t"
  shows "dt_year t < 10 ^ 4" "dt_month t < 10 ^ 2" "dt_day t < 10 ^ 2" "dt_hour t < 10 ^ 2"
    "dt_minute t < 10 ^ 2" "dt_second t < 10 ^ 2" "dt_us t div 1000 < 10 ^ 3"
  using assms days_in_month_bounds(2) [of "dt_year t" "dt_month t"]
  by (auto simp: valid_datetime_def)

lemma iso_text_less_fields:
  assumes "valid_datetime s" "1000 \<le> dt_year s" "valid_datetime t" "1000 \<le> dt_year t"
  shows "iso_text s < iso_text t \<longleftrightarrow> iso_fields s < iso_fields t"
  unfolding iso_text_pad [OF assms(1,2)] iso_text_pad [OF assms(3,4)] iso_fields_def append_Cons append_Nil
    pad_sep_less [OF valid_bounds(1) [OF assms(1)] valid_bounds(1) [OF assms(3)]]
    pad_sep_less [OF valid_bounds(2) [OF assms(1)] valid_bounds(2) [OF assms(3)]]
    pad_sep_less [OF valid_bounds(3) [OF assms(1)] valid_bounds(3) [OF assms(3)]]
    pad_sep_less [OF valid_bounds(4) [OF assms(1)] valid_bounds(4) [OF assms(3)]]
    pad_sep_less [OF valid_bounds(5) [OF assms(1)] valid_bounds(5) [OF assms(3)]]
    pad_sep_less [OF valid_bounds(6) [OF assms(1)] valid_bounds(6) [OF assms(3)]]
    pad_sep_less [OF valid_bounds(7) [OF assms(1)] valid_bounds(7) [OF assms(3)]]
  by simp

lemma instant_ms_less_fields:
  assumes "valid_datetime s" "valid_datetime t" "iso_fields s < iso_fields t"
  shows "instant_ms s < instant_ms t"
proof -
  consider "dt_year s < dt_year t \<or> (dt_year s = dt_year t \<and> (dt_month s < dt_month t
      \<or> (dt_month s = dt_month t \<and> dt_day s < dt_day t)))"
    | "dt_year s = dt_year t" "dt_month s = dt_month t" "dt_day s = dt_day t"
      "[dt_hour s, dt_minute s, dt_second s, dt_us s div 1000] < [dt_hour t, dt_minute t, dt_second t, dt_us t div 1000]"
    using assms(3) unfolding iso_fields_def by auto
  then show ?thesis
  proof cases
    case 1
    then have "to_ordinal s < to_ordinal t" using assms by (blast intro: to_ordinal_less)
    with ms_of_day_less [OF assms(1)] show ?thesis by (simp add: instant_ms_split)
  next
    case 2
    then have o: "to_ordinal s = to_ordinal t" by (simp add: to_ordinal_def)
    have "ms_of_day s < ms_of_day t"
      unfolding ms_of_day_def using 2 time_bounds [OF assms(1)] by (intro ms_arith) auto
    with o show ?thesis by (simp add: instant_ms_split)
  qed
qed

lemma instant_ms_eq_fields:
  "iso_fields s = iso_fields t \<Longrightarrow> instant_ms s = instant_ms t"
  by (simp add: instant_ms_eq to_ordinal_def iso_fields_def)

theorem iso_text_less_iff:
  assumes "valid_datetime s" "1000 \<le> dt_year s" "valid_datetime t" "1000 \<le> dt_year t"
  shows "iso_text s < iso_text t \<longleftrightarrow> instant_ms s < instant_ms t"
  unfolding iso_text_less_fields [OF assms]
  using instant_ms_less_fields [OF assms(1,3)] instant_ms_less_fields [OF assms(3,1)]
    instant_ms_eq_fields [of s t] linorder_less_linear [of "iso_fields s" "iso_fields t"]
  by (elim disjE) auto

section \<open>Parsing\<close>

text \<open>
  \<open>strptime(iso, "%Y-%m-%dT%H:%M:%S.%fZ")\<close>: fields of ASCII digits, each followed by its literal
  (letters match in either case). A day padded with a space, which \<open>%d\<close> also takes, is not
  modelled.
\<close>

definition iso_field :: "nat \<Rightarrow> nat \<Rightarrow> string \<Rightarrow> string \<Rightarrow> (string \<Rightarrow> string \<Rightarrow> 'a res) \<Rightarrow> 'a res" where
  "iso_field lo hi stop s k =
     (let ds = takeWhile is_digit s; r = dropWhile is_digit s in
      case r of [] \<Rightarrow> Inl (ValueError ''time data does not match format'')
      | c # r' \<Rightarrow> if lo \<le> length ds \<and> length ds \<le> hi \<and> c \<in> set stop then k ds r'
                 else Inl (ValueError ''time data does not match format''))"

definition parse_iso :: "string \<Rightarrow> datetime res" where
  "parse_iso s =
     iso_field 4 4 ''-'' s (\<lambda>Y s. iso_field 1 2 ''-'' s (\<lambda>M s. iso_field 1 2 ''Tt'' s (\<lambda>D s.
     iso_field 1 2 '':'' s (\<lambda>h s. iso_field 1 2 '':'' s (\<lambda>m s. iso_field 1 2 ''.'' s (\<lambda>sec s.
     iso_field 1 6 ''Zz'' s (\<lambda>f s.
       let t = \<lparr>dt_year = read_nat Y, dt_month = read_nat M, dt_day = read_nat D,
                dt_hour = read_nat h, dt_minute = read_nat m, dt_second = read_nat sec,
                dt_us = read_nat f * 10 ^ (6 - length f)\<rparr>
       in if s = [] \<and> valid_datetime t then Inr t
          else Inl (ValueError ''time data does not match format''))))))))"

text \<open>
  A float number of days or seconds in microseconds: the integral part exactly, the fraction in double
  precision, rounded to the nearest microsecond, ties to even.
\<close>

definition float_us :: "nat \<Rightarrow> rat \<Rightarrow> int" where
  "float_us unit_us q =
     trunc_rat q * int unit_us
       + round_half_even (fval (to_double ((q - of_int (trunc_rat q)) * of_nat unit_us)))"

text \<open>A \<open>timedelta\<close> has at most 999999999 days.\<close>

definition timedelta_us :: "int \<Rightarrow> int res" where
  "timedelta_us us = (if 999999999 < \<bar>us div int day_us\<bar> then Inl OverflowError else Inr us)"

fun timedelta_float :: "nat \<Rightarrow> pyfloat \<Rightarrow> int res" where
  "timedelta_float unit_us NaN = Inl (ValueError ''cannot convert float NaN to integer'')"
| "timedelta_float unit_us PosInf = Inl OverflowError"
| "timedelta_float unit_us NegInf = Inl OverflowError"
| "timedelta_float unit_us x = timedelta_us (float_us unit_us (fval x))"

lemma timedelta_us_days [simp]:
  "timedelta_us (d * int day_us) = (if 999999999 < \<bar>d\<bar> then Inl OverflowError else Inr (d * int day_us))"
  by (simp add: timedelta_us_def day_us_def)

lemma timedelta_us_ok: "timedelta_us us = Inr d \<Longrightarrow> d = us"
  by (simp add: timedelta_us_def split: if_splits)

text \<open>\<open>timedelta(days=d)\<close> in microseconds, for the numbers a configuration holds.\<close>

fun timedelta_days :: "json \<Rightarrow> int res" where
  "timedelta_days (JInt d) = timedelta_us (d * int day_us)"
| "timedelta_days (JBool b) = Inr (if b then int day_us else 0)"
| "timedelta_days (JFloat x) = timedelta_float day_us x"
| "timedelta_days _ = Inl TypeError"

definition iso_minus_days :: "string \<Rightarrow> json \<Rightarrow> string res" where
  "iso_minus_days ts days =
     res_bind (parse_iso ts) (\<lambda>t.
     res_bind (timedelta_days days) (\<lambda>d.
     res_bind (of_instant (int (instant t) - d)) (\<lambda>t'. Inr (iso_text t'))))"

lemma iso_field_ok:
  assumes "\<forall>c \<in> set ds. is_digit c" "lo \<le> length ds" "length ds \<le> hi" "c \<in> set stop" "\<not> is_digit c"
  shows "iso_field lo hi stop (ds @ c # r) k = k ds r"
  using assms
  by (simp add: iso_field_def takeWhile_append_stop dropWhile_append_stop)

text \<open>The text form, parsed, gives the datetime back up to its millisecond.\<close>

lemma parse_iso_text:
  assumes "valid_datetime t" "1000 \<le> dt_year t"
  shows "parse_iso (iso_text t) = Inr (t\<lparr>dt_us := dt_us t div 1000 * 1000\<rparr>)"
proof -
  have v: "valid_datetime (t\<lparr>dt_us := dt_us t div 1000 * 1000\<rparr>)"
    using assms(1) by (auto simp: valid_datetime_def)
  have nd: "\<not> is_digit (CHR ''-'')" "\<not> is_digit (CHR ''T'')" "\<not> is_digit (CHR '':'')"
    "\<not> is_digit (CHR ''.'')" "\<not> is_digit (CHR ''Z'')"
    by (simp_all add: is_digit_def)
  have f: "iso_field lo hi stop (pad k n @ c # r) g = g (pad k n) r"
    if "lo \<le> k" "k \<le> hi" "c \<in> set stop" "\<not> is_digit c" for lo hi stop k n c r and g :: "string \<Rightarrow> string \<Rightarrow> datetime res"
    using that by (intro iso_field_ok) (auto dest: pad_digits)
  have r: "\<lparr>dt_year = dt_year t, dt_month = dt_month t, dt_day = dt_day t, dt_hour = dt_hour t,
    dt_minute = dt_minute t, dt_second = dt_second t, dt_us = dt_us t div 1000 * 1000\<rparr>
    = t\<lparr>dt_us := dt_us t div 1000 * 1000\<rparr>" by simp
  show ?thesis
    unfolding parse_iso_def iso_text_pad [OF assms]
    using valid_bounds [OF assms(1)] v
    by (simp add: f nd r del: pad.simps)
qed

text \<open>
  The cut-off is the text of an instant exactly the given time before the (whole millisecond)
  instant of the text it is computed from.
\<close>

lemma iso_minus_days_ok:
  assumes "valid_datetime t" "1000 \<le> dt_year t" "iso_minus_days (iso_text t) days = Inr c"
  obtains t' d where "timedelta_days days = Inr d" "valid_datetime t'" "c = iso_text t'"
    "int (instant t') = int (instant_ms t) * 1000 - d"
proof -
  have i: "instant (t\<lparr>dt_us := dt_us t div 1000 * 1000\<rparr>) = instant_ms t * 1000"
    by (simp add: instant_ms_eq instant_def to_ordinal_def us_of_day_def day_us_def)
  from assms(3) obtain d t' where "timedelta_days days = Inr d"
    "of_instant (int (instant_ms t * 1000) - d) = Inr t'" "c = iso_text t'"
    by (auto simp: iso_minus_days_def parse_iso_text [OF assms(1,2)] i res_inv)
  with of_instant_ok [of _ t'] show thesis by (intro that) auto
qed

text \<open>Going back from a valid datetime by whole days, not before the year 1000, succeeds.\<close>

lemma of_instant_total:
  assumes "valid_datetime t" "int day_us \<le> i" "i \<le> int (instant t)"
  obtains t' where "of_instant i = Inr t'"
proof -
  define n where "n = nat (i div int day_us)"
  obtain y m d where o: "of_ordinal n = (y, m, d)" by (cases "of_ordinal n")
  have n: "1 \<le> n" using assms(2) unfolding n_def by (simp add: day_us_def)
  have "us_of_day t < day_us"
  proof -
    have "dt_hour t \<le> 23" "dt_minute t \<le> 59" "dt_second t \<le> 59" "dt_us t \<le> 999999"
      using assms(1) by (auto simp: valid_datetime_def)
    then show ?thesis by (simp add: us_of_day_def day_us_def add_mult_distrib)
  qed
  then have "int (instant t) div int day_us = int (to_ordinal t)"
    by (simp add: instant_def flip: zdiv_int)
  then have "i div int day_us \<le> int (to_ordinal t)"
    using zdiv_mono1 [OF assms(3), of "int day_us"] by (simp add: day_us_def)
  then have "n \<le> to_ordinal t" unfolding n_def by simp
  also have "\<dots> \<le> days_before_year (Suc (dt_year t))" by (rule valid_date(2) [OF assms(1)])
  finally have le: "n \<le> days_before_year (Suc (dt_year t))" .
  from of_ordinal_props [OF n] o have yn: "1 \<le> m" "1 \<le> d" "days_before_year y + days_before_month y m + d = n"
    by (metis prod.inject)+
  have "y \<le> dt_year t"
  proof (rule ccontr)
    assume "\<not> y \<le> dt_year t"
    then have "days_before_year (Suc (dt_year t)) \<le> days_before_year y" by (intro days_before_year_mono) auto
    with le yn show False by linarith
  qed
  then have "y \<le> 9999" using assms(1) by (simp add: valid_datetime_def)
  then show thesis using that assms(2) o by (simp add: of_instant_def Let_def n_def)
qed

definition year_1000_ms :: nat where "year_1000_ms = 31525459200000"

lemma year_1000:
  assumes "valid_datetime t" "year_1000_ms \<le> instant_ms t"
  shows "1000 \<le> dt_year t"
proof (rule ccontr)
  assume "\<not> 1000 \<le> dt_year t"
  then have "days_before_year (Suc (dt_year t)) \<le> days_before_year 1000"
    by (intro days_before_year_mono) auto
  then have "to_ordinal t \<le> 364877"
    using valid_date(2) [OF assms(1)] by (simp add: days_before_year_def)
  then have "instant_ms t < 364877 * 86400000 + 86400000"
    using ms_of_day_less [OF assms(1)] by (simp add: instant_ms_split)
  with assms(2) show False by (simp add: year_1000_ms_def)
qed

text \<open>Going back by any length of time succeeds as long as it does not lead before the year 1000.\<close>

lemma iso_minus_total:
  assumes "valid_datetime t" "timedelta_days days = Inr d" "0 \<le> d" "int year_1000_ms * 1000 + d \<le> int (instant_ms t) * 1000"
  obtains t' where "iso_minus_days (iso_text t) days = Inr (iso_text t')"
    "valid_datetime t'" "1000 \<le> dt_year t'" "int (instant_ms t') = (int (instant_ms t) * 1000 - d) div 1000"
proof -
  have y: "1000 \<le> dt_year t" using assms by (intro year_1000) auto
  have i: "instant (t\<lparr>dt_us := dt_us t div 1000 * 1000\<rparr>) = instant_ms t * 1000"
    by (simp add: instant_ms_eq instant_def to_ordinal_def us_of_day_def day_us_def)
  have le: "instant_ms t * 1000 \<le> instant t" by (simp add: instant_ms_def)
  define j where "j = int (instant_ms t) * 1000 - d"
  have "int day_us \<le> j" "j \<le> int (instant t)"
    using assms(3,4) le unfolding j_def by (simp_all add: day_us_def year_1000_ms_def)
  then obtain t' where t': "of_instant j = Inr t'" using of_instant_total [OF assms(1)] by blast
  from of_instant_ok [OF t'] have v: "valid_datetime t'" and inst: "int (instant t') = j" .
  have ms: "int (instant_ms t') = j div 1000" by (simp add: instant_ms_def zdiv_int flip: inst)
  have "iso_minus_days (iso_text t) days = Inr (iso_text t')"
    using assms(2) t' by (simp add: iso_minus_days_def parse_iso_text [OF assms(1) y] i j_def)
  moreover have "1000 \<le> dt_year t'" using v ms assms(4) by (intro year_1000) (auto simp: j_def)
  ultimately show thesis using that v ms by (auto simp: j_def)
qed

section \<open>Properties\<close>

text \<open>The text comparison the store makes in SQL is the comparison of instants: for datetimes with years of four
  digits, one text is smaller than another exactly when it denotes an earlier millisecond.\<close>

theorem iso_text_order:
  assumes "valid_datetime s" "1000 \<le> dt_year s" "valid_datetime t" "1000 \<le> dt_year t"
  shows "now_iso s < now_iso t \<longleftrightarrow> instant_ms s < instant_ms t"
  unfolding now_iso_def using assms by (rule iso_text_less_iff)

lemma days_before_december: "days_before_month y 12 = (if is_leap y then 335 else 334)"
  using days_before_month_13 [of y] days_before_month_Suc [of 12 y] by (simp add: days_in_month_def split: if_splits)

theorem iso_text_order_witness:
  "now_iso \<lparr>dt_year = 2023, dt_month = 12, dt_day = 31, dt_hour = 23, dt_minute = 59, dt_second = 59, dt_us = 999999\<rparr>
   < now_iso \<lparr>dt_year = 2024, dt_month = 1, dt_day = 1, dt_hour = 0, dt_minute = 0, dt_second = 0, dt_us = 0\<rparr>"
  by (subst iso_text_order)
    (simp_all add: valid_datetime_def days_in_month_def instant_ms_eq to_ordinal_def days_before_year_def is_leap_def
      days_before_december)

end
