(* ===== verification/Json_Read.thy ===== *)
theory Json_Read
  imports Json
begin

text \<open>
  \<open>json.loads\<close>: the scanner of the standard library over the bytes of the text. Objects keep the
  last value of a repeated key at the place of its first occurrence, as a dict built from pairs
  does. The recursion carries fuel, at most two units of it for a character of the text;
  \<open>pvalue_fuel\<close> in theory \<open>Json_Roundtrip\<close> shows that more fuel gives nothing new.
\<close>

section \<open>Strings\<close>

definition is_ws :: "char \<Rightarrow> bool" where
  "is_ws c = (of_char c \<in> {32, 9, 10, 13 :: nat})"

definition skip_ws :: "string \<Rightarrow> string" where
  "skip_ws s = dropWhile is_ws s"

definition hex_val :: "char \<Rightarrow> nat option" where
  "hex_val c =
     (let n = (of_char c :: nat) in
      if 48 \<le> n \<and> n \<le> 57 then Some (n - 48)
      else if 97 \<le> n \<and> n \<le> 102 then Some (n - 87)
      else if 65 \<le> n \<and> n \<le> 70 then Some (n - 55)
      else None)"

definition hex4 :: "string \<Rightarrow> (nat \<times> string) option" where
  "hex4 s =
     (case s of
        a # b # c # d # r \<Rightarrow>
          (case (hex_val a, hex_val b, hex_val c, hex_val d) of
             (Some w, Some x, Some y, Some z) \<Rightarrow> Some (4096 * w + 256 * x + 16 * y + z, r)
           | _ \<Rightarrow> None)
      | _ \<Rightarrow> None)"

definition unescape :: "char \<Rightarrow> char option" where
  "unescape e =
     (let n = (of_char e :: nat) in
      if n = 34 then Some (CHR 0x22) else if n = 92 then Some (CHR 0x5C)
      else if n = 47 then Some e else if n = 98 then Some (CHR 0x08)
      else if n = 102 then Some (CHR 0x0C) else if n = 110 then Some (CHR 0x0A)
      else if n = 114 then Some (CHR 0x0D) else if n = 116 then Some (CHR 0x09)
      else None)"

text \<open>One \<open>\\u\<close> escape, its four digits first; a surrogate pair is one code point.\<close>

definition scan_u :: "string \<Rightarrow> (string \<times> string) option" where
  "scan_u s =
     (case hex4 s of None \<Rightarrow> None
      | Some (u, r) \<Rightarrow>
          if 55296 \<le> u \<and> u \<le> 56319 \<and> take 2 r = CHR 0x5C # ''u'' then
            (case hex4 (drop 2 r) of None \<Rightarrow> None
             | Some (u2, r2) \<Rightarrow>
                 if 56320 \<le> u2 \<and> u2 \<le> 57343
                 then Some (utf8 (65536 + ((u - 55296) * 1024 + (u2 - 56320))), r2)
                 else Some (utf8 u, r))
          else Some (utf8 u, r))"

definition prepend :: "string \<Rightarrow> (string \<times> string) option \<Rightarrow> (string \<times> string) option" where
  "prepend p m = (case m of None \<Rightarrow> None | Some (s, r) \<Rightarrow> Some (p @ s, r))"

lemma prepend_Some [simp]: "prepend p (Some (s, r)) = Some (p @ s, r)"
  by (simp add: prepend_def)

lemma prepend_eq_Some: "prepend p m = Some (t, r) \<longleftrightarrow> (\<exists>s. m = Some (s, r) \<and> t = p @ s)"
  by (auto simp: prepend_def split: option.splits)

lemma hex4_length: "hex4 s = Some (u, r) \<Longrightarrow> length s = length r + 4"
  by (auto simp: hex4_def split: list.splits option.splits)

lemma scan_u_length: "scan_u s = Some (t, r) \<Longrightarrow> length r < length s"
  by (auto simp: scan_u_def dest!: hex4_length split: option.splits if_splits)

text \<open>The characters of a string after its opening quote, up to the closing one.\<close>

function scan_string :: "string \<Rightarrow> (string \<times> string) option" where
  "scan_string s =
     (case s of [] \<Rightarrow> None
      | c # cs \<Rightarrow>
          (if c = CHR 0x22 then Some ([], cs)
           else if c = CHR 0x5C then
             (case cs of [] \<Rightarrow> None
              | e # es \<Rightarrow>
                  if e = CHR ''u'' then
                    (case scan_u es of None \<Rightarrow> None | Some (t, r) \<Rightarrow> prepend t (scan_string r))
                  else
                    (case unescape e of None \<Rightarrow> None
                     | Some x \<Rightarrow> prepend [x] (scan_string es)))
           else if (of_char c :: nat) < 32 then None
           else prepend [c] (scan_string cs)))"
  by pat_completeness auto
termination
  by (relation "measure length") (auto dest: scan_u_length)

declare scan_string.simps [simp del]

section \<open>Numbers\<close>

text \<open>\<open>(-?(?:0|[1-9]\d*))(\.\d+)?([eE][-+]?\d+)?\<close>\<close>

definition scan_frac :: "string \<Rightarrow> string \<times> string" where
  "scan_frac s =
     (case s of
        c # cs \<Rightarrow> if c = CHR ''.'' \<and> takeWhile is_digit cs \<noteq> []
                  then (takeWhile is_digit cs, dropWhile is_digit cs) else ([], s)
      | [] \<Rightarrow> ([], s))"

definition exp_sign :: "string \<Rightarrow> bool \<times> string" where
  "exp_sign cs =
     (case cs of [] \<Rightarrow> (False, [])
      | d # ds \<Rightarrow> if d = CHR ''-'' then (True, ds) else if d = CHR ''+'' then (False, ds) else (False, cs))"

definition scan_exp :: "string \<Rightarrow> int option \<times> string" where
  "scan_exp s =
     (case s of [] \<Rightarrow> (None, [])
      | c # cs \<Rightarrow>
          if c = CHR ''e'' \<or> c = CHR ''E'' then
            (let (neg, ds) = exp_sign cs; x = takeWhile is_digit ds in
             if x = [] then (None, s)
             else (Some (if neg then - int (read_nat x) else int (read_nat x)), dropWhile is_digit ds))
          else (None, s))"

definition scan_int :: "string \<Rightarrow> (string \<times> string) option" where
  "scan_int s =
     (case s of [] \<Rightarrow> None
      | c # cs \<Rightarrow> if c = CHR ''0'' then Some ([c], cs)
                  else if is_digit c then Some (takeWhile is_digit s, dropWhile is_digit s)
                  else None)"

definition scan_number :: "string \<Rightarrow> (json \<times> string) option" where
  "scan_number s =
     (let neg = (take 1 s = ''-''); s1 = (if neg then drop 1 s else s) in
      case scan_int s1 of None \<Rightarrow> None
      | Some (ip, r) \<Rightarrow>
          (let (fr, r1) = scan_frac r; (ex, r2) = scan_exp r1 in
           if fr = [] \<and> ex = None
           then Some (JInt (if neg then - int (read_nat ip) else int (read_nat ip)), r2)
           else Some (JFloat (float_of_dec neg ip fr (case ex of None \<Rightarrow> 0 | Some e \<Rightarrow> e)), r2)))"

section \<open>Values\<close>

definition dict_of_pairs :: "(string \<times> json) list \<Rightarrow> json dict" where
  "dict_of_pairs kvs = foldl (\<lambda>d kv. AList.update (fst kv) (snd kv) d) [] kvs"

fun starts_with :: "string \<Rightarrow> string \<Rightarrow> bool" where
  "starts_with [] s = True"
| "starts_with (x # xs) [] = False"
| "starts_with (x # xs) (y # ys) = (x = y \<and> starts_with xs ys)"

definition expect :: "char \<Rightarrow> string \<Rightarrow> string option" where
  "expect c s = (case s of [] \<Rightarrow> None | d # r \<Rightarrow> if d = c then Some r else None)"

text \<open>The key of a member and the colon after it.\<close>

definition pkey :: "string \<Rightarrow> (string \<times> string) option" where
  "pkey s =
     (case expect (CHR 0x22) s of None \<Rightarrow> None
      | Some s1 \<Rightarrow>
     (case scan_string s1 of None \<Rightarrow> None
      | Some (k, s2) \<Rightarrow>
     (case expect (CHR '':'') (skip_ws s2) of None \<Rightarrow> None
      | Some s3 \<Rightarrow> Some (k, skip_ws s3))))"

fun pvalue :: "nat \<Rightarrow> string \<Rightarrow> (json \<times> string) option"
  and pelems :: "nat \<Rightarrow> string \<Rightarrow> (json list \<times> string) option"
  and pmembers :: "nat \<Rightarrow> string \<Rightarrow> ((string \<times> json) list \<times> string) option"
where
  "pvalue 0 s = None"
| "pvalue (Suc f) s =
     (case s of [] \<Rightarrow> None
      | c # cs \<Rightarrow>
          (if c = CHR 0x22 then
             (case scan_string cs of None \<Rightarrow> None | Some (t, r) \<Rightarrow> Some (JStr t, r))
           else if c = CHR ''{'' then
             (case expect (CHR ''}'') (skip_ws cs) of Some r \<Rightarrow> Some (JObj [], r)
              | None \<Rightarrow>
                  (case pmembers f (skip_ws cs) of None \<Rightarrow> None
                   | Some (kvs, r) \<Rightarrow> Some (JObj (dict_of_pairs kvs), r)))
           else if c = CHR ''['' then
             (case expect (CHR '']'') (skip_ws cs) of Some r \<Rightarrow> Some (JList [], r)
              | None \<Rightarrow>
                  (case pelems f (skip_ws cs) of None \<Rightarrow> None
                   | Some (vs, r) \<Rightarrow> Some (JList vs, r)))
           else if starts_with ''null'' s then Some (JNull, drop 4 s)
           else if starts_with ''true'' s then Some (JBool True, drop 4 s)
           else if starts_with ''false'' s then Some (JBool False, drop 5 s)
           else if starts_with ''NaN'' s then Some (JFloat NaN, drop 3 s)
           else if starts_with ''Infinity'' s then Some (JFloat PosInf, drop 8 s)
           else if starts_with ''-Infinity'' s then Some (JFloat NegInf, drop 9 s)
           else scan_number s))"
| "pelems 0 s = None"
| "pelems (Suc f) s =
     (case pvalue f s of None \<Rightarrow> None
      | Some (v, r) \<Rightarrow>
          (case expect (CHR '']'') (skip_ws r) of Some r1 \<Rightarrow> Some ([v], r1)
           | None \<Rightarrow>
               (case expect (CHR '','') (skip_ws r) of None \<Rightarrow> None
                | Some r1 \<Rightarrow>
                    (case pelems f (skip_ws r1) of None \<Rightarrow> None
                     | Some (vs, r2) \<Rightarrow> Some (v # vs, r2)))))"
| "pmembers 0 s = None"
| "pmembers (Suc f) s =
     (case pkey s of None \<Rightarrow> None
      | Some (k, s1) \<Rightarrow>
     (case pvalue f s1 of None \<Rightarrow> None
      | Some (v, r) \<Rightarrow>
          (case expect (CHR ''}'') (skip_ws r) of Some r1 \<Rightarrow> Some ([(k, v)], r1)
           | None \<Rightarrow>
               (case expect (CHR '','') (skip_ws r) of None \<Rightarrow> None
                | Some r1 \<Rightarrow>
                    (case pmembers f (skip_ws r1) of None \<Rightarrow> None
                     | Some (kvs, r2) \<Rightarrow> Some ((k, v) # kvs, r2))))))"

definition loads :: "string \<Rightarrow> json res" where
  "loads s =
     (case pvalue (2 * length s + 2) (skip_ws s) of
        Some (v, r) \<Rightarrow> if skip_ws r = [] then Inr v else Inl JSONDecodeError
      | None \<Rightarrow> Inl JSONDecodeError)"

end
