(* ===== verification/Json_Roundtrip.thy ===== *)
theory Json_Roundtrip
  imports Json_Read
begin

text \<open>
  \<open>json.loads\<close> after \<open>json.dumps\<close>: first the strings, then the numbers, then whole values by
  induction along the printer. The consequences: what the store writes is what it reads back, and
  equal canonical forms come from values equal up to the order of their keys.
\<close>

section \<open>Strings\<close>

lemma hex_val_hex_char: "n < 16 \<Longrightarrow> hex_val (hex_char n) = Some n"
  by (auto simp: hex_val_def hex_char_def Let_def)

lemma hex_val_0: "hex_val (CHR ''0'') = Some 0"
  by (simp add: hex_val_def)

lemma scan_u_hex2:
  assumes "n < 32"
  shows "scan_u (CHR ''0'' # CHR ''0'' # hex2 n @ r) = Some ([char_of n], r)"
proof -
  have "hex4 (CHR ''0'' # CHR ''0'' # hex2 n @ r) = Some (16 * (n div 16) + n mod 16, r)"
    using assms by (simp add: hex4_def hex2_def hex_val_hex_char hex_val_0)
  then show ?thesis using assms by (simp add: scan_u_def utf8_def)
qed

lemma char_of_code:
  "(of_char c :: nat) = 34 \<Longrightarrow> c = CHR 0x22" "(of_char c :: nat) = 92 \<Longrightarrow> c = CHR 0x5C"
  "(of_char c :: nat) = 10 \<Longrightarrow> c = CHR 0x0A" "(of_char c :: nat) = 13 \<Longrightarrow> c = CHR 0x0D"
  "(of_char c :: nat) = 9 \<Longrightarrow> c = CHR 0x09" "(of_char c :: nat) = 12 \<Longrightarrow> c = CHR 0x0C"
  "(of_char c :: nat) = 8 \<Longrightarrow> c = CHR 0x08"
  by (rule of_char_eq_iff [THEN iffD1], simp)+

lemma scan_string_simple_escape:
  "unescape e = Some x \<Longrightarrow> e \<noteq> CHR ''u'' \<Longrightarrow>
     scan_string (CHR 0x5C # e # s) = prepend [x] (scan_string s)"
  by (subst scan_string.simps) simp

lemma scan_string_escape:
  "scan_string (escape_char c @ s) = prepend [c] (scan_string s)"
proof -
  let ?n = "of_char c :: nat"
  have c: "c = char_of ?n" by simp
  consider "?n = 34" | "?n = 92" | "?n = 10" | "?n = 13" | "?n = 9" | "?n = 12" | "?n = 8"
    | "?n < 32" "?n \<noteq> 10" "?n \<noteq> 13" "?n \<noteq> 9" "?n \<noteq> 12" "?n \<noteq> 8"
    | "32 \<le> ?n" "?n \<noteq> 34" "?n \<noteq> 92" by linarith
  then show ?thesis
  proof cases
    case 8
    then have "escape_char c @ s = CHR 0x5C # CHR ''u'' # CHR ''0'' # CHR ''0'' # hex2 ?n @ s"
      by (simp add: escape_char_def Let_def)
    with scan_u_hex2 [OF 8(1), of s] show ?thesis
      by (subst scan_string.simps) simp
  next
    case 9
    then have "c \<noteq> CHR 0x22" "c \<noteq> CHR 0x5C" by auto
    with 9 show ?thesis
      by (subst scan_string.simps) (simp add: escape_char_def Let_def)
  qed (auto dest!: char_of_code simp: escape_char_def scan_string_simple_escape unescape_def)
qed

lemma scan_string_escaped:
  "scan_string (concat (map escape_char s) @ CHR 0x22 # r) = Some (s, r)"
proof (induction s)
  case Nil
  then show ?case by (subst scan_string.simps) simp
next
  case (Cons c s)
  then show ?case by (simp add: scan_string_escape)
qed

text \<open>The code points of UTF-8 bytes, and the escapes read back.\<close>

lemma base64_digits:
  fixes n :: nat
  shows "n div 64 * 64 + n mod 64 = n" "n div 4096 * 4096 + n div 64 mod 64 * 64 + n mod 64 = n"
    "n div 262144 * 262144 + n div 4096 mod 64 * 4096 + n div 64 mod 64 * 64 + n mod 64 = n"
proof -
  have a: "n div 64 * 64 + n mod 64 = n" for n :: nat by simp
  have b: "n div 64 div 64 * 64 + n div 64 mod 64 = n div 64" by simp
  have c: "n div 64 div 64 = n div 4096" "n div 4096 div 64 = n div 262144" by (simp_all flip: div_mult2_eq)
  have d: "n div 262144 * 64 + n div 4096 mod 64 = n div 4096" using a [of "n div 4096"] c by simp
  show "n div 64 * 64 + n mod 64 = n" by simp
  show e: "n div 4096 * 4096 + n div 64 mod 64 * 64 + n mod 64 = n" using a [of n] b c(1) by linarith
  show "n div 262144 * 262144 + n div 4096 mod 64 * 4096 + n div 64 mod 64 * 64 + n mod 64 = n"
    using d e by linarith
qed

lemma of_char_byte: "n < 256 \<Longrightarrow> of_char (char_of n) = (n :: nat)"
  by simp

lemma low_bits: "m < 64 \<Longrightarrow> of_char (char_of (128 + m)) mod 64 = (m :: nat)"
  using mod_add_self1 [of 64 "64 + m"] mod_add_self1 [of 64 m]
  by (subst of_char_byte) (simp_all add: add.assoc [symmetric])

lemma code_points_bytes:
  fixes q k l m :: nat
  assumes "k < 64" "l < 64" "m < 64"
  shows "q < 32 \<Longrightarrow> code_points (char_of (192 + q) # char_of (128 + m) # s) = (q * 64 + m) # code_points s"
    "q < 16 \<Longrightarrow> code_points (char_of (224 + q) # char_of (128 + l) # char_of (128 + m) # s)
       = (q * 4096 + l * 64 + m) # code_points s"
    "q < 16 \<Longrightarrow> code_points (char_of (240 + q) # char_of (128 + k) # char_of (128 + l) # char_of (128 + m) # s)
       = (q * 262144 + k * 4096 + l * 64 + m) # code_points s"
proof -
  assume "q < 32"
  then have "of_char (char_of (192 + q)) = (192 + q :: nat)" by (intro of_char_byte) simp
  then show "code_points (char_of (192 + q) # char_of (128 + m) # s) = (q * 64 + m) # code_points s"
    using \<open>q < 32\<close> assms by (simp add: Let_def low_bits del: of_char_of)
next
  assume "q < 16"
  then have "of_char (char_of (224 + q)) = (224 + q :: nat)" by (intro of_char_byte) simp
  then show "code_points (char_of (224 + q) # char_of (128 + l) # char_of (128 + m) # s)
       = (q * 4096 + l * 64 + m) # code_points s"
    using \<open>q < 16\<close> assms by (simp add: Let_def low_bits del: of_char_of)
next
  assume "q < 16"
  then have "of_char (char_of (240 + q)) = (240 + q :: nat)" by (intro of_char_byte) simp
  then show "code_points (char_of (240 + q) # char_of (128 + k) # char_of (128 + l) # char_of (128 + m) # s)
       = (q * 262144 + k * 4096 + l * 64 + m) # code_points s"
    using \<open>q < 16\<close> assms by (simp add: Let_def low_bits del: of_char_of)
qed

lemma code_points_utf8:
  assumes "scalar n"
  shows "code_points (utf8 n @ s) = n # code_points s"
proof -
  have n: "n < 1114112" using assms by (simp add: scalar_def)
  have m: "x mod 64 < 64" for x :: nat by simp
  consider "n < 128" | "128 \<le> n" "n < 2048" | "2048 \<le> n" "n < 65536" | "65536 \<le> n" by linarith
  then show ?thesis
  proof cases
    case 1
    then show ?thesis by (simp add: utf8_def)
  next
    case 2
    then have "utf8 n = [char_of (192 + n div 64), char_of (128 + n mod 64)]" by (simp only: utf8_def) simp
    then show ?thesis
      using code_points_bytes(1) [OF m m m, of "n div 64" n s] base64_digits(1) [of n] 2(2)
      by (simp only: append_Cons append_Nil)
  next
    case 3
    then have "utf8 n = [char_of (224 + n div 4096), char_of (128 + n div 64 mod 64), char_of (128 + n mod 64)]"
      by (simp only: utf8_def) simp
    moreover have "n div 4096 < 16" using 3(2) by (simp add: less_mult_imp_div_less)
    ultimately show ?thesis
      using code_points_bytes(2) [OF m m m, of "n div 4096" "n div 64" n s] base64_digits(2) [of n]
      by (simp only: append_Cons append_Nil)
  next
    case 4
    then have "utf8 n = [char_of (240 + n div 262144), char_of (128 + n div 4096 mod 64),
         char_of (128 + n div 64 mod 64), char_of (128 + n mod 64)]"
      by (simp only: utf8_def) simp
    moreover have "n div 262144 < 16" using n by (simp add: less_mult_imp_div_less)
    ultimately show ?thesis
      using code_points_bytes(3) [OF m m m, of "n div 262144" "n div 4096" "n div 64" n s] base64_digits(3) [of n]
      by (simp only: append_Cons append_Nil)
  qed
qed

lemma hex4_digits_read:
  assumes "n < 65536"
  shows "hex4 (hex4_digits n @ r) = Some (n, r)"
proof -
  have "n div 16 mod 16 + n div 256 * 16 = n div 16" "n div 256 mod 16 + n div 4096 * 16 = n div 256"
    using div_mult_mod_eq [of "n div 16" 16] div_mult_mod_eq [of "n div 256" 16]
    by (simp_all flip: div_mult2_eq)
  then have "4096 * (n div 4096) + 256 * (n div 256 mod 16) + 16 * (n div 16 mod 16) + n mod 16 = n"
    using div_mult_mod_eq [of n 16] by linarith
  moreover have "n div 4096 < 16" using assms by auto
  ultimately show ?thesis by (simp add: hex4_def hex4_digits_def hex_val_hex_char)
qed

lemma scan_string_u:
  "scan_u (s :: string) = Some (x, r) \<Longrightarrow> scan_string (CHR 0x5C # CHR ''u'' # s) = prepend x (scan_string r)"
  by (subst scan_string.simps) simp

lemma scan_string_escape_code:
  assumes "scalar n"
  shows "scan_string (escape_code n @ s) = prepend (utf8 n) (scan_string s)"
proof -
  consider "n < 127" | "127 \<le> n" "n < 65536" | "65536 \<le> n" by linarith
  then show ?thesis
  proof cases
    case 1
    then show ?thesis by (simp add: escape_code_def scan_string_escape utf8_def)
  next
    case 2
    then have "\<not> (55296 \<le> n \<and> n \<le> 56319)" using assms by (auto simp: scalar_def)
    then have "scan_u (hex4_digits n @ s) = Some (utf8 n, s)"
      using hex4_digits_read [OF 2(2), of s] by (auto simp: scan_u_def)
    with 2 show ?thesis by (simp add: escape_code_def u_escape_def scan_string_u)
  next
    case 3
    define v where "v = n - 65536"
    have v: "v < 1048576" "n = 65536 + v" using 3 assms by (simp_all add: v_def scalar_def)
    then have hi: "v div 1024 < 1024" "v mod 1024 < 1024" by auto
    let ?h = "55296 + v div 1024" and ?l = "56320 + v mod 1024"
    have "hex4 (hex4_digits ?h @ u_escape ?l @ s) = Some (?h, u_escape ?l @ s)"
      "hex4 (hex4_digits ?l @ s) = Some (?l, s)"
      using hi by (intro hex4_digits_read; simp)+
    then have "scan_u (hex4_digits ?h @ u_escape ?l @ s) = Some (utf8 n, s)"
      using hi v(2) by (simp add: scan_u_def u_escape_def mult.commute)
    then have "scan_string (u_escape ?h @ u_escape ?l @ s) = prepend (utf8 n) (scan_string s)"
      by (simp add: u_escape_def scan_string_u)
    with 3 show ?thesis by (simp add: escape_code_def v_def)
  qed
qed

lemma scan_string_codes:
  "list_all scalar ns \<Longrightarrow>
     scan_string (concat (map escape_code ns) @ CHR 0x22 # r) = Some (concat (map utf8 ns), r)"
proof (induction ns)
  case Nil
  then show ?case by (subst scan_string.simps) simp
next
  case (Cons n ns)
  then show ?case by (simp add: scan_string_escape_code)
qed

text \<open>The texts an option set prints so that they read back: all of them, or the UTF-8 ones.\<close>

definition text_ok :: "dump_opts \<Rightarrow> string \<Rightarrow> bool" where
  "text_ok cfg s = (ensure_ascii cfg \<longrightarrow> utf8_ok s)"

lemma utf8_ok_ascii:
  assumes "\<forall>c \<in> set s. (of_char c :: nat) < 128"
  shows "utf8_ok s"
proof -
  have "code_points s = map of_char s" using assms by (induction s) (auto simp: Let_def)
  moreover have "concat (map utf8 (map of_char s)) = s" using assms by (induction s) (auto simp: utf8_def)
  moreover have "list_all scalar (map of_char s)" using assms by (auto simp: list_all_iff scalar_def)
  ultimately show ?thesis by (simp add: utf8_ok_def)
qed

lemma scan_string_quoted: "text_ok cfg s \<Longrightarrow> scan_string (escaped cfg s @ CHR 0x22 # r) = Some (s, r)"
  using scan_string_codes [of "code_points s" r] scan_string_escaped [of s r]
  by (auto simp: escaped_def text_ok_def utf8_ok_def)

fun texts_ok :: "dump_opts \<Rightarrow> json \<Rightarrow> bool" where
  "texts_ok cfg (JStr s) = text_ok cfg s"
| "texts_ok cfg (JList vs) = (\<forall>v \<in> set vs. texts_ok cfg v)"
| "texts_ok cfg (JObj kvs) = (\<forall>kv \<in> set kvs. text_ok cfg (fst kv) \<and> texts_ok cfg (snd kv))"
| "texts_ok cfg _ = True"

lemma texts_ok_plain: "\<not> ensure_ascii cfg \<Longrightarrow> texts_ok cfg v"
  by (induction cfg v rule: texts_ok.induct) (auto simp: text_ok_def)

lemma texts_ok_simps [simp]: "texts_ok plain_opts v" "texts_ok canonical_opts v"
  by (simp_all add: texts_ok_plain plain_opts_def canonical_opts_def)

section \<open>Numbers\<close>

text \<open>What may follow a number: nothing that would continue it.\<close>

definition delim :: "string \<Rightarrow> bool" where
  "delim r = (r = [] \<or> \<not> is_digit (hd r) \<and> hd r \<notin> {CHR ''.'', CHR ''e'', CHR ''E''})"

lemma span_append:
  assumes "dropWhile P s = r" "r \<noteq> [] \<or> rest = [] \<or> \<not> P (hd rest)"
  shows "takeWhile P (s @ rest) = takeWhile P s" "dropWhile P (s @ rest) = r @ rest"
proof -
  have "takeWhile P (s @ rest) = takeWhile P s \<and> dropWhile P (s @ rest) = dropWhile P s @ rest"
  proof (cases "\<forall>x \<in> set s. P x")
    case True
    then have "dropWhile P s = []" by (simp add: dropWhile_eq_Nil_conv)
    with assms have "rest = [] \<or> \<not> P (hd rest)" by simp
    with True \<open>dropWhile P s = []\<close> show ?thesis
      using takeWhile_append_stop [of s P rest] dropWhile_append_stop [of s P rest]
      by (metis append_Nil takeWhile_eq_all_conv)
  next
    case False
    then obtain x where "x \<in> set s" "\<not> P x" by blast
    then show ?thesis by (simp add: takeWhile_append1 dropWhile_append1)
  qed
  with assms(1) show "takeWhile P (s @ rest) = takeWhile P s" "dropWhile P (s @ rest) = r @ rest"
    by simp_all
qed

lemma exp_sign_append:
  "takeWhile is_digit (snd (exp_sign cs)) \<noteq> [] \<Longrightarrow>
     exp_sign (cs @ rest) = (fst (exp_sign cs), snd (exp_sign cs) @ rest)"
  by (auto simp: exp_sign_def split: list.splits if_splits)

lemma scan_exp_append:
  assumes "scan_exp s = (ex, [])" "delim rest"
  shows "scan_exp (s @ rest) = (ex, rest)"
proof (cases s)
  case Nil
  with assms show ?thesis by (cases rest) (auto simp: scan_exp_def delim_def)
next
  case (Cons c cs)
  obtain neg ds where ds: "exp_sign cs = (neg, ds)" by (cases "exp_sign cs")
  from assms(1) Cons ds have c: "c = CHR ''e'' \<or> c = CHR ''E''"
    and x: "takeWhile is_digit ds \<noteq> []" and r: "dropWhile is_digit ds = []"
    and ex: "ex = Some (if neg then - int (read_nat (takeWhile is_digit ds))
                        else int (read_nat (takeWhile is_digit ds)))"
    by (auto simp: scan_exp_def Let_def split: if_splits)
  have "exp_sign (cs @ rest) = (neg, ds @ rest)"
    using exp_sign_append [of cs rest] ds x by simp
  moreover have "takeWhile is_digit (ds @ rest) = takeWhile is_digit ds"
    "dropWhile is_digit (ds @ rest) = rest"
    using span_append [OF r, of rest] assms(2) by (auto simp: delim_def)
  ultimately show ?thesis using Cons c x ex by (simp add: scan_exp_def)
qed

lemma scan_frac_append:
  assumes "scan_frac s = (fr, r)" "scan_exp r = (ex, [])" "delim rest"
  shows "scan_frac (s @ rest) = (fr, r @ rest)"
proof (cases s)
  case Nil
  with assms show ?thesis by (cases rest) (auto simp: scan_frac_def delim_def)
next
  case (Cons c cs)
  show ?thesis
  proof (cases "c = CHR ''.'' \<and> takeWhile is_digit cs \<noteq> []")
    case True
    with assms(1) Cons have "fr = takeWhile is_digit cs" "dropWhile is_digit cs = r"
      by (auto simp: scan_frac_def)
    with True span_append [of is_digit cs r rest] assms(3) Cons show ?thesis
      by (auto simp: scan_frac_def delim_def)
  next
    case False
    with assms(1) Cons have "fr = []" "r = s" by (auto simp: scan_frac_def)
    moreover have "c \<noteq> CHR ''.''"
      using assms(2) Cons \<open>r = s\<close> by (auto simp: scan_exp_def)
    ultimately show ?thesis using Cons by (simp add: scan_frac_def)
  qed
qed

lemma scan_int_append:
  assumes "scan_int s = Some (ip, r)" "r \<noteq> [] \<or> delim rest"
  shows "scan_int (s @ rest) = Some (ip, r @ rest)"
proof -
  from assms(1) obtain c cs where s: "s = c # cs" by (cases s) (auto simp: scan_int_def)
  show ?thesis
  proof (cases "c = CHR ''0''")
    case True
    with assms s show ?thesis by (auto simp: scan_int_def)
  next
    case False
    with assms s have "is_digit c" "ip = takeWhile is_digit s" "dropWhile is_digit s = r"
      by (auto simp: scan_int_def split: if_splits)
    with False s show ?thesis
      using span_append [of is_digit s r rest] assms(2) by (auto simp: scan_int_def delim_def)
  qed
qed

lemma scan_number_append:
  assumes "scan_number s = Some (v, [])" "delim rest"
  shows "scan_number (s @ rest) = Some (v, rest)"
proof -
  let ?neg = "take 1 s = ''-''"
  let ?s1 = "if ?neg then drop 1 s else s"
  from assms(1) obtain ip r where ip: "scan_int ?s1 = Some (ip, r)"
    by (auto simp: scan_number_def Let_def split: option.splits)
  obtain fr r1 where fr: "scan_frac r = (fr, r1)" by (cases "scan_frac r")
  obtain ex r2 where ex: "scan_exp r1 = (ex, r2)" by (cases "scan_exp r1")
  from assms(1) ip fr ex have r2: "r2 = []"
    by (auto simp: scan_number_def Let_def split: if_splits)
  obtain c cs where s: "s = c # cs" using ip by (cases s) (auto simp: scan_int_def)
  then have "(if take 1 (s @ rest) = ''-'' then drop 1 (s @ rest) else s @ rest) = ?s1 @ rest"
    by simp
  moreover have "scan_int (?s1 @ rest) = Some (ip, r @ rest)"
    using ip assms(2) by (intro scan_int_append) auto
  moreover have "scan_frac (r @ rest) = (fr, r1 @ rest)"
    using fr ex assms(2) by (intro scan_frac_append) (auto simp: r2)
  moreover have "scan_exp (r1 @ rest) = (ex, rest)"
    using ex assms(2) by (intro scan_exp_append) (auto simp: r2)
  ultimately show ?thesis
    using assms(1) ip fr ex s by (auto simp: scan_number_def Let_def split: if_splits)
qed

lemma scan_int_show_nat: "scan_int (show_nat n) = Some (show_nat n, [])"
proof (cases "n = 0")
  case True
  then show ?thesis by (simp add: scan_int_def)
next
  case False
  then have "hd (show_nat n) \<noteq> CHR ''0''" by (simp add: show_nat_hd)
  moreover have "is_digit (hd (show_nat n))" using show_nat_digits [of "hd (show_nat n)" n] by simp
  moreover have "takeWhile is_digit (show_nat n) = show_nat n" "dropWhile is_digit (show_nat n) = []"
    using show_nat_digits [of _ n] by (auto simp: takeWhile_eq_all_conv dropWhile_eq_Nil_conv)
  ultimately show ?thesis
    by (cases "show_nat n") (auto simp: scan_int_def)
qed

lemma show_nat_no_minus: "take (Suc 0) (show_nat n) \<noteq> ''-''"
  using show_nat_digits [of "hd (show_nat n)" n] by (cases "show_nat n") auto

lemma scan_number_show_int: "scan_number (show_int i) = Some (JInt i, [])"
  by (auto simp: scan_number_def show_int_def scan_int_show_nat scan_frac_def scan_exp_def
      show_nat_no_minus Let_def)

section \<open>Values\<close>

text \<open>
  The options under which a text is read back: separators that are a comma and a colon followed by
  white space, as both calls of the program have.
\<close>

definition ok_opts :: "dump_opts \<Rightarrow> bool" where
  "ok_opts cfg =
     (item_sep cfg \<noteq> [] \<and> hd (item_sep cfg) = CHR '','' \<and> list_all is_ws (tl (item_sep cfg)) \<and>
      key_sep cfg \<noteq> [] \<and> hd (key_sep cfg) = CHR '':'' \<and> list_all is_ws (tl (key_sep cfg)))"

lemma ok_plain [simp]: "ok_opts plain_opts"
  by (simp add: ok_opts_def plain_opts_def is_ws_def)

lemma ok_canonical [simp]: "ok_opts canonical_opts"
  by (simp add: ok_opts_def canonical_opts_def)

text \<open>A float whose printed form is a numeral that denotes it: what \<open>repr\<close> promises of a finite float.\<close>

fun float_ok :: "pyfloat \<Rightarrow> bool" where
  "float_ok PosInf = True"
| "float_ok NegInf = True"
| "float_ok NaN = True"
| "float_ok x = (scan_number (float_repr x) = Some (JFloat x, []))"

fun floats_ok :: "json \<Rightarrow> bool" where
  "floats_ok (JFloat x) = float_ok x"
| "floats_ok (JList vs) = (\<forall>v \<in> set vs. floats_ok v)"
| "floats_ok (JObj kvs) = (\<forall>kv \<in> set kvs. floats_ok (snd kv))"
| "floats_ok _ = True"

lemma skip_ws_sep:
  assumes "list_all is_ws w" "s \<noteq> []" "\<not> is_ws (hd s)"
  shows "skip_ws (w @ s) = s"
  using assms dropWhile_append_stop [of w is_ws s] by (auto simp: skip_ws_def list_all_iff)

lemma skip_ws_id: "s = [] \<or> \<not> is_ws (hd s) \<Longrightarrow> skip_ws s = s"
  by (auto simp: skip_ws_def dropWhile_eq_self_iff)

text \<open>The first character of a printed value.\<close>

lemma scan_number_first:
  assumes "scan_number s = Some (v, r)"
  shows "s \<noteq> [] \<and> (is_digit (hd s) \<or> hd s = CHR ''-'' \<and> tl s \<noteq> [] \<and> is_digit (hd (tl s)))"
proof -
  have digit: "t \<noteq> [] \<and> is_digit (hd t)" if "scan_int t = Some (ip, q)" for t ip q
    using that by (cases t) (auto simp: scan_int_def is_digit_def split: if_splits)
  show ?thesis
  proof (cases s)
    case Nil
    with assms show ?thesis by (simp add: scan_number_def scan_int_def)
  next
    case (Cons c cs)
    with assms obtain ip q where "scan_int (if c = CHR ''-'' then cs else s) = Some (ip, q)"
      by (cases "c = CHR ''-''") (auto simp: scan_number_def Let_def split: option.splits)
    from digit [OF this] Cons show ?thesis by (auto split: if_splits)
  qed
qed

lemma pvalue_number:
  assumes "scan_number s = Some (v, [])" "delim rest"
  shows "pvalue (Suc f) (s @ rest) = Some (v, rest)"
proof -
  from scan_number_first [OF assms(1)] obtain c cs
    where s: "s = c # cs" "is_digit c \<or> c = CHR ''-'' \<and> cs \<noteq> [] \<and> is_digit (hd cs)"
    by (cases s) auto
  then have c: "c \<noteq> CHR 0x22" "c \<noteq> CHR ''{''" "c \<noteq> CHR ''[''"
    by (auto simp: is_digit_def)
  have p: "\<not> starts_with (d # ds) (s @ rest)" if "d \<in> {CHR ''n'', CHR ''t'', CHR ''f'', CHR ''N'', CHR ''I''}" for d ds
    using that s by (auto simp: is_digit_def)
  have m: "\<not> starts_with ''-Infinity'' (s @ rest)"
    using s by (cases cs) (auto simp: is_digit_def)
  have "pvalue (Suc f) (s @ rest) = scan_number (s @ rest)"
    using c p m by (simp add: s(1) del: starts_with.simps)
  then show ?thesis by (simp add: scan_number_append [OF assms])
qed

definition good_start :: "string \<Rightarrow> bool" where
  "good_start s = (s \<noteq> [] \<and> \<not> is_ws (hd s) \<and> hd s \<notin> {CHR '']'', CHR ''}'', CHR '',''})"

lemma good_start_number: "scan_number s = Some (v, r) \<Longrightarrow> good_start s"
  using scan_number_first [of s v r] by (auto simp: good_start_def is_ws_def is_digit_def)

lemma good_start_dumps: "floats_ok v \<Longrightarrow> good_start (dumps cfg v)"
proof (cases v)
  case (JFloat x)
  assume "floats_ok v"
  with JFloat have ok: "float_ok x" by simp
  show ?thesis
  proof (cases "is_finite x")
    case True
    then have "float_dump x = float_repr x" "scan_number (float_repr x) = Some (JFloat x, [])"
      using ok by (cases x; simp)+
    then show ?thesis using JFloat by (simp add: good_start_number)
  next
    case False
    then show ?thesis using JFloat by (cases x) (auto simp: good_start_def is_ws_def)
  qed
next
  case (JInt i)
  then show ?thesis using good_start_number [OF scan_number_show_int] by simp
qed (auto simp: good_start_def is_ws_def quote_def)

lemma good_start_append: "good_start s \<Longrightarrow> good_start (s @ r)"
  by (auto simp: good_start_def)

lemma skip_ws_good: "good_start s \<Longrightarrow> skip_ws s = s"
  by (rule skip_ws_id) (simp add: good_start_def)

lemma expect_good:
  "good_start s \<Longrightarrow> c \<in> {CHR '']'', CHR ''}'', CHR '',''} \<Longrightarrow> expect c s = None"
  by (cases s) (auto simp: expect_def good_start_def)

lemma skip_ws_sep_good: "list_all is_ws w \<Longrightarrow> good_start s \<Longrightarrow> skip_ws (w @ s) = s"
  by (rule skip_ws_sep) (auto simp: good_start_def)

lemma dict_of_pairs_distinct:
  assumes "distinct (map fst kvs)"
  shows "dict_of_pairs kvs = kvs"
proof -
  have app: "AList.update k v d = d @ [(k, v)]" if "k \<notin> fst ` set d" for k and v :: json and d
    using that by (induction d) auto
  have "foldl (\<lambda>d kv. AList.update (fst kv) (snd kv) d) d kvs = d @ kvs"
    if "distinct (map fst (d @ kvs))" for d
    using assms that
  proof (induction kvs arbitrary: d)
    case (Cons kv kvs)
    then have "AList.update (fst kv) (snd kv) d = d @ [kv]" by (subst app) auto
    then show ?case using Cons.IH [of "d @ [kv]"] Cons.prems by simp
  qed simp
  from this [of "[]"] assms show ?thesis by (simp add: dict_of_pairs_def)
qed

text \<open>The elements of a list and the members of an object, given that each value reads back.\<close>

definition reads_back :: "dump_opts \<Rightarrow> json \<Rightarrow> bool" where
  "reads_back cfg v \<longleftrightarrow>
     (\<forall>f rest. length (dumps cfg v) \<le> f \<longrightarrow> delim rest \<longrightarrow>
        pvalue f (dumps cfg v @ rest) = Some (ordered cfg v, rest))"

lemma pelems_join:
  assumes "ok_opts cfg" "vs \<noteq> []"
    and "\<And>v. v \<in> set vs \<Longrightarrow> reads_back cfg v" and "\<And>v. v \<in> set vs \<Longrightarrow> floats_ok v"
    and "length (join (item_sep cfg) (map (dumps cfg) vs)) < f"
  shows "pelems f (join (item_sep cfg) (map (dumps cfg) vs) @ CHR '']'' # rest)
         = Some (map (ordered cfg) vs, rest)"
  using assms(2-)
proof (induction vs arbitrary: f)
  case Nil
  then show ?case by simp
next
  case (Cons v vs)
  obtain w where w: "item_sep cfg = CHR '','' # w" "list_all is_ws w"
    using assms(1) by (cases "item_sep cfg") (auto simp: ok_opts_def)
  from Cons.prems obtain g where f: "f = Suc g" by (cases f) auto
  let ?tail = "if vs = [] then [] else item_sep cfg @ join (item_sep cfg) (map (dumps cfg) vs)"
  have tx: "join (item_sep cfg) (dumps cfg v # map (dumps cfg) vs) = dumps cfg v @ ?tail"
    by (simp add: join_Cons)
  have total: "length (dumps cfg v @ ?tail) < Suc g" using Cons.prems(4) by (simp only: list.map tx f)
  then have len: "length (dumps cfg v) \<le> g" by simp
  have "delim (?tail @ CHR '']'' # rest)"
    using w by (auto simp: delim_def is_digit_def)
  with Cons.prems(2) [of v] len
  have v: "pvalue g (dumps cfg v @ ?tail @ CHR '']'' # rest) = Some (ordered cfg v, ?tail @ CHR '']'' # rest)"
    by (simp add: reads_back_def)
  show ?case
  proof (cases "vs = []")
    case True
    with v show ?thesis unfolding list.map tx f
      by (simp add: skip_ws_def is_ws_def expect_def)
  next
    case False
    let ?s = "join (item_sep cfg) (map (dumps cfg) vs) @ CHR '']'' # rest"
    have gs: "good_start ?s"
      using False Cons.prems(3) by (cases vs) (auto simp: join_Cons intro!: good_start_append good_start_dumps)
    have IH: "pelems g ?s = Some (map (ordered cfg) vs, rest)"
      using total False w by (intro Cons.IH Cons.prems) auto
    have "skip_ws (CHR '','' # w @ ?s) = CHR '','' # w @ ?s"
      by (simp add: skip_ws_def is_ws_def)
    with v w False show ?thesis unfolding list.map tx f
      by (simp add: expect_def skip_ws_sep_good [OF w(2) gs, unfolded w(1)] IH [unfolded w(1)])
  qed
qed

definition dump_member :: "dump_opts \<Rightarrow> string \<times> json \<Rightarrow> string" where
  "dump_member cfg kv = quote cfg (fst kv) @ key_sep cfg @ dumps cfg (snd kv)"

lemma good_start_member: "good_start (dump_member cfg kv @ r)"
  by (simp add: good_start_def dump_member_def quote_def is_ws_def)

lemma pmembers_join:
  assumes "ok_opts cfg" "kvs \<noteq> []"
    and "\<And>kv. kv \<in> set kvs \<Longrightarrow> reads_back cfg (snd kv)"
    and "\<And>kv. kv \<in> set kvs \<Longrightarrow> floats_ok (snd kv)"
    and "\<And>kv. kv \<in> set kvs \<Longrightarrow> text_ok cfg (fst kv)"
    and "length (join (item_sep cfg) (map (dump_member cfg) kvs)) < f"
  shows "pmembers f (join (item_sep cfg) (map (dump_member cfg) kvs) @ CHR ''}'' # rest)
         = Some (map (\<lambda>kv. (fst kv, ordered cfg (snd kv))) kvs, rest)"
  using assms(2-)
proof (induction kvs arbitrary: f)
  case Nil
  then show ?case by simp
next
  case (Cons kv kvs)
  obtain k v where kv: "kv = (k, v)" by (cases kv)
  obtain w where w: "item_sep cfg = CHR '','' # w" "list_all is_ws w"
    using assms(1) by (cases "item_sep cfg") (auto simp: ok_opts_def)
  obtain u where u: "key_sep cfg = CHR '':'' # u" "list_all is_ws u"
    using assms(1) by (cases "key_sep cfg") (auto simp: ok_opts_def)
  from Cons.prems obtain g where f: "f = Suc g" by (cases f) auto
  let ?tail = "if kvs = [] then [] else item_sep cfg @ join (item_sep cfg) (map (dump_member cfg) kvs)"
  have tx: "join (item_sep cfg) (dump_member cfg kv # map (dump_member cfg) kvs) = dump_member cfg kv @ ?tail"
    by (simp add: join_Cons)
  have total: "length (dump_member cfg kv @ ?tail) < Suc g"
    using Cons.prems(5) by (simp only: list.map tx f)
  then have len: "length (dumps cfg v) \<le> g" by (simp add: kv dump_member_def)
  let ?r = "?tail @ CHR ''}'' # rest"
  have "delim ?r" using w by (auto simp: delim_def is_digit_def)
  with Cons.prems(2) [of kv] len
  have v: "pvalue g (dumps cfg v @ ?r) = Some (ordered cfg v, ?r)"
    by (simp add: reads_back_def kv)
  have gd: "good_start (dumps cfg v @ ?r)"
    using Cons.prems(3) [of kv] by (intro good_start_append good_start_dumps) (simp add: kv)
  have key: "dump_member cfg kv @ ?r
      = CHR 0x22 # escaped cfg k @ CHR 0x22 # CHR '':'' # u @ dumps cfg v @ ?r"
    by (simp add: dump_member_def kv quote_def u)
  have sk: "scan_string (escaped cfg k @ CHR 0x22 # r) = Some (k, r)" for r
    using Cons.prems(4) [of kv] by (intro scan_string_quoted) (simp add: kv)
  have ws: "skip_ws (CHR '':'' # s) = CHR '':'' # s" "skip_ws (CHR '','' # s) = CHR '','' # s"
    "skip_ws (CHR ''}'' # s) = CHR ''}'' # s" for s
    by (simp_all add: skip_ws_def is_ws_def)
  show ?case
  proof (cases "kvs = []")
    case True
    with v gd key u show ?thesis unfolding list.map tx f append_assoc
      by (simp add: pkey_def expect_def sk ws skip_ws_sep_good kv)
  next
    case False
    let ?s = "join (item_sep cfg) (map (dump_member cfg) kvs) @ CHR ''}'' # rest"
    have gs: "good_start ?s"
      using False by (cases kvs) (auto simp: join_Cons good_start_member)
    have IH: "pmembers g ?s = Some (map (\<lambda>kv. (fst kv, ordered cfg (snd kv))) kvs, rest)"
      using total False w by (intro Cons.IH Cons.prems) auto
    from v gd key u w False show ?thesis unfolding list.map tx f append_assoc
      by (simp add: pkey_def expect_def sk ws skip_ws_sep_good skip_ws_sep_good [OF w(2) gs, unfolded w(1)] IH [unfolded w(1)] kv)
  qed
qed

lemma pvalue_scalar:
  "pvalue (Suc f) (''null'' @ r) = Some (JNull, r)"
  "pvalue (Suc f) (''true'' @ r) = Some (JBool True, r)"
  "pvalue (Suc f) (''false'' @ r) = Some (JBool False, r)"
  "text_ok cfg s \<Longrightarrow> pvalue (Suc f) (quote cfg s @ r) = Some (JStr s, r)"
  by (simp_all add: quote_def scan_string_quoted)

lemma reads_back_intro:
  assumes "dumps cfg v \<noteq> []" "\<And>f r. delim r \<Longrightarrow> pvalue (Suc f) (dumps cfg v @ r) = Some (ordered cfg v, r)"
  shows "reads_back cfg v"
  unfolding reads_back_def
proof (intro allI impI)
  fix f r assume "length (dumps cfg v) \<le> f" "delim r"
  with assms show "pvalue f (dumps cfg v @ r) = Some (ordered cfg v, r)"
    by (cases f) (simp_all del: pvalue.simps)
qed

lemma reads_back_scalar:
  "reads_back cfg JNull" "reads_back cfg (JBool b)" "text_ok cfg s \<Longrightarrow> reads_back cfg (JStr s)"
proof -
  show "reads_back cfg JNull" "text_ok cfg s \<Longrightarrow> reads_back cfg (JStr s)"
    using pvalue_scalar by (auto intro!: reads_back_intro simp: quote_def simp del: pvalue.simps)
  show "reads_back cfg (JBool b)"
    using pvalue_scalar by (cases b) (auto intro!: reads_back_intro simp del: pvalue.simps)
qed

lemma reads_back_number:
  assumes "scan_number (dumps cfg v) = Some (ordered cfg v, [])"
  shows "reads_back cfg v"
proof -
  from scan_number_first [OF assms] have "dumps cfg v \<noteq> []" by simp
  then show ?thesis using pvalue_number [OF assms] by (rule reads_back_intro)
qed

lemma reads_back_float: "float_ok x \<Longrightarrow> reads_back cfg (JFloat x)"
proof (cases "is_finite x")
  case True
  assume "float_ok x"
  with True show ?thesis by (cases x) (auto intro: reads_back_number)
next
  case False
  have "pvalue f (float_dump x @ rest) = Some (JFloat x, rest)" if "length (float_dump x) \<le> f" for f rest
    using that False by (cases f; cases x) auto
  then show ?thesis by (simp add: reads_back_def)
qed

lemma dumps_member_eq:
  "dumps cfg (JObj kvs) = CHR ''{'' # join (item_sep cfg) (map (dump_member cfg) (order_items cfg kvs)) @ ''}''"
proof -
  have "dump_member cfg = (\<lambda>kv. quote cfg (fst kv) @ key_sep cfg @ dumps cfg (snd kv))"
    by (simp add: dump_member_def fun_eq_iff)
  then show ?thesis by simp
qed

lemma distinct_order_items: "distinct (map fst kvs) \<Longrightarrow> distinct (map fst (order_items cfg kvs))"
  by (simp add: order_items_def distinct_map)

lemma expect_self [simp]: "expect c (c # r) = Some r"
  by (simp add: expect_def)

theorem reads_back_all: "ok_opts cfg \<Longrightarrow> texts_ok cfg v \<Longrightarrow> wf_json v \<Longrightarrow> floats_ok v \<Longrightarrow> reads_back cfg v"
proof (induction cfg v rule: dumps.induct)
  case (3 cfg i)
  show ?case by (rule reads_back_number) (simp add: scan_number_show_int)
next
  case (4 cfg x)
  then show ?case by (simp add: reads_back_float)
next
  case (6 cfg vs)
  have IH: "reads_back cfg v" "floats_ok v" if "v \<in> set vs" for v
    using 6 that by auto
  show ?case
  proof (cases "vs = []")
    case True
    then show ?thesis by (auto intro!: reads_back_intro simp: skip_ws_def is_ws_def)
  next
    case False
    let ?t = "join (item_sep cfg) (map (dumps cfg) vs)"
    have "good_start (?t @ r)" for r
      using False IH(2) by (cases vs) (auto simp: join_Cons intro!: good_start_append good_start_dumps)
    then have ws: "skip_ws (?t @ r) = ?t @ r" "expect (CHR '']'') (?t @ r) = None" for r
      by (simp_all add: skip_ws_good expect_good)
    have "pvalue f (dumps cfg (JList vs) @ r) = Some (ordered cfg (JList vs), r)"
      if "length (dumps cfg (JList vs)) \<le> f" for f r
    proof -
      from that obtain g where f: "f = Suc g" and g: "length ?t < g" by (cases f) auto
      from pelems_join [OF 6(2) False IH g] show ?thesis by (simp add: f ws)
    qed
    then show ?thesis by (simp add: reads_back_def)
  qed
next
  case (7 cfg kvs)
  let ?kvs = "order_items cfg kvs"
  have IH: "reads_back cfg (snd kv)" "floats_ok (snd kv)" "text_ok cfg (fst kv)" if "kv \<in> set ?kvs" for kv
    using 7 that by auto
  have dist: "distinct (map fst ?kvs)" using 7(4) by (simp add: distinct_order_items)
  show ?case
  proof (cases "?kvs = []")
    case True
    then have "dumps cfg (JObj kvs) = ''{}''" "ordered cfg (JObj kvs) = JObj []" by simp_all
    then show ?thesis by (auto intro!: reads_back_intro simp: skip_ws_def is_ws_def)
  next
    case False
    let ?t = "join (item_sep cfg) (map (dump_member cfg) ?kvs)"
    have "good_start (?t @ r)" for r
      using False by (cases ?kvs) (auto simp: join_Cons good_start_member)
    then have ws: "skip_ws (?t @ r) = ?t @ r" "expect (CHR ''}'') (?t @ r) = None" for r
      by (simp_all add: skip_ws_good expect_good)
    have d: "dict_of_pairs (map (\<lambda>kv. (fst kv, ordered cfg (snd kv))) ?kvs)
        = map (\<lambda>kv. (fst kv, ordered cfg (snd kv))) ?kvs"
      using dist by (intro dict_of_pairs_distinct) (simp add: comp_def)
    have "pvalue f (dumps cfg (JObj kvs) @ r) = Some (ordered cfg (JObj kvs), r)"
      if "length (dumps cfg (JObj kvs)) \<le> f" for f r
    proof -
      from that obtain g where f: "f = Suc g" and g: "length ?t < g"
        by (cases f) (auto simp: dumps_member_eq simp del: dumps.simps)
      from pmembers_join [OF 7(2) False IH g] show ?thesis
        by (simp add: f ws d dumps_member_eq del: dumps.simps)
    qed
    then show ?thesis by (simp add: reads_back_def)
  qed
qed (simp_all add: reads_back_scalar)

lemma loads_dumps:
  assumes "ok_opts cfg" "texts_ok cfg v" "wf_json v" "floats_ok v"
  shows "loads (dumps cfg v) = Inr (ordered cfg v)"
proof -
  have "skip_ws (dumps cfg v) = dumps cfg v"
    by (intro skip_ws_good good_start_dumps assms)
  moreover have "pvalue (2 * length (dumps cfg v) + 2) (dumps cfg v @ []) = Some (ordered cfg v, [])"
    using reads_back_all [OF assms] by (simp add: reads_back_def delim_def del: pvalue.simps)
  ultimately show ?thesis by (simp add: loads_def skip_ws_def del: pvalue.simps)
qed

lemma ordered_plain: "sort_keys cfg = False \<Longrightarrow> ordered cfg v = v"
proof (induction cfg v rule: ordered.induct)
  case (1 cfg vs)
  then show ?case by (simp add: map_idI)
next
  case (2 cfg kvs)
  then show ?case by (auto simp: order_items_def intro!: map_idI)
qed simp_all

text \<open>What is written without sorting the keys is read back as it was.\<close>

lemma loads_dumps_plain: "wf_json v \<Longrightarrow> floats_ok v \<Longrightarrow> loads (dumps plain_opts v) = Inr v"
  using loads_dumps [OF ok_plain texts_ok_simps(1), of v] ordered_plain [of plain_opts v]
  by (simp add: plain_opts_def)

lemma ok_default [simp]: "ok_opts default_opts"
  by (simp add: ok_opts_def default_opts_def is_ws_def)

lemma loads_dumps_default:
  "texts_ok default_opts v \<Longrightarrow> wf_json v \<Longrightarrow> floats_ok v \<Longrightarrow> loads (dumps default_opts v) = Inr v"
  using loads_dumps [OF ok_default, of v] ordered_plain [of default_opts v] by (simp add: default_opts_def)

section \<open>Enough fuel\<close>

text \<open>
  Every call of the reader leaves less text than it was given, so the fuel \<open>loads\<close> starts with is
  never the reason for a failure: any larger amount gives the same answer.
\<close>

lemma scan_string_length: "scan_string s = Some (t, r) \<Longrightarrow> length r < length s"
proof (induction s arbitrary: t r rule: measure_induct_rule [where f = length])
  case (less s)
  have IH: "length r' < length s" if "scan_string q = Some (u, r')" "length q < length s" for q u r'
    using less.IH [OF that(2) that(1)] that(2) by simp
  from less.prems show ?case
    by (subst (asm) scan_string.simps)
      (fastforce simp: prepend_eq_Some dest!: scan_u_length dest: IH split: list.splits if_splits option.splits)
qed

lemma length_skip_ws: "length (skip_ws s) \<le> length s"
  by (simp add: skip_ws_def length_dropWhile_le)

lemma expect_length: "expect c s = Some r \<Longrightarrow> length s = Suc (length r)"
  by (auto simp: expect_def split: list.splits if_splits)

lemma expect_ws_length: "expect c (skip_ws s) = Some r \<Longrightarrow> length r < length s"
  using expect_length [of c "skip_ws s" r] length_skip_ws [of s] by simp

lemma scan_exp_length: "scan_exp s = (ex, r) \<Longrightarrow> length r \<le> length s"
  by (auto simp: scan_exp_def exp_sign_def Let_def split: list.splits if_splits prod.splits
      intro: le_trans [OF length_dropWhile_le] le_SucI)

lemma scan_frac_length: "scan_frac s = (fr, r) \<Longrightarrow> length r \<le> length s"
  by (auto simp: scan_frac_def split: list.splits if_splits intro: le_trans [OF length_dropWhile_le])

lemma scan_int_length: "scan_int s = Some (ip, r) \<Longrightarrow> length r < length s"
  using length_dropWhile_le [of is_digit "tl s"]
  by (cases s) (auto simp: scan_int_def split: if_splits)

lemma scan_number_length: "scan_number s = Some (v, r) \<Longrightarrow> length r < length s"
proof -
  assume s: "scan_number s = Some (v, r)"
  let ?s1 = "if take 1 s = ''-'' then drop 1 s else s"
  from s obtain ip q where ip: "scan_int ?s1 = Some (ip, q)"
    by (auto simp: scan_number_def Let_def split: option.splits)
  obtain fr r1 where fr: "scan_frac q = (fr, r1)" by (cases "scan_frac q")
  obtain ex r2 where ex: "scan_exp r1 = (ex, r2)" by (cases "scan_exp r1")
  have "r = r2" using s ip fr ex by (auto simp: scan_number_def Let_def split: if_splits)
  then have "length r < length ?s1"
    using scan_int_length [OF ip] scan_frac_length [OF fr] scan_exp_length [OF ex] by (simp only:)
  then show ?thesis by (simp split: if_splits)
qed

lemma pkey_length: "pkey s = Some (k, r) \<Longrightarrow> length r < length s"
  using length_skip_ws
  by (fastforce simp: pkey_def dest!: expect_length [of "CHR 0x22"] scan_string_length expect_ws_length
      split: option.splits intro: le_less_trans)

lemma parse_length:
  "(pvalue f s = Some (v, r) \<longrightarrow> length r < length s) \<and>
   (pelems f s = Some (vs, r) \<longrightarrow> length r < length s) \<and>
   (pmembers f s = Some (kvs, r) \<longrightarrow> length r < length s)"
proof (induction f arbitrary: s v vs kvs r)
  case 0
  show ?case by simp
next
  case (Suc f)
  note IH = Suc.IH [THEN conjunct1, THEN mp] Suc.IH [THEN conjunct2, THEN conjunct1, THEN mp]
    Suc.IH [THEN conjunct2, THEN conjunct2, THEN mp]
  have val1: "length r < length s" if "pvalue (Suc f) s = Some (v, r)" for v
  proof -
    from that obtain c cs where s: "s = c # cs" by (cases s) auto
    note ws = length_skip_ws [of cs]
    consider "c = CHR 0x22" | "c = CHR ''{''" | "c = CHR ''[''"
      | "c \<noteq> CHR 0x22" "c \<noteq> CHR ''{''" "c \<noteq> CHR ''[''" by blast
    then show ?thesis
    proof cases
      case 1
      with that s show ?thesis by (auto dest!: scan_string_length split: option.splits)
    next
      case 2
      with that s have "expect (CHR ''}'') (skip_ws cs) = Some r \<or> (\<exists>kvs. pmembers f (skip_ws cs) = Some (kvs, r))"
        by (auto split: option.splits)
      with IH(3) [of "skip_ws cs" _ r] expect_ws_length [of "CHR ''}''" cs r] ws s show ?thesis
        by (auto intro: less_SucI)
    next
      case 3
      with that s have "expect (CHR '']'') (skip_ws cs) = Some r \<or> (\<exists>vs. pelems f (skip_ws cs) = Some (vs, r))"
        by (auto split: option.splits)
      with IH(2) [of "skip_ws cs" _ r] expect_ws_length [of "CHR '']''" cs r] ws s show ?thesis
        by (auto intro: less_SucI)
    next
      case 4
      with that s show ?thesis
        by (auto dest!: scan_number_length simp del: starts_with.simps split: if_splits)
    qed
  qed
  have elems: "length r < length s" if "pelems (Suc f) s = Some (vs, r)" for vs
  proof -
    from that obtain v q where v: "pvalue f s = Some (v, q)" by (auto split: option.splits)
    with that have "expect (CHR '']'') (skip_ws q) = Some r \<or>
        (\<exists>r1 vs. expect (CHR '','') (skip_ws q) = Some r1 \<and> pelems f (skip_ws r1) = Some (vs, r))"
      by (auto split: option.splits)
    then have "length r < length q"
      using expect_ws_length [of _ q] IH(2) length_skip_ws
      by (meson less_trans less_le_trans)
    with IH(1) [OF v] show ?thesis by simp
  qed
  have members: "length r < length s" if m: "pmembers (Suc f) s = Some (kvs, r)" for kvs
  proof -
    from m obtain k s1 v q where e: "pkey s = Some (k, s1)" "pvalue f s1 = Some (v, q)"
      by (auto split: option.splits)
    have q: "length q < length s" using pkey_length [OF e(1)] IH(1) [OF e(2)] by linarith
    from m e have "expect (CHR ''}'') (skip_ws q) = Some r \<or>
        (\<exists>r1 kvs. expect (CHR '','') (skip_ws q) = Some r1 \<and> pmembers f (skip_ws r1) = Some (kvs, r))"
      by (auto split: option.splits)
    then have "length r < length q"
      using expect_ws_length [of _ q] IH(3) length_skip_ws
      by (meson less_trans less_le_trans)
    with q show ?thesis by simp
  qed
  show ?case using val1 elems members by blast
qed

lemma parse_fuel:
  "(2 * length s < f \<longrightarrow> 2 * length s < g \<longrightarrow> pvalue f s = pvalue g s) \<and>
   (2 * length s + 1 < f \<longrightarrow> 2 * length s + 1 < g \<longrightarrow> pelems f s = pelems g s) \<and>
   (2 * length s + 1 < f \<longrightarrow> 2 * length s + 1 < g \<longrightarrow> pmembers f s = pmembers g s)"
proof (induction f arbitrary: g s)
  case 0
  show ?case by simp
next
  case (Suc f)
  note IH = Suc.IH [THEN conjunct1, rule_format] Suc.IH [THEN conjunct2, THEN conjunct1, rule_format]
    Suc.IH [THEN conjunct2, THEN conjunct2, rule_format]
  note len = parse_length [THEN conjunct1, THEN mp] parse_length [THEN conjunct2, THEN conjunct1, THEN mp]
    parse_length [THEN conjunct2, THEN conjunct2, THEN mp]
  have v: "pvalue (Suc f) s = pvalue (Suc h) s" if "2 * length s < Suc f" "2 * length s < Suc h" for h
  proof (cases s)
    case (Cons c cs)
    have "2 * length (skip_ws cs) + 1 < f" "2 * length (skip_ws cs) + 1 < h"
      using that Cons length_skip_ws [of cs] by simp_all
    then have "pelems f (skip_ws cs) = pelems h (skip_ws cs)" "pmembers f (skip_ws cs) = pmembers h (skip_ws cs)"
      using IH(2) [of "skip_ws cs" h] IH(3) [of "skip_ws cs" h] by auto
    with Cons show ?thesis by (simp cong: option.case_cong del: starts_with.simps)
  qed simp
  have tail: "pelems f (skip_ws r1) = pelems h (skip_ws r1)" "pmembers f (skip_ws r1) = pmembers h (skip_ws r1)"
    if "2 * length s + 1 < Suc f" "2 * length s + 1 < Suc h" "length r1 < length s" for r1 h
    using that length_skip_ws [of r1] by (intro IH; simp)+
  have e: "pelems (Suc f) s = pelems (Suc h) s" if b: "2 * length s + 1 < Suc f" "2 * length s + 1 < Suc h" for h
  proof -
    have pv: "pvalue f s = pvalue h s" using b by (intro IH) simp_all
    show ?thesis
    proof (cases "pvalue h s")
      case None
      with pv show ?thesis by simp
    next
      case (Some p)
      obtain w q where p: "p = (w, q)" by (cases p)
      with Some have q: "length q < length s" using len(1) by blast
      show ?thesis
        using pv Some p tail(1) [OF b less_trans [OF expect_ws_length q]]
        by (simp cong: option.case_cong)
    qed
  qed
  have m: "pmembers (Suc f) s = pmembers (Suc h) s" if b: "2 * length s + 1 < Suc f" "2 * length s + 1 < Suc h" for h
  proof (cases "pkey s")
    case None
    then show ?thesis by simp
  next
    case (Some ks)
    obtain k s1 where ks: "ks = (k, s1)" by (cases ks)
    with Some have s1: "length s1 < length s" by (simp add: pkey_length)
    then have pv: "pvalue f s1 = pvalue h s1" using b by (intro IH) simp_all
    show ?thesis
    proof (cases "pvalue h s1")
      case None
      with pv Some ks show ?thesis by simp
    next
      case (Some p)
      obtain w q where p: "p = (w, q)" by (cases p)
      with Some have "length q < length s1" using len(1) by blast
      with s1 have q: "length q < length s" by simp
      show ?thesis
        using pv \<open>pkey s = Some ks\<close> ks Some p tail(2) [OF b less_trans [OF expect_ws_length q]]
        by (simp cong: option.case_cong)
    qed
  qed
  show ?case using v e m by (cases g) blast+
qed

lemma pvalue_fuel: "2 * length s < f \<Longrightarrow> 2 * length s < g \<Longrightarrow> pvalue f s = pvalue g s"
  using parse_fuel by blast

end
