(* ===== verification/Store.thy ===== *)
theory Store
  imports Iso_Time Json_Roundtrip
begin

text \<open>
  \<open>gateway/omp/core/store.py\<close>: the SQLite database of the gateway as a record of tables. Every
  method runs in one transaction: it returns a result and the new state, and on an exception the
  state is the one it started from. SQLite's part is what its documentation says of the statements
  the code sends: \<open>AUTOINCREMENT\<close> never gives a row id twice, \<open>UNIQUE\<close> rejects a second row,
  an integer is bound to 64 bits.

  The size of the database file (\<open>page_count * page_size\<close>) is a parameter, a function of the state.
\<close>

section \<open>Tables\<close>

record buf_row =
  rowid :: int
  row_machine :: string
  row_seq :: int
  row_envelope :: string
  row_stored_at :: "string option"

record prune_row =
  pruned_at :: string
  prune_rows :: int
  prune_reason :: string
  oldest_seq :: "int option"
  newest_seq :: "int option"

record dead_row =
  dead_machine :: string
  received_ts :: string
  dead_body :: string
  dead_error :: string

text \<open>
  \<open>autoinc\<close> is the row of \<open>buffer\<close> in \<open>sqlite_sequence\<close>. The prune log and the dead letters are
  in the order of their row ids, which only grows.
\<close>

record store =
  seq_counters :: "int dict"
  buffer :: "buf_row list"
  autoinc :: int
  prune_log :: "prune_row list"
  dead_table :: "dead_row list"
  cursors :: "int dict"

definition empty_store :: store where
  "empty_store = \<lparr>seq_counters = [], buffer = [], autoinc = 0, prune_log = [], dead_table = [], cursors = []\<rparr>"

text \<open>\<open>__init__\<close> on a buffer without the \<open>stored_at\<close> column: the added column is \<open>NULL\<close>.\<close>

definition add_stored_at :: "(int \<times> string \<times> int \<times> string) list \<Rightarrow> buf_row list" where
  "add_stored_at rows =
     map (\<lambda>(r, m, s, e). \<lparr>rowid = r, row_machine = m, row_seq = s, row_envelope = e, row_stored_at = None\<rparr>) rows"

section \<open>Binding of values\<close>

definition max_int64 :: int where "max_int64 = 2 ^ 63 - 1"

definition bind_int :: "int \<Rightarrow> int res" where
  "bind_int i = (if - max_int64 - 1 \<le> i \<and> i \<le> max_int64 then Inr i else Inl OverflowError)"

text \<open>A text column and an integer column; the code passes no other type.\<close>

fun bind_text :: "json \<Rightarrow> string res" where
  "bind_text (JStr s) = Inr s"
| "bind_text _ = Inl TypeError"

fun bind_integer :: "json \<Rightarrow> int res" where
  "bind_integer (JInt i) = bind_int i"
| "bind_integer _ = Inl TypeError"

text \<open>A transaction: the new state is kept only when no exception left the \<open>with\<close> block.\<close>

definition transact :: "'s \<Rightarrow> ('a \<times> 's) res \<Rightarrow> 'a res \<times> 's" where
  "transact st r = (case r of Inl e \<Rightarrow> (Inl e, st) | Inr (x, st') \<Rightarrow> (Inr x, st'))"

text \<open>\<open>t or _now_iso()\<close>\<close>

definition clock_or :: "datetime \<Rightarrow> string option \<Rightarrow> string" where
  "clock_or clock now = (case now of Some t \<Rightarrow> if t = [] then now_iso clock else t | None \<Rightarrow> now_iso clock)"

section \<open>Sequence numbers\<close>

definition last_seq :: "store \<Rightarrow> string \<Rightarrow> int" where
  "last_seq st machine_id = dict_get (seq_counters st) machine_id 0"

definition next_seq :: "string \<Rightarrow> store \<Rightarrow> int res \<times> store" where
  "next_seq machine_id st = transact st
     (res_bind (bind_int (last_seq st machine_id + 1)) (\<lambda>seq.
       Inr (seq, st\<lparr>seq_counters := AList.update machine_id seq (seq_counters st)\<rparr>)))"

section \<open>Buffer\<close>

text \<open>\<open>INSERT\<close> into the table with the \<open>AUTOINCREMENT\<close> key and the \<open>UNIQUE\<close> constraint\<close>

definition insert_row :: "string \<Rightarrow> int \<Rightarrow> string \<Rightarrow> string \<Rightarrow> store \<Rightarrow> (unit \<times> store) res" where
  "insert_row m s e written st =
     (let r = Max (insert (autoinc st) (set (map rowid (buffer st)))) + 1 in
      if \<exists>b \<in> set (buffer st). row_machine b = m \<and> row_seq b = s then Inl IntegrityError
      else if r > max_int64 then Inl DatabaseFull
      else Inr ((), st\<lparr>autoinc := r,
             buffer := buffer st @ [\<lparr>rowid = r, row_machine = m, row_seq = s, row_envelope = e,
                                    row_stored_at = Some written\<rparr>]\<rparr>))"

definition append_row :: "datetime \<Rightarrow> json dict \<Rightarrow> string option \<Rightarrow> store \<Rightarrow> unit res \<times> store" where
  "append_row clock envelope stored_at st = transact st
     (res_bind (dict_item envelope ''machine_id'') (\<lambda>m.
      res_bind (dict_item envelope ''seq'') (\<lambda>s.
      res_bind (bind_text m) (\<lambda>m. res_bind (bind_integer s) (\<lambda>s.
        insert_row m s (dumps plain_opts (JObj envelope))
          (clock_or clock stored_at) st)))))"

text \<open>\<open>LIMIT n\<close>: a negative limit is none.\<close>

definition sql_limit :: "int \<Rightarrow> 'a list \<Rightarrow> 'a list" where
  "sql_limit n xs = (if n < 0 then xs else take (nat n) xs)"

definition cursor :: "store \<Rightarrow> string \<Rightarrow> int" where
  "cursor st exporter = dict_get (cursors st) exporter 0"

definition rows_after :: "int \<Rightarrow> store \<Rightarrow> buf_row list" where
  "rows_after after st = filter (\<lambda>b. rowid b > after) (sort_key rowid (buffer st))"

definition pending :: "string \<Rightarrow> int \<Rightarrow> store \<Rightarrow> (int \<times> json) list res" where
  "pending exporter limit st =
     res_bind (bind_int limit) (\<lambda>limit.
       res_map (\<lambda>b. res_bind (loads (row_envelope b)) (\<lambda>v. Inr (rowid b, v)))
         (sql_limit limit (rows_after (cursor st exporter) st)))"

definition ack :: "string \<Rightarrow> int \<Rightarrow> store \<Rightarrow> unit res \<times> store" where
  "ack exporter r st = transact st
     (res_bind (bind_int r) (\<lambda>r. Inr ((), st\<lparr>cursors := AList.update exporter r (cursors st)\<rparr>)))"

section \<open>Retention\<close>

record prune_result =
  pruned :: int
  result_reason :: string
  safe_upto :: "int option"

text \<open>\<open>f"{n}"\<close> of a number\<close>

fun show_num :: "json \<Rightarrow> string" where
  "show_num (JInt i) = show_int i"
| "show_num (JFloat x) = float_repr x"
| "show_num (JBool b) = (if b then ''True'' else ''False'')"
| "show_num _ = []"

definition aged :: "int \<Rightarrow> string \<Rightarrow> buf_row \<Rightarrow> bool" where
  "aged bound cutoff b = (rowid b \<le> bound \<and> (case row_stored_at b of None \<Rightarrow> False | Some t \<Rightarrow> t < cutoff))"

text \<open>\<open>MIN(seq)\<close> and \<open>MAX(seq)\<close>, \<open>NULL\<close> for no row\<close>

definition sql_agg :: "(int set \<Rightarrow> int) \<Rightarrow> buf_row list \<Rightarrow> int option" where
  "sql_agg f rows = (if rows = [] then None else Some (f (set (map row_seq rows))))"

definition safe_bound :: "string list \<Rightarrow> store \<Rightarrow> int" where
  "safe_bound exporters st = Min (set (map (cursor st) exporters))"

text \<open>The deletions and the record of them, once the bound and the cut-off are known.\<close>

definition prune_delivered ::
  "(store \<Rightarrow> int) \<Rightarrow> string \<Rightarrow> json \<Rightarrow> int option \<Rightarrow> int \<Rightarrow> string \<Rightarrow> store \<Rightarrow> prune_result \<times> store" where
  "prune_delivered db_bytes now retention_days max_bytes bound cutoff st =
     (let old = filter (aged bound cutoff) (buffer st);
          n = int (length old); lo = sql_agg Min old; hi = sql_agg Max old;
          st1 = (if n \<noteq> 0 then st\<lparr>buffer := filter (\<lambda>b. \<not> aged bound cutoff b) (buffer st)\<rparr> else st);
          reason1 = (if n \<noteq> 0 then ''older than '' @ show_num retention_days @ ''d'' else []);
          over = (case max_bytes of None \<Rightarrow> False | Some b \<Rightarrow> db_bytes st1 > b);
          extra = (if over then int (length (filter (\<lambda>b. rowid b \<le> bound) (buffer st1))) else 0);
          st2 = (if extra \<noteq> 0 then st1\<lparr>buffer := filter (\<lambda>b. \<not> rowid b \<le> bound) (buffer st1)\<rparr> else st1);
          deleted = n + extra;
          reason2 = (if extra \<noteq> 0
                     then (if reason1 \<noteq> [] then reason1 @ '' + '' else [])
                       @ ''disk over '' @ show_int (the max_bytes) @ ''B''
                     else reason1);
          st3 = (if deleted \<noteq> 0
                 then st2\<lparr>prune_log := prune_log st2 @
                   [\<lparr>pruned_at = now, prune_rows = deleted, prune_reason = reason2,
                     oldest_seq = lo, newest_seq = hi\<rparr>]\<rparr>
                 else st2)
      in (\<lparr>pruned = deleted,
            result_reason = (if reason2 = [] then ''nothing eligible'' else reason2),
            safe_upto = Some bound\<rparr>, st3))"

definition prune ::
  "(store \<Rightarrow> int) \<Rightarrow> datetime \<Rightarrow> string list \<Rightarrow> json \<Rightarrow> int option \<Rightarrow> string option \<Rightarrow> store
     \<Rightarrow> prune_result res \<times> store" where
  "prune db_bytes clock exporters retention_days max_bytes now st =
     transact st
       (if exporters = [] then
          Inr (\<lparr>pruned = 0, result_reason = ''no exporters configured'', safe_upto = None\<rparr>, st)
        else if safe_bound exporters st \<le> 0 then
          Inr (\<lparr>pruned = 0, result_reason = ''an exporter has delivered nothing yet'', safe_upto = None\<rparr>, st)
        else
          res_bind (iso_minus_days (clock_or clock now) retention_days) (\<lambda>cutoff.
            Inr (prune_delivered db_bytes (clock_or clock now) retention_days max_bytes
                   (safe_bound exporters st) cutoff st)))"

definition prune_history :: "int \<Rightarrow> store \<Rightarrow> (string \<times> int \<times> string) list res" where
  "prune_history limit st =
     res_bind (bind_int limit) (\<lambda>limit.
       Inr (map (\<lambda>p. (pruned_at p, prune_rows p, prune_reason p)) (sql_limit limit (rev (prune_log st)))))"

section \<open>Introspection\<close>

record snapshot =
  snap_machines :: "int dict"
  snap_buffered :: int
  snap_dead_letters :: int
  snap_cursors :: "int dict"
  snap_db_bytes :: int
  snap_recent_prunes :: "(string \<times> int \<times> string) list"

definition snapshot_of :: "(store \<Rightarrow> int) \<Rightarrow> store \<Rightarrow> snapshot res" where
  "snapshot_of db_bytes st =
     res_bind (prune_history 3 st) (\<lambda>ps.
       Inr \<lparr>snap_machines = seq_counters st, snap_buffered = int (length (buffer st)),
            snap_dead_letters = int (length (dead_table st)), snap_cursors = cursors st,
            snap_db_bytes = db_bytes st, snap_recent_prunes = ps\<rparr>)"

section \<open>Dead letters\<close>

definition dead_letter :: "string \<Rightarrow> string \<Rightarrow> json dict \<Rightarrow> string \<Rightarrow> store \<Rightarrow> unit res \<times> store" where
  "dead_letter machine_id ts body error st = transact st
     (Inr ((), st\<lparr>dead_table := dead_table st @
        [\<lparr>dead_machine = machine_id, received_ts = ts, dead_body = dumps plain_opts (JObj body),
          dead_error = error\<rparr>]\<rparr>))"

definition dead_letters :: "int \<Rightarrow> store \<Rightarrow> (string \<times> string \<times> json \<times> string) list res" where
  "dead_letters limit st =
     res_bind (bind_int limit) (\<lambda>limit.
       res_map (\<lambda>d. res_bind (loads (dead_body d)) (\<lambda>b. Inr (dead_machine d, received_ts d, b, dead_error d)))
         (sql_limit limit (rev (dead_table st))))"

section \<open>The invariant of the database\<close>

text \<open>
  An envelope the gateway stores: a JSON object that survives printing and parsing, with the
  machine and the number of its row.
\<close>

definition stored_envelope :: "json dict \<Rightarrow> string \<Rightarrow> int \<Rightarrow> bool" where
  "stored_envelope env m s =
     (wf_json (JObj env) \<and> floats_ok (JObj env)
      \<and> map_of env ''machine_id'' = Some (JStr m) \<and> map_of env ''seq'' = Some (JInt s))"

definition row_ok :: "buf_row \<Rightarrow> bool" where
  "row_ok b = (case loads (row_envelope b) of
     Inr (JObj env) \<Rightarrow> stored_envelope env (row_machine b) (row_seq b)
   | _ \<Rightarrow> False)"

definition wf_store :: "store \<Rightarrow> bool" where
  "wf_store st =
     (sorted_wrt (<) (map rowid (buffer st))
      \<and> (\<forall>b \<in> set (buffer st). 0 < rowid b \<and> rowid b \<le> autoinc st \<and> row_ok b)
      \<and> 0 \<le> autoinc st \<and> autoinc st \<le> max_int64
      \<and> distinct (map (\<lambda>b. (row_machine b, row_seq b)) (buffer st))
      \<and> wf_dict (seq_counters st) \<and> wf_dict (cursors st)
      \<and> (\<forall>(m, s) \<in> set (seq_counters st). 0 < s \<and> s \<le> max_int64)
      \<and> (\<forall>(x, r) \<in> set (cursors st). 0 \<le> r \<and> r \<le> autoinc st))"

lemma wf_store_D:
  assumes "wf_store st"
  shows "sorted_wrt (<) (map rowid (buffer st))" "b \<in> set (buffer st) \<Longrightarrow> 0 < rowid b"
    "b \<in> set (buffer st) \<Longrightarrow> rowid b \<le> autoinc st" "b \<in> set (buffer st) \<Longrightarrow> row_ok b"
    "0 \<le> autoinc st" "distinct (map (\<lambda>b. (row_machine b, row_seq b)) (buffer st))"
    "wf_dict (seq_counters st)" "wf_dict (cursors st)"
    "(m, s) \<in> set (seq_counters st) \<Longrightarrow> 0 < s \<and> s \<le> max_int64"
    "(x, r) \<in> set (cursors st) \<Longrightarrow> 0 \<le> r \<and> r \<le> autoinc st" "autoinc st \<le> max_int64"
  using assms unfolding wf_store_def by auto

lemma wf_empty_store: "wf_store empty_store"
  by (simp add: wf_store_def empty_store_def max_int64_def)

lemma last_seq_bounds: "wf_store st \<Longrightarrow> 0 \<le> last_seq st m \<and> last_seq st m \<le> max_int64"
  using wf_store_D(9) [of st m] 
  by (fastforce simp: last_seq_def dict_get_def max_int64_def split: option.split dest: map_of_SomeD)

lemma cursor_bounds: "wf_store st \<Longrightarrow> 0 \<le> cursor st x \<and> cursor st x \<le> autoinc st"
  using wf_store_D(5) [of st] wf_store_D(10) [of st x]
  by (fastforce simp: cursor_def dict_get_def split: option.split dest: map_of_SomeD)

section \<open>Sequence numbers: each one is new\<close>

lemma transact_simps [simp]:
  "transact st (Inl e) = (Inl e, st)" "transact st (Inr (x, st')) = (Inr x, st')"
  by (simp_all add: transact_def)

lemma next_seq_eq:
  "wf_store st \<Longrightarrow> next_seq m st =
     (if last_seq st m = max_int64 then (Inl OverflowError, st)
      else (Inr (last_seq st m + 1),
            st\<lparr>seq_counters := AList.update m (last_seq st m + 1) (seq_counters st)\<rparr>))"
  using last_seq_bounds [of st m] by (auto simp: next_seq_def bind_int_def max_int64_def)

lemma last_seq_update [simp]:
  "last_seq (st\<lparr>seq_counters := AList.update m s (seq_counters st)\<rparr>) m' = (if m' = m then s else last_seq st m')"
  by (simp add: last_seq_def dict_get_def)

lemma set_AList_update: "set (AList.update k v d) \<subseteq> insert (k, v) (set d)"
  by (induction d) auto

lemma next_seq_wf:
  assumes "wf_store st" "next_seq m st = (r, st')"
  shows "wf_store st'"
  using assms last_seq_bounds [of st m] set_AList_update [of m "last_seq st m + 1" "seq_counters st"]
  by (auto simp: next_seq_eq wf_store_def split: if_splits)

lemma next_seq_ok:
  assumes "wf_store st" "next_seq m st = (Inr s, st')"
  shows "s = last_seq st m + 1" "last_seq st' m' = (if m' = m then s else last_seq st m')"
    "buffer st' = buffer st" "autoinc st' = autoinc st" "cursors st' = cursors st"
    "dead_table st' = dead_table st" "prune_log st' = prune_log st" "0 < s" "s \<le> max_int64"
  using assms last_seq_bounds [of st m] by (auto simp: next_seq_eq split: if_splits)

section \<open>Appending\<close>

lemma row_ids_sorted: "wf_store st \<Longrightarrow> sort_key rowid (buffer st) = buffer st"
  using wf_store_D(1) [of st] by (intro sort_key_id_if_sorted) (simp add: strict_sorted_iff sorted_map)

lemma wf_max_rowid: "wf_store st \<Longrightarrow> Max (insert (autoinc st) (set (map rowid (buffer st)))) = autoinc st"
  using wf_store_D(3) [of st] wf_store_D(5) [of st] by (intro Max_eqI) auto

lemma loads_stored:
  "stored_envelope env m s \<Longrightarrow> loads (dumps plain_opts (JObj env)) = Inr (JObj env)"
  by (simp add: stored_envelope_def loads_dumps_plain del: dumps.simps wf_json.simps floats_ok.simps)

lemma row_ok_stored:
  "stored_envelope env m s \<Longrightarrow>
     row_ok \<lparr>rowid = r, row_machine = m, row_seq = s, row_envelope = dumps plain_opts (JObj env), row_stored_at = a\<rparr>"
  by (simp add: row_ok_def loads_stored del: dumps.simps)

text \<open>The row \<open>append_row\<close> adds.\<close>

definition new_row :: "datetime \<Rightarrow> json dict \<Rightarrow> string \<Rightarrow> int \<Rightarrow> string option \<Rightarrow> store \<Rightarrow> buf_row" where
  "new_row clock env m s stored_at st =
     \<lparr>rowid = autoinc st + 1, row_machine = m, row_seq = s, row_envelope = dumps plain_opts (JObj env),
      row_stored_at = Some (clock_or clock stored_at)\<rparr>"

lemma append_row_eq:
  assumes "wf_store st" "stored_envelope env m s" "- max_int64 - 1 \<le> s" "s \<le> max_int64"
  shows "append_row clock env stored_at st =
     (if \<exists>b \<in> set (buffer st). row_machine b = m \<and> row_seq b = s then (Inl IntegrityError, st)
      else if autoinc st = max_int64 then (Inl DatabaseFull, st)
      else (Inr (), st\<lparr>autoinc := autoinc st + 1, buffer := buffer st @ [new_row clock env m s stored_at st]\<rparr>))"
  using assms wf_max_rowid [OF assms(1)] wf_store_D(11) [OF assms(1)]
  by (auto simp: append_row_def insert_row_def stored_envelope_def dict_item_def bind_int_def new_row_def Let_def
      simp del: dumps.simps wf_json.simps floats_ok.simps)

lemma append_row_error: "append_row clock env stored_at st = (Inl e, st') \<Longrightarrow> st' = st"
  by (auto simp: append_row_def transact_def split: sum.splits)

lemma append_row_wf:
  assumes "wf_store st" "stored_envelope env m s" "- max_int64 - 1 \<le> s" "s \<le> max_int64"
    "append_row clock env stored_at st = (r, st')"
  shows "wf_store st'"
proof (cases "st' = st")
  case False
  with assms append_row_eq [OF assms(1-4)] have st': "st' = st\<lparr>autoinc := autoinc st + 1,
      buffer := buffer st @ [new_row clock env m s stored_at st]\<rparr>"
    and new: "\<not> (\<exists>b \<in> set (buffer st). row_machine b = m \<and> row_seq b = s)" "autoinc st \<noteq> max_int64"
    by (auto split: if_splits)
  have "row_ok (new_row clock env m s stored_at st)"
    unfolding new_row_def by (rule row_ok_stored [OF assms(2)])
  with new assms(1) show ?thesis unfolding st'
    by (fastforce simp: wf_store_def sorted_wrt_append new_row_def simp del: dumps.simps)
qed (use assms in simp)

section \<open>What an exporter has still to deliver\<close>

definition decode :: "buf_row \<Rightarrow> json" where
  "decode b = (case loads (row_envelope b) of Inr v \<Rightarrow> v | Inl e \<Rightarrow> JNull)"

definition undelivered :: "string \<Rightarrow> store \<Rightarrow> (int \<times> json) list" where
  "undelivered x st = map (\<lambda>b. (rowid b, decode b)) (filter (\<lambda>b. rowid b > cursor st x) (buffer st))"

lemma row_ok_loads: "row_ok b \<Longrightarrow> loads (row_envelope b) = Inr (decode b)"
  by (simp add: row_ok_def decode_def split: sum.splits)

lemma set_sql_limit: "set (sql_limit n xs) \<subseteq> set xs"
  by (auto simp: sql_limit_def dest: in_set_takeD)

lemma sql_limit_map: "sql_limit n (map f xs) = map f (sql_limit n xs)"
  by (simp add: sql_limit_def take_map)

lemma pending_eq:
  assumes "wf_store st" "bind_int n = Inr n"
  shows "pending x n st = Inr (sql_limit n (undelivered x st))"
proof -
  let ?rows = "sql_limit n (rows_after (cursor st x) st)"
  have "loads (row_envelope b) = Inr (decode b)" if "b \<in> set ?rows" for b
    using that set_sql_limit [of n "rows_after (cursor st x) st"] wf_store_D(4) [OF assms(1), of b]
    by (auto simp: rows_after_def intro: row_ok_loads)
  then have "res_map (\<lambda>b. res_bind (loads (row_envelope b)) (\<lambda>v. Inr (rowid b, v))) ?rows
    = Inr (map (\<lambda>b. (rowid b, decode b)) ?rows)"
    by (intro res_map_all_Inr) simp
  with assms show ?thesis
    by (simp add: pending_def undelivered_def sql_limit_map rows_after_def row_ids_sorted)
qed

lemma decode_new_row: "stored_envelope env m s \<Longrightarrow> decode (new_row clock env m s a st) = JObj env"
  by (simp add: decode_def new_row_def loads_stored del: dumps.simps)

lemma undelivered_append:
  assumes "wf_store st" "stored_envelope env m s" "- max_int64 - 1 \<le> s" "s \<le> max_int64"
    "append_row clock env stored_at st = (Inr u, st')"
  shows "undelivered x st' = undelivered x st @ [(autoinc st + 1, JObj env)]"
    "seq_counters st' = seq_counters st" "cursors st' = cursors st" "dead_table st' = dead_table st"
    "\<not> (\<exists>b \<in> set (buffer st). row_machine b = m \<and> row_seq b = s)"
proof -
  from assms(5) append_row_eq [OF assms(1-4)] have st': "st' = st\<lparr>autoinc := autoinc st + 1,
      buffer := buffer st @ [new_row clock env m s stored_at st]\<rparr>"
    and new: "\<not> (\<exists>b \<in> set (buffer st). row_machine b = m \<and> row_seq b = s)"
    by (auto split: if_splits)
  show "\<not> (\<exists>b \<in> set (buffer st). row_machine b = m \<and> row_seq b = s)" by (rule new)
  show "undelivered x st' = undelivered x st @ [(autoinc st + 1, JObj env)]"
    using cursor_bounds [OF assms(1), of x] decode_new_row [OF assms(2), of clock stored_at st]
    by (simp add: undelivered_def st' cursor_def) (simp add: new_row_def)
qed (use assms(5) append_row_eq [OF assms(1-4)] in \<open>auto split: if_splits\<close>)

lemma cursor_update [simp]:
  "cursor (st\<lparr>cursors := AList.update x r (cursors st)\<rparr>) y = (if y = x then r else cursor st y)"
  by (simp add: cursor_def dict_get_def)

lemma ack_eq:
  "- max_int64 - 1 \<le> r \<Longrightarrow> r \<le> max_int64 \<Longrightarrow>
     ack x r st = (Inr (), st\<lparr>cursors := AList.update x r (cursors st)\<rparr>)"
  by (simp add: ack_def bind_int_def)

lemma undelivered_ack:
  assumes "cursor st x \<le> r" "r \<le> max_int64" "- max_int64 - 1 \<le> r" "ack x r st = (u, st')"
  shows "undelivered x st' = filter (\<lambda>(i, v). r < i) (undelivered x st)"
    "y \<noteq> x \<Longrightarrow> undelivered y st' = undelivered y st"
    "buffer st' = buffer st" "seq_counters st' = seq_counters st" "dead_table st' = dead_table st"
proof -
  from assms ack_eq have st': "st' = st\<lparr>cursors := AList.update x r (cursors st)\<rparr>" by auto
  have "filter (\<lambda>b. r < rowid b) (buffer st)
    = filter (\<lambda>b. r < rowid b) (filter (\<lambda>b. cursor st x < rowid b) (buffer st))"
    using assms(1) by (auto intro: filter_cong)
  then show "undelivered x st' = filter (\<lambda>(i, v). r < i) (undelivered x st)"
    by (simp add: undelivered_def st' filter_map comp_def del: filter_filter)
  show "y \<noteq> x \<Longrightarrow> undelivered y st' = undelivered y st" by (simp add: undelivered_def st')
qed (use assms ack_eq in auto)

lemma ack_wf:
  assumes "wf_store st" "0 \<le> r" "r \<le> autoinc st" "ack x r st = (u, st')"
  shows "wf_store st'"
proof (cases "st' = st")
  case False
  then have "st' = st\<lparr>cursors := AList.update x r (cursors st)\<rparr>"
    using assms(4) by (auto simp: ack_def transact_def bind_int_def split: if_splits)
  then show ?thesis
    using assms set_AList_update [of x r "cursors st"] by (auto simp: wf_store_def)
qed (use assms in simp)

section \<open>Retention: what a prune deletes\<close>

text \<open>The rows left after the two deletions.\<close>

definition kept_by_age :: "int \<Rightarrow> string \<Rightarrow> store \<Rightarrow> buf_row list" where
  "kept_by_age bound cutoff st = filter (\<lambda>b. \<not> aged bound cutoff b) (buffer st)"

definition over_size :: "(store \<Rightarrow> int) \<Rightarrow> int option \<Rightarrow> store \<Rightarrow> bool" where
  "over_size db_bytes max_bytes st = (case max_bytes of None \<Rightarrow> False | Some b \<Rightarrow> db_bytes st > b)"

definition kept_rows :: "(store \<Rightarrow> int) \<Rightarrow> int option \<Rightarrow> int \<Rightarrow> string \<Rightarrow> store \<Rightarrow> buf_row list" where
  "kept_rows db_bytes max_bytes bound cutoff st =
     (let k = kept_by_age bound cutoff st in
      if over_size db_bytes max_bytes (st\<lparr>buffer := k\<rparr>) then filter (\<lambda>b. \<not> rowid b \<le> bound) k else k)"

lemma filter_none: "filter P xs = [] \<Longrightarrow> filter (\<lambda>x. \<not> P x) xs = xs"
  by (induction xs) (auto split: if_splits)

lemma filter_length_0: "length (filter P xs) = 0 \<Longrightarrow> filter (\<lambda>x. \<not> P x) xs = xs"
  by (simp add: filter_none)

lemma length_filter_not: "int (length (filter P xs)) = int (length xs) - int (length (filter (\<lambda>x. \<not> P x) xs))"
  by (induction xs) auto

lemma prune_idle:
  "exporters = [] \<or> safe_bound exporters st \<le> 0 \<Longrightarrow>
     snd (prune db_bytes clock exporters days max_bytes now st) = st
     \<and> (\<exists>r. fst (prune db_bytes clock exporters days max_bytes now st) = Inr r \<and> pruned r = 0)"
  by (auto simp: prune_def)

lemma prune_error: "prune db_bytes clock exporters days max_bytes now st = (Inl e, st') \<Longrightarrow> st' = st"
  by (auto simp: prune_def transact_def split: sum.splits)

lemma buffer_update_id: "buffer st = b \<Longrightarrow> st\<lparr>buffer := b\<rparr> = (st :: store)"
  by (cases st) simp

lemma prune_delivered_run:
  assumes "prune_delivered db_bytes now days max_bytes bound cutoff st = (res, st')"
  shows "buffer st' = kept_rows db_bytes max_bytes bound cutoff st"
    "pruned res = int (length (buffer st)) - int (length (buffer st'))" "safe_upto res = Some bound"
    "seq_counters st' = seq_counters st" "cursors st' = cursors st" "autoinc st' = autoinc st"
    "dead_table st' = dead_table st"
    "(buffer st' = buffer st \<and> prune_log st' = prune_log st) \<or>
     (\<exists>p. prune_log st' = prune_log st @ [p] \<and> prune_rows p = pruned res \<and> 0 < pruned res \<and> pruned_at p = now)"
proof -
  define old where "old = filter (aged bound cutoff) (buffer st)"
  define k where "k = kept_by_age bound cutoff st"
  define over where "over = over_size db_bytes max_bytes (st\<lparr>buffer := k\<rparr>)"
  define extra where "extra = (if over then filter (\<lambda>b. rowid b \<le> bound) k else [])"
  have k_len: "int (length old) = int (length (buffer st)) - int (length k)"
    unfolding old_def k_def kept_by_age_def by (rule length_filter_not)
  have k_id: "old = [] \<Longrightarrow> k = buffer st"
    unfolding old_def k_def kept_by_age_def by (rule filter_none)
  then have st1: "(if int (length old) \<noteq> 0 then st\<lparr>buffer := k\<rparr> else st) = st\<lparr>buffer := k\<rparr>"
    by (auto intro: buffer_update_id [symmetric])
  let ?k2 = "kept_rows db_bytes max_bytes bound cutoff st"
  have k2: "?k2 = (if over then filter (\<lambda>b. \<not> rowid b \<le> bound) k else k)"
    by (simp add: kept_rows_def k_def over_def Let_def)
  have extra_len: "int (length extra) = int (length k) - int (length ?k2)"
    unfolding k2 extra_def by (cases over) (simp_all add: length_filter_not [of "\<lambda>b. rowid b \<le> bound"])
  have k2_id: "extra = [] \<Longrightarrow> ?k2 = k"
    unfolding k2 extra_def using filter_none [of "\<lambda>b. rowid b \<le> bound" k] by (cases over) auto
  have k2_over: "extra \<noteq> [] \<Longrightarrow> ?k2 = filter (\<lambda>b. \<not> rowid b \<le> bound) k"
    by (simp add: extra_def k2 split: if_splits)
  have st2: "(if int (length extra) \<noteq> 0 then st\<lparr>buffer := filter (\<lambda>b. \<not> rowid b \<le> bound) k\<rparr> else st\<lparr>buffer := k\<rparr>)
    = st\<lparr>buffer := ?k2\<rparr>"
    using k2_id k2_over by (cases "extra = []") auto
  have extra_if: "(if over then int (length (filter (\<lambda>b. rowid b \<le> bound) k)) else 0) = int (length extra)"
    by (simp add: extra_def)
  define deleted where "deleted = int (length old) + int (length extra)"
  have total: "deleted = int (length (buffer st)) - int (length ?k2)"
    using k_len extra_len by (simp add: deleted_def)
  have same: "deleted = 0 \<Longrightarrow> ?k2 = buffer st"
    using k_id k2_id by (simp add: deleted_def flip: of_nat_add)
  have ov: "(case max_bytes of None \<Rightarrow> False | Some b \<Rightarrow> b < db_bytes (st\<lparr>buffer := k\<rparr>)) = over"
    by (simp add: over_def over_size_def)
  have old': "filter (aged bound cutoff) (buffer st) = old" "filter (\<lambda>b. \<not> aged bound cutoff b) (buffer st) = k"
    by (simp_all add: old_def k_def kept_by_age_def)
  have sel: "buffer (st\<lparr>buffer := k\<rparr>) = k" "prune_log (st\<lparr>buffer := b\<rparr>) = prune_log st"
    "st\<lparr>buffer := k\<rparr>\<lparr>buffer := b\<rparr> = st\<lparr>buffer := b\<rparr>" for b by simp_all
  note body = assms [unfolded prune_delivered_def Let_def old' st1 sel ov extra_if st2 deleted_def [symmetric]]
  have res: "pruned res = deleted" "safe_upto res = Some bound" using body by auto
  have zero: "st' = st\<lparr>buffer := ?k2\<rparr>" if "deleted = 0" using body that by auto
  have pos: "\<exists>p. st' = st\<lparr>buffer := ?k2, prune_log := prune_log st @ [p]\<rparr> \<and> prune_rows p = deleted \<and> pruned_at p = now"
    if "deleted \<noteq> 0"
    using body that by (elim Pair_inject) (simp only: if_True if_False, force)
  show "buffer st' = ?k2" "pruned res = int (length (buffer st)) - int (length (buffer st'))"
    "safe_upto res = Some bound"
    "seq_counters st' = seq_counters st" "cursors st' = cursors st" "autoinc st' = autoinc st"
    "dead_table st' = dead_table st"
    using res total zero pos by (cases "deleted = 0"; force)+
  show "(buffer st' = buffer st \<and> prune_log st' = prune_log st) \<or>
     (\<exists>p. prune_log st' = prune_log st @ [p] \<and> prune_rows p = pruned res \<and> 0 < pruned res \<and> pruned_at p = now)"
    using res zero pos same by (cases "deleted = 0") (auto simp: deleted_def)
qed

lemma kept_rows_D:
  assumes "b \<in> set (buffer st)" "b \<notin> set (kept_rows db_bytes max_bytes bound cutoff st)"
  shows "rowid b \<le> bound"
    "aged bound cutoff b \<or> over_size db_bytes max_bytes (st\<lparr>buffer := kept_by_age bound cutoff st\<rparr>)"
  using assms by (auto simp: kept_rows_def kept_by_age_def aged_def Let_def split: if_splits)

lemma kept_rows_filter: "\<exists>P. kept_rows db_bytes max_bytes bound cutoff st = filter P (buffer st)
  \<and> (\<forall>b. bound < rowid b \<longrightarrow> P b)"
  by (cases "over_size db_bytes max_bytes (st\<lparr>buffer := kept_by_age bound cutoff st\<rparr>)")
    (auto simp: kept_rows_def kept_by_age_def Let_def aged_def)

text \<open>Every run of \<open>prune\<close> that returns: what it leaves alone, and where it deletes.\<close>

lemma prune_ok:
  assumes "prune db_bytes clock exporters days max_bytes now st = (Inr res, st')"
  shows "seq_counters st' = seq_counters st" "cursors st' = cursors st" "autoinc st' = autoinc st"
    "dead_table st' = dead_table st"
    "\<exists>P. buffer st' = filter P (buffer st)
       \<and> (\<forall>b x. x \<in> set exporters \<longrightarrow> cursor st x < rowid b \<longrightarrow> P b)"
    "pruned res = int (length (buffer st)) - int (length (buffer st'))"
proof -
  have idle: "st' = st \<and> pruned res = 0" if "exporters = [] \<or> safe_bound exporters st \<le> 0"
    using prune_idle [OF that, of db_bytes clock days max_bytes now] assms by auto
  have "seq_counters st' = seq_counters st \<and> cursors st' = cursors st \<and> autoinc st' = autoinc st
    \<and> dead_table st' = dead_table st
    \<and> (\<exists>P. buffer st' = filter P (buffer st) \<and> (\<forall>b x. x \<in> set exporters \<longrightarrow> cursor st x < rowid b \<longrightarrow> P b))
    \<and> pruned res = int (length (buffer st)) - int (length (buffer st'))"
  proof (cases "exporters = [] \<or> safe_bound exporters st \<le> 0")
    case True
    then show ?thesis using idle by (auto intro!: exI [of _ "\<lambda>_. True"])
  next
    case False
    let ?bound = "safe_bound exporters st"
    from False assms obtain cutoff where
      run: "prune_delivered db_bytes (clock_or clock now) days max_bytes ?bound cutoff st = (res, st')"
      by (auto simp: prune_def transact_def res_inv split: sum.splits)
    obtain P where P: "kept_rows db_bytes max_bytes ?bound cutoff st = filter P (buffer st)"
      "\<forall>b. ?bound < rowid b \<longrightarrow> P b" using kept_rows_filter by blast
    have "?bound \<le> cursor st x" if "x \<in> set exporters" for x
      unfolding safe_bound_def using that by (intro Min_le) auto
    with P have "\<forall>b x. x \<in> set exporters \<longrightarrow> cursor st x < rowid b \<longrightarrow> P b" by force
    with P(1) prune_delivered_run [OF run] show ?thesis by (intro conjI) auto
  qed
  then show "seq_counters st' = seq_counters st" "cursors st' = cursors st" "autoinc st' = autoinc st"
    "dead_table st' = dead_table st"
    "\<exists>P. buffer st' = filter P (buffer st)
       \<and> (\<forall>b x. x \<in> set exporters \<longrightarrow> cursor st x < rowid b \<longrightarrow> P b)"
    "pruned res = int (length (buffer st)) - int (length (buffer st'))"
    by blast+
qed

lemma undelivered_prune:
  assumes "prune db_bytes clock exporters days max_bytes now st = (Inr res, st')" "x \<in> set exporters"
  shows "undelivered x st' = undelivered x st"
proof -
  have c: "cursor st' x = cursor st x" by (simp add: cursor_def prune_ok(2) [OF assms(1)])
  from prune_ok(5) [OF assms(1)] obtain P where "buffer st' = filter P (buffer st)"
    "\<forall>b. cursor st x < rowid b \<longrightarrow> P b" using assms(2) by blast
  then have "filter (\<lambda>b. cursor st x < rowid b) (buffer st') = filter (\<lambda>b. cursor st x < rowid b) (buffer st)"
    by (auto intro: filter_cong)
  with c show ?thesis by (simp add: undelivered_def)
qed

lemma sorted_wrt_filter_map: "sorted_wrt R (map f xs) \<Longrightarrow> sorted_wrt R (map f (filter P xs))"
  by (induction xs) auto

lemma prune_wf:
  assumes "wf_store st" "prune db_bytes clock exporters days max_bytes now st = (r, st')"
  shows "wf_store st'"
proof (cases r)
  case (Inl e)
  with assms show ?thesis using prune_error by fast
next
  case (Inr res)
  note run = assms(2) [unfolded Inr]
  from prune_ok(5) [OF run] obtain P where b: "buffer st' = filter P (buffer st)" by blast
  have "distinct (map (\<lambda>b. (row_machine b, row_seq b)) (filter P (buffer st)))"
    using wf_store_D(6) [OF assms(1)] by (simp add: distinct_map_filter)
  with assms(1) show ?thesis
    unfolding wf_store_def prune_ok(1-3) [OF run] b
    by (auto intro: sorted_wrt_filter_map)
qed

text \<open>
  The hard rule of the retention: a row that some configured exporter has not been acknowledged
  for survives every prune.
\<close>

lemma prune_keeps_undelivered_row:
  assumes "prune db_bytes clock exporters days max_bytes now st = (r, st')" "x \<in> set exporters"
    "b \<in> set (buffer st)" "cursor st x < rowid b"
  shows "b \<in> set (buffer st')"
proof (cases r)
  case (Inl e)
  with assms prune_error show ?thesis by fast
next
  case (Inr res)
  with prune_ok(5) [OF assms(1) [unfolded Inr]] assms(2-4) show ?thesis by auto
qed

text \<open>
  With no size bound, exactly the rows are deleted that every exporter has acknowledged and whose millisecond is before
  that of the cut-off, which lies \<open>d\<close> microseconds before the millisecond of the clock.
\<close>

lemma prune_by_age:
  assumes "valid_datetime clock" "timedelta_days days = Inr d" "0 \<le> d" "int year_1000_ms * 1000 + d \<le> int (instant_ms clock) * 1000"
    "exporters \<noteq> []"
    "prune db_bytes clock exporters days None None st = (r, st')"
    "b \<in> set (buffer st)" "row_stored_at b = Some (iso_text t)" "valid_datetime t" "1000 \<le> dt_year t"
    "0 < rowid b"
  shows "b \<in> set (buffer st') \<longleftrightarrow>
     \<not> ((\<forall>x \<in> set exporters. rowid b \<le> cursor st x)
        \<and> int (instant_ms t) < (int (instant_ms clock) * 1000 - d) div 1000)"
proof -
  obtain c where c: "iso_minus_days (iso_text clock) days = Inr (iso_text c)"
    "valid_datetime c" "1000 \<le> dt_year c" "int (instant_ms c) = (int (instant_ms clock) * 1000 - d) div 1000"
    using iso_minus_total [OF assms(1-4)] by blast
  have all: "rowid b \<le> safe_bound exporters st \<longleftrightarrow> (\<forall>x \<in> set exporters. rowid b \<le> cursor st x)"
    using assms(5) by (simp add: safe_bound_def)
  show ?thesis
  proof (cases "safe_bound exporters st \<le> 0")
    case True
    then have "st' = st" using prune_idle [of exporters st db_bytes clock days None None] assms(6) by auto
    with True all assms(7,11) show ?thesis by auto
  next
    case False
    have now: "clock_or clock None = iso_text clock" by (simp add: clock_or_def now_iso_def)
    obtain res where "prune_delivered db_bytes (iso_text clock) days None
      (safe_bound exporters st) (iso_text c) st = (res, st')"
      using False assms(5,6) c(1) now by (auto simp: prune_def transact_def split: prod.splits)
    from prune_delivered_run(1) [OF this] have "buffer st' = kept_by_age (safe_bound exporters st) (iso_text c) st"
      by (simp add: kept_rows_def over_size_def Let_def)
    moreover have "iso_text t < iso_text c \<longleftrightarrow> int (instant_ms t) < (int (instant_ms clock) * 1000 - d) div 1000"
      using iso_text_less_iff [OF assms(9,10) c(2,3)] c(4) by linarith
    ultimately show ?thesis using assms(7,8) all by (auto simp: kept_by_age_def aged_def)
  qed
qed

section \<open>Sample data\<close>

definition leap_day :: datetime where
  "leap_day = \<lparr>dt_year = 2024, dt_month = 2, dt_day = 29, dt_hour = 0, dt_minute = 0, dt_second = 0, dt_us = 500\<rparr>"

definition march_first :: datetime where
  "march_first = \<lparr>dt_year = 2024, dt_month = 3, dt_day = 1, dt_hour = 0, dt_minute = 0, dt_second = 1, dt_us = 0\<rparr>"

definition sample_row :: "int \<Rightarrow> buf_row" where
  "sample_row i = \<lparr>rowid = i, row_machine = ''m-01'', row_seq = i, row_envelope = ''{}'',
     row_stored_at = Some (iso_text leap_day)\<rparr>"

definition sample_store :: store where
  "sample_store = \<lparr>seq_counters = [(''m-01'', 2)], buffer = [sample_row 1, sample_row 2], autoinc = 2,
     prune_log = [], dead_table = [], cursors = [(''mqtt'', 1)]\<rparr>"

lemma days_before_march: "days_before_month y 2 = 31" "days_before_month y 3 = 31 + days_in_month y 2"
  using days_before_month_Suc [of 1 y] days_before_month_Suc [of 2 y]
  by (simp_all add: numeral_2_eq_2 numeral_3_eq_3 days_in_month_def)

lemma sample_instants: "instant_ms leap_day + 86400000 < instant_ms march_first"
  "86400000 + year_1000_ms \<le> instant_ms march_first"
  by (simp_all add: instant_ms_eq to_ordinal_def leap_day_def march_first_def days_before_year_def
      days_before_march days_in_month_def is_leap_def year_1000_ms_def)

lemma sample_valid: "valid_datetime leap_day" "valid_datetime march_first"
  by (simp_all add: valid_datetime_def leap_day_def march_first_def days_in_month_def is_leap_def)

section \<open>Properties\<close>

text \<open>C5: The hard rule of the retention: a buffered row that some configured exporter has not acknowledged survives
  every prune, for every retention period, size bound and database size.\<close>

theorem prune_never_loses:
  assumes "prune db_bytes clock exporters days max_bytes now st = (r, st')" "x \<in> set exporters"
    "b \<in> set (buffer st)" "cursor st x < rowid b"
  shows "b \<in> set (buffer st')"
  using assms by (rule prune_keeps_undelivered_row)

theorem prune_never_loses_witness:
  "\<exists>r st'. prune (\<lambda>_. 10) march_first [''mqtt''] (JInt 1) (Some 0) None sample_store = (r, st')
     \<and> sample_row 2 \<in> set (buffer st')"
proof -
  obtain r st' where p: "prune (\<lambda>_. 10) march_first [''mqtt''] (JInt 1) (Some 0) None sample_store = (r, st')"
    by (cases "prune (\<lambda>_. 10) march_first [''mqtt''] (JInt 1) (Some 0) None sample_store")
  have "sample_row 2 \<in> set (buffer st')"
    by (rule prune_never_loses [OF p, of "''mqtt''"])
      (simp_all add: sample_store_def sample_row_def cursor_def dict_get_def)
  with p show ?thesis by blast
qed

text \<open>C25: With no size bound, a prune deletes exactly the rows that every exporter has acknowledged and that were stored
  longer ago than the retention. The retention is any integer or float number of days, \<open>d\<close> microseconds as \<open>timedelta\<close>
  rounds them; a row is old when the millisecond it was stored in is before the millisecond that lies \<open>d\<close> before that of
  the clock, so comparing the stored text with the text of the cut-off is comparing instants. For at least one exporter,
  rows with a time stamp of the gateway's form, and nothing before the year 1000.\<close>

theorem prune_age_exact:
  assumes "valid_datetime clock" "timedelta_days days = Inr d" "0 \<le> d" "int year_1000_ms * 1000 + d \<le> int (instant_ms clock) * 1000"
    "exporters \<noteq> []"
    "prune db_bytes clock exporters days None None st = (r, st')"
    "b \<in> set (buffer st)" "row_stored_at b = Some (iso_text t)" "valid_datetime t" "1000 \<le> dt_year t"
    "0 < rowid b"
  shows "b \<in> set (buffer st') \<longleftrightarrow>
     \<not> ((\<forall>x \<in> set exporters. rowid b \<le> cursor st x)
        \<and> int (instant_ms t) < (int (instant_ms clock) * 1000 - d) div 1000)"
  using assms by (rule prune_by_age)

theorem prune_age_exact_witness:
  "\<exists>r st'. prune (\<lambda>_. 0) march_first [''mqtt''] (JFloat (Fin 1)) None None sample_store = (r, st')
     \<and> sample_row 1 \<notin> set (buffer st') \<and> sample_row 2 \<in> set (buffer st')"
proof -
  obtain r st' where p: "prune (\<lambda>_. 0) march_first [''mqtt''] (JFloat (Fin 1)) None None sample_store = (r, st')"
    by (cases "prune (\<lambda>_. 0) march_first [''mqtt''] (JFloat (Fin 1)) None None sample_store")
  have d: "timedelta_days (JFloat (Fin 1)) = Inr (int day_us)"
    by (simp add: float_us_def trunc_rat_def to_double_def round_half_even_def timedelta_us_def day_us_def)
  have y: "1000 \<le> dt_year leap_day" by (simp add: leap_day_def)
  have b: "sample_row i \<in> set (buffer sample_store)" "row_stored_at (sample_row i) = Some (iso_text leap_day)"
    "0 < rowid (sample_row i)" "rowid (sample_row i) = i" if "i = 1 \<or> i = 2" for i
    using that by (auto simp: sample_store_def sample_row_def)
  have c: "cursor sample_store ''mqtt'' = 1" by (simp add: sample_store_def cursor_def dict_get_def)
  have "sample_row i \<in> set (buffer st') \<longleftrightarrow> \<not> i \<le> 1" if "i = 1 \<or> i = 2" for i
    using prune_age_exact [OF sample_valid(2) d _ _ _ p b(1,2) [OF that] sample_valid(1) y b(3) [OF that]]
      sample_instants b(4) [OF that] c by (simp add: day_us_def)
  then show ?thesis using p by auto
qed

text \<open>Append then read: the envelope just appended is the last one pending for every exporter, equal to what was
  given, and what was pending before is unchanged.\<close>

theorem append_then_pending:
  assumes "wf_store st" "stored_envelope env m s" "- max_int64 - 1 \<le> s" "s \<le> max_int64"
    "append_row clock env stored_at st = (Inr u, st')" "pending x (-1) st = Inr rows"
  shows "pending x (-1) st' = Inr (rows @ [(autoinc st', JObj env)])"
proof -
  have b: "bind_int (-1) = Inr (-1)" by (simp add: bind_int_def max_int64_def)
  have "autoinc st' = autoinc st + 1" "wf_store st'"
    using append_row_eq [OF assms(1-4)] append_row_wf [OF assms(1-5)] assms(5) by (auto split: if_splits)
  with undelivered_append(1) [OF assms(1-5), of x] assms(6) show ?thesis
    by (simp add: pending_eq [OF _ b] assms(1) sql_limit_def)
qed

theorem append_then_pending_witness:
  "\<exists>st'. append_row march_first [(''machine_id'', JStr ''m''), (''seq'', JInt 1)] None empty_store = (Inr (), st')
     \<and> pending ''mqtt'' (-1) st' = Inr [(1, JObj [(''machine_id'', JStr ''m''), (''seq'', JInt 1)])]"
proof -
  let ?env = "[(''machine_id'', JStr ''m''), (''seq'', JInt 1)]"
  have env: "stored_envelope ?env ''m'' 1" by (simp add: stored_envelope_def)
  have bounds: "- max_int64 - 1 \<le> (1 :: int)" "(1 :: int) \<le> max_int64" by (simp_all add: max_int64_def)
  obtain st' where a: "append_row march_first ?env None empty_store = (Inr (), st')" "autoinc st' = 1"
    unfolding append_row_eq [OF wf_empty_store env bounds] by (simp add: empty_store_def max_int64_def)
  have "pending ''mqtt'' (-1) empty_store = Inr []"
    by (simp add: pending_def bind_int_def max_int64_def rows_after_def empty_store_def sql_limit_def)
  from append_then_pending [OF wf_empty_store env bounds a(1) this] a show ?thesis by simp
qed

end
