(* ===== verification/Envelope.thy ===== *)
theory Envelope
  imports Json_Roundtrip
begin

text \<open>
  \<open>tools/omp_tools/envelope.py\<close>: the number check, the canonical serialisation of a body, its
  checksum, and the construction of an envelope. The hash is a parameter \<open>H\<close>, the hex digest of
  the SHA-256 of a byte string.

  A body or an envelope is a dict, \<^typ>\<open>json dict\<close>.
\<close>

section \<open>repr of a string\<close>

definition repr_char :: "char \<Rightarrow> char \<Rightarrow> string" where
  "repr_char q c =
     (let n = (of_char c :: nat) in
      if c = q \<or> n = 92 then [CHR 0x5C, c]
      else if n = 10 then CHR 0x5C # ''n'' else if n = 13 then CHR 0x5C # ''r''
      else if n = 9 then CHR 0x5C # ''t''
      else if n < 32 \<or> n = 127 then CHR 0x5C # ''x'' @ hex2 n
      else [c])"

definition repr_str :: "string \<Rightarrow> string" where
  "repr_str s =
     (let q = (if CHR 0x27 \<in> set s \<and> CHR 0x22 \<notin> set s then CHR 0x22 else CHR 0x27)
      in q # concat (map (repr_char q) s) @ [q])"

section \<open>Numbers\<close>

definition core_schemas :: "string list" where
  "core_schemas = [''machine'', ''event'', ''process_run'', ''energy'', ''telemetry'']"

text \<open>\<open>value == int(value)\<close> of a finite float\<close>

definition is_integral :: "pyfloat \<Rightarrow> bool" where
  "is_integral x = (fval x = of_int (trunc_rat (fval x)))"

fun first_error :: "unit res list \<Rightarrow> unit res" where
  "first_error [] = Inr ()"
| "first_error (Inl e # ms) = Inl e"
| "first_error (Inr u # ms) = first_error ms"

lemma first_error_ok: "first_error ms = Inr () \<longleftrightarrow> (\<forall>m \<in> set ms. m = Inr ())"
  by (induction ms rule: first_error.induct) auto

lemma first_error_bad: "first_error ms = Inl e \<Longrightarrow> Inl e \<in> set ms"
  by (induction ms rule: first_error.induct) auto

function check_numbers :: "json \<Rightarrow> string \<Rightarrow> unit res" where
  "check_numbers (JFloat x) path =
     (if \<not> is_finite x then Inl (ValueError (''non-finite number at '' @ path))
      else if \<not> is_integral x then
        Inl (ValueError (''non-integral float at '' @ path
          @ '': full RFC 8785 serialization required - keep producer values integral or add a JCS library''))
      else Inr ())"
| "check_numbers (JObj kvs) path =
     first_error (map (\<lambda>kv. check_numbers (snd kv) (path @ ''.'' @ fst kv)) kvs)"
| "check_numbers (JList vs) path =
     first_error (map (\<lambda>iv. check_numbers (snd iv) (path @ ''['' @ show_nat (fst iv) @ '']''))
       (enumerate 0 vs))"
| "check_numbers JNull path = Inr ()"
| "check_numbers (JBool b) path = Inr ()"
| "check_numbers (JInt i) path = Inr ()"
| "check_numbers (JStr s) path = Inr ()"
  by pat_completeness auto
termination
proof (relation "measure (\<lambda>(v, _). size v)", goal_cases)
  case (2 kvs path kv)
  obtain k v where kv: "kv = (k, v)" by (cases kv)
  with 2 have "(k, v) \<in> set kvs" by simp
  then have "size v < Suc (size_list (size_prod (\<lambda>_. 0) size) kvs)"
    by (induction kvs) auto
  then show ?case by (simp add: kv)
next
  case (3 vs path iv)
  then have "snd iv \<in> set vs" by (metis in_set_enumerate_eq nth_mem add_0 less_diff_conv2 zero_le)
  then show ?case by (simp add: less_Suc_eq_le size_list_estimation')
qed simp

text \<open>What passes: every float finite and integral, at every level.\<close>

fun integral_floats :: "json \<Rightarrow> bool" where
  "integral_floats (JFloat x) = (is_finite x \<and> is_integral x)"
| "integral_floats (JObj kvs) = (\<forall>kv \<in> set kvs. integral_floats (snd kv))"
| "integral_floats (JList vs) = (\<forall>v \<in> set vs. integral_floats v)"
| "integral_floats _ = True"

lemma snd_enumerate: "snd ` set (enumerate n vs) = set vs"
  by (metis map_snd_enumerate set_map)

lemma check_numbers_iff: "check_numbers v path = Inr () \<longleftrightarrow> integral_floats v"
proof (induction v path rule: check_numbers.induct)
  case (3 vs path)
  then show ?case by (auto simp: first_error_ok simp flip: snd_enumerate [of 0 vs])
qed (auto simp: first_error_ok)

lemma check_numbers_error: "check_numbers v path = Inl e \<Longrightarrow> \<exists>m. e = ValueError m"
proof (induction v path rule: check_numbers.induct)
  case (2 kvs path)
  then show ?case by (fastforce dest: first_error_bad)
next
  case (3 vs path)
  then show ?case by (fastforce dest: first_error_bad)
qed (auto split: if_splits)

section \<open>Canonical form and checksum\<close>

definition canonicalize :: "json dict \<Rightarrow> string res" where
  "canonicalize body =
     res_bind (check_numbers (JObj body) ''$'') (\<lambda>_. Inr (dumps canonical_opts (JObj body)))"

definition checksum :: "(string \<Rightarrow> string) \<Rightarrow> json dict \<Rightarrow> string res" where
  "checksum H body = res_bind (canonicalize body) (\<lambda>s. Inr (H s))"

text \<open>
  The same value up to the order of keys in objects, without reference to sorting or printing; as Python holds it, an
  integer is not a float.
\<close>

inductive jequiv :: "json \<Rightarrow> json \<Rightarrow> bool" where
  jequiv_null: "jequiv JNull JNull"
| jequiv_bool: "jequiv (JBool b) (JBool b)"
| jequiv_int: "jequiv (JInt i) (JInt i)"
| jequiv_float: "jequiv (JFloat x) (JFloat x)"
| jequiv_str: "jequiv (JStr s) (JStr s)"
| jequiv_list: "list_all2 jequiv vs ws \<Longrightarrow> jequiv (JList vs) (JList ws)"
| jequiv_obj: "fst ` set kvs = fst ` set lvs \<Longrightarrow>
    (\<And>k v w. (k, v) \<in> set kvs \<Longrightarrow> (k, w) \<in> set lvs \<Longrightarrow> jequiv v w) \<Longrightarrow>
    jequiv (JObj kvs) (JObj lvs)"

abbreviation canon_items :: "json dict \<Rightarrow> json dict" where
  "canon_items kvs \<equiv> map (\<lambda>kv. (fst kv, ordered canonical_opts (snd kv))) (sort_key fst kvs)"

lemma ordered_canonical_obj: "ordered canonical_opts (JObj kvs) = JObj (canon_items kvs)"
  by (simp add: order_items_def canonical_opts_def)

lemma canon_items_props:
  "sorted (map fst (canon_items kvs))" "map fst (canon_items kvs) = map fst (sort_key fst kvs)"
  "distinct (map fst kvs) \<Longrightarrow> distinct (map fst (canon_items kvs))"
  by (simp_all add: comp_def distinct_map)

lemma wf_json_member: "wf_json (JObj kvs) \<Longrightarrow> (k, v) \<in> set kvs \<Longrightarrow> wf_json v"
  by fastforce

lemma canon_items_member: "(k, v) \<in> set kvs \<Longrightarrow> (k, ordered canonical_opts v) \<in> set (canon_items kvs)"
  by force

lemma canon_items_obtain:
  assumes "x \<in> set (canon_items kvs)"
  obtains k v where "(k, v) \<in> set kvs" "x = (k, ordered canonical_opts v)"
  using assms by (auto simp del: ordered.simps)

lemma same_keys_obtain:
  assumes "fst ` set kvs = fst ` set lvs" "(k, v) \<in> set kvs"
  obtains w where "(k, w) \<in> set lvs"
proof -
  have "k \<in> fst ` set lvs" using assms by force
  then show thesis using that by auto
qed

lemma jequiv_ordered:
  "jequiv v w \<Longrightarrow> wf_json v \<Longrightarrow> wf_json w \<Longrightarrow> ordered canonical_opts v = ordered canonical_opts w"
proof (induction rule: jequiv.induct)
  case (jequiv_list vs ws)
  then show ?case by (auto simp: list_all2_conv_all_nth intro!: nth_equalityI)
next
  case (jequiv_obj kvs lvs)
  have eq: "ordered canonical_opts v = ordered canonical_opts w"
    if "(k, v) \<in> set kvs" "(k, w) \<in> set lvs" for k v w
    using jequiv_obj.IH [OF that] wf_json_member [OF jequiv_obj.prems(1) that(1)]
      wf_json_member [OF jequiv_obj.prems(2) that(2)] by blast
  have "set (canon_items kvs) = set (canon_items lvs)"
  proof (intro set_eqI iffI)
    fix x assume "x \<in> set (canon_items kvs)"
    then obtain k v where x: "(k, v) \<in> set kvs" "x = (k, ordered canonical_opts v)"
      by (rule canon_items_obtain)
    obtain w where "(k, w) \<in> set lvs" using same_keys_obtain [OF jequiv_obj.hyps(1) x(1)] .
    with x eq [OF x(1)] canon_items_member [of k w lvs] show "x \<in> set (canon_items lvs)" by metis
  next
    fix x assume "x \<in> set (canon_items lvs)"
    then obtain k w where x: "(k, w) \<in> set lvs" "x = (k, ordered canonical_opts w)"
      by (rule canon_items_obtain)
    obtain v where "(k, v) \<in> set kvs"
      using same_keys_obtain [OF jequiv_obj.hyps(1) [symmetric] x(1)] .
    with x eq [OF _ x(1)] canon_items_member [of k v kvs] show "x \<in> set (canon_items kvs)" by metis
  qed
  then have "canon_items kvs = canon_items lvs"
    using jequiv_obj.prems by (intro sorted_distinct_map_of_eq canon_items_props) auto
  then show ?case by (simp only: ordered_canonical_obj)
qed simp_all

lemma ordered_jequiv:
  "ordered canonical_opts v = ordered canonical_opts w \<Longrightarrow> wf_json v \<Longrightarrow> wf_json w \<Longrightarrow> jequiv v w"
proof (induction v arbitrary: w)
  case (JList vs)
  from JList.prems(1) obtain ws where w: "w = JList ws" by (cases w) auto
  with JList have "map (ordered canonical_opts) vs = map (ordered canonical_opts) ws" by simp
  then have len: "length vs = length ws" and "\<forall>i < length vs. ordered canonical_opts (vs ! i) = ordered canonical_opts (ws ! i)"
    by (metis length_map) (metis \<open>map _ vs = map _ ws\<close> length_map nth_map)
  with JList w show ?case by (auto simp: list_all2_conv_all_nth intro!: jequiv_list)
next
  case (JObj kvs)
  from JObj.prems(1) obtain lvs where w: "w = JObj lvs" by (cases w) auto
  with JObj have eq: "canon_items kvs = canon_items lvs" by (simp only: ordered_canonical_obj json.inject)
  have "map fst (canon_items kvs) = map fst (canon_items lvs)" by (simp only: eq)
  then have "set (map fst (sort_key fst kvs)) = set (map fst (sort_key fst lvs))"
    by (simp only: canon_items_props)
  then have dom: "fst ` set kvs = fst ` set lvs" by simp
  have "jequiv v u" if kv: "(k, v) \<in> set kvs" and lv: "(k, u) \<in> set lvs" for k v u
  proof -
    have "(k, ordered canonical_opts v) \<in> set (canon_items kvs)"
      "(k, ordered canonical_opts u) \<in> set (canon_items kvs)"
      using canon_items_member [OF kv] canon_items_member [OF lv] unfolding eq by blast+
    then have "ordered canonical_opts v = ordered canonical_opts u"
      using canon_items_props(3) [of kvs] JObj.prems(2) by (auto dest: eq_key_imp_eq_value)
    then show ?thesis
      using JObj.IH [OF kv, of v u] wf_json_member [OF JObj.prems(2) kv]
        wf_json_member [OF JObj.prems(3) [unfolded w] lv] by simp
  qed
  then show ?case unfolding w by (intro jequiv_obj dom)
qed (case_tac w; auto intro: jequiv.intros)+

lemma dumps_ordered: "dumps cfg (ordered cfg v) = dumps cfg v"
proof (induction cfg v rule: dumps.induct)
  case (6 cfg vs)
  then have eq: "map (dumps cfg \<circ> ordered cfg) vs = map (dumps cfg) vs" by simp
  show ?case unfolding ordered.simps dumps.simps list.map_comp eq ..
next
  case (7 cfg kvs)
  let ?f = "\<lambda>kv. (fst kv, ordered cfg (snd kv))"
  have "order_items cfg (map ?f (order_items cfg kvs)) = map ?f (order_items cfg kvs)"
    by (auto simp: order_items_def comp_def intro: sort_key_id_if_sorted)
  with 7 show ?case by (auto simp: comp_def intro!: arg_cong [where f = "join (item_sep cfg)"])
qed simp_all

lemma dumps_canonical_eq_iff:
  assumes "wf_json v" "wf_json w" "floats_ok v" "floats_ok w"
  shows "dumps canonical_opts v = dumps canonical_opts w \<longleftrightarrow> jequiv v w"
proof
  assume "dumps canonical_opts v = dumps canonical_opts w"
  then have "ordered canonical_opts v = ordered canonical_opts w"
    using loads_dumps [OF ok_canonical texts_ok_simps(2), of v] loads_dumps [OF ok_canonical texts_ok_simps(2), of w] assms by simp
  with assms show "jequiv v w" by (blast intro: ordered_jequiv)
next
  assume "jequiv v w"
  with assms have "ordered canonical_opts v = ordered canonical_opts w" by (blast intro: jequiv_ordered)
  then show "dumps canonical_opts v = dumps canonical_opts w" by (metis dumps_ordered)
qed

section \<open>JSON values\<close>

text \<open>
  Equality of JSON values as the specification means it: a number is its value, so that the integer 60 and the float 60.0
  are the same, and the order of keys does not matter.
\<close>

fun number_value :: "json \<Rightarrow> rat option" where
  "number_value (JInt i) = Some (of_int i)"
| "number_value (JFloat x) = (if is_finite x then Some (fval x) else None)"
| "number_value _ = None"

inductive same_value :: "json \<Rightarrow> json \<Rightarrow> bool" where
  same_null: "same_value JNull JNull"
| same_bool: "same_value (JBool b) (JBool b)"
| same_number: "number_value v = Some q \<Longrightarrow> number_value w = Some q \<Longrightarrow> same_value v w"
| same_str: "same_value (JStr s) (JStr s)"
| same_list: "list_all2 same_value vs ws \<Longrightarrow> same_value (JList vs) (JList ws)"
| same_obj: "fst ` set kvs = fst ` set lvs \<Longrightarrow>
    (\<And>k v w. (k, v) \<in> set kvs \<Longrightarrow> (k, w) \<in> set lvs \<Longrightarrow> same_value v w) \<Longrightarrow>
    same_value (JObj kvs) (JObj lvs)"

fun integers_only :: "json \<Rightarrow> bool" where
  "integers_only (JFloat x) = False"
| "integers_only (JObj kvs) = (\<forall>kv \<in> set kvs. integers_only (snd kv))"
| "integers_only (JList vs) = (\<forall>v \<in> set vs. integers_only v)"
| "integers_only _ = True"

lemma jequiv_same_value: "jequiv v w \<Longrightarrow> integral_floats v \<Longrightarrow> same_value v w"
proof (induction rule: jequiv.induct)
  case (jequiv_list vs ws)
  then show ?case by (auto intro!: same_list simp: list_all2_conv_all_nth)
next
  case (jequiv_obj kvs lvs)
  show ?case
    by (rule same_obj [OF jequiv_obj.hyps(1)]) (use jequiv_obj.IH jequiv_obj.prems in fastforce)
qed (auto intro: same_value.intros)

lemma same_value_jequiv: "same_value v w \<Longrightarrow> integers_only v \<Longrightarrow> integers_only w \<Longrightarrow> jequiv v w"
proof (induction rule: same_value.induct)
  case (same_number v q w)
  then show ?case by (cases v; cases w) (auto intro: jequiv_int)
next
  case (same_list vs ws)
  then show ?case by (auto intro!: jequiv_list simp: list_all2_conv_all_nth)
next
  case (same_obj kvs lvs)
  show ?case
    by (rule jequiv_obj [OF same_obj.hyps(1)]) (use same_obj.IH same_obj.prems in fastforce)
qed (auto intro: jequiv.intros)

section \<open>Envelopes\<close>

definition make_envelope ::
  "(string \<Rightarrow> string) \<Rightarrow> string \<Rightarrow> json dict \<Rightarrow> string \<Rightarrow> string \<Rightarrow> string \<Rightarrow> int \<Rightarrow> string
     \<Rightarrow> string \<Rightarrow> string option \<Rightarrow> json dict res" where
  "make_envelope H schema body profile gateway_id machine_id seq ts omp_version sig =
     (if schema \<notin> set core_schemas then Inl (ValueError (''unknown schema '' @ repr_str schema))
      else res_bind (checksum H body) (\<lambda>c.
        let env = [(''omp_version'', JStr omp_version), (''profile'', JStr profile),
                   (''gateway_id'', JStr gateway_id), (''machine_id'', JStr machine_id),
                   (''seq'', JInt seq), (''ts'', JStr ts), (''schema'', JStr schema),
                   (''body'', JObj body), (''checksum'', JStr c)]
        in Inr (case sig of None \<Rightarrow> env | Some s \<Rightarrow> AList.update ''sig'' (JStr s) env)))"

section \<open>Laws\<close>

lemma canonicalize_ok_iff:
  "canonicalize b = Inr s \<longleftrightarrow> integral_floats (JObj b) \<and> s = dumps canonical_opts (JObj b)"
proof (cases "check_numbers (JObj b) ''$''")
  case (Inl e)
  then have "\<not> integral_floats (JObj b)" using check_numbers_iff [of "JObj b" "''$''"] by simp
  with Inl show ?thesis by (simp only: canonicalize_def res_bind_simps) simp
next
  case (Inr u)
  then have "integral_floats (JObj b)" using check_numbers_iff [of "JObj b" "''$''"] by simp
  with Inr show ?thesis by (simp only: canonicalize_def res_bind_simps) auto
qed

lemma canonicalize_error: "canonicalize b = Inl e \<Longrightarrow> \<exists>m. e = ValueError m"
  unfolding canonicalize_def res_bind_eq_Inl by (auto simp del: check_numbers.simps dest: check_numbers_error)

lemma checksum_ok_iff:
  "checksum H b = Inr c \<longleftrightarrow> integral_floats (JObj b) \<and> c = H (dumps canonical_opts (JObj b))"
  by (auto simp: checksum_def res_inv canonicalize_ok_iff simp del: integral_floats.simps dumps.simps)

lemma checksum_error: "checksum H b = Inl e \<Longrightarrow> \<exists>m. e = ValueError m"
  unfolding checksum_def res_bind_eq_Inl by (auto dest: canonicalize_error)

text \<open>The envelope \<open>make_envelope\<close> returns when it returns one.\<close>

definition envelope_of ::
  "json dict \<Rightarrow> string \<Rightarrow> string \<Rightarrow> string \<Rightarrow> string \<Rightarrow> int \<Rightarrow> string \<Rightarrow> string \<Rightarrow> string option \<Rightarrow> string
     \<Rightarrow> json dict" where
  "envelope_of body schema profile gateway_id machine_id seq ts omp_version sig c =
     [(''omp_version'', JStr omp_version), (''profile'', JStr profile),
      (''gateway_id'', JStr gateway_id), (''machine_id'', JStr machine_id),
      (''seq'', JInt seq), (''ts'', JStr ts), (''schema'', JStr schema),
      (''body'', JObj body), (''checksum'', JStr c)]
     @ (case sig of None \<Rightarrow> [] | Some s \<Rightarrow> [(''sig'', JStr s)])"

lemma make_envelope_ok_iff:
  "make_envelope H schema b profile gw mid seq ts ver sig = Inr env \<longleftrightarrow>
     schema \<in> set core_schemas \<and>
     (\<exists>c. checksum H b = Inr c \<and> env = envelope_of b schema profile gw mid seq ts ver sig c)"
  by (cases "checksum H b"; cases sig) (auto simp: make_envelope_def envelope_of_def)

lemma envelope_of_simps [simp]:
  "map_of (envelope_of b schema profile gw mid seq ts ver sig c) ''omp_version'' = Some (JStr ver)"
  "map_of (envelope_of b schema profile gw mid seq ts ver sig c) ''profile'' = Some (JStr profile)"
  "map_of (envelope_of b schema profile gw mid seq ts ver sig c) ''gateway_id'' = Some (JStr gw)"
  "map_of (envelope_of b schema profile gw mid seq ts ver sig c) ''machine_id'' = Some (JStr mid)"
  "map_of (envelope_of b schema profile gw mid seq ts ver sig c) ''seq'' = Some (JInt seq)"
  "map_of (envelope_of b schema profile gw mid seq ts ver sig c) ''ts'' = Some (JStr ts)"
  "map_of (envelope_of b schema profile gw mid seq ts ver sig c) ''schema'' = Some (JStr schema)"
  "map_of (envelope_of b schema profile gw mid seq ts ver sig c) ''body'' = Some (JObj b)"
  "map_of (envelope_of b schema profile gw mid seq ts ver sig c) ''checksum'' = Some (JStr c)"
  "map_of (envelope_of b schema profile gw mid seq ts ver sig c) ''sig'' = map_option JStr sig"
  "wf_dict (envelope_of b schema profile gw mid seq ts ver sig c)"
  by (auto simp: envelope_of_def wf_dict_def split: option.splits)

lemma make_envelope_error:
  "make_envelope H schema b profile gw mid seq ts ver sig = Inl e \<Longrightarrow> \<exists>m. e = ValueError m"
  by (cases "checksum H b") (auto simp: make_envelope_def Let_def dest: checksum_error split: if_splits option.splits)

section \<open>Properties\<close>

text \<open>C8: Bodies with the same canonical text are the same JSON value, at every depth, whatever the order of their object
  keys; and for bodies whose numbers are all integers, as the module says its producers guarantee, the same JSON value has
  the same canonical text. With integral floats the second direction fails: 60 and 60.0 are one number and two texts.\<close>

theorem canonical_form_exact:
  assumes "canonicalize b = Inr s" "canonicalize b' = Inr s'"
    "wf_json (JObj b)" "wf_json (JObj b')" "floats_ok (JObj b)" "floats_ok (JObj b')"
  shows "(s = s' \<longrightarrow> same_value (JObj b) (JObj b'))
    \<and> (integers_only (JObj b) \<and> integers_only (JObj b') \<and> same_value (JObj b) (JObj b') \<longrightarrow> s = s')"
proof -
  have c: "integral_floats (JObj b)" "s = s' \<longleftrightarrow> jequiv (JObj b) (JObj b')"
    using assms(1,2) dumps_canonical_eq_iff [OF assms(3-6)] by (simp_all add: canonicalize_ok_iff)
  with jequiv_same_value same_value_jequiv show ?thesis by metis
qed

theorem canonical_form_exact_witness:
  "same_value (JObj [(''a'', JInt 1), (''b'', JNull)]) (JObj [(''b'', JNull), (''a'', JInt 1)])
   \<and> canonicalize [(''a'', JInt 1), (''b'', JNull)] = canonicalize [(''b'', JNull), (''a'', JInt 1)]"
proof -
  let ?b = "[(''a'', JInt 1), (''b'', JNull)]" and ?b' = "[(''b'', JNull), (''a'', JInt 1)]"
  have c: "canonicalize b = Inr (dumps canonical_opts (JObj b))" if "integral_floats (JObj b)" for b
    using that unfolding canonicalize_ok_iff by simp
  have v: "same_value (JObj ?b) (JObj ?b')"
    by (rule same_obj) (auto intro: same_value.intros)
  have "dumps canonical_opts (JObj ?b) = dumps canonical_opts (JObj ?b')"
    using canonical_form_exact [OF c c, of ?b ?b'] v by (simp del: dumps.simps)
  with v show ?thesis using c [of ?b] c [of ?b'] by (simp del: dumps.simps)
qed

text \<open>\<open>canonicalize\<close> is loud: it returns a text exactly when every number of the body, at every depth, is an
  integer or a finite integral float, and otherwise raises \<open>ValueError\<close>.\<close>

theorem canonicalize_total:
  "(if integral_floats (JObj b) then canonicalize b = Inr (dumps canonical_opts (JObj b))
    else (\<exists>m. canonicalize b = Inl (ValueError m)))"
  using canonicalize_ok_iff [of b "dumps canonical_opts (JObj b)"] canonicalize_error [of b]
    canonicalize_ok_iff [of b]
  by (cases "canonicalize b") (auto simp del: dumps.simps integral_floats.simps)

text \<open>For integral floats the shortcut is not the canonical form of RFC 8785, which prints the float 60.0 and the
  integer 60 alike: a body with a float never has the same text as the body with an integer in its place, although
  both canonicalize.\<close>

theorem integral_float_not_jcs:
  assumes "canonicalize [(k, JFloat x)] = Inr s" "canonicalize [(k, JInt i)] = Inr s'"
  shows "s \<noteq> s'"
proof
  from assms have s: "s = dumps canonical_opts (JObj [(k, JFloat x)])" "s' = dumps canonical_opts (JObj [(k, JInt i)])"
    and fin: "is_finite x"
    by (auto simp: canonicalize_ok_iff simp del: dumps.simps)
  assume "s = s'"
  then have "float_dump x = show_int i" by (simp add: s order_items_def canonical_opts_def)
  moreover have "float_dump x = float_repr x" using fin by (cases x) auto
  ultimately show False using float_repr_not_int [OF fin, of i] by simp
qed

theorem integral_float_not_jcs_witness:
  "\<exists>s s'. canonicalize [(''w'', JFloat (Fin 60))] = Inr s \<and> canonicalize [(''w'', JInt 60)] = Inr s' \<and> s \<noteq> s'"
proof -
  have "canonicalize [(''w'', JFloat (Fin 60))] = Inr (dumps canonical_opts (JObj [(''w'', JFloat (Fin 60))]))"
    "canonicalize [(''w'', JInt 60)] = Inr (dumps canonical_opts (JObj [(''w'', JInt 60)]))"
    unfolding canonicalize_ok_iff by (simp_all add: is_integral_def trunc_rat_def)
  with integral_float_not_jcs [OF this] show ?thesis by blast
qed

end
