(* ===== verification/Spec_Profile.thy ===== *)
theory Spec_Profile
  imports Envelope
begin

text \<open>
  \<open>tools/omp_tools/specload.py\<close> and \<open>validate_envelope\<close> of \<open>tools/omp_tools/validate.py\<close>: the
  constraints of the declared profile, and the order of the checks of one envelope.

  The jsonschema library is a parameter: a validator is the function from a value to the messages
  of its errors (\<open>iter_errors\<close>), empty for a valid value. A loaded spec holds one validator for
  each core schema and, for each profile, one for each event type and each phase.
\<close>

section \<open>The loaded spec\<close>

type_synonym validator = "json \<Rightarrow> string list"

record profile =
  p_events :: "string \<rightharpoonup> validator"
  p_phases :: "string \<rightharpoonup> validator"

record spec =
  validators :: "string \<rightharpoonup> validator"
  profiles :: "string \<rightharpoonup> profile"

definition core_event_types :: "string list" where
  "core_event_types =
     [''run_start'', ''run_end'', ''cycle_complete'', ''start'', ''stop'', ''error'', ''alarm'',
      ''state_change'', ''maintenance_flag'']"

text \<open>The search for the spec directory: the first candidate that holds the envelope schema.\<close>

definition spec_candidates ::
  "string option \<Rightarrow> string option \<Rightarrow> string \<Rightarrow> string \<Rightarrow> string list" where
  "spec_candidates spec_dir env pkg_root cwd =
     (case spec_dir of None \<Rightarrow> [] | Some d \<Rightarrow> if d = [] then [] else [d]) @
     (case env of None \<Rightarrow> [] | Some d \<Rightarrow> if d = [] then [] else [d]) @
     [pkg_root @ ''/docs/spec'', cwd @ ''/docs/spec'', cwd @ ''/spec'']"

definition find_spec_dir ::
  "(string \<Rightarrow> bool) \<Rightarrow> string option \<Rightarrow> string option \<Rightarrow> string \<Rightarrow> string \<Rightarrow> string res" where
  "find_spec_dir is_file spec_dir env pkg_root cwd =
     (case filter (\<lambda>c. is_file (c @ ''/schemas/core/envelope.json''))
             (spec_candidates spec_dir env pkg_root cwd) of
        c # _ \<Rightarrow> Inr c
      | [] \<Rightarrow> Inl (OtherError ''FileNotFoundError''))"

section \<open>Access to dict values\<close>

text \<open>
  The operations Python applies to a value whose type the schema has not fixed yet: subscripting,
  \<open>.get\<close>, membership in a set or dict (a list or dict is unhashable), iteration.
\<close>

fun as_dict :: "json \<Rightarrow> json dict res" where
  "as_dict (JObj d) = Inr d"
| "as_dict _ = Inl TypeError"

fun as_list :: "json \<Rightarrow> json list res" where
  "as_list (JList vs) = Inr vs"
| "as_list (JObj d) = Inr (map (JStr \<circ> fst) d)"
| "as_list (JStr s) = Inr (map (\<lambda>c. JStr [c]) s)"
| "as_list _ = Inl TypeError"

fun as_str :: "json \<Rightarrow> string res" where
  "as_str (JStr s) = Inr s"
| "as_str _ = Inl TypeError"

fun hashable :: "json \<Rightarrow> bool" where
  "hashable (JList vs) = False"
| "hashable (JObj d) = False"
| "hashable _ = True"

text \<open>The lookup of a value in a dict with string keys: only a string can be found.\<close>

fun lookup_key :: "(string \<rightharpoonup> 'a) \<Rightarrow> json \<Rightarrow> 'a option" where
  "lookup_key m (JStr s) = m s"
| "lookup_key m _ = None"

text \<open>\<open>repr\<close> of a value, as \<open>!r\<close> prints it in a message.\<close>

function repr_json :: "json \<Rightarrow> string" where
  "repr_json (JStr s) = repr_str s"
| "repr_json JNull = ''None''"
| "repr_json (JBool b) = (if b then ''True'' else ''False'')"
| "repr_json (JInt i) = show_int i"
| "repr_json (JFloat x) = float_repr x"
| "repr_json (JList vs) = ''['' @ join '', '' (map repr_json vs) @ '']''"
| "repr_json (JObj kvs) =
     ''{'' @ join '', '' (map (\<lambda>kv. repr_str (fst kv) @ '': '' @ repr_json (snd kv)) kvs) @ ''}''"
  by pat_completeness auto
termination
proof (relation "measure size", goal_cases)
  case (3 kvs kv)
  obtain k v where kv: "kv = (k, v)" by (cases kv)
  with 3 have "(k, v) \<in> set kvs" by simp
  then have "size v < Suc (size_list (size_prod (\<lambda>_. 0) size) kvs)"
    by (induction kvs) auto
  then show ?case by (simp add: kv)
qed (auto simp: less_Suc_eq_le size_list_estimation')

section \<open>Profile constraints\<close>

definition profile_name :: "string \<Rightarrow> string" where
  "profile_name ref = split_first (CHR ''/'') ref"

definition event_errors :: "profile \<Rightarrow> string \<Rightarrow> bool \<Rightarrow> json dict \<Rightarrow> string list res" where
  "event_errors prof name forward_compatible body =
     (let event_type = dict_get body ''event_type'' JNull in
      if \<not> hashable event_type then Inl TypeError
      else if event_type \<in> JStr ` set core_event_types then Inr []
      else (case lookup_key (p_events prof) event_type of
              Some validator \<Rightarrow>
                Inr (map (\<lambda>m. ''payload: '' @ m) (validator (dict_get body ''payload'' (JObj []))))
            | None \<Rightarrow>
                if \<not> forward_compatible
                then Inr [''event_type '' @ repr_json event_type @ '' not in core or profile '' @ repr_str name]
                else Inr []))"

definition phase_errors :: "profile \<Rightarrow> string \<Rightarrow> bool \<Rightarrow> nat \<Rightarrow> json \<Rightarrow> string list res" where
  "phase_errors prof name forward_compatible i phase =
     res_bind (as_dict phase) (\<lambda>ph.
       let pname = dict_get ph ''name'' JNull; pos = ''phases['' @ show_nat i @ '']'' in
       if \<not> hashable pname then Inl TypeError
       else (case lookup_key (p_phases prof) pname of
               None \<Rightarrow>
                 if \<not> forward_compatible
                 then Inr [pos @ '': '' @ repr_json pname @ '' not defined by '' @ repr_str name]
                 else Inr []
             | Some validator \<Rightarrow>
                 Inr (map (\<lambda>m. pos @ ''.params: '' @ m) (validator (dict_get ph ''params'' (JObj []))))))"

definition profile_errors :: "spec \<Rightarrow> json dict \<Rightarrow> bool \<Rightarrow> string list res" where
  "profile_errors spec envelope forward_compatible =
     res_bind (dict_item envelope ''profile'') (\<lambda>p.
     res_bind (as_str p) (\<lambda>ref.
       let name = profile_name ref in
       (case profiles spec name of
          None \<Rightarrow> Inr []
        | Some prof \<Rightarrow>
            res_bind (dict_item envelope ''body'') (\<lambda>b.
            res_bind (as_dict b) (\<lambda>body.
            res_bind (dict_item envelope ''schema'') (\<lambda>schema.
              if schema = JStr ''event'' then event_errors prof name forward_compatible body
              else if schema = JStr ''process_run'' then
                res_bind (as_list (dict_get body ''phases'' (JList []))) (\<lambda>phases.
                res_bind (res_map (\<lambda>(i, ph). phase_errors prof name forward_compatible i ph)
                            (enumerate 0 phases))
                  (\<lambda>ess. Inr (concat ess)))
              else Inr []))))))"

section \<open>One envelope\<close>

definition spec_validator :: "spec \<Rightarrow> string \<Rightarrow> validator res" where
  "spec_validator spec name = (case validators spec name of None \<Rightarrow> Inl (KeyError name) | Some v \<Rightarrow> Inr v)"

text \<open>
  Envelope schema, then body schema, then checksum, then profile: each stage runs only when the
  one before found nothing. A body that is no object is a \<open>TypeError\<close> here, where Python would canonicalize it; the core
  schemas of the repository, which require objects, do not let one come this far.
\<close>

definition validate_envelope :: "(string \<Rightarrow> string) \<Rightarrow> spec \<Rightarrow> json dict \<Rightarrow> bool \<Rightarrow> string list res" where
  "validate_envelope H spec envelope forward_compatible =
     res_bind (spec_validator spec ''envelope'') (\<lambda>v.
       let errors = v (JObj envelope) in
       if errors \<noteq> [] then Inr errors
       else
         res_bind (dict_item envelope ''body'') (\<lambda>body.
         res_bind (dict_item envelope ''schema'') (\<lambda>sch.
         res_bind (as_str sch) (\<lambda>schema.
         res_bind (spec_validator spec schema) (\<lambda>bv.
           let errors = bv body in
           if errors \<noteq> [] then Inr errors
           else
             res_bind (as_dict body) (\<lambda>b.
             (case checksum H b of
                Inl (ValueError m) \<Rightarrow> Inr [''checksum not computable: '' @ m]
              | Inl e \<Rightarrow> Inl e
              | Inr c \<Rightarrow>
                  res_bind (dict_item envelope ''checksum'') (\<lambda>claimed.
                    if JStr c \<noteq> claimed then Inr [''checksum mismatch'']
                    else profile_errors spec envelope forward_compatible))))))))"

section \<open>When an envelope is valid\<close>

lemma validate_ok_iff:
  "validate_envelope H spec env fc = Inr [] \<longleftrightarrow>
     (\<exists>v b schema bv c.
        validators spec ''envelope'' = Some v \<and> v (JObj env) = []
        \<and> map_of env ''body'' = Some (JObj b) \<and> map_of env ''schema'' = Some (JStr schema)
        \<and> validators spec schema = Some bv \<and> bv (JObj b) = []
        \<and> checksum H b = Inr c \<and> map_of env ''checksum'' = Some (JStr c)
        \<and> profile_errors spec env fc = Inr [])" (is "?l \<longleftrightarrow> ?r")
proof
  assume ?l
  then obtain v where v: "validators spec ''envelope'' = Some v" "v (JObj env) = []"
    by (auto simp: validate_envelope_def spec_validator_def Let_def split: option.splits if_splits)
  note l1 = \<open>?l\<close> [unfolded validate_envelope_def spec_validator_def v(1), simplified v(2) res_bind_simps Let_def option.case, simplified]
  then obtain body schema where env: "map_of env ''body'' = Some body" "map_of env ''schema'' = Some (JStr schema)"
  proof -
    assume *: "\<And>body schema. map_of env ''body'' = Some body \<Longrightarrow> map_of env ''schema'' = Some (JStr schema) \<Longrightarrow> thesis"
    obtain body where b: "map_of env ''body'' = Some body" using l1 by (cases "map_of env ''body''") (auto simp: dict_item_def)
    obtain s where s: "map_of env ''schema'' = Some s" using l1 b by (cases "map_of env ''schema''") (auto simp: dict_item_def)
    obtain t where "s = JStr t" using l1 b s by (cases s) (auto simp: dict_item_def)
    with * b s show thesis by blast
  qed
  obtain bv where bv: "validators spec schema = Some bv" "bv body = []"
    using l1 env by (cases "validators spec schema") (auto simp: dict_item_def split: if_splits)
  obtain b where b: "body = JObj b" using l1 env bv by (cases body) (auto simp: dict_item_def)
  obtain c where c: "checksum H b = Inr c"
    using l1 env bv b by (cases "checksum H b") (auto simp: dict_item_def dest: checksum_error)
  show ?r using l1 env bv b c v
    by (cases "map_of env ''checksum''") (auto simp: dict_item_def split: if_splits)
next
  assume ?r
  then show ?l by (auto simp: validate_envelope_def spec_validator_def dict_item_def)
qed

section \<open>Strict and forward-compatible reading\<close>

lemma res_map_subset:
  assumes "res_map f xs = Inr ys" "\<And>x y. x \<in> set xs \<Longrightarrow> f x = Inr y \<Longrightarrow> \<exists>z. g x = Inr z \<and> set z \<subseteq> set y"
  shows "\<exists>zs. res_map g xs = Inr zs \<and> set (concat zs) \<subseteq> set (concat ys)"
  using assms
proof (induction xs arbitrary: ys)
  case (Cons x xs)
  from Cons.prems(1) obtain y ys' where y: "f x = Inr y" "res_map f xs = Inr ys'" "ys = y # ys'"
    by (auto split: sum.splits)
  obtain z where z: "g x = Inr z" "set z \<subseteq> set y" using Cons.prems(2) [of x y] y(1) by auto
  obtain zs where "res_map g xs = Inr zs" "set (concat zs) \<subseteq> set (concat ys')"
    using Cons.IH [OF y(2)] Cons.prems(2) by auto
  with y z show ?case by auto
qed auto

lemma event_errors_forward:
  "event_errors prof name False body = Inr es \<Longrightarrow>
     \<exists>es'. event_errors prof name True body = Inr es' \<and> set es' \<subseteq> set es"
  by (auto simp: event_errors_def Let_def split: if_splits option.splits)

lemma phase_errors_forward:
  "phase_errors prof name False i ph = Inr es \<Longrightarrow>
     \<exists>es'. phase_errors prof name True i ph = Inr es' \<and> set es' \<subseteq> set es"
  by (cases "as_dict ph") (auto simp: phase_errors_def Let_def split: if_splits option.splits)

text \<open>The check returns only for an envelope whose profile is a text.\<close>

lemma profile_errors_ref:
  assumes "profile_errors spec env fc = Inr es"
  obtains ref where "map_of env ''profile'' = Some (JStr ref)"
proof (cases "map_of env ''profile''")
  case None
  with assms show thesis by (simp add: profile_errors_def dict_item_def)
next
  case (Some p)
  with assms that show thesis by (cases p) (simp_all add: profile_errors_def dict_item_def)
qed

lemma profile_errors_forward:
  assumes "profile_errors spec env False = Inr es"
  shows "\<exists>es'. profile_errors spec env True = Inr es' \<and> set es' \<subseteq> set es"
proof -
  obtain ref where ref: "map_of env ''profile'' = Some (JStr ref)" by (rule profile_errors_ref [OF assms])
  show ?thesis
  proof (cases "profiles spec (profile_name ref)")
    case None
    with assms ref show ?thesis by (auto simp: profile_errors_def dict_item_def)
  next
    case (Some prof)
    obtain body schema where b: "map_of env ''body'' = Some (JObj body)" "map_of env ''schema'' = Some schema"
    proof -
      assume *: "\<And>body schema. map_of env ''body'' = Some (JObj body) \<Longrightarrow> map_of env ''schema'' = Some schema \<Longrightarrow> thesis"
      obtain v where v: "map_of env ''body'' = Some v"
        using assms ref Some by (cases "map_of env ''body''") (auto simp: profile_errors_def dict_item_def)
      obtain body where "v = JObj body"
        using assms ref Some v by (cases v) (auto simp: profile_errors_def dict_item_def)
      with * v assms ref Some show thesis
        by (cases "map_of env ''schema''") (auto simp: profile_errors_def dict_item_def)
    qed
    consider "schema = JStr ''event''" | "schema = JStr ''process_run''"
      | "schema \<noteq> JStr ''event''" "schema \<noteq> JStr ''process_run''" by blast
    then show ?thesis
    proof cases
      case 1
      with assms ref Some b event_errors_forward [of prof "profile_name ref" body es] show ?thesis
        by (simp add: profile_errors_def dict_item_def)
    next
      case 2
      let ?f = "\<lambda>fc (i, ph). phase_errors prof (profile_name ref) fc i ph"
      from assms ref Some b 2 obtain phases ess where ph: "as_list (dict_get body ''phases'' (JList [])) = Inr phases"
        "res_map (?f False) (enumerate 0 phases) = Inr ess" "es = concat ess"
        by (auto simp: profile_errors_def dict_item_def res_inv)
      have "\<exists>zs. res_map (?f True) (enumerate 0 phases) = Inr zs \<and> set (concat zs) \<subseteq> set (concat ess)"
        by (rule res_map_subset [OF ph(2)]) (auto dest: phase_errors_forward)
      with ref Some b 2 ph show ?thesis by (auto simp: profile_errors_def dict_item_def)
    next
      case 3
      with assms ref Some b show ?thesis by (simp add: profile_errors_def dict_item_def)
    qed
  qed
qed

section \<open>Properties\<close>

text \<open>An envelope is valid exactly when every stage accepts it: the envelope schema, the schema its \<open>schema\<close>
  field names applied to the body, the checksum recomputed from the body, and the constraints of its profile.\<close>

theorem valid_iff_all_stages:
  "validate_envelope H spec env fc = Inr [] \<longleftrightarrow>
     (\<exists>v b schema bv c.
        validators spec ''envelope'' = Some v \<and> v (JObj env) = []
        \<and> map_of env ''body'' = Some (JObj b) \<and> map_of env ''schema'' = Some (JStr schema)
        \<and> validators spec schema = Some bv \<and> bv (JObj b) = []
        \<and> checksum H b = Inr c \<and> map_of env ''checksum'' = Some (JStr c)
        \<and> profile_errors spec env fc = Inr [])"
  by (rule validate_ok_iff)

text \<open>C9: Tampering with a body is detected, up to a collision of the hash: if two envelopes with the same checksum
  both pass the validation, their bodies are the same JSON value up to the order of keys, or their canonical forms
  are two different texts with the same hash.\<close>

theorem tampering_detected:
  assumes "validate_envelope H spec env fc = Inr []" "validate_envelope H spec env' fc' = Inr []"
    "map_of env ''checksum'' = map_of env' ''checksum''"
    "map_of env ''body'' = Some (JObj b)" "map_of env' ''body'' = Some (JObj b')"
    "wf_json (JObj b)" "wf_json (JObj b')" "floats_ok (JObj b)" "floats_ok (JObj b')"
  shows "jequiv (JObj b) (JObj b')
    \<or> (let s = dumps canonical_opts (JObj b); s' = dumps canonical_opts (JObj b') in s \<noteq> s' \<and> H s = H s')"
proof -
  from assms(1,2,4,5) have "map_of env ''checksum'' = Some (JStr (H (dumps canonical_opts (JObj b))))"
    "map_of env' ''checksum'' = Some (JStr (H (dumps canonical_opts (JObj b'))))"
    by (auto simp: validate_ok_iff checksum_ok_iff simp del: dumps.simps integral_floats.simps)
  then have "H (dumps canonical_opts (JObj b)) = H (dumps canonical_opts (JObj b'))" using assms(3) by simp
  then show ?thesis using dumps_canonical_eq_iff [OF assms(6-9)] by (auto simp: Let_def simp del: dumps.simps)
qed

text \<open>Two key orders of one body under one checksum.\<close>

definition accept_all :: spec where
  "accept_all = \<lparr>validators = (\<lambda>_. Some (\<lambda>_. [])), profiles = (\<lambda>_. None)\<rparr>"

definition sample_envelope :: "json dict \<Rightarrow> json dict" where
  "sample_envelope b = [(''schema'', JStr ''event''), (''body'', JObj b), (''profile'', JStr ''p/0.1''),
     (''checksum'', JStr (dumps canonical_opts (JObj [(''a'', JInt 1), (''b'', JNull)])))]"

lemma sample_checksum:
  "b = [(''a'', JInt 1), (''b'', JNull)] \<or> b = [(''b'', JNull), (''a'', JInt 1)] \<Longrightarrow>
     checksum (\<lambda>s. s) b = Inr (dumps canonical_opts (JObj [(''a'', JInt 1), (''b'', JNull)]))"
  by (auto simp: checksum_ok_iff order_items_def canonical_opts_def less_char_def)

lemma sample_envelope_valid:
  "b = [(''a'', JInt 1), (''b'', JNull)] \<or> b = [(''b'', JNull), (''a'', JInt 1)] \<Longrightarrow>
     validate_envelope (\<lambda>s. s) accept_all (sample_envelope b) False = Inr []"
  using sample_checksum [of b]
  by (auto simp: validate_envelope_def accept_all_def spec_validator_def sample_envelope_def dict_item_def
      profile_errors_def Let_def simp del: dumps.simps)

theorem tampering_detected_witness:
  "jequiv (JObj [(''a'', JInt 1), (''b'', JNull)]) (JObj [(''b'', JNull), (''a'', JInt 1)])"
proof -
  let ?b = "[(''a'', JInt 1), (''b'', JNull)]" and ?c = "[(''b'', JNull), (''a'', JInt 1)]"
  have "map_of (sample_envelope ?b) ''checksum'' = map_of (sample_envelope ?c) ''checksum''"
    "map_of (sample_envelope ?b) ''body'' = Some (JObj ?b)" "map_of (sample_envelope ?c) ''body'' = Some (JObj ?c)"
    by (simp_all add: sample_envelope_def del: dumps.simps)
  from tampering_detected [OF sample_envelope_valid sample_envelope_valid this] show ?thesis by (simp add: Let_def del: dumps.simps)
qed

text \<open>The forward-compatible reading of a profile only relaxes the strict one: whenever the strict check of an
  envelope returns, the relaxed one returns too, and every error it reports the strict one reports.\<close>

theorem forward_compatible_relaxes:
  assumes "profile_errors spec env False = Inr es"
  shows "\<exists>es'. profile_errors spec env True = Inr es' \<and> set es' \<subseteq> set es"
  using assms by (rule profile_errors_forward)

definition one_profile :: spec where
  "one_profile = \<lparr>validators = (\<lambda>_. None),
     profiles = [''dye'' \<mapsto> \<lparr>p_events = Map.empty, p_phases = Map.empty\<rparr>]\<rparr>"

definition new_event :: "json dict" where
  "new_event = [(''profile'', JStr ''dye/0.2''), (''schema'', JStr ''event''),
     (''body'', JObj [(''event_type'', JStr ''x'')])]"

theorem forward_compatible_relaxes_witness:
  "\<exists>e es'. profile_errors one_profile new_event False = Inr [e]
     \<and> profile_errors one_profile new_event True = Inr es' \<and> set es' \<subseteq> {e}"
proof -
  obtain e where "profile_errors one_profile new_event False = Inr [e]"
    by (simp add: profile_errors_def one_profile_def new_event_def dict_item_def profile_name_def split_first_def
        event_errors_def Let_def dict_get_def core_event_types_def)
  with forward_compatible_relaxes [OF this] show ?thesis by auto
qed

end
