(* ===== verification/Keys.thy ===== *)
theory Keys
  imports Envelope
begin

text \<open>
  \<open>gateway/omp/core/keys.py\<close> and \<open>tools/omp_tools/sigverify.py\<close>: what a signature covers, signing,
  verification. Ed25519 is a parameter (\<open>ed_sign\<close> of a private key, \<open>ed_verify\<close> of the raw public
  key, which is false for a key or a signature of the wrong length); base64 is Python's
  \<open>base64.b64encode\<close> and the lenient \<open>base64.b64decode\<close>. Bytes are strings.
\<close>

section \<open>Base64\<close>

definition b64_char :: "nat \<Rightarrow> char" where
  "b64_char n =
     (if n < 26 then char_of (65 + n) else if n < 52 then char_of (71 + n)
      else if n < 62 then char_of (n - 4) else if n = 62 then CHR ''+'' else CHR ''/'')"

definition b64_val :: "char \<Rightarrow> nat option" where
  "b64_val c =
     (let n = (of_char c :: nat) in
      if 65 \<le> n \<and> n \<le> 90 then Some (n - 65) else if 97 \<le> n \<and> n \<le> 122 then Some (n - 71)
      else if 48 \<le> n \<and> n \<le> 57 then Some (n + 4) else if n = 43 then Some 62
      else if n = 47 then Some 63 else None)"

fun b64encode :: "string \<Rightarrow> string" where
  "b64encode [] = []"
| "b64encode [a] =
     (let x = of_char a :: nat in [b64_char (x div 4), b64_char (x mod 4 * 16), CHR ''='', CHR ''=''])"
| "b64encode [a, b] =
     (let x = of_char a :: nat; y = of_char b :: nat in
      [b64_char (x div 4), b64_char (x mod 4 * 16 + y div 16), b64_char (y mod 16 * 4), CHR ''=''])"
| "b64encode (a # b # c # s) =
     (let x = of_char a :: nat; y = of_char b :: nat; z = of_char c :: nat in
      [b64_char (x div 4), b64_char (x mod 4 * 16 + y div 16), b64_char (y mod 16 * 4 + z div 64),
       b64_char (z mod 64)] @ b64encode s)"

text \<open>
  \<open>binascii.a2b_base64\<close>, not strict: characters outside the alphabet are skipped, the padding that
  completes a group ends the input. The state is the position in the group, the bits left over, and
  the number of padding characters seen; \<open>None\<close> is \<open>binascii.Error\<close>.
\<close>

fun a2b :: "nat \<Rightarrow> nat \<Rightarrow> nat \<Rightarrow> string \<Rightarrow> string option" where
  "a2b pos left pads [] = (if pos = 0 then Some [] else None)"
| "a2b pos left pads (c # s) =
     (if c = CHR ''='' then
        (if pos \<ge> 2 then (if pos + Suc pads \<ge> 4 then Some [] else a2b pos left (Suc pads) s)
         else a2b pos left pads s)
      else (case b64_val c of
              None \<Rightarrow> a2b pos left pads s
            | Some v \<Rightarrow>
                if pos = 0 then a2b 1 v 0 s
                else if pos = 1 then map_option ((#) (char_of (left * 4 + v div 16))) (a2b 2 (v mod 16) 0 s)
                else if pos = 2 then map_option ((#) (char_of (left * 16 + v div 4))) (a2b 3 (v mod 4) 0 s)
                else map_option ((#) (char_of (left * 64 + v))) (a2b 0 0 0 s)))"

definition b64decode :: "string \<Rightarrow> string option" where
  "b64decode s = a2b 0 0 0 s"

lemma b64_val_char [simp]: "n < 64 \<Longrightarrow> b64_val (b64_char n) = Some n"
  by (auto simp: b64_val_def b64_char_def Let_def)

lemma b64_char_not_pad [simp]: "n < 64 \<Longrightarrow> b64_char n \<noteq> CHR ''=''"
proof
  assume "n < 64" "b64_char n = CHR ''=''"
  then have "b64_val (CHR ''='') = Some n" using b64_val_char by metis
  then show False by (simp add: b64_val_def)
qed

lemma char_bound: "(of_char c :: nat) < 256"
  by (metis nat_of_char_less_256)

lemma bits_6:
  fixes x y :: nat
  assumes "y < 256"
  shows "y div 4 < 64" "x mod 4 * 16 + y div 16 < 64" "x mod 16 * 4 + y div 64 < 64"
    "x mod 4 * 16 < 64" "x mod 16 * 4 < 64"
proof -
  have "y div 4 \<le> 63" "y div 16 \<le> 15" "y div 64 \<le> 3" using assms by (auto simp: div_le_mono less_Suc_eq_le)
  moreover have "x mod 4 \<le> 3" "x mod 16 \<le> 15" by auto
  ultimately show "y div 4 < 64" "x mod 4 * 16 + y div 16 < 64" "x mod 16 * 4 + y div 64 < 64"
    "x mod 4 * 16 < 64" "x mod 16 * 4 < 64" by linarith+
qed

lemma bytes_6:
  fixes x y z :: nat
  assumes "y < 256" "z < 256"
  shows "x div 4 * 4 + (x mod 4 * 16 + y div 16) div 16 = x"
    "(x mod 4 * 16 + y div 16) mod 16 * 16 + (y mod 16 * 4 + z div 64) div 4 = y"
    "(y mod 16 * 4 + z div 64) mod 4 * 64 + z mod 64 = z"
proof -
  have "(x mod 4 * 16 + y div 16) div 16 = x mod 4" "(x mod 4 * 16 + y div 16) mod 16 = y div 16"
    "(y mod 16 * 4 + z div 64) div 4 = y mod 16" "(y mod 16 * 4 + z div 64) mod 4 = z div 64"
    using assms by (simp_all add: less_mult_imp_div_less)
  then show "x div 4 * 4 + (x mod 4 * 16 + y div 16) div 16 = x"
    "(x mod 4 * 16 + y div 16) mod 16 * 16 + (y mod 16 * 4 + z div 64) div 4 = y"
    "(y mod 16 * 4 + z div 64) mod 4 * 64 + z mod 64 = z" by simp_all
qed

lemma b64decode_encode [simp]: "b64decode (b64encode s) = Some s"
proof -
  have "a2b 0 0 0 (b64encode s) = Some s"
  proof (induction s rule: b64encode.induct)
    case (2 a)
    have x: "(of_char a :: nat) < 256" by (rule char_bound)
    show ?case using bits_6 [OF x] bytes_6(1) [of 0 "of_char a"] by (simp add: Let_def)
  next
    case (3 a b)
    have x: "(of_char a :: nat) < 256" "(of_char b :: nat) < 256" by (rule char_bound)+
    show ?case
      using bits_6 [OF x(1)] bits_6 [OF x(2)] bytes_6(1) [OF x(2)] bytes_6(2) [OF x(2), of 0]
      by (simp add: Let_def)
  next
    case (4 a b c s)
    have x: "(of_char a :: nat) < 256" "(of_char b :: nat) < 256" "(of_char c :: nat) < 256" by (rule char_bound)+
    show ?case
      using 4 bits_6 [OF x(1)] bits_6 [OF x(2)] bits_6 [OF x(3)] bytes_6 [OF x(2,3)]
      by (simp add: Let_def)
  qed simp
  then show ?thesis by (simp add: b64decode_def)
qed

interpretation base64: codec b64encode b64decode "\<lambda>_. True"
  by unfold_locales simp

section \<open>The bytes a signature covers\<close>

definition newline :: char where "newline = CHR 0x0A"

definition sig_input :: "string \<Rightarrow> string \<Rightarrow> int \<Rightarrow> string \<Rightarrow> string" where
  "sig_input gateway_id machine_id seq digest =
     gateway_id @ [newline] @ machine_id @ [newline] @ show_int seq @ [newline] @ digest"

definition sign :: "(string \<Rightarrow> string) \<Rightarrow> string \<Rightarrow> string \<Rightarrow> int \<Rightarrow> string \<Rightarrow> string" where
  "sign ed_sign gateway_id machine_id seq digest =
     b64encode (ed_sign (sig_input gateway_id machine_id seq digest))"

definition public_key_b64 :: "string \<Rightarrow> string" where
  "public_key_b64 raw = b64encode raw"

text \<open>Any failure is "not verified".\<close>

definition verify_signature ::
  "(string \<Rightarrow> string \<Rightarrow> string \<Rightarrow> bool) \<Rightarrow> string \<Rightarrow> string \<Rightarrow> string \<Rightarrow> string \<Rightarrow> int \<Rightarrow> string \<Rightarrow> bool" where
  "verify_signature ed_verify pubkey_b64 sig_b64 gateway_id machine_id seq digest =
     (case (b64decode pubkey_b64, b64decode sig_b64) of
        (Some pub, Some s) \<Rightarrow> ed_verify pub s (sig_input gateway_id machine_id seq digest)
      | _ \<Rightarrow> False)"

text \<open>
  \<open>verify_envelope_sig\<close> formats whatever the envelope holds; of an envelope that passed the schema
  these are strings and an integer, and for other values the result here is false.
\<close>

definition verify_envelope_sig :: "(string \<Rightarrow> string \<Rightarrow> string \<Rightarrow> bool) \<Rightarrow> json dict \<Rightarrow> string \<Rightarrow> bool" where
  "verify_envelope_sig ed_verify envelope pubkey_b64 =
     (case (map_of envelope ''sig'', map_of envelope ''gateway_id'', map_of envelope ''machine_id'',
            map_of envelope ''seq'', map_of envelope ''checksum'') of
        (Some (JStr s), Some (JStr g), Some (JStr m), Some (JInt q), Some (JStr c)) \<Rightarrow>
          verify_signature ed_verify pubkey_b64 s g m q c
      | _ \<Rightarrow> False)"

section \<open>Identifiers\<close>

text \<open>
  \<open>^[a-z0-9][a-z0-9-]{2,62}$\<close>: \<open>id_full\<close> is \<open>fullmatch\<close>, as the registry applies it; \<open>id_search\<close> is
  \<open>re.search\<close>, as the JSON schema applies it, where \<open>$\<close> also matches before a final newline.
\<close>

definition id_head :: "char \<Rightarrow> bool" where
  "id_head c = ((CHR ''a'' \<le> c \<and> c \<le> CHR ''z'') \<or> is_digit c)"

definition id_tail :: "char \<Rightarrow> bool" where
  "id_tail c = (id_head c \<or> c = CHR ''-'')"

definition id_full :: "string \<Rightarrow> bool" where
  "id_full s = (case s of [] \<Rightarrow> False
     | c # r \<Rightarrow> id_head c \<and> list_all id_tail r \<and> 2 \<le> length r \<and> length r \<le> 62)"

definition id_search :: "string \<Rightarrow> bool" where
  "id_search s = (id_full s \<or> (s \<noteq> [] \<and> last s = newline \<and> id_full (butlast s)))"

lemma newline_not_id: "\<not> id_tail newline" "\<not> id_head newline"
  by (simp_all add: newline_def id_tail_def id_head_def is_digit_def less_eq_char_def)

lemma id_full_chars: "id_full s \<Longrightarrow> newline \<notin> set s \<and> s \<noteq> []"
  using newline_not_id by (auto simp: id_full_def list_all_iff split: list.splits)

lemma id_search_cases:
  assumes "id_search s"
  obtains "id_full s" | t where "s = t @ [newline]" "id_full t"
  using assms by (auto simp: id_search_def) (metis append_butlast_last_id)

lemma split_unique:
  "newline \<notin> set a \<Longrightarrow> newline \<notin> set b \<Longrightarrow> a @ newline # r = b @ newline # s \<longleftrightarrow> a = b \<and> r = s"
proof (induction a arbitrary: b)
  case Nil
  then show ?case by (cases b) auto
next
  case (Cons x a)
  then show ?case by (cases b) auto
qed

lemma id_search_split:
  assumes "id_search a" "id_search b" "r \<noteq> []" "s \<noteq> []" "hd r \<noteq> newline" "hd s \<noteq> newline"
    "a @ newline # r = b @ newline # s"
  shows "a = b \<and> r = s"
  using assms(1)
proof (cases rule: id_search_cases)
  case a: 1
  show ?thesis
    using assms(2)
  proof (cases rule: id_search_cases)
    case 1
    with a assms(7) show ?thesis by (simp add: split_unique id_full_chars)
  next
    case (2 t)
    with a assms(7) have "r = newline # s" by (simp add: split_unique id_full_chars)
    with assms(5) show ?thesis by simp
  qed
next
  case a: (2 u)
  show ?thesis
    using assms(2)
  proof (cases rule: id_search_cases)
    case 1
    with a assms(7) have "newline # r = s" by (simp add: split_unique id_full_chars)
    with assms(6) show ?thesis by auto
  next
    case (2 t)
    with a assms(7) show ?thesis by (simp add: split_unique id_full_chars)
  qed
qed

lemma show_int_chars: "c \<in> set (show_int i) \<Longrightarrow> is_digit c \<or> c = CHR ''-''"
  by (auto simp: show_int_def split: if_splits dest: show_nat_digits)

lemma show_int_no_newline: "newline \<notin> set (show_int i)"
  using show_int_chars [of newline i] by (auto simp: newline_def is_digit_def)

lemma hd_not_newline: "s \<noteq> [] \<Longrightarrow> newline \<notin> set s \<Longrightarrow> hd (s @ r) \<noteq> newline"
  by (cases s) auto

text \<open>
  The input determines the four values, for every pair of identifiers the envelope schema lets
  through, a final newline included, and for every checksum text.
\<close>

lemma sig_input_injective:
  assumes "id_search g" "id_search m" "id_search g'" "id_search m'"
    "sig_input g m q c = sig_input g' m' q' c'"
  shows "g = g' \<and> m = m' \<and> q = q' \<and> c = c'"
proof -
  have m_hd: "k @ x \<noteq> [] \<and> hd (k @ x) \<noteq> newline" if "id_search k" for k x
    using that by (cases rule: id_search_cases) (use hd_not_newline id_full_chars in auto)
  have q_hd: "show_int k @ x \<noteq> [] \<and> hd (show_int k @ x) \<noteq> newline" for k x
    using hd_not_newline [OF show_int_nonempty show_int_no_newline] by simp
  have eq: "g @ newline # m @ newline # show_int q @ newline # c
    = g' @ newline # m' @ newline # show_int q' @ newline # c'"
    using assms(5) by (simp add: sig_input_def)
  from id_search_split [OF assms(1,3) _ _ _ _ eq] m_hd [OF assms(2)] m_hd [OF assms(4)]
  have g: "g = g'" and eq2: "m @ newline # show_int q @ newline # c = m' @ newline # show_int q' @ newline # c'"
    by auto
  from id_search_split [OF assms(2,4) _ _ _ _ eq2] q_hd
  have "m = m'" "show_int q @ newline # c = show_int q' @ newline # c'" by auto
  with g show ?thesis by (auto simp: split_unique show_int_no_newline)
qed

section \<open>Properties\<close>

text \<open>C23: The bytes that are signed determine what is signed: for identifiers as the envelope schema accepts them
  (a final newline included), two inputs are equal only if gateway, machine, number and checksum are equal. A
  signature therefore never carries over to another envelope key.\<close>

theorem sig_input_unambiguous:
  assumes "id_search g" "id_search m" "id_search g'" "id_search m'"
  shows "sig_input g m q c = sig_input g' m' q' c' \<longleftrightarrow> g = g' \<and> m = m' \<and> q = q' \<and> c = c'"
  using sig_input_injective [OF assms] by auto

theorem sig_input_unambiguous_witness:
  "sig_input (''gw1'' @ [newline]) ''m12'' 3 ''c'' \<noteq> sig_input ''gw1'' ''m12'' 3 ''c''"
proof -
  have full: "id_full ''gw1''" "id_full ''m12''"
    by (simp_all add: id_full_def id_tail_def id_head_def is_digit_def less_eq_char_def)
  then have "id_search (''gw1'' @ [newline])" "id_search ''gw1''" "id_search ''m12''"
    by (simp_all add: id_search_def)
  from sig_input_unambiguous [OF this(1,3) this(2,3), of 3 "''c''" 3 "''c''"] show ?thesis by simp
qed

end
