(* ===== verification/Engine.thy ===== *)
theory Engine
  imports Store Spec_Profile Keys
begin

text \<open>
  \<open>gateway/omp/core/engine.py\<close>: one body of an adapter becomes one buffered envelope or one dead
  letter. The sequence number is drawn first, so both cases use one up.

  The numbers come through a contract, the locale \<open>seq_source\<close>, which the store satisfies.
\<close>

section \<open>A source of sequence numbers\<close>

text \<open>The numbers a list of requests draws, with the final state; the first exception ends it.\<close>

fun draws :: "('m \<Rightarrow> 's \<Rightarrow> int res \<times> 's) \<Rightarrow> 'm list \<Rightarrow> 's \<Rightarrow> ('m \<times> int) list \<times> 's" where
  "draws next_number [] s = ([], s)"
| "draws next_number (m # ms) s =
     (case next_number m s of
        (Inl e, s') \<Rightarrow> ([], s')
      | (Inr i, s') \<Rightarrow> (case draws next_number ms s' of (xs, s'') \<Rightarrow> ((m, i) # xs, s'')))"

locale seq_source =
  fixes next_number :: "'m \<Rightarrow> 's \<Rightarrow> int res \<times> 's"
    and last_number :: "'s \<Rightarrow> 'm \<Rightarrow> int"
    and inv :: "'s \<Rightarrow> bool"
  assumes next_inv: "inv s \<Longrightarrow> next_number m s = (r, s') \<Longrightarrow> inv s'"
    and next_failed: "inv s \<Longrightarrow> next_number m s = (Inl e, s') \<Longrightarrow> s' = s"
    and next_is_new: "inv s \<Longrightarrow> next_number m s = (Inr i, s') \<Longrightarrow>
      i = last_number s m + 1 \<and> last_number s' m = i"
    and next_others: "inv s \<Longrightarrow> next_number m s = (Inr i, s') \<Longrightarrow> m' \<noteq> m \<Longrightarrow> last_number s' m' = last_number s m'"
begin

text \<open>The numbers drawn for a machine are the next ones, in order and without a gap.\<close>

lemma draws_consecutive:
  "inv s \<Longrightarrow> draws next_number ms s = (xs, s') \<Longrightarrow>
     (let mine = map snd (filter (\<lambda>x. fst x = m) xs) in
      mine = [last_number s m + 1 .. last_number s m + int (length mine)]
      \<and> last_number s' m = last_number s m + int (length mine) \<and> inv s')"
proof (induction ms arbitrary: s xs)
  case (Cons m0 ms)
  obtain r s1 where nx: "next_number m0 s = (r, s1)" by (cases "next_number m0 s")
  note inv1 = next_inv [OF Cons.prems(1) nx]
  show ?case
  proof (cases r)
    case (Inl e)
    with nx Cons.prems have "xs = []" "s' = s1" by auto
    moreover have "s1 = s" using next_failed [OF Cons.prems(1)] nx Inl by blast
    ultimately show ?thesis using Cons.prems(1) by simp
  next
    case (Inr i)
    obtain ys where ys: "draws next_number ms s1 = (ys, s')" "xs = (m0, i) # ys"
      using Cons.prems(2) nx Inr by (auto split: prod.splits)
    note IH = Cons.IH [OF inv1 ys(1), unfolded Let_def]
    show ?thesis
    proof (cases "m0 = m")
      case True
      with next_is_new [OF Cons.prems(1), of m0 i s1] nx Inr have
        "i = last_number s m + 1" "last_number s1 m = last_number s m + 1" by auto
      with IH ys(2) True show ?thesis by (simp add: upto_rec1 [of "last_number s m + 1"] add.assoc)
    next
      case False
      with next_others [OF Cons.prems(1), of m0 i s1 m] nx Inr IH ys(2) show ?thesis by simp
    qed
  qed
qed simp

end

interpretation store_seq: seq_source next_seq last_seq wf_store
proof
  fix s m r s' assume "wf_store s" "next_seq m s = (r, s')"
  then show "wf_store s'" by (rule next_seq_wf)
next
  fix s m e s' assume "wf_store s" "next_seq m s = (Inl e, s')"
  then show "s' = s" by (simp add: next_seq_eq split: if_splits)
next
  fix s m i s' assume "wf_store s" "next_seq m s = (Inr i, s')"
  then show "i = last_seq s m + 1 \<and> last_seq s' m = i" by (simp add: next_seq_ok(1,2))
next
  fix s m i s' and m' :: string assume "wf_store s" "next_seq m s = (Inr i, s')" "m' \<noteq> m"
  then show "last_seq s' m' = last_seq s m'" by (simp add: next_seq_ok(2))
qed

section \<open>Processing one body\<close>

record body =
  body_schema :: string
  body_profile :: string
  body_body :: "json dict"
  body_event_ts :: "string option"

text \<open>\<open>str(exc)\<close> of the errors \<open>process\<close> catches\<close>

fun exn_text :: "pyexn \<Rightarrow> string" where
  "exn_text (ValueError m) = m"
| "exn_text (RegistryError m) = m"
| "exn_text (ModbusError m) = m"
| "exn_text _ = []"

text \<open>What an engine is built with; \<open>digest\<close> is the hash and \<open>signer\<close> the raw Ed25519 signing.\<close>

record engine =
  gateway_id :: string
  engine_spec :: spec
  signer :: "(string \<Rightarrow> string) option"
  digest :: "string \<Rightarrow> string"

definition build_envelope :: "engine \<Rightarrow> string \<Rightarrow> body \<Rightarrow> int \<Rightarrow> string \<Rightarrow> json dict res" where
  "build_envelope eng machine_id b seq ts =
     res_bind (make_envelope (digest eng) (body_schema b) (body_body b) (body_profile b)
                 (gateway_id eng) machine_id seq ts ''0.1.0'' None) (\<lambda>env.
       (case signer eng of
          None \<Rightarrow> Inr env
        | Some ed_sign \<Rightarrow>
            res_bind (dict_item env ''checksum'') (\<lambda>c. res_bind (as_str c) (\<lambda>c.
              Inr (AList.update ''sig'' (JStr (sign ed_sign (gateway_id eng) machine_id seq c)) env)))))"

text \<open>\<open>process\<close> in two parts: the number is drawn, and then, in one more transaction at most, the body is buffered or
  kept as a dead letter.\<close>

definition finish ::
  "engine \<Rightarrow> datetime \<Rightarrow> string \<Rightarrow> body \<Rightarrow> int \<Rightarrow> string \<Rightarrow> store \<Rightarrow> json dict option res \<times> store" where
  "finish eng clock machine_id b seq ts st =
     (let reject = (\<lambda>msg. case dead_letter machine_id ts (body_body b) msg st of
                      (Inl e, st') \<Rightarrow> (Inl e, st') | (Inr _, st') \<Rightarrow> (Inr None, st'))
      in (case build_envelope eng machine_id b seq ts of
            Inl e \<Rightarrow> if is_value_error e then reject (exn_text e) else (Inl e, st)
          | Inr env \<Rightarrow>
              (case validate_envelope (digest eng) (engine_spec eng) env False of
                 Inl e \<Rightarrow> (Inl e, st)
               | Inr errors \<Rightarrow>
                   if errors \<noteq> [] then reject (join ''; '' errors)
                   else (case append_row clock env None st of
                           (Inl e, st') \<Rightarrow> (Inl e, st')
                         | (Inr _, st') \<Rightarrow> (Inr (Some env), st')))))"

definition process ::
  "engine \<Rightarrow> datetime \<Rightarrow> string \<Rightarrow> body \<Rightarrow> store \<Rightarrow> json dict option res \<times> store" where
  "process eng clock machine_id b st =
     (let ts = clock_or clock (body_event_ts b) in
      case next_seq machine_id st of
        (Inl e, st1) \<Rightarrow> (Inl e, st1)
      | (Inr seq, st1) \<Rightarrow> finish eng clock machine_id b seq ts st1)"

section \<open>What \<open>process\<close> does\<close>

abbreviation body_values_ok :: "body \<Rightarrow> bool" where
  "body_values_ok b \<equiv> wf_json (JObj (body_body b)) \<and> floats_ok (JObj (body_body b))"

definition engine_envelope :: "engine \<Rightarrow> string \<Rightarrow> body \<Rightarrow> int \<Rightarrow> string \<Rightarrow> string \<Rightarrow> json dict" where
  "engine_envelope eng machine_id b seq ts c =
     envelope_of (body_body b) (body_schema b) (body_profile b) (gateway_id eng) machine_id seq ts ''0.1.0''
       (map_option (\<lambda>ed_sign. sign ed_sign (gateway_id eng) machine_id seq c) (signer eng)) c"

lemma build_envelope_ok_iff:
  "build_envelope eng m b q ts = Inr env \<longleftrightarrow>
     body_schema b \<in> set core_schemas \<and>
     (\<exists>c. checksum (digest eng) (body_body b) = Inr c \<and> env = engine_envelope eng m b q ts c)"
  by (cases "signer eng")
    (auto simp: build_envelope_def engine_envelope_def res_inv make_envelope_ok_iff dict_item_def
      envelope_of_def)

lemma build_envelope_error: "build_envelope eng m b q ts = Inl e \<Longrightarrow> \<exists>msg. e = ValueError msg"
  by (auto simp: build_envelope_def res_bind_eq_Inl dict_item_def make_envelope_ok_iff
      dest: make_envelope_error split: option.splits)

lemma engine_envelope_stored:
  assumes "body_values_ok b"
  shows "stored_envelope (engine_envelope eng m b q ts c) m q"
proof -
  have "wf_json (JObj (envelope_of (body_body b) s p g m q ts v sig c))"
    "floats_ok (JObj (envelope_of (body_body b) s p g m q ts v sig c))" for s p g v sig
    using assms by (cases sig; simp add: envelope_of_def)+
  then show ?thesis by (simp add: stored_envelope_def engine_envelope_def)
qed

text \<open>The three outcomes of a call that drew a number.\<close>

definition dead_row_of :: "string \<Rightarrow> string \<Rightarrow> body \<Rightarrow> string \<Rightarrow> dead_row" where
  "dead_row_of m ts b msg =
     \<lparr>dead_machine = m, received_ts = ts, dead_body = dumps plain_opts (JObj (body_body b)), dead_error = msg\<rparr>"

lemma finish_eq:
  "finish eng clock m b q ts st =
     (case build_envelope eng m b q ts of
        Inl e \<Rightarrow> (Inr None, st\<lparr>dead_table := dead_table st @ [dead_row_of m ts b (exn_text e)]\<rparr>)
      | Inr env \<Rightarrow>
          (case validate_envelope (digest eng) (engine_spec eng) env False of
             Inl e \<Rightarrow> (Inl e, st)
           | Inr errors \<Rightarrow>
               if errors \<noteq> []
               then (Inr None, st\<lparr>dead_table := dead_table st @ [dead_row_of m ts b (join ''; '' errors)]\<rparr>)
               else (case append_row clock env None st of
                       (Inl e, st2) \<Rightarrow> (Inl e, st2) | (Inr _, st2) \<Rightarrow> (Inr (Some env), st2))))"
proof (cases "build_envelope eng m b q ts")
  case (Inl e)
  with build_envelope_error [OF Inl] show ?thesis
    by (auto simp: finish_def Let_def dead_letter_def dead_row_of_def)
next
  case (Inr env)
  then show ?thesis
    by (cases "validate_envelope (digest eng) (engine_spec eng) env False")
      (simp_all add: finish_def Let_def dead_letter_def dead_row_of_def del: dumps.simps)
qed

lemma process_finish:
  "next_seq m st = (Inr q, st1) \<Longrightarrow>
     process eng clock m b st = finish eng clock m b q (clock_or clock (body_event_ts b)) st1"
  by (simp add: process_def Let_def)

lemma process_eq:
  assumes "next_seq m st = (Inr q, st1)" "ts = clock_or clock (body_event_ts b)"
  shows "process eng clock m b st =
     (case build_envelope eng m b q ts of
        Inl e \<Rightarrow> (Inr None, st1\<lparr>dead_table := dead_table st1 @ [dead_row_of m ts b (exn_text e)]\<rparr>)
      | Inr env \<Rightarrow>
          (case validate_envelope (digest eng) (engine_spec eng) env False of
             Inl e \<Rightarrow> (Inl e, st1)
           | Inr errors \<Rightarrow>
               if errors \<noteq> []
               then (Inr None, st1\<lparr>dead_table := dead_table st1 @ [dead_row_of m ts b (join ''; '' errors)]\<rparr>)
               else (case append_row clock env None st1 of
                       (Inl e, st2) \<Rightarrow> (Inl e, st2) | (Inr _, st2) \<Rightarrow> (Inr (Some env), st2))))"
  unfolding process_finish [OF assms(1)] assms(2) [symmetric] by (rule finish_eq)

lemma finish_cases:
  assumes "finish eng clock m b q ts st = (r, st')"
  obtains (dead) msg where "r = Inr None" "st' = st\<lparr>dead_table := dead_table st @ [dead_row_of m ts b msg]\<rparr>"
    | (raised) e where "r = Inl e" "st' = st"
    | (buffered) env where "r = Inr (Some env)" "build_envelope eng m b q ts = Inr env"
        "validate_envelope (digest eng) (engine_spec eng) env False = Inr []"
        "append_row clock env None st = (Inr (), st')"
  using assms append_row_error [of clock _ None st] unfolding finish_eq
  by (auto split: sum.splits if_splits prod.splits)

lemma process_no_number: "next_seq m st = (Inl e, st1) \<Longrightarrow> process eng clock m b st = (Inl e, st1)"
  by (simp add: process_def Let_def)

text \<open>
  The invariant of the gateway: the database invariant, and no buffered number above the counter of
  its machine, so that the next number is new.
\<close>

definition seqs_below :: "store \<Rightarrow> bool" where
  "seqs_below st = (\<forall>b \<in> set (buffer st). row_seq b \<le> last_seq st (row_machine b))"

definition gateway_inv :: "store \<Rightarrow> bool" where
  "gateway_inv st = (wf_store st \<and> seqs_below st)"

lemma gateway_inv_empty: "gateway_inv empty_store"
  using wf_empty_store by (simp add: gateway_inv_def seqs_below_def empty_store_def)

lemma wf_store_dead_table [simp]: "wf_store (st\<lparr>dead_table := d\<rparr>) = wf_store st"
  by (simp add: wf_store_def)

lemma seqs_below_dead_table [simp]: "seqs_below (st\<lparr>dead_table := d\<rparr>) = seqs_below st"
  by (simp add: seqs_below_def last_seq_def)

lemma undelivered_cong: "buffer st' = buffer st \<Longrightarrow> cursors st' = cursors st \<Longrightarrow> undelivered x st' = undelivered x st"
  by (simp add: undelivered_def cursor_def)

lemma next_seq_gateway:
  assumes "gateway_inv st" "next_seq m st = (Inr q, st1)"
  shows "gateway_inv st1" "\<not> (\<exists>b \<in> set (buffer st1). row_machine b = m \<and> row_seq b = q)"
    "undelivered x st1 = undelivered x st" "- max_int64 - 1 \<le> q" "q \<le> max_int64"
proof -
  have wf: "wf_store st" and below: "seqs_below st" using assms(1) by (auto simp: gateway_inv_def)
  note nx = next_seq_ok [OF wf assms(2)]
  have "seqs_below st1" using below unfolding seqs_below_def nx(2,3) by (auto simp: nx(1))
  then show "gateway_inv st1" using next_seq_wf [OF wf assms(2)] by (simp add: gateway_inv_def)
  show "\<not> (\<exists>b \<in> set (buffer st1). row_machine b = m \<and> row_seq b = q)"
    using below unfolding seqs_below_def nx(3) by (auto simp: nx(1))
  show "undelivered x st1 = undelivered x st" by (rule undelivered_cong) (simp_all add: nx)
  show "- max_int64 - 1 \<le> q" "q \<le> max_int64" using nx(8,9) by (simp_all add: max_int64_def)
qed

lemma append_gateway:
  assumes "gateway_inv st1" "stored_envelope env m q" "- max_int64 - 1 \<le> q" "q \<le> max_int64"
    "q \<le> last_seq st1 m" "append_row clock env None st1 = (r, st2)"
  shows "gateway_inv st2"
proof -
  have wf: "wf_store st1" and below: "seqs_below st1" using assms(1) by (auto simp: gateway_inv_def)
  have "wf_store st2" by (rule append_row_wf [OF wf assms(2-4,6)])
  moreover have "seqs_below st2"
    using assms(6) below assms(5) unfolding append_row_eq [OF wf assms(2-4)]
    by (auto simp: seqs_below_def last_seq_def new_row_def split: if_splits)
  ultimately show ?thesis by (simp add: gateway_inv_def)
qed

lemma process_cases:
  assumes "gateway_inv st" "body_values_ok b" "process eng clock m b st = (r, st')"
    "ts = clock_or clock (body_event_ts b)" "q = last_seq st m + 1"
  obtains (no_number) "r = Inl OverflowError" "st' = st" "last_seq st m = max_int64"
    | (dead) msg st1 where "r = Inr None" "next_seq m st = (Inr q, st1)"
        "st' = st1\<lparr>dead_table := dead_table st1 @ [dead_row_of m ts b msg]\<rparr>"
    | (raised) e st1 env where "r = Inl e" "next_seq m st = (Inr q, st1)" "st' = st1"
        "build_envelope eng m b q ts = Inr env"
        "validate_envelope (digest eng) (engine_spec eng) env False = Inl e
         \<or> (e = DatabaseFull \<and> autoinc st = max_int64)"
    | (buffered) env st1 where "r = Inr (Some env)" "next_seq m st = (Inr q, st1)"
        "build_envelope eng m b q ts = Inr env"
        "validate_envelope (digest eng) (engine_spec eng) env False = Inr []"
        "append_row clock env None st1 = (Inr (), st')"
proof -
  have wf: "wf_store st" using assms(1) by (simp add: gateway_inv_def)
  show thesis
  proof (cases "last_seq st m = max_int64")
    case True
    then have "next_seq m st = (Inl OverflowError, st)" by (simp add: next_seq_eq [OF wf])
    with no_number True assms(3) show ?thesis by (simp add: process_no_number)
  next
    case False
    then obtain st1 where nx: "next_seq m st = (Inr q, st1)" by (simp add: next_seq_eq [OF wf] assms(5))
    note run = assms(3) [unfolded process_eq [OF nx assms(4)]]
    note g1 = next_seq_gateway [OF assms(1) nx]
    have wf1: "wf_store st1" using g1(1) by (simp add: gateway_inv_def)
    show ?thesis
    proof (cases "build_envelope eng m b q ts")
      case (Inl e)
      with run dead [OF _ nx] show ?thesis by auto
    next
      case (Inr env)
      then obtain c where env: "env = engine_envelope eng m b q ts c" by (auto simp: build_envelope_ok_iff)
      show ?thesis
      proof (cases "validate_envelope (digest eng) (engine_spec eng) env False")
        case (Inl e)
        with run Inr raised [OF _ nx _ Inr] show ?thesis by auto
      next
        case errs: (Inr errors)
        show ?thesis
        proof (cases "errors = []")
          case False
          with run Inr errs dead [OF _ nx] show ?thesis by auto
        next
          case True
          note ap = append_row_eq [OF wf1 engine_envelope_stored [OF assms(2), of eng m q ts c] g1(4,5), of clock None]
          obtain ar st2 where ar: "append_row clock env None st1 = (ar, st2)"
            by (cases "append_row clock env None st1")
          show ?thesis
          proof (cases ar)
            case (Inl e)
            with ar ap g1(2) env have "e = DatabaseFull" "autoinc st1 = max_int64" "st2 = st1"
              by (auto split: if_splits)
            moreover have "autoinc st1 = autoinc st" by (rule next_seq_ok(4) [OF wf nx])
            ultimately show ?thesis using raised [OF _ nx _ Inr, of e] run Inr errs True ar Inl by auto
          next
            case inr: (Inr u)
            with run Inr errs True ar buffered [OF _ nx Inr] show ?thesis by auto
          qed
        qed
      qed
    qed
  qed
qed

lemma process_gateway_inv:
  assumes "gateway_inv st" "body_values_ok b" "process eng clock m b st = (r, st')"
  shows "gateway_inv st'"
  using assms(1,2,3) refl refl
proof (cases rule: process_cases)
  case (dead msg st1)
  with next_seq_gateway(1) [OF assms(1)] show ?thesis by (auto simp: gateway_inv_def)
next
  case (raised e st1 env)
  with next_seq_gateway(1) [OF assms(1)] show ?thesis by auto
next
  case (buffered env st1)
  then obtain c where env: "env = engine_envelope eng m b (last_seq st m + 1) (clock_or clock (body_event_ts b)) c"
    by (auto simp: build_envelope_ok_iff)
  have "wf_store st" using assms(1) by (simp add: gateway_inv_def)
  from next_seq_ok(2) [OF this buffered(2), of m] have "last_seq st1 m = last_seq st m + 1" by simp
  then show ?thesis
    using append_gateway [OF next_seq_gateway(1) [OF assms(1) buffered(2)]
      engine_envelope_stored [OF assms(2)] next_seq_gateway(4,5) [OF assms(1) buffered(2)] _ buffered(5) [unfolded env]]
    by simp
qed (use assms in simp)

section \<open>Properties\<close>

text \<open>C3: The trust boundary. When \<open>process\<close> returns an envelope, it is built from the given body, it carries the
  next number of its machine and the hash of the canonical form of its body, it passed the whole validation, and
  exactly it was appended to what every exporter delivers. When it returns \<open>None\<close>, nothing was buffered and
  exactly one dead letter with the body was stored. The number is used up either way.\<close>

theorem process_outcome:
  assumes "gateway_inv st" "body_values_ok b" "process eng clock m b st = (Inr r, st')"
  shows "last_seq st' m = last_seq st m + 1 \<and>
    (case r of
       Some env \<Rightarrow>
         (\<exists>c. checksum (digest eng) (body_body b) = Inr c
            \<and> env = engine_envelope eng m b (last_seq st m + 1) (clock_or clock (body_event_ts b)) c)
         \<and> validate_envelope (digest eng) (engine_spec eng) env False = Inr []
         \<and> (\<forall>x. \<exists>i. undelivered x st' = undelivered x st @ [(i, JObj env)])
         \<and> dead_table st' = dead_table st
     | None \<Rightarrow>
         buffer st' = buffer st \<and> autoinc st' = autoinc st
         \<and> (\<exists>msg. dead_table st' = dead_table st @ [dead_row_of m (clock_or clock (body_event_ts b)) b msg]))"
proof -
  have wf: "wf_store st" using assms(1) by (simp add: gateway_inv_def)
  show ?thesis
    using assms refl refl
  proof (cases rule: process_cases)
    case (dead msg st1)
    with next_seq_ok [OF wf dead(2)] show ?thesis by (auto simp: last_seq_def)
  next
    case (buffered env st1)
    then obtain c where c: "checksum (digest eng) (body_body b) = Inr c"
      and env: "env = engine_envelope eng m b (last_seq st m + 1) (clock_or clock (body_event_ts b)) c"
      by (auto simp: build_envelope_ok_iff)
    note g1 = next_seq_gateway [OF assms(1) buffered(2)]
    have wf1: "wf_store st1" using g1(1) by (simp add: gateway_inv_def)
    note ap = undelivered_append [OF wf1 engine_envelope_stored [OF assms(2)] g1(4,5) buffered(5) [unfolded env]]
    have "last_seq st' m = last_seq st m + 1" using ap(2) next_seq_ok(2) [OF wf buffered(2), of m]
      by (simp add: last_seq_def)
    moreover have "dead_table st' = dead_table st" using ap(4) next_seq_ok(6) [OF wf buffered(2)] by simp
    ultimately show ?thesis using buffered(1,4) c env ap(1) g1(3) by auto
  qed (use assms in auto)
qed

definition strict_engine :: engine where
  "strict_engine = \<lparr>gateway_id = ''gw-01'', engine_spec = \<lparr>validators = (\<lambda>_. None), profiles = (\<lambda>_. None)\<rparr>,
     signer = None, digest = (\<lambda>s. s)\<rparr>"

definition bad_body :: body where
  "bad_body = \<lparr>body_schema = ''status'', body_profile = ''p/0.1'', body_body = [], body_event_ts = Some ''t''\<rparr>"

theorem process_outcome_witness:
  "\<exists>st'. process strict_engine undefined ''m-01'' bad_body empty_store = (Inr None, st')
     \<and> last_seq st' ''m-01'' = 1 \<and> buffer st' = [] \<and> length (dead_table st') = 1"
proof -
  have b: "body_values_ok bad_body" by (simp add: bad_body_def)
  have "\<exists>st'. process strict_engine undefined ''m-01'' bad_body empty_store = (Inr None, st')"
    by (simp add: process_def finish_def next_seq_def empty_store_def last_seq_def dict_get_def bind_int_def max_int64_def
        build_envelope_def make_envelope_def bad_body_def core_schemas_def dead_letter_def clock_or_def)
  then obtain st' where p: "process strict_engine undefined ''m-01'' bad_body empty_store = (Inr None, st')" ..
  with process_outcome [OF gateway_inv_empty b p] show ?thesis
    by (auto simp: empty_store_def last_seq_def dict_get_def)
qed

text \<open>The numbers drawn for one machine are consecutive, starting after the last one used, whatever other
  machines draw in between.\<close>

theorem seq_consecutive:
  assumes "wf_store st" "draws next_seq ms st = (xs, st')"
  shows "(let mine = map snd (filter (\<lambda>x. fst x = m) xs) in
     mine = [last_seq st m + 1 .. last_seq st m + int (length mine)]
     \<and> last_seq st' m = last_seq st m + int (length mine))"
  using store_seq.draws_consecutive [OF assms, of m] by (simp add: Let_def)

theorem seq_consecutive_witness:
  "\<exists>st'. draws next_seq [''a'', ''b'', ''a''] empty_store = ([(''a'', 1), (''b'', 1), (''a'', 2)], st')
     \<and> last_seq st' ''a'' = 2"
proof -
  obtain st' where d: "draws next_seq [''a'', ''b'', ''a''] empty_store = ([(''a'', 1), (''b'', 1), (''a'', 2)], st')"
    by (simp add: next_seq_def empty_store_def last_seq_def dict_get_def bind_int_def max_int64_def)
  with seq_consecutive [OF wf_empty_store d, of "''a''"] show ?thesis
    by (simp add: last_seq_def empty_store_def dict_get_def)
qed

text \<open>What the gateway signs the auditor's tool verifies: an envelope built by an engine with a signer passes
  \<open>verify_envelope_sig\<close> with the gateway's public key, if Ed25519 verifies what it signs.\<close>

theorem signed_envelope_verifies:
  assumes "build_envelope eng m b q ts = Inr env" "signer eng = Some ed_sign"
    "\<And>msg. ed_verify pub (ed_sign msg) msg"
  shows "verify_envelope_sig ed_verify env (public_key_b64 pub)"
  using assms(1,2)
  by (auto simp: build_envelope_ok_iff engine_envelope_def verify_envelope_sig_def verify_signature_def
      public_key_b64_def sign_def assms(3))

theorem signed_envelope_verifies_witness:
  "\<exists>env. build_envelope (strict_engine\<lparr>signer := Some rev\<rparr>) ''m-01'' (bad_body\<lparr>body_schema := ''event''\<rparr>) 1 ''t'' = Inr env
     \<and> verify_envelope_sig (\<lambda>p s msg. s = rev msg) env (public_key_b64 [])"
proof -
  obtain env where e: "build_envelope (strict_engine\<lparr>signer := Some rev\<rparr>) ''m-01'' (bad_body\<lparr>body_schema := ''event''\<rparr>) 1 ''t'' = Inr env"
    by (simp add: build_envelope_ok_iff bad_body_def core_schemas_def checksum_ok_iff)
  have "verify_envelope_sig (\<lambda>p s msg. s = rev msg) env (public_key_b64 [])"
    by (rule signed_envelope_verifies [OF e, of rev]) simp_all
  with e show ?thesis by blast
qed

end
