(* ===== verification/Exporters.thy ===== *)
theory Exporters
  imports Store Spec_Profile
begin

text \<open>
  \<open>gateway/omp/exporters/base.py\<close> and \<open>mqtt.py\<close>: an exporter drains the buffer through its cursor,
  acknowledging each envelope after the destination took it.

  The loop is stated over any queue with \<open>pending\<close> and \<open>ack\<close>; the contract of such a queue is the
  locale \<open>delivery_queue\<close>, which the store satisfies for every exporter name and batch size.
  The destination is a state of any type and \<open>publish\<close> an operation on it that may raise.
\<close>

section \<open>The drain loop\<close>

fun drain_rows ::
  "('e \<Rightarrow> 'd \<Rightarrow> unit res \<times> 'd) \<Rightarrow> (int \<Rightarrow> 's \<Rightarrow> unit res \<times> 's) \<Rightarrow> (int \<times> 'e) list \<Rightarrow> int \<Rightarrow> 'd \<Rightarrow> 's
     \<Rightarrow> int res \<times> 'd \<times> 's" where
  "drain_rows publish acknowledge [] sent d s = (Inr sent, d, s)"
| "drain_rows publish acknowledge ((r, e) # rows) sent d s =
     (case publish e d of
        (Inl x, d') \<Rightarrow> (Inl x, d', s)
      | (Inr _, d') \<Rightarrow>
          (case acknowledge r s of
             (Inl x, s') \<Rightarrow> (Inl x, d', s')
           | (Inr _, s') \<Rightarrow> drain_rows publish acknowledge rows (sent + 1) d' s'))"

text \<open>The \<open>while True\<close> loop, with fuel: \<open>None\<close> is a loop that has not ended yet.\<close>

fun drain_loop ::
  "nat \<Rightarrow> ('s \<Rightarrow> (int \<times> 'e) list res) \<Rightarrow> ('e \<Rightarrow> 'd \<Rightarrow> unit res \<times> 'd) \<Rightarrow> (int \<Rightarrow> 's \<Rightarrow> unit res \<times> 's)
     \<Rightarrow> int \<Rightarrow> 'd \<Rightarrow> 's \<Rightarrow> (int res \<times> 'd \<times> 's) option" where
  "drain_loop 0 pend publish acknowledge sent d s = None"
| "drain_loop (Suc fuel) pend publish acknowledge sent d s =
     (case pend s of
        Inl x \<Rightarrow> Some (Inl x, d, s)
      | Inr rows \<Rightarrow>
          if rows = [] then Some (Inr sent, d, s)
          else (case drain_rows publish acknowledge rows sent d s of
                  (Inl x, d', s') \<Rightarrow> Some (Inl x, d', s')
                | (Inr sent', d', s') \<Rightarrow> drain_loop fuel pend publish acknowledge sent' d' s'))"

definition drain ::
  "nat \<Rightarrow> string \<Rightarrow> (json \<Rightarrow> 'd \<Rightarrow> unit res \<times> 'd) \<Rightarrow> int \<Rightarrow> 'd \<Rightarrow> store \<Rightarrow> (int res \<times> 'd \<times> store) option" where
  "drain fuel name publish batch d st = drain_loop fuel (pending name batch) publish (ack name) 0 d st"

section \<open>What a drain must do\<close>

text \<open>
  The specification: give the elements to the destination in order until one is refused. The
  result is the number taken, the exception if any, and the destination's new state.
\<close>

fun deliver :: "('e \<Rightarrow> 'd \<Rightarrow> unit res \<times> 'd) \<Rightarrow> 'e list \<Rightarrow> 'd \<Rightarrow> nat \<times> pyexn option \<times> 'd" where
  "deliver publish [] d = (0, None, d)"
| "deliver publish (e # es) d =
     (case publish e d of
        (Inl x, d') \<Rightarrow> (0, Some x, d')
      | (Inr _, d') \<Rightarrow> (case deliver publish es d' of (k, x, d'') \<Rightarrow> (Suc k, x, d'')))"

lemma deliver_le: "deliver publish es d = (k, x, d') \<Longrightarrow> k \<le> length es"
  by (induction publish es d arbitrary: k x d' rule: deliver.induct) (auto split: prod.splits sum.splits)

lemma deliver_all: "deliver publish es d = (k, None, d') \<Longrightarrow> k = length es"
  by (induction publish es d arbitrary: k d' rule: deliver.induct) (auto split: prod.splits sum.splits)

lemma deliver_some: "deliver publish es d = (k, Some x, d') \<Longrightarrow> k < length es"
  by (induction publish es d arbitrary: k d' rule: deliver.induct) (auto split: prod.splits sum.splits)

lemma deliver_append:
  "deliver publish (es @ fs) d =
     (case deliver publish es d of
        (k, Some x, d') \<Rightarrow> (k, Some x, d')
      | (k, None, d') \<Rightarrow> (case deliver publish fs d' of (j, x, d'') \<Rightarrow> (k + j, x, d'')))"
  by (induction publish es d rule: deliver.induct) (auto split: prod.splits sum.splits option.splits)

locale delivery_queue =
  fixes todo :: "'s \<Rightarrow> (int \<times> 'e) list"
    and pend :: "'s \<Rightarrow> (int \<times> 'e) list res"
    and acknowledge :: "int \<Rightarrow> 's \<Rightarrow> unit res \<times> 's"
    and inv :: "'s \<Rightarrow> bool"
  assumes pend_prefix: "inv s \<Longrightarrow> \<exists>n > 0. pend s = Inr (take n (todo s))"
    and ack_head: "inv s \<Longrightarrow> todo s = (r, e) # rest \<Longrightarrow>
      \<exists>s'. acknowledge r s = (Inr (), s') \<and> inv s' \<and> todo s' = rest"
begin

lemma drain_rows_deliver:
  assumes "inv s" "todo s = rows @ rest" "deliver publish (map snd rows) d = (k, x, d')"
  shows "\<exists>s'. drain_rows publish acknowledge rows sent d s
      = ((case x of None \<Rightarrow> Inr (sent + int k) | Some e \<Rightarrow> Inl e), d', s')
    \<and> inv s' \<and> todo s' = drop k (todo s)"
  using assms
proof (induction rows arbitrary: sent d s k)
  case (Cons row rows)
  obtain r e where row: "row = (r, e)" by (cases row)
  obtain p d1 where pub: "publish e d = (p, d1)" by (cases "publish e d")
  show ?case
  proof (cases p)
    case (Inl err)
    with Cons.prems row pub show ?thesis by auto
  next
    case (Inr u)
    from ack_head [of s r e "rows @ rest"] Cons.prems row obtain s1 where
      s1: "acknowledge r s = (Inr (), s1)" "inv s1" "todo s1 = rows @ rest" by auto
    obtain j where j: "deliver publish (map snd rows) d1 = (j, x, d')" "k = Suc j"
      using Cons.prems(3) row pub Inr by (auto split: prod.splits)
    from Cons.IH [OF s1(2,3) j(1), of "sent + 1"] s1 j(2) Cons.prems(2) row pub Inr
    show ?thesis by (auto simp: algebra_simps split: option.splits)
  qed
qed simp

lemma drain_loop_deliver:
  assumes "inv s" "length (todo s) < fuel" "deliver publish (map snd (todo s)) d = (k, x, d')"
  shows "\<exists>s'. drain_loop fuel pend publish acknowledge sent d s
      = Some ((case x of None \<Rightarrow> Inr (sent + int k) | Some e \<Rightarrow> Inl e), d', s')
    \<and> inv s' \<and> todo s' = drop k (todo s)"
  using assms
proof (induction fuel arbitrary: sent d s k)
  case (Suc fuel)
  from pend_prefix [OF Suc.prems(1)] obtain n where n: "0 < n" "pend s = Inr (take n (todo s))" by blast
  show ?case
  proof (cases "todo s")
    case Nil
    with Suc.prems n show ?thesis by auto
  next
    case (Cons a as)
    let ?rows = "take n (todo s)"
    have ne: "?rows \<noteq> []" using Cons n(1) by simp
    obtain k1 x1 d1 where del: "deliver publish (map snd ?rows) d = (k1, x1, d1)"
      by (metis prod_cases3)
    from drain_rows_deliver [OF Suc.prems(1) _ del, of "drop n (todo s)" sent] obtain s1 where
      s1: "drain_rows publish acknowledge ?rows sent d s
        = ((case x1 of None \<Rightarrow> Inr (sent + int k1) | Some e \<Rightarrow> Inl e), d1, s1)"
        "inv s1" "todo s1 = drop k1 (todo s)" by auto
    have split: "deliver publish (map snd (todo s)) d = (case deliver publish (map snd ?rows) d of
        (k, Some x, d') \<Rightarrow> (k, Some x, d')
      | (k, None, d') \<Rightarrow> (case deliver publish (map snd (drop n (todo s))) d' of (j, x, d'') \<Rightarrow> (k + j, x, d'')))"
      by (subst append_take_drop_id [of n "todo s", symmetric]) (simp only: map_append deliver_append)
    show ?thesis
    proof (cases x1)
      case (Some err)
      with split del Suc.prems(3) have "k = k1" "x = Some err" "d' = d1" by auto
      with Some s1 n ne show ?thesis by auto
    next
      case None
      from deliver_all [OF del [unfolded None]] have k1: "k1 = length ?rows" by simp
      then have s1_todo: "todo s1 = drop n (todo s)" using s1(3) by (cases "n \<le> length (todo s)") auto
      obtain j where j: "deliver publish (map snd (todo s1)) d1 = (j, x, d')" "k = k1 + j"
        using split del None Suc.prems(3) s1_todo by (auto split: prod.splits)
      have "length (todo s1) < fuel" using Suc.prems(2) Cons n(1) s1_todo by auto
      from Suc.IH [OF s1(2) this j(1), of "sent + int k1"] obtain s2 where
        "drain_loop fuel pend publish acknowledge (sent + int k1) d1 s1
          = Some ((case x of None \<Rightarrow> Inr (sent + int k1 + int j) | Some e \<Rightarrow> Inl e), d', s2)"
        "inv s2" "todo s2 = drop j (todo s1)" by blast
      with s1 None n ne j(2) show ?thesis by (auto simp: add.assoc add.commute split: option.splits)
    qed
  qed
qed simp

end

section \<open>The store is such a queue\<close>

lemma undelivered_sorted: "wf_store st \<Longrightarrow> sorted_wrt (<) (map fst (undelivered x st))"
  unfolding undelivered_def by (simp add: comp_def sorted_wrt_filter_map wf_store_D(1))

lemma undelivered_bounds:
  "wf_store st \<Longrightarrow> (r, e) \<in> set (undelivered x st) \<Longrightarrow> cursor st x < r \<and> 0 < r \<and> r \<le> autoinc st"
  by (auto simp: undelivered_def dest: wf_store_D(2,3))

lemma filter_after_head:
  fixes r :: int
  shows "sorted_wrt (<) (map fst ((r, e) # rest)) \<Longrightarrow> filter (\<lambda>(i, v). r < i) ((r, e) # rest) = rest"
  by (auto simp: filter_id_conv)

lemma sql_limit_take: "n \<noteq> 0 \<Longrightarrow> \<exists>k > 0. sql_limit n xs = take k xs"
proof (cases "n < 0")
  case True
  then show ?thesis by (auto simp: sql_limit_def intro!: exI [of _ "Suc (length xs)"])
next
  case False
  assume "n \<noteq> 0"
  with False show ?thesis by (auto simp: sql_limit_def intro!: exI [of _ "nat n"])
qed

interpretation store_queue: delivery_queue "undelivered x" "pending x n" "ack x"
  "\<lambda>st. wf_store st \<and> n \<noteq> 0 \<and> bind_int n = Inr n" for x :: string and n :: int
proof
  fix st assume inv: "wf_store st \<and> n \<noteq> 0 \<and> bind_int n = Inr n"
  with sql_limit_take [of n "undelivered x st"] show "\<exists>k > 0. pending x n st = Inr (take k (undelivered x st))"
    by (simp add: pending_eq)
next
  fix st r e rest
  assume inv: "wf_store st \<and> n \<noteq> 0 \<and> bind_int n = Inr n" and todo: "undelivered x st = (r, e) # rest"
  then have wf: "wf_store st" by simp
  from undelivered_bounds [OF wf, of r e x] todo wf_store_D(11) [OF wf]
  have r: "cursor st x < r" "0 < r" "r \<le> autoinc st" "r \<le> max_int64" "- max_int64 - 1 \<le> r"
    by (auto simp: max_int64_def)
  obtain st' where a: "ack x r st = (Inr (), st')" using ack_eq [OF r(5,4)] by blast
  have "undelivered x st' = rest"
    using undelivered_ack(1) [OF _ r(4,5) a] r(1) undelivered_sorted [OF wf, of x] todo filter_after_head [of r e rest]
    by simp
  moreover have "wf_store st'" using ack_wf [OF wf _ r(3) a] r(2) by simp
  ultimately show "\<exists>st'. ack x r st = (Inr (), st') \<and> (wf_store st' \<and> n \<noteq> 0 \<and> bind_int n = Inr n)
    \<and> undelivered x st' = rest" using a inv by blast
qed

text \<open>The drain of the gateway's store, against the specification.\<close>

lemma drain_deliver:
  assumes "wf_store st" "n \<noteq> 0" "bind_int n = Inr n" "length (undelivered x st) < fuel"
    "deliver publish (map snd (undelivered x st)) d = (k, e, d')"
  obtains st' where "drain fuel x publish n d st
      = Some ((case e of None \<Rightarrow> Inr (int k) | Some e \<Rightarrow> Inl e), d', st')"
    "wf_store st'" "undelivered x st' = drop k (undelivered x st)"
  using store_queue.drain_loop_deliver [of st n x fuel publish d k e d' 0] assms
  by (cases e) (auto simp: drain_def)

lemma drain_rows_frame:
  "drain_rows publish (ack x) rows sent d st = (r, d', st') \<Longrightarrow>
     buffer st' = buffer st \<and> seq_counters st' = seq_counters st \<and> dead_table st' = dead_table st
     \<and> autoinc st' = autoinc st \<and> (\<forall>y. y \<noteq> x \<longrightarrow> cursor st' y = cursor st y)"
proof (induction publish "ack x" rows sent d st rule: drain_rows.induct)
  case (2 publish i e rows sent d st)
  obtain p d1 where pub: "publish e d = (p, d1)" by (cases "publish e d")
  obtain a st1 where ack: "ack x i st = (a, st1)" by (cases "ack x i st")
  then have st1: "buffer st1 = buffer st \<and> seq_counters st1 = seq_counters st \<and> dead_table st1 = dead_table st
     \<and> autoinc st1 = autoinc st \<and> (\<forall>y. y \<noteq> x \<longrightarrow> cursor st1 y = cursor st y)"
    by (auto simp: ack_def bind_int_def split: if_splits)
  show ?case
  proof (cases p; cases a)
    fix u v assume "p = Inr u" "a = Inr v"
    with 2 pub ack st1 show ?thesis by auto
  qed (use 2 pub ack st1 in auto)
qed simp

lemma drain_frame:
  "drain fuel x publish n d st = Some (r, d', st') \<Longrightarrow>
     buffer st' = buffer st \<and> seq_counters st' = seq_counters st \<and> dead_table st' = dead_table st
     \<and> autoinc st' = autoinc st \<and> (\<forall>y. y \<noteq> x \<longrightarrow> cursor st' y = cursor st y)"
proof -
  have "drain_loop fuel (pending x n) publish (ack x) sent d st = Some (r, d', st') \<Longrightarrow>
     buffer st' = buffer st \<and> seq_counters st' = seq_counters st \<and> dead_table st' = dead_table st
     \<and> autoinc st' = autoinc st \<and> (\<forall>y. y \<noteq> x \<longrightarrow> cursor st' y = cursor st y)" for sent
  proof (induction fuel arbitrary: sent d st)
    case (Suc fuel)
    show ?case
    proof (cases "pending x n st")
      case (Inr rows)
      obtain q d1 st1 where dr: "drain_rows publish (ack x) rows sent d st = (q, d1, st1)"
        by (metis prod_cases3)
      note fr = drain_rows_frame [OF dr]
      show ?thesis
      proof (cases q)
        case (Inl e)
        with Suc.prems Inr dr fr show ?thesis by (auto split: if_splits)
      next
        case q: (Inr sent')
        show ?thesis
        proof (cases "rows = []")
          case False
          with Suc.prems Inr dr q have "drain_loop fuel (pending x n) publish (ack x) sent' d1 st1 = Some (r, d', st')"
            by simp
          from Suc.IH [OF this] fr show ?thesis by simp
        qed (use Suc.prems Inr in auto)
      qed
    qed (use Suc.prems in auto)
  qed simp
  then show "drain fuel x publish n d st = Some (r, d', st') \<Longrightarrow> ?thesis" by (simp add: drain_def)
qed

section \<open>The destinations\<close>

text \<open>
  \<open>StdoutExporter.publish\<close>: \<open>write\<close> is the stream's. A broken pipe is reported as
  \<open>ExporterClosed\<close>, every other exception as itself.
\<close>

definition broken_pipe :: pyexn where "broken_pipe = OtherError ''BrokenPipeError''"

definition stdout_line :: "json \<Rightarrow> string" where
  "stdout_line envelope = dumps plain_opts envelope @ [CHR 0x0A]"

definition stdout_publish :: "(string \<Rightarrow> 'd \<Rightarrow> unit res \<times> 'd) \<Rightarrow> json \<Rightarrow> 'd \<Rightarrow> unit res \<times> 'd" where
  "stdout_publish write envelope d =
     (case write (stdout_line envelope) d of
        (Inl e, d') \<Rightarrow> (Inl (if e = broken_pipe then ExporterClosed else e), d')
      | (Inr u, d') \<Rightarrow> (Inr (), d'))"

text \<open>\<open>MqttExporter\<close>: \<open>locations\<close> maps a machine to its location; \<open>client\<close> publishes and waits.\<close>

definition topic :: "string \<Rightarrow> json dict \<Rightarrow> json \<Rightarrow> string res" where
  "topic topic_prefix locations envelope =
     res_bind (as_dict envelope) (\<lambda>env.
     res_bind (dict_item env ''machine_id'') (\<lambda>m.
     if \<not> hashable m then Inl TypeError else
     res_bind (as_dict (case lookup_key (map_of locations) m of None \<Rightarrow> JObj [] | Some l \<Rightarrow> l)) (\<lambda>loc.
     res_bind (dict_item env ''schema'') (\<lambda>schema.
     res_bind (res_map as_str
         [JStr topic_prefix, dict_get loc ''site'' (JStr ''unknown''),
          dict_get loc ''area'' (JStr ''unknown''), dict_get loc ''line'' (JStr ''unknown''), m, schema])
       (\<lambda>parts. Inr (join ''/'' parts))))))"

definition mqtt_publish ::
  "string \<Rightarrow> json dict \<Rightarrow> (string \<Rightarrow> string \<Rightarrow> 'd \<Rightarrow> unit res \<times> 'd) \<Rightarrow> json \<Rightarrow> 'd \<Rightarrow> unit res \<times> 'd" where
  "mqtt_publish topic_prefix locations client envelope d =
     (case topic topic_prefix locations envelope of
        Inl e \<Rightarrow> (Inl e, d)
      | Inr t \<Rightarrow> client t (dumps plain_opts envelope) d)"

section \<open>Properties\<close>

text \<open>C6: A drain of the store terminates and is the specification \<open>deliver\<close>: with more steps than envelopes to
  deliver it returns, whatever the batch size; the destination has received exactly the undelivered envelopes in
  order up to the first one it refused; the result is their number, or the exception of the destination; and what
  remains undelivered is what was not taken.\<close>

theorem drain_is_deliver:
  assumes "wf_store st" "n \<noteq> 0" "bind_int n = Inr n" "length (undelivered x st) < fuel"
    "deliver publish (map snd (undelivered x st)) d = (k, e, d')"
  shows "\<exists>st'. drain fuel x publish n d st = Some ((case e of None \<Rightarrow> Inr (int k) | Some e \<Rightarrow> Inl e), d', st')
    \<and> wf_store st' \<and> undelivered x st' = drop k (undelivered x st) \<and> buffer st' = buffer st"
  using drain_deliver [OF assms] drain_frame [of fuel x publish n d st] by metis

definition full_store :: store where
  "full_store = \<lparr>seq_counters = [(''m'', 2)],
     buffer = [\<lparr>rowid = 1, row_machine = ''m'', row_seq = 1,
                row_envelope = dumps plain_opts (JObj [(''machine_id'', JStr ''m''), (''seq'', JInt 1)]), row_stored_at = None\<rparr>,
               \<lparr>rowid = 2, row_machine = ''m'', row_seq = 2,
                row_envelope = dumps plain_opts (JObj [(''machine_id'', JStr ''m''), (''seq'', JInt 2)]), row_stored_at = None\<rparr>],
     autoinc = 2, prune_log = [], dead_table = [], cursors = []\<rparr>"

lemma full_store_wf: "wf_store full_store"
proof -
  have "row_ok \<lparr>rowid = i, row_machine = ''m'', row_seq = q,
      row_envelope = dumps plain_opts (JObj [(''machine_id'', JStr ''m''), (''seq'', JInt q)]), row_stored_at = None\<rparr>" for i q
    by (rule row_ok_stored) (simp add: stored_envelope_def)
  then show ?thesis
    by (simp add: wf_store_def full_store_def max_int64_def wf_dict_def del: dumps.simps)
qed

lemma full_store_undelivered: "length (undelivered x full_store) = 2"
  by (simp add: undelivered_def full_store_def cursor_def dict_get_def)

text \<open>A destination that takes two and then is gone.\<close>

definition two_only :: "json \<Rightarrow> json list \<Rightarrow> unit res \<times> json list" where
  "two_only e d = (if length d < 1 then (Inr (), d @ [e]) else (Inl ExporterClosed, d))"

theorem drain_is_deliver_witness:
  "\<exists>d' st'. drain 3 ''stdout'' two_only 500 [] full_store = Some (Inl ExporterClosed, d', st')
     \<and> length (undelivered ''stdout'' st') = 1"
proof -
  have b: "bind_int 500 = Inr 500" by (simp add: bind_int_def max_int64_def)
  obtain r1 r2 where u: "undelivered ''stdout'' full_store = [r1, r2]"
    using full_store_undelivered [of "''stdout''"] by (auto simp: length_Suc_conv eval_nat_numeral)
  then have d: "deliver two_only (map snd (undelivered ''stdout'' full_store)) [] = (1, Some ExporterClosed, [snd r1])"
    by (simp add: two_only_def)
  obtain st' where "drain 3 ''stdout'' two_only 500 [] full_store = Some (Inl ExporterClosed, [snd r1], st')"
    "undelivered ''stdout'' st' = drop 1 (undelivered ''stdout'' full_store)"
    using drain_is_deliver [OF full_store_wf _ b _ d, of 3] u by auto
  with u show ?thesis by (intro exI conjI) auto
qed

end
