(* ===== verification/Gateway_System.thy ===== *)
theory Gateway_System
  imports Engine Exporters "HOL-Library.Multiset"
begin

text \<open>
  The gateway as a whole: adapter threads emitting through the engine, exporters draining batches,
  the retention, and crashes, interleaved at the granularity of the store's transactions (one lock
  and one transaction for each method). A call of \<open>process\<close> is two steps, the drawing of the number and the rest,
  and any number of calls may be in progress. A drain is broken off when its publication or acknowledgement raises, whether
  or not the destination has taken the envelope. A crash keeps the database and loses the calls in progress and the
  batches in memory. \<open>drain_rows\<close> and \<open>drain\<close> of \<open>Exporters\<close> are runs of these steps (\<open>drain_is_a_run\<close>).

  \<open>emitted\<close>, \<open>spent\<close>, \<open>out\<close>, \<open>acked\<close> and \<open>lost\<close> are history: the rows ever appended, the numbers drawn by calls that
  ended without appending, what each destination has taken, the rows each exporter has acknowledged, and how often an
  envelope was taken whose acknowledgement was then lost.
\<close>

section \<open>Steps\<close>

type_synonym key = "json \<times> json"

record call =
  call_machine :: string
  call_body :: body
  call_seq :: int
  call_ts :: string

definition call_key :: "call \<Rightarrow> key" where
  "call_key c = (JStr (call_machine c), JInt (call_seq c))"

record gateway =
  db :: store
  calls :: "call list"
  batch :: "string \<Rightarrow> (int \<times> json) list"
  in_flight :: "string \<Rightarrow> bool"
  out :: "string \<Rightarrow> json list"
  emitted :: "(int \<times> json) list"
  spent :: "key list"
  acked :: "string \<Rightarrow> (int \<times> json) list"
  lost :: "string \<Rightarrow> nat"

definition init_gateway :: gateway where
  "init_gateway = \<lparr>db = empty_store, calls = [], batch = (\<lambda>_. []), in_flight = (\<lambda>_. False), out = (\<lambda>_. []),
     emitted = [], spent = [], acked = (\<lambda>_. []), lost = (\<lambda>_. 0)\<rparr>"

definition unacknowledged :: "gateway \<Rightarrow> string \<Rightarrow> nat" where
  "unacknowledged g x = (if in_flight g x then 1 else 0)"

declare unacknowledged_def [simp]

text \<open>What the end of a call adds to the rows, and to the numbers spent.\<close>

definition added :: "json dict option res \<Rightarrow> store \<Rightarrow> (int \<times> json) list" where
  "added r st' = (case r of Inr (Some env) \<Rightarrow> [(autoinc st', JObj env)] | _ \<Rightarrow> [])"

definition wasted :: "json dict option res \<Rightarrow> call \<Rightarrow> key list" where
  "wasted r c = (case r of Inr (Some env) \<Rightarrow> [] | _ \<Rightarrow> [call_key c])"

inductive gstep :: "engine \<Rightarrow> string list \<Rightarrow> gateway \<Rightarrow> gateway \<Rightarrow> bool" for eng xs where
  gstep_refused: "next_seq m (db g) = (Inl e, st') \<Longrightarrow> gstep eng xs g (g\<lparr>db := st'\<rparr>)"
| gstep_draw: "body_values_ok b \<Longrightarrow> next_seq m (db g) = (Inr q, st') \<Longrightarrow>
    gstep eng xs g (g\<lparr>db := st', calls := calls g @
      [\<lparr>call_machine = m, call_body = b, call_seq = q, call_ts = clock_or clock (body_event_ts b)\<rparr>]\<rparr>)"
| gstep_finish: "calls g = cs @ c # ds \<Longrightarrow>
    finish eng clock (call_machine c) (call_body c) (call_seq c) (call_ts c) (db g) = (r, st') \<Longrightarrow>
    gstep eng xs g (g\<lparr>db := st', calls := cs @ ds, emitted := emitted g @ added r st', spent := spent g @ wasted r c\<rparr>)"
| gstep_fetch: "x \<in> set xs \<Longrightarrow> batch g x = [] \<Longrightarrow> pending x n (db g) = Inr rows \<Longrightarrow> bind_int n = Inr n \<Longrightarrow>
    gstep eng xs g (g\<lparr>batch := (batch g)(x := rows)\<rparr>)"
| gstep_publish: "batch g x = (i, e) # rows \<Longrightarrow> \<not> in_flight g x \<Longrightarrow>
    gstep eng xs g (g\<lparr>out := (out g)(x := out g x @ [e]), in_flight := (in_flight g)(x := True)\<rparr>)"
| gstep_ack: "batch g x = (i, e) # rows \<Longrightarrow> in_flight g x \<Longrightarrow> ack x i (db g) = (Inr (), st') \<Longrightarrow>
    gstep eng xs g (g\<lparr>db := st', batch := (batch g)(x := rows), in_flight := (in_flight g)(x := False),
      acked := (acked g)(x := acked g x @ [(i, e)])\<rparr>)"
| gstep_broken_off: "gstep eng xs g (g\<lparr>batch := (batch g)(x := []), in_flight := (in_flight g)(x := False),
      lost := (lost g)(x := lost g x + unacknowledged g x)\<rparr>)"
| gstep_prune: "prune db_bytes clock xs days max_bytes now (db g) = (r, st') \<Longrightarrow> gstep eng xs g (g\<lparr>db := st'\<rparr>)"
| gstep_crash: "gstep eng xs g (g\<lparr>calls := [], batch := (\<lambda>_. []), in_flight := (\<lambda>_. False),
    lost := (\<lambda>x. lost g x + unacknowledged g x), spent := spent g @ map call_key (calls g)\<rparr>)"

inductive_cases gstep_E: "gstep eng xs g g'"

inductive reachable :: "engine \<Rightarrow> string list \<Rightarrow> gateway \<Rightarrow> bool" for eng xs where
  reachable_init: "reachable eng xs init_gateway"
| reachable_step: "reachable eng xs g \<Longrightarrow> gstep eng xs g g' \<Longrightarrow> reachable eng xs g'"

text \<open>A whole call without interruption.\<close>

lemma reachable_process:
  assumes "reachable eng xs g" "body_values_ok b" "process eng clock m b (db g) = (Inr r, st')"
  obtains q where "reachable eng xs (g\<lparr>db := st', emitted := emitted g @ added (Inr r) st',
      spent := spent g @ (if r = None then [(JStr m, JInt q)] else [])\<rparr>)"
proof -
  obtain q st1 where nx: "next_seq m (db g) = (Inr q, st1)"
    using assms(3) by (cases "next_seq m (db g)"; cases "fst (next_seq m (db g))") (auto simp: process_def Let_def)
  let ?c = "\<lparr>call_machine = m, call_body = b, call_seq = q, call_ts = clock_or clock (body_event_ts b)\<rparr>"
  let ?g = "g\<lparr>db := st1, calls := calls g @ [?c]\<rparr>"
  have "reachable eng xs ?g" by (rule reachable_step [OF assms(1) gstep_draw [OF assms(2) nx]])
  moreover have "finish eng clock (call_machine ?c) (call_body ?c) (call_seq ?c) (call_ts ?c) (db ?g) = (Inr r, st')"
    using assms(3) process_finish [OF nx] by simp
  ultimately have "reachable eng xs (?g\<lparr>db := st', calls := calls g @ [], emitted := emitted ?g @ added (Inr r) st',
      spent := spent ?g @ wasted (Inr r) ?c\<rparr>)"
    using reachable_step gstep_finish [of ?g "calls g" ?c "[]" eng clock "Inr r" st' xs] by simp
  then have "reachable eng xs (g\<lparr>db := st', emitted := emitted g @ added (Inr r) st',
      spent := spent g @ (if r = None then [(JStr m, JInt q)] else [])\<rparr>)"
    by (cases r) (simp_all add: wasted_def call_key_def)
  with that show thesis by blast
qed

section \<open>The delivery invariant\<close>

text \<open>The key a consumer deduplicates by, within one gateway.\<close>

definition env_key :: "json \<Rightarrow> key" where
  "env_key v = (case v of JObj d \<Rightarrow> (dict_get d ''machine_id'' JNull, dict_get d ''seq'' JNull) | _ \<Rightarrow> (JNull, JNull))"

text \<open>Every number drawn so far is that of a row, of a call in progress, or spent.\<close>

definition all_keys :: "gateway \<Rightarrow> key list" where
  "all_keys g = map (env_key \<circ> snd) (emitted g) @ map call_key (calls g) @ spent g"

definition numbers_drawn :: "store \<Rightarrow> key set" where
  "numbers_drawn st = {(JStr m, JInt q) | m q. 0 < q \<and> q \<le> last_seq st m}"

definition delivery_inv :: "string list \<Rightarrow> gateway \<Rightarrow> bool" where
  "delivery_inv xs g =
     (gateway_inv (db g)
      \<and> (\<forall>c \<in> set (calls g). body_values_ok (call_body c))
      \<and> distinct (all_keys g) \<and> set (all_keys g) = numbers_drawn (db g)
      \<and> (\<forall>x. x \<notin> set xs \<longrightarrow> batch g x = [])
      \<and> (\<forall>x \<in> set xs. acked g x @ undelivered x (db g) = emitted g)
      \<and> (\<forall>x \<in> set xs. \<exists>later. undelivered x (db g) = batch g x @ later)
      \<and> (\<forall>x. in_flight g x \<longrightarrow> batch g x \<noteq> [])
      \<and> (\<forall>x. length (out g x) = length (acked g x) + lost g x + unacknowledged g x)
      \<and> (\<forall>x \<in> set xs. (remdups_adj (out g x) = map snd (acked g x) \<and> \<not> in_flight g x)
           \<or> (\<exists>i e later. undelivered x (db g) = (i, e) # later
                \<and> remdups_adj (out g x) = map snd (acked g x) @ [e])))"

lemma numbers_drawn_cong: "(\<And>m. last_seq st' m = last_seq st m) \<Longrightarrow> numbers_drawn st' = numbers_drawn st"
  by (simp add: numbers_drawn_def)

text \<open>What the end of a call does to the database, with its number at most the counter of its machine.\<close>

lemma finish_effect:
  assumes "gateway_inv st" "body_values_ok b" "0 < q" "q \<le> last_seq st m"
    "finish eng clock m b q ts st = (r, st')"
  shows "gateway_inv st'" "undelivered x st' = undelivered x st @ added r st'" "last_seq st' k = last_seq st k"
    "row \<in> set (added r st') \<Longrightarrow> env_key (snd row) = (JStr m, JInt q)"
proof -
  have wf: "wf_store st" using assms(1) by (simp add: gateway_inv_def)
  have bounds: "- max_int64 - 1 \<le> q" "q \<le> max_int64"
    using assms(3,4) last_seq_bounds [OF wf, of m] by (auto simp: max_int64_def)
  have "gateway_inv st' \<and> undelivered x st' = undelivered x st @ added r st' \<and> last_seq st' k = last_seq st k
    \<and> (row \<in> set (added r st') \<longrightarrow> env_key (snd row) = (JStr m, JInt q))"
    using assms(5)
  proof (cases rule: finish_cases)
    case (dead msg)
    with assms(1) show ?thesis
      by (simp add: added_def gateway_inv_def undelivered_def cursor_def last_seq_def)
  next
    case (raised e)
    with assms(1) show ?thesis by (simp add: added_def)
  next
    case (buffered env)
    then obtain c where env: "env = engine_envelope eng m b q ts c" by (auto simp: build_envelope_ok_iff)
    note stored = engine_envelope_stored [OF assms(2)]
    note ap = undelivered_append [OF wf stored bounds buffered(4) [unfolded env]]
    have "autoinc st' = autoinc st + 1"
      using append_row_eq [OF wf stored bounds] buffered(4) [unfolded env] by (auto split: if_splits)
    moreover have "gateway_inv st'"
      by (rule append_gateway [OF assms(1) stored bounds assms(4) buffered(4) [unfolded env]])
    ultimately show ?thesis
      using ap(1) [of x] ap(2) buffered(1)
      by (simp add: added_def env env_key_def engine_envelope_def dict_get_def last_seq_def)
  qed
  then show "gateway_inv st'" "undelivered x st' = undelivered x st @ added r st'" "last_seq st' k = last_seq st k"
    "row \<in> set (added r st') \<Longrightarrow> env_key (snd row) = (JStr m, JInt q)" by blast+
qed

lemma delivery_inv_I:
  assumes "gateway_inv (db g)" "\<And>c. c \<in> set (calls g) \<Longrightarrow> body_values_ok (call_body c)"
    "distinct (all_keys g)" "set (all_keys g) = numbers_drawn (db g)" "\<And>x. x \<notin> set xs \<Longrightarrow> batch g x = []"
    "\<And>x. x \<in> set xs \<Longrightarrow> acked g x @ undelivered x (db g) = emitted g"
    "\<And>x. x \<in> set xs \<Longrightarrow> \<exists>later. undelivered x (db g) = batch g x @ later"
    "\<And>x. in_flight g x \<Longrightarrow> batch g x \<noteq> []"
    "\<And>x. length (out g x) = length (acked g x) + lost g x + unacknowledged g x"
    "\<And>x. x \<in> set xs \<Longrightarrow> (remdups_adj (out g x) = map snd (acked g x) \<and> \<not> in_flight g x)
           \<or> (\<exists>i e later. undelivered x (db g) = (i, e) # later
                \<and> remdups_adj (out g x) = map snd (acked g x) @ [e])"
  shows "delivery_inv xs g"
  using assms unfolding delivery_inv_def by blast

lemma delivery_inv_D:
  assumes "delivery_inv xs g"
  shows "gateway_inv (db g)" "c \<in> set (calls g) \<Longrightarrow> body_values_ok (call_body c)"
    "distinct (all_keys g)" "set (all_keys g) = numbers_drawn (db g)" "x \<notin> set xs \<Longrightarrow> batch g x = []"
    "x \<in> set xs \<Longrightarrow> acked g x @ undelivered x (db g) = emitted g"
    "x \<in> set xs \<Longrightarrow> \<exists>later. undelivered x (db g) = batch g x @ later"
    "in_flight g x \<Longrightarrow> batch g x \<noteq> []"
    "x \<in> set xs \<Longrightarrow> (remdups_adj (out g x) = map snd (acked g x) \<and> \<not> in_flight g x)
           \<or> (\<exists>i e later. undelivered x (db g) = (i, e) # later
                \<and> remdups_adj (out g x) = map snd (acked g x) @ [e])"
    "length (out g x) = length (acked g x) + lost g x + unacknowledged g x"
  using assms unfolding delivery_inv_def by blast+

lemma distinct_emitted: "delivery_inv xs g \<Longrightarrow> distinct (map (env_key \<circ> snd) (emitted g))"
  using delivery_inv_D(3) by (fastforce simp: all_keys_def)

text \<open>The numbers of the calls in progress have been drawn.\<close>

lemma call_drawn:
  assumes "delivery_inv xs g" "c \<in> set (calls g)"
  shows "0 < call_seq c" "call_seq c \<le> last_seq (db g) (call_machine c)"
proof -
  have "call_key c \<in> set (all_keys g)" using assms(2) by (simp add: all_keys_def)
  then have "call_key c \<in> numbers_drawn (db g)" by (simp only: delivery_inv_D(4) [OF assms(1)])
  then show "0 < call_seq c" "call_seq c \<le> last_seq (db g) (call_machine c)"
    by (auto simp: numbers_drawn_def call_key_def)
qed

lemma delivery_inv_init: "delivery_inv xs init_gateway"
proof -
  have "undelivered x empty_store = []" for x by (simp add: undelivered_def empty_store_def)
  moreover have "numbers_drawn empty_store = {}" by (auto simp: numbers_drawn_def last_seq_def empty_store_def dict_get_def)
  ultimately show ?thesis
    using gateway_inv_empty by (simp add: delivery_inv_def init_gateway_def all_keys_def)
qed

lemma numbers_drawn_insert:
  assumes "q = last_seq st m + 1" "0 < q" "\<And>k. last_seq st' k = (if k = m then q else last_seq st k)"
  shows "numbers_drawn st' = insert (JStr m, JInt q) (numbers_drawn st)"
proof -
  have "(0 < i \<and> i \<le> last_seq st' k) = (k = m \<and> i = q \<or> 0 < i \<and> i \<le> last_seq st k)" for i k
    using assms by auto
  then show ?thesis by (auto simp: numbers_drawn_def)
qed

lemma delivery_inv_draw:
  assumes "delivery_inv xs g" "body_values_ok b" "next_seq m (db g) = (Inr q, st')"
  shows "delivery_inv xs (g\<lparr>db := st', calls := calls g @
      [\<lparr>call_machine = m, call_body = b, call_seq = q, call_ts = ts\<rparr>]\<rparr>)"
proof -
  note inv = delivery_inv_D [OF assms(1)]
  have wf: "wf_store (db g)" using inv(1) by (simp add: gateway_inv_def)
  note nx = next_seq_ok [OF wf assms(3)] and nxg = next_seq_gateway [OF inv(1) assms(3)]
  have q: "q = last_seq (db g) m + 1" using nx(1) .
  have pos: "0 < q" using q last_seq_bounds [OF wf, of m] by simp
  have "(JStr m, JInt q) \<notin> numbers_drawn (db g)" by (simp add: numbers_drawn_def q)
  moreover have "numbers_drawn st' = insert (JStr m, JInt q) (numbers_drawn (db g))"
    by (rule numbers_drawn_insert [OF q pos nx(2)])
  ultimately show ?thesis
    using inv assms(2) nxg(1,3)
    by (intro delivery_inv_I) (auto simp: all_keys_def call_key_def)
qed

lemma delivery_inv_finish:
  assumes "delivery_inv xs g" "calls g = cs @ c # ds"
    "finish eng clock (call_machine c) (call_body c) (call_seq c) (call_ts c) (db g) = (r, st')"
  shows "delivery_inv xs (g\<lparr>db := st', calls := cs @ ds, emitted := emitted g @ added r st', spent := spent g @ wasted r c\<rparr>)"
    (is "delivery_inv xs ?g")
proof -
  note inv = delivery_inv_D [OF assms(1)]
  have c: "c \<in> set (calls g)" using assms(2) by simp
  note fin = finish_effect [OF inv(1) inv(2) [OF c] call_drawn [OF assms(1) c] assms(3)]
  have one: "map (env_key \<circ> snd) (added r st') @ wasted r c = [call_key c]"
    using fin(4) by (auto simp: added_def wasted_def call_key_def split: sum.splits option.splits)
  have "mset (all_keys ?g) = mset (all_keys g)"
  proof -
    have "mset (map (env_key \<circ> snd) (added r st')) + mset (wasted r c) = {#call_key c#}"
      using arg_cong [OF one, of mset] by simp
    then show ?thesis by (simp add: all_keys_def assms(2))
  qed
  then have keys: "distinct (all_keys ?g)" "set (all_keys ?g) = set (all_keys g)"
    using inv(3) by (metis mset_eq_imp_distinct_iff) (metis mset_eq_setD \<open>mset (all_keys ?g) = mset (all_keys g)\<close>)
  show ?thesis
  proof (rule delivery_inv_I)
    show "distinct (all_keys ?g)" by (rule keys(1))
    show "set (all_keys ?g) = numbers_drawn (db ?g)"
      using keys(2) inv(4) numbers_drawn_cong [OF fin(3)] by simp
    show "\<exists>later. undelivered x (db ?g) = batch ?g x @ later" if "x \<in> set xs" for x
      using inv(7) [OF that] fin(2) [of x] by auto
    show "acked ?g x @ undelivered x (db ?g) = emitted ?g" if "x \<in> set xs" for x
      using inv(6) [OF that] fin(2) [of x] by (simp flip: append_assoc)
    show "(remdups_adj (out ?g x) = map snd (acked ?g x) \<and> \<not> in_flight ?g x)
        \<or> (\<exists>i e later. undelivered x (db ?g) = (i, e) # later \<and> remdups_adj (out ?g x) = map snd (acked ?g x) @ [e])"
      if "x \<in> set xs" for x
      using inv(9) [OF that] fin(2) [of x] by auto
  qed (use inv fin(1) assms(2) in auto)
qed

lemma delivery_inv_fetch:
  assumes "delivery_inv xs g" "x \<in> set xs" "batch g x = []" "pending x n (db g) = Inr rows" "bind_int n = Inr n"
  shows "delivery_inv xs (g\<lparr>batch := (batch g)(x := rows)\<rparr>)"
proof -
  note inv = delivery_inv_D [OF assms(1)]
  have "wf_store (db g)" using inv(1) by (simp add: gateway_inv_def)
  from pending_eq [OF this assms(5), of x] assms(4) have rows: "rows = sql_limit n (undelivered x (db g))" by simp
  then obtain later where later: "undelivered x (db g) = rows @ later"
    by (metis append_Nil2 append_take_drop_id sql_limit_def)
  have "\<not> in_flight g x" using inv(8) [of x] assms(3) by auto
  then show ?thesis
    using inv later assms(2) by (intro delivery_inv_I) (auto simp: all_keys_def split: if_splits)
qed

lemma remdups_adj_snoc: "remdups_adj (ys @ [e]) = (if ys \<noteq> [] \<and> last ys = e then remdups_adj ys else remdups_adj ys @ [e])"
  by (induction ys rule: remdups_adj.induct) auto

lemma remdups_adj_same_length: "length (remdups_adj ys) = length ys \<Longrightarrow> remdups_adj ys = ys"
proof (induction ys rule: remdups_adj.induct)
  case (3 y z ys)
  then show ?case using remdups_adj_length [of "z # ys"] by (auto split: if_splits)
qed simp_all

lemma delivery_inv_publish:
  assumes "delivery_inv xs g" "batch g x = (i, e) # rows" "\<not> in_flight g x"
  shows "delivery_inv xs (g\<lparr>out := (out g)(x := out g x @ [e]), in_flight := (in_flight g)(x := True)\<rparr>)"
proof -
  note inv = delivery_inv_D [OF assms(1)]
  have x: "x \<in> set xs" using inv(5) [of x] assms(2) by auto
  obtain later where later: "undelivered x (db g) = (i, e) # rows @ later" using inv(7) [OF x] assms(2) by auto
  have notin: "e \<notin> set (map snd (acked g x))"
  proof
    assume "e \<in> set (map snd (acked g x))"
    then have "\<not> distinct (map (env_key \<circ> snd) (acked g x @ undelivered x (db g)))"
      unfolding later by (auto simp: image_comp)
    with distinct_emitted [OF assms(1)] inv(6) [OF x] show False by simp
  qed
  have "remdups_adj (out g x @ [e]) = map snd (acked g x) @ [e]"
    using inv(9) [OF x]
  proof (elim disjE)
    assume a: "remdups_adj (out g x) = map snd (acked g x) \<and> \<not> in_flight g x"
    have "out g x \<noteq> [] \<Longrightarrow> last (out g x) \<noteq> e"
      using a notin by (metis last_in_set remdups_adj_set)
    with a show ?thesis by (auto simp: remdups_adj_snoc)
  next
    assume "\<exists>i e later. undelivered x (db g) = (i, e) # later \<and> remdups_adj (out g x) = map snd (acked g x) @ [e]"
    with later have a: "remdups_adj (out g x) = map snd (acked g x) @ [e]" by auto
    have "out g x \<noteq> []" using a by auto
    moreover have "last (out g x) = e" using a last_remdups_adj [of "out g x"] by simp
    ultimately show ?thesis using a by (simp add: remdups_adj_snoc)
  qed
  then show ?thesis
    using inv later assms(2,3) by (intro delivery_inv_I) (auto simp: all_keys_def split: if_splits)
qed

lemma delivery_inv_ack:
  assumes "delivery_inv xs g" "batch g x = (i, e) # rows" "in_flight g x" "ack x i (db g) = (Inr (), st')"
  shows "delivery_inv xs (g\<lparr>db := st', batch := (batch g)(x := rows), in_flight := (in_flight g)(x := False),
      acked := (acked g)(x := acked g x @ [(i, e)])\<rparr>)"
proof -
  note inv = delivery_inv_D [OF assms(1)]
  have x: "x \<in> set xs" using inv(5) [of x] assms(2) by auto
  have wf: "wf_store (db g)" using inv(1) by (simp add: gateway_inv_def)
  obtain later where later: "undelivered x (db g) = (i, e) # rows @ later" using inv(7) [OF x] assms(2) by auto
  from undelivered_bounds [OF wf, of i e x] later wf_store_D(11) [OF wf]
  have i: "cursor (db g) x \<le> i" "0 \<le> i" "i \<le> autoinc (db g)" "i \<le> max_int64" "- max_int64 - 1 \<le> i"
    by (auto simp: max_int64_def)
  note un = undelivered_ack [OF i(1,4,5) assms(4)]
  have un_x: "undelivered x st' = rows @ later"
    using un(1) undelivered_sorted [OF wf, of x] filter_after_head [of i e "rows @ later"] later by simp
  have "gateway_inv st'"
    using ack_wf [OF wf i(2,3) assms(4)] inv(1) un(3,4) by (simp add: gateway_inv_def seqs_below_def last_seq_def)
  moreover have "numbers_drawn st' = numbers_drawn (db g)"
    by (rule numbers_drawn_cong) (simp add: un(4) last_seq_def)
  moreover have "remdups_adj (out g x) = map snd (acked g x @ [(i, e)])"
    using inv(9) [OF x] later assms(3) by auto
  moreover have "acked g x @ (i, e) # rows @ later = emitted g" using inv(6) [OF x] later by simp
  moreover have "y \<noteq> x \<Longrightarrow> undelivered y st' = undelivered y (db g)" for y by (rule un(2))
  ultimately show ?thesis
    using inv un_x assms(2,3) by (intro delivery_inv_I) (auto simp: all_keys_def split: if_splits)
qed

lemma delivery_inv_prune:
  assumes "delivery_inv xs g" "prune db_bytes clock xs days max_bytes now (db g) = (r, st')"
  shows "delivery_inv xs (g\<lparr>db := st'\<rparr>)"
proof (cases r)
  case (Inl e)
  with assms(2) prune_error have "st' = db g" by fast
  with assms(1) show ?thesis by simp
next
  case (Inr res)
  note inv = delivery_inv_D [OF assms(1)]
  note pr = prune_ok [OF assms(2) [unfolded Inr]]
  have un: "undelivered x st' = undelivered x (db g)" if "x \<in> set xs" for x
    by (rule undelivered_prune [OF assms(2) [unfolded Inr] that])
  have "gateway_inv st'"
    using prune_wf [OF _ assms(2)] inv(1) pr(1,5) by (auto simp: gateway_inv_def seqs_below_def last_seq_def)
  moreover have "numbers_drawn st' = numbers_drawn (db g)"
    by (rule numbers_drawn_cong) (simp add: pr(1) last_seq_def)
  ultimately show ?thesis
    using inv un by (intro delivery_inv_I) (auto simp: all_keys_def)
qed

lemma delivery_inv_crash:
  assumes "delivery_inv xs g"
  shows "delivery_inv xs (g\<lparr>calls := [], batch := (\<lambda>_. []), in_flight := (\<lambda>_. False),
    lost := (\<lambda>x. lost g x + unacknowledged g x), spent := spent g @ map call_key (calls g)\<rparr>)" (is "delivery_inv xs ?g")
proof -
  note inv = delivery_inv_D [OF assms]
  have "mset (all_keys ?g) = mset (all_keys g)" by (simp add: all_keys_def)
  then have "distinct (all_keys ?g)" "set (all_keys ?g) = set (all_keys g)"
    using inv(3) mset_eq_imp_distinct_iff mset_eq_setD by blast+
  then show ?thesis
    using inv(1,4,6,9,10) by (intro delivery_inv_I) auto
qed

lemma delivery_inv_broken_off:
  assumes "delivery_inv xs g"
  shows "delivery_inv xs (g\<lparr>batch := (batch g)(x := []), in_flight := (in_flight g)(x := False),
      lost := (lost g)(x := lost g x + unacknowledged g x)\<rparr>)"
    (is "delivery_inv xs ?g")
proof -
  note inv = delivery_inv_D [OF assms]
  show ?thesis
  proof (rule delivery_inv_I)
    show "(remdups_adj (out ?g y) = map snd (acked ?g y) \<and> \<not> in_flight ?g y)
        \<or> (\<exists>i e later. undelivered y (db ?g) = (i, e) # later \<and> remdups_adj (out ?g y) = map snd (acked ?g y) @ [e])"
      if "y \<in> set xs" for y
      using inv(9) [OF that] by auto
  qed (use inv in \<open>auto simp: all_keys_def split: if_splits\<close>)
qed

lemma delivery_inv_step: "gstep eng xs g g' \<Longrightarrow> delivery_inv xs g \<Longrightarrow> delivery_inv xs g'"
proof (induction rule: gstep.induct)
  case (gstep_refused m g e st')
  then have "wf_store (db g)" using delivery_inv_D(1) by (auto simp: gateway_inv_def)
  with gstep_refused have "st' = db g" by (simp add: next_seq_eq split: if_splits)
  with gstep_refused show ?case by simp
qed (blast intro: delivery_inv_draw delivery_inv_finish delivery_inv_fetch delivery_inv_publish delivery_inv_ack
    delivery_inv_prune delivery_inv_crash delivery_inv_broken_off)+

lemma reachable_delivery_inv: "reachable eng xs g \<Longrightarrow> delivery_inv xs g"
  by (induction rule: reachable.induct) (auto intro: delivery_inv_init delivery_inv_step)

section \<open>The drain of an exporter is a run\<close>

text \<open>
  A destination that is a list of what it has taken: \<open>publish\<close> appends the envelope, and it may raise, before or after that.
\<close>

definition list_destination :: "(json \<Rightarrow> json list \<Rightarrow> unit res \<times> json list) \<Rightarrow> bool" where
  "list_destination publish =
     (\<forall>e d. snd (publish e d) = d @ [e] \<or> snd (publish e d) = d \<and> (\<exists>x. fst (publish e d) = Inl x))"

definition idle :: "gateway \<Rightarrow> string \<Rightarrow> bool" where
  "idle g x = (batch g x = [] \<and> \<not> in_flight g x)"

text \<open>The state when a drain was broken off: the destination may have taken one more envelope.\<close>

lemma run_broken_off:
  assumes "reachable eng xs g" "batch g x = (i, e) # rows" "\<not> in_flight g x" "d = out g x \<or> d = out g x @ [e]"
  obtains g' where "reachable eng xs g'" "db g' = db g" "out g' x = d" "emitted g' = emitted g" "idle g' x"
proof -
  let ?sent = "g\<lparr>out := (out g)(x := out g x @ [e]), in_flight := (in_flight g)(x := True)\<rparr>"
  let ?off = "\<lambda>g. g\<lparr>batch := (batch g)(x := []), in_flight := (in_flight g)(x := False),
      lost := (lost g)(x := lost g x + unacknowledged g x)\<rparr>"
  have "reachable eng xs (?off g)" by (rule reachable_step [OF assms(1) gstep_broken_off])
  moreover have "reachable eng xs (?off ?sent)"
    by (rule reachable_step [OF reachable_step [OF assms(1) gstep_publish [OF assms(2,3)]] gstep_broken_off])
  ultimately show thesis
    using assms(4) that [of "?off g"] that [of "?off ?sent"] by (auto simp: idle_def)
qed

lemma drain_rows_run:
  assumes "list_destination publish"
    and "reachable eng xs g" "batch g x = rows" "\<not> in_flight g x"
    and "drain_rows publish (ack x) rows sent (out g x) (db g) = (r, d', st')"
  shows "\<exists>g'. reachable eng xs g' \<and> db g' = st' \<and> out g' x = d' \<and> emitted g' = emitted g \<and> idle g' x"
  using assms(2-)
proof (induction rows arbitrary: g sent)
  case (Cons row rows)
  obtain i e where row: "row = (i, e)" by (cases row)
  note b = Cons.prems(2) [unfolded row]
  obtain p d where pub: "publish e (out g x) = (p, d)" by (cases "publish e (out g x)")
  have d: "d = out g x @ [e] \<or> d = out g x \<and> (\<exists>z. p = Inl z)"
    using assms(1) [unfolded list_destination_def, rule_format, of e "out g x"] pub by simp
  obtain a st where ac: "ack x i (db g) = (a, st)" by (cases "ack x i (db g)")
  show ?case
  proof (cases "(\<exists>z. p = Inl z) \<or> (\<exists>z. a = Inl z)")
    case True
    have "st = db g" if "a = Inl z" for z using ac that by (auto simp: ack_def bind_int_def split: if_splits)
    with True Cons.prems(4) row pub ac have "d' = d" "st' = db g" by (auto split: sum.splits)
    with run_broken_off [OF Cons.prems(1) b Cons.prems(3), of d] d show ?thesis by metis
  next
    case False
    then have ok: "p = Inr ()" "a = Inr ()" by (cases p; cases a; simp)+
    let ?sent = "g\<lparr>out := (out g)(x := out g x @ [e]), in_flight := (in_flight g)(x := True)\<rparr>"
    let ?acked = "?sent\<lparr>db := st, batch := (batch ?sent)(x := rows), in_flight := (in_flight ?sent)(x := False),
      acked := (acked ?sent)(x := acked ?sent x @ [(i, e)])\<rparr>"
    have "reachable eng xs ?sent" by (rule reachable_step [OF Cons.prems(1) gstep_publish [OF b Cons.prems(3)]])
    moreover have "gstep eng xs ?sent ?acked" by (rule gstep_ack) (use b ac ok in simp_all)
    ultimately have "reachable eng xs ?acked" by (rule reachable_step)
    from Cons.IH [OF this, of "sent + 1"] Cons.prems(4) row pub ac ok d show ?thesis by simp
  qed
qed (auto simp: idle_def)

lemma drain_loop_run:
  assumes "list_destination publish" "x \<in> set xs" "bind_int n = Inr n"
    and "reachable eng xs g" "idle g x"
    and "drain_loop fuel (pending x n) publish (ack x) sent (out g x) (db g) = Some (r, d', st')"
  shows "\<exists>g'. reachable eng xs g' \<and> db g' = st' \<and> out g' x = d' \<and> emitted g' = emitted g \<and> idle g' x"
  using assms(4-)
proof (induction fuel arbitrary: g sent)
  case (Suc fuel)
  show ?case
  proof (cases "pending x n (db g)")
    case (Inl e)
    with Suc.prems show ?thesis by auto
  next
    case (Inr rows)
    let ?fetched = "g\<lparr>batch := (batch g)(x := rows)\<rparr>"
    have f: "reachable eng xs ?fetched"
      using Suc.prems(2) by (intro reachable_step [OF Suc.prems(1) gstep_fetch [OF assms(2) _ Inr assms(3)]]) (simp add: idle_def)
    obtain q d1 st1 where dr: "drain_rows publish (ack x) rows sent (out ?fetched x) (db ?fetched) = (q, d1, st1)"
      by (metis prod_cases3)
    obtain g1 where g1: "reachable eng xs g1" "db g1 = st1" "out g1 x = d1" "emitted g1 = emitted g" "idle g1 x"
      using drain_rows_run [OF assms(1) f _ _ dr] Suc.prems(2) by (auto simp: idle_def)
    show ?thesis
    proof (cases "rows = []")
      case True
      with Suc.prems Inr show ?thesis by auto
    next
      case False
      show ?thesis
      proof (cases q)
        case (Inl e)
        with Suc.prems(3) Inr False dr g1 show ?thesis by auto
      next
        case q: (Inr sent')
        with Suc.prems(3) Inr False dr g1 have "drain_loop fuel (pending x n) publish (ack x) sent' (out g1 x) (db g1) = Some (r, d', st')"
          by simp
        from Suc.IH [OF g1(1,5) this] g1(4) show ?thesis by simp
      qed
    qed
  qed
qed simp

section \<open>An engine with a permissive spec, for concrete runs\<close>

text \<open>Only a process run is looked into: it needs a text \<open>run_id\<close> and a text \<open>outcome\<close>.\<close>

fun run_shape :: "json \<Rightarrow> string list" where
  "run_shape (JObj d) =
     (case (map_of d ''run_id'', map_of d ''outcome'') of
        (Some (JStr r), Some (JStr s)) \<Rightarrow> []
      | _ \<Rightarrow> [''run_id and outcome are required''])"
| "run_shape _ = [''not an object'']"

definition open_spec :: spec where
  "open_spec = \<lparr>validators = (\<lambda>schema. Some (if schema = ''process_run'' then run_shape else (\<lambda>_. []))),
     profiles = (\<lambda>_. None)\<rparr>"

definition demo_with :: "(string \<Rightarrow> string) option \<Rightarrow> engine" where
  "demo_with key = \<lparr>gateway_id = ''gw-01'', engine_spec = open_spec, signer = key, digest = (\<lambda>s. s)\<rparr>"

abbreviation demo_engine :: engine where "demo_engine \<equiv> demo_with None"

definition demo_body :: body where
  "demo_body = \<lparr>body_schema = ''event'', body_profile = ''textile-dyeing/0.1'',
     body_body = [(''event_type'', JStr ''start'')], body_event_ts = None\<rparr>"

definition demo_clock :: datetime where
  "demo_clock = \<lparr>dt_year = 2024, dt_month = 3, dt_day = 1, dt_hour = 0, dt_minute = 0, dt_second = 0, dt_us = 0\<rparr>"

definition demo_sent :: "(string \<Rightarrow> string) option \<Rightarrow> int \<Rightarrow> string \<Rightarrow> json dict" where
  "demo_sent key q m = engine_envelope (demo_with key) m demo_body q (now_iso demo_clock)
     (dumps canonical_opts (JObj (body_body demo_body)))"

abbreviation demo_envelope :: "int \<Rightarrow> string \<Rightarrow> json dict" where "demo_envelope \<equiv> demo_sent None"

lemma demo_body_ok: "body_values_ok demo_body"
  by (simp add: demo_body_def)

lemma demo_build:
  "build_envelope (demo_with key) m demo_body q (now_iso demo_clock) = Inr (demo_sent key q m)"
  unfolding build_envelope_ok_iff demo_sent_def
  by (intro conjI exI [of _ "dumps canonical_opts (JObj (body_body demo_body))"] refl)
    (simp_all add: checksum_ok_iff demo_body_def demo_with_def core_schemas_def del: dumps.simps)

lemma demo_validate: "validate_envelope (digest (demo_with key)) (engine_spec (demo_with key)) (demo_sent key q m) False = Inr []"
proof -
  have c: "checksum (\<lambda>s. s) (body_body demo_body) = Inr (dumps canonical_opts (JObj (body_body demo_body)))"
    by (simp add: checksum_ok_iff demo_body_def del: dumps.simps)
  have s: "body_schema demo_body = ''event''" by (simp add: demo_body_def)
  show ?thesis
    by (simp add: validate_envelope_def demo_sent_def engine_envelope_def spec_validator_def open_spec_def
        s dict_item_def c demo_with_def profile_errors_def del: dumps.simps)
qed

lemma demo_process:
  assumes "gateway_inv st" "last_seq st m < max_int64" "autoinc st < max_int64"
  obtains st' where "process (demo_with key) demo_clock m demo_body st
    = (Inr (Some (demo_sent key (last_seq st m + 1) m)), st')"
proof -
  have wf: "wf_store st" using assms(1) by (simp add: gateway_inv_def)
  obtain r st' where p: "process (demo_with key) demo_clock m demo_body st = (r, st')" by (cases "process (demo_with key) demo_clock m demo_body st")
  have ts: "now_iso demo_clock = clock_or demo_clock (body_event_ts demo_body)"
    by (simp add: clock_or_def demo_body_def)
  show thesis
    using assms(1) demo_body_ok p ts refl
  proof (cases rule: process_cases)
    case (dead msg st1)
    have "process (demo_with key) demo_clock m demo_body st \<noteq> (Inr None, st')"
      unfolding process_eq [OF dead(2) ts] by (auto simp: demo_build demo_validate split: prod.splits sum.splits)
    with p dead show thesis by simp
  next
    case (raised e st1 env)
    with demo_build demo_validate assms(3) show thesis by (auto split: sum.splits)
  next
    case (buffered env st1)
    with demo_build p that show thesis by auto
  qed (use assms in auto)
qed

text \<open>One envelope is emitted and published, the gateway crashes before the ack, and publishes it again.\<close>

lemma demo_reachable:
  "\<exists>g i. reachable (demo_with key) [''mqtt''] g \<and> emitted g = [(i, JObj (demo_sent key 1 ''m-01''))]
     \<and> out g ''mqtt'' = [JObj (demo_sent key 1 ''m-01''), JObj (demo_sent key 1 ''m-01'')]"
proof -
  let ?e = "JObj (demo_sent key 1 ''m-01'')" and ?x = "''mqtt''" and ?xs = "[''mqtt'']"
  let ?step = "gstep (demo_with key) ?xs" and ?reach = "reachable (demo_with key) ?xs"
  obtain st1 where p: "process (demo_with key) demo_clock ''m-01'' demo_body (db init_gateway)
    = (Inr (Some (demo_sent key 1 ''m-01'')), st1)"
    using demo_process [OF gateway_inv_empty, of "''m-01''"]
    by (auto simp: init_gateway_def empty_store_def last_seq_def dict_get_def max_int64_def)
  let ?i = "autoinc st1"
  define g1 where "g1 = init_gateway\<lparr>db := st1, emitted := [(?i, ?e)]\<rparr>"
  have r1: "?reach g1"
    using reachable_process [OF reachable_init demo_body_ok p, of ?xs] by (auto simp: g1_def added_def init_gateway_def)
  note inv1 = delivery_inv_D [OF reachable_delivery_inv [OF r1]]
  have un: "undelivered ?x st1 = [(?i, ?e)]"
    using inv1(6) [of ?x] by (simp add: g1_def init_gateway_def)
  have wf: "wf_store st1" using inv1(1) by (simp add: g1_def gateway_inv_def)
  have b: "bind_int 500 = Inr 500" by (simp add: bind_int_def max_int64_def)
  have pend: "pending ?x 500 st1 = Inr [(?i, ?e)]"
    using pending_eq [OF wf b, of ?x] un by (simp add: sql_limit_def)
  define fetched where "fetched = (\<lambda>g :: gateway. g\<lparr>batch := (batch g)(?x := [(?i, ?e)])\<rparr>)"
  define sent where "sent = (\<lambda>g :: gateway. g\<lparr>out := (out g)(?x := out g ?x @ [?e]), in_flight := (in_flight g)(?x := True)\<rparr>)"
  define crashed where "crashed = (\<lambda>g :: gateway. g\<lparr>calls := [], batch := (\<lambda>_. []), in_flight := (\<lambda>_. False),
    lost := (\<lambda>x. lost g x + unacknowledged g x), spent := spent g @ map call_key (calls g)\<rparr>)"
  have fetch: "?step g (fetched g)" if "db g = st1" "batch g ?x = []" for g
    using gstep_fetch [of ?x ?xs g 500 "[(?i, ?e)]" "demo_with key"] that pend b by (simp add: fetched_def)
  have send: "?step g (sent g)" if "batch g ?x = [(?i, ?e)]" "\<not> in_flight g ?x" for g
    using gstep_publish [of g ?x ?i ?e "[]" "demo_with key" ?xs] that by (simp add: sent_def)
  have "?reach (fetched g1)"
    by (rule reachable_step [OF r1 fetch]) (simp_all add: g1_def init_gateway_def)
  then have "?reach (sent (fetched g1))"
    by (rule reachable_step [OF _ send]) (simp_all add: g1_def init_gateway_def fetched_def)
  then have "?reach (crashed (sent (fetched g1)))"
    unfolding crashed_def by (rule reachable_step [OF _ gstep_crash])
  then have "?reach (fetched (crashed (sent (fetched g1))))"
    by (rule reachable_step [OF _ fetch]) (simp_all add: g1_def crashed_def sent_def fetched_def)
  then have "?reach (sent (fetched (crashed (sent (fetched g1)))))"
    by (rule reachable_step [OF _ send]) (simp_all add: crashed_def sent_def fetched_def)
  then show ?thesis
    by (intro exI [of _ "sent (fetched (crashed (sent (fetched g1))))"] exI [of _ ?i])
      (simp add: g1_def init_gateway_def crashed_def sent_def fetched_def)
qed

section \<open>Properties\<close>

text \<open>C1: At every reachable state of the gateway, whatever the interleaving of adapters, exporters, prunes and
  crashes, the rows an exporter has acknowledged followed by the rows it still has to deliver are all the rows ever
  buffered, in order; and everything acknowledged has been taken by the destination. Nothing is lost.\<close>

theorem at_least_once:
  assumes "reachable eng xs g" "x \<in> set xs"
  shows "acked g x @ undelivered x (db g) = emitted g \<and> set (map snd (acked g x)) \<subseteq> set (out g x)"
proof -
  note inv = delivery_inv_D [OF reachable_delivery_inv [OF assms(1)]]
  have "\<exists>zs. remdups_adj (out g x) = map snd (acked g x) @ zs" using inv(9) [OF assms(2)] by (elim disjE) auto
  then have "set (map snd (acked g x)) \<subseteq> set (remdups_adj (out g x))" by (elim exE) (simp del: remdups_adj_set)
  with inv(6) [OF assms(2)] show ?thesis by simp
qed

theorem at_least_once_witness:
  "\<exists>(g :: gateway) i. emitted g = [(i, JObj (demo_envelope 1 ''m-01''))] \<and> length (out g ''mqtt'') = 2
     \<and> acked g ''mqtt'' @ undelivered ''mqtt'' (db g) = emitted g"
proof -
  obtain g i where "reachable demo_engine [''mqtt''] g" "emitted g = [(i, JObj (demo_envelope 1 ''m-01''))]"
    "out g ''mqtt'' = [JObj (demo_envelope 1 ''m-01''), JObj (demo_envelope 1 ''m-01'')]"
    using demo_reachable by blast
  with at_least_once [of demo_engine "[''mqtt'']" g "''mqtt''"] show ?thesis
    by - (intro exI [of _ g] exI [of _ i], simp)
qed

text \<open>C4: Sequence numbers are never reused and none disappears: over the whole life of the gateway, crashes and prunes
  included, the numbers of the envelopes buffered, those of the calls in progress and those of the calls that ended
  without buffering are pairwise distinct, and together they are 1 to the counter, for every machine.\<close>

theorem seq_never_reused:
  assumes "reachable eng xs g"
  shows "distinct (map (env_key \<circ> snd) (emitted g) @ map call_key (calls g) @ spent g)
    \<and> set (map (env_key \<circ> snd) (emitted g) @ map call_key (calls g) @ spent g)
      = {(JStr m, JInt q) | m q. 0 < q \<and> q \<le> last_seq (db g) m}"
  using delivery_inv_D(3,4) [OF reachable_delivery_inv [OF assms]] unfolding all_keys_def numbers_drawn_def by blast

theorem seq_never_reused_witness:
  "\<exists>g :: gateway. env_key ` snd ` set (emitted g) = {(JStr ''m-01'', JInt 1)}
     \<and> (JStr ''m-01'', JInt 1) \<notin> set (map call_key (calls g) @ spent g)
     \<and> 1 \<le> last_seq (db g) ''m-01''"
proof -
  obtain g i where g: "reachable demo_engine [''mqtt''] g" "emitted g = [(i, JObj (demo_envelope 1 ''m-01''))]"
    using demo_reachable by blast
  have k: "env_key (JObj (demo_envelope 1 ''m-01'')) = (JStr ''m-01'', JInt 1)"
    by (simp add: env_key_def demo_sent_def engine_envelope_def dict_get_def del: dumps.simps)
  let ?k = "(JStr ''m-01'', JInt 1)"
  have em: "map (env_key \<circ> snd) (emitted g) = [?k]" by (simp add: g(2) k)
  note acc = seq_never_reused [OF g(1), unfolded em]
  have "?k \<in> {(JStr m, JInt q) | m q. 0 < q \<and> q \<le> last_seq (db g) m}"
    unfolding conjunct2 [OF acc, symmetric] by simp
  then have drawn: "1 \<le> last_seq (db g) ''m-01''" by simp
  have "env_key ` snd ` set (emitted g) = {?k}" by (simp add: g(2) k)
  moreover have "?k \<notin> set (map call_key (calls g) @ spent g)" using acc by simp
  ultimately show ?thesis using drawn by blast
qed

text \<open>C7: What a destination receives is everything buffered, in order, and repetitions are only what a lost
  acknowledgement costs: without adjacent repetitions it is a prefix of everything buffered, and all of it once nothing is
  left to deliver; the envelopes received are as many as those acknowledged, one for each time an acknowledgement was lost
  (a crash or an exception after the destination took the envelope), and the one in flight; and where no acknowledgement
  was lost nothing is repeated.\<close>

theorem delivery_in_order:
  assumes "reachable eng xs g" "x \<in> set xs"
  shows "(\<exists>later. map snd (emitted g) = remdups_adj (out g x) @ later)
    \<and> (undelivered x (db g) = [] \<longrightarrow> remdups_adj (out g x) = map snd (emitted g))
    \<and> length (out g x) = length (acked g x) + lost g x + (if in_flight g x then 1 else 0)
    \<and> (lost g x = 0 \<longrightarrow> distinct (out g x))"
proof -
  have inv: "delivery_inv xs g" by (rule reachable_delivery_inv [OF assms(1)])
  let ?a = "map snd (acked g x)" and ?u = "map snd (undelivered x (db g))"
  have all: "map snd (emitted g) = ?a @ ?u" using delivery_inv_D(6) [OF inv assms(2)] by (metis map_append)
  have out: "remdups_adj (out g x) = ?a \<and> \<not> in_flight g x
      \<or> (\<exists>e. ?u = e # tl ?u \<and> remdups_adj (out g x) = ?a @ [e])"
    using delivery_inv_D(9) [OF inv assms(2)] by (elim disjE) auto
  have len: "length (out g x) = length ?a + lost g x + (if in_flight g x then 1 else 0)"
    using delivery_inv_D(10) [OF inv, of x] by simp
  from out all have prefix: "\<exists>later. map snd (emitted g) = remdups_adj (out g x) @ later"
    by (metis append.assoc append_Cons append_Nil append_Nil2)
  moreover have "remdups_adj (out g x) = map snd (emitted g)" if "undelivered x (db g) = []" using out all that by auto
  moreover have "distinct (out g x)" if "lost g x = 0"
  proof -
    have "length (out g x) \<le> length (remdups_adj (out g x))" using out len that by (auto split: if_splits)
    then have "remdups_adj (out g x) = out g x"
      using remdups_adj_length [of "out g x"] by (metis le_antisym remdups_adj_same_length)
    moreover have "distinct (map snd (emitted g))" using distinct_emitted [OF inv] by (metis distinct_map map_map)
    ultimately show ?thesis using prefix by (metis distinct_append)
  qed
  ultimately show ?thesis using len by simp
qed

theorem delivery_in_order_witness:
  "\<exists>(g :: gateway) later. length (out g ''mqtt'') = 2 \<and> map snd (emitted g) = remdups_adj (out g ''mqtt'') @ later
     \<and> lost g ''mqtt'' \<noteq> 0"
proof -
  obtain g i where g: "reachable demo_engine [''mqtt''] g"
    "out g ''mqtt'' = [JObj (demo_envelope 1 ''m-01''), JObj (demo_envelope 1 ''m-01'')]"
    using demo_reachable by blast
  have "\<not> distinct (out g ''mqtt'')" by (simp add: g(2))
  with delivery_in_order [OF g(1), of "''mqtt''"] obtain later where
    "map snd (emitted g) = remdups_adj (out g ''mqtt'') @ later" "lost g ''mqtt'' \<noteq> 0" by auto
  with g(2) show ?thesis by - (intro exI [of _ g] exI [of _ later], simp)
qed

text \<open>The drain an exporter performs, without interruption, from any reachable state in which it is idle, ends in a
  reachable state: with the database and the destination that \<open>drain\<close> leaves, whether it returns or the destination raises.
  What holds of all reachable states therefore holds after a drain.\<close>

theorem drain_is_a_run:
  assumes "reachable eng xs g" "x \<in> set xs" "idle g x" "list_destination publish" "bind_int n = Inr n"
    and "drain fuel x publish n (out g x) (db g) = Some (r, d', st')"
  shows "\<exists>g'. reachable eng xs g' \<and> db g' = st' \<and> out g' x = d' \<and> emitted g' = emitted g \<and> idle g' x"
  using drain_loop_run [OF assms(4,2,5,1,3)] assms(6) by (simp add: drain_def)

lemma deliver_to_list: "deliver (\<lambda>e d. (Inr (), d @ [e])) es d = (length es, None, d @ es)"
  by (induction es arbitrary: d) simp_all

theorem drain_is_a_run_witness:
  "\<exists>(g :: gateway) e. reachable demo_engine [''mqtt''] g \<and> out g ''mqtt'' = [e] \<and> idle g ''mqtt'' \<and> undelivered ''mqtt'' (db g) = []"
proof -
  let ?e = "JObj (demo_envelope 1 ''m-01'')" and ?x = "''mqtt''"
  obtain st1 where p: "process demo_engine demo_clock ''m-01'' demo_body (db init_gateway)
    = (Inr (Some (demo_envelope 1 ''m-01'')), st1)"
    using demo_process [OF gateway_inv_empty, of "''m-01''"]
    by (auto simp: init_gateway_def empty_store_def last_seq_def dict_get_def max_int64_def)
  let ?g = "init_gateway\<lparr>db := st1, emitted := [(autoinc st1, ?e)]\<rparr>"
  have r: "reachable demo_engine [?x] ?g"
    using reachable_process [OF reachable_init demo_body_ok p, of "[?x]"] by (auto simp: added_def init_gateway_def)
  note inv = delivery_inv_D [OF reachable_delivery_inv [OF r]]
  have u: "undelivered ?x st1 = [(autoinc st1, ?e)]" using inv(6) [of ?x] by (simp add: init_gateway_def)
  have b: "bind_int 500 = Inr 500" by (simp add: bind_int_def max_int64_def)
  have wf: "wf_store st1" using inv(1) by (simp add: gateway_inv_def)
  obtain st' where d: "drain 2 ?x (\<lambda>e d. (Inr (), d @ [e])) 500 [] st1 = Some (Inr 1, [?e], st')" "undelivered ?x st' = []"
    using drain_deliver [OF wf _ b, of ?x 2 "\<lambda>e d. (Inr (), d @ [e])" "[]" 1 None "[?e]"] u deliver_to_list [of "[?e]" "[]"] by auto
  from drain_is_a_run [OF r _ _ _ b, of ?x "\<lambda>e d. (Inr (), d @ [e])" 2 "Inr 1" "[?e]" st'] d
  show ?thesis by (auto simp: init_gateway_def idle_def list_destination_def)
qed

text \<open>C24: The database stays well typed: at every reachable state each buffered row has a text that parses to an object
  whose machine and number are those of its columns, its number is not above the counter of its machine, and its
  row id is positive and not above the last one assigned.\<close>

theorem database_well_typed:
  assumes "reachable eng xs g" "row \<in> set (buffer (db g))"
  shows "\<exists>env. loads (row_envelope row) = Inr (JObj env)
    \<and> map_of env ''machine_id'' = Some (JStr (row_machine row)) \<and> map_of env ''seq'' = Some (JInt (row_seq row))
    \<and> row_seq row \<le> last_seq (db g) (row_machine row) \<and> 0 < rowid row \<and> rowid row \<le> autoinc (db g)"
proof -
  have inv: "wf_store (db g)" "seqs_below (db g)"
    using delivery_inv_D(1) [OF reachable_delivery_inv [OF assms(1)]] by (simp_all add: gateway_inv_def)
  have "row_ok row" "0 < rowid row" "rowid row \<le> autoinc (db g)" using wf_store_D [OF inv(1)] assms(2) by auto
  moreover from this obtain env where "loads (row_envelope row) = Inr (JObj env)" "stored_envelope env (row_machine row) (row_seq row)"
    by (auto simp: row_ok_def split: sum.splits json.splits)
  ultimately show ?thesis
    using inv(2) assms(2) by (auto simp: stored_envelope_def seqs_below_def)
qed

theorem database_well_typed_witness:
  "\<exists>(g :: gateway) row env. row \<in> set (buffer (db g)) \<and> loads (row_envelope row) = Inr (JObj env)
     \<and> map_of env ''seq'' = Some (JInt (row_seq row))"
proof -
  obtain st1 where p: "process demo_engine demo_clock ''m-01'' demo_body (db init_gateway)
    = (Inr (Some (demo_envelope 1 ''m-01'')), st1)"
    using demo_process [OF gateway_inv_empty, of "''m-01''"]
    by (auto simp: init_gateway_def empty_store_def last_seq_def dict_get_def max_int64_def)
  let ?g = "init_gateway\<lparr>db := st1, emitted := [(autoinc st1, JObj (demo_envelope 1 ''m-01''))]\<rparr>"
  have r: "reachable demo_engine [''mqtt''] ?g"
    using reachable_process [OF reachable_init demo_body_ok p, of "[''mqtt'']"] by (auto simp: added_def init_gateway_def)
  have "undelivered ''mqtt'' st1 \<noteq> []"
    using delivery_inv_D(6) [OF reachable_delivery_inv [OF r], of "''mqtt''"] by (simp add: init_gateway_def)
  then have "buffer st1 \<noteq> []" by (auto simp: undelivered_def)
  then obtain row where row: "row \<in> set (buffer st1)" using last_in_set by blast
  from database_well_typed [OF r, of row] row show ?thesis
    by - (rule exI [of _ ?g], rule exI [of _ row], auto)
qed

end
