(* ===== verification/Py_Num.thy ===== *)
theory Py_Num
  imports Spec_Profile
begin

text \<open>
  Python's arithmetic on the numbers of parsed JSON: ints are exact, an operation with a float is
  done in double precision. Numbers are the values \<^const>\<open>JInt\<close>, \<^const>\<open>JBool\<close> (0 and 1) and
  \<^const>\<open>JFloat\<close>; anything else is a \<open>TypeError\<close>.
\<close>

section \<open>Doubles\<close>

definition is_nan :: "pyfloat \<Rightarrow> bool" where
  "is_nan x = (x = NaN)"

definition float_add :: "pyfloat \<Rightarrow> pyfloat \<Rightarrow> pyfloat" where
  "float_add x y =
     (if is_finite x \<and> is_finite y then
        (if x = NegZero \<and> y = NegZero then NegZero else to_double (fval x + fval y))
      else if is_nan x \<or> is_nan y then NaN
      else if is_finite x then y else if is_finite y then x
      else if x = y then x else NaN)"

definition float_sub :: "pyfloat \<Rightarrow> pyfloat \<Rightarrow> pyfloat" where
  "float_sub x y = float_add x (neg_float y)"

definition float_abs :: "pyfloat \<Rightarrow> pyfloat" where
  "float_abs x = (case x of Fin q \<Rightarrow> Fin \<bar>q\<bar> | NegZero \<Rightarrow> Fin 0 | NegInf \<Rightarrow> PosInf | v \<Rightarrow> v)"

text \<open>\<open>x < y\<close>; false when one is not a number.\<close>

fun float_less :: "pyfloat \<Rightarrow> pyfloat \<Rightarrow> bool" where
  "float_less NaN y = False"
| "float_less x NaN = False"
| "float_less PosInf y = False"
| "float_less x NegInf = False"
| "float_less NegInf y = True"
| "float_less x PosInf = True"
| "float_less x y = (fval x < fval y)"

text \<open>\<open>x / y\<close> of floats; the sign of a zero result is not kept.\<close>

definition float_div :: "pyfloat \<Rightarrow> pyfloat \<Rightarrow> pyfloat res" where
  "float_div x y =
     (if y = Fin 0 \<or> y = NegZero then Inl (OtherError ''ZeroDivisionError'')
      else Inr (if is_nan x \<or> is_nan y then NaN
        else if is_finite x then (if is_finite y then to_double (fval x / fval y) else Fin 0)
        else if is_finite y then (if 0 < fval y then x else neg_float x) else NaN))"

text \<open>\<open>x * y\<close> of floats; the sign of a zero result is not kept.\<close>

definition float_sgn :: "pyfloat \<Rightarrow> int" where
  "float_sgn x = (if float_less x (Fin 0) then - 1 else if float_less (Fin 0) x then 1 else 0)"

definition float_mul :: "pyfloat \<Rightarrow> pyfloat \<Rightarrow> pyfloat" where
  "float_mul x y =
     (if is_nan x \<or> is_nan y then NaN
      else if is_finite x \<and> is_finite y then to_double (fval x * fval y)
      else if float_sgn x * float_sgn y = 0 then NaN
      else if float_sgn x * float_sgn y = 1 then PosInf else NegInf)"

section \<open>Numbers\<close>

fun to_float :: "json \<Rightarrow> pyfloat res" where
  "to_float (JInt i) = (let x = to_double (of_int i) in if is_finite x then Inr x else Inl OverflowError)"
| "to_float (JBool b) = Inr (Fin (if b then 1 else 0))"
| "to_float (JFloat x) = Inr x"
| "to_float _ = Inl TypeError"

fun as_int :: "json \<Rightarrow> int res" where
  "as_int (JInt i) = Inr i"
| "as_int (JBool b) = Inr (if b then 1 else 0)"
| "as_int _ = Inl TypeError"

definition arith ::
  "(int \<Rightarrow> int \<Rightarrow> json res) \<Rightarrow> (pyfloat \<Rightarrow> pyfloat \<Rightarrow> json res) \<Rightarrow> json \<Rightarrow> json \<Rightarrow> json res" where
  "arith f g a b =
     (case (as_int a, as_int b) of
        (Inr i, Inr j) \<Rightarrow> f i j
      | _ \<Rightarrow> res_bind (to_float a) (\<lambda>x. res_bind (to_float b) (\<lambda>y. g x y)))"

definition num_add :: "json \<Rightarrow> json \<Rightarrow> json res" where
  "num_add = arith (\<lambda>i j. Inr (JInt (i + j))) (\<lambda>x y. Inr (JFloat (float_add x y)))"

definition num_sub :: "json \<Rightarrow> json \<Rightarrow> json res" where
  "num_sub = arith (\<lambda>i j. Inr (JInt (i - j))) (\<lambda>x y. Inr (JFloat (float_sub x y)))"

definition num_mul :: "json \<Rightarrow> json \<Rightarrow> json res" where
  "num_mul = arith (\<lambda>i j. Inr (JInt (i * j))) (\<lambda>x y. Inr (JFloat (float_mul x y)))"

definition num_div :: "json \<Rightarrow> json \<Rightarrow> json res" where
  "num_div = arith (\<lambda>i j. res_bind (int_truediv i j) (\<lambda>x. Inr (JFloat x)))
     (\<lambda>x y. res_bind (float_div x y) (\<lambda>z. Inr (JFloat z)))"

definition num_abs :: "json \<Rightarrow> json res" where
  "num_abs a = (case as_int a of Inr i \<Rightarrow> Inr (JInt \<bar>i\<bar>) | Inl e \<Rightarrow> res_bind (to_float a) (\<lambda>x. Inr (JFloat (float_abs x))))"

text \<open>\<open>a < b\<close>, by value: an int against a float is compared exactly.\<close>

fun num_val :: "json \<Rightarrow> pyfloat option" where
  "num_val (JInt i) = Some (Fin (of_int i))"
| "num_val (JBool b) = Some (Fin (if b then 1 else 0))"
| "num_val (JFloat x) = Some x"
| "num_val _ = None"

definition num_less :: "json \<Rightarrow> json \<Rightarrow> bool res" where
  "num_less a b =
     (case (num_val a, num_val b) of (Some x, Some y) \<Rightarrow> Inr (float_less x y) | _ \<Rightarrow> Inl TypeError)"

text \<open>\<open>a <= b\<close>, for numbers that are not NaN\<close>

definition num_le :: "json \<Rightarrow> json \<Rightarrow> bool res" where
  "num_le a b =
     (case (num_val a, num_val b) of
        (Some x, Some y) \<Rightarrow> Inr (\<not> is_nan x \<and> \<not> is_nan y \<and> \<not> float_less y x) | _ \<Rightarrow> Inl TypeError)"

text \<open>\<open>v == i\<close> for an int \<open>i\<close>\<close>

definition equals_int :: "json \<Rightarrow> int \<Rightarrow> bool" where
  "equals_int v i = (case num_val v of Some x \<Rightarrow> is_finite x \<and> fval x = of_int i | None \<Rightarrow> False)"

text \<open>\<open>max(a, b)\<close>: the first unless the second is larger\<close>

definition num_max :: "json \<Rightarrow> json \<Rightarrow> json res" where
  "num_max a b = res_bind (num_less a b) (\<lambda>l. Inr (if l then b else a))"

lemma num_le_int [simp]: "num_le (JInt i) (JInt j) = Inr (i \<le> j)"
  by (simp add: num_le_def is_nan_def not_less)

lemma equals_int_int [simp]: "equals_int (JInt j) i = (j = i)"
  by (simp add: equals_int_def)

end
