(* ===== verification/Py_Values.thy ===== *)
theory Py_Values
  imports Py_Num
begin

text \<open>
  Python's operations on values whose type is not known: subscripting, \<open>.get\<close>, \<open>in\<close>, truth,
  equality, and comprehensions whose conditions may raise.
\<close>

section \<open>Comprehensions\<close>

text \<open>\<open>[x for x in xs if p(x)]\<close> and \<open>any(p(x) for x in xs)\<close>; the first exception wins.\<close>

fun res_filter :: "('a \<Rightarrow> bool res) \<Rightarrow> 'a list \<Rightarrow> 'a list res" where
  "res_filter p [] = Inr []"
| "res_filter p (x # xs) =
     res_bind (p x) (\<lambda>b. res_bind (res_filter p xs) (\<lambda>ys. Inr (if b then x # ys else ys)))"

fun res_any :: "('a \<Rightarrow> bool res) \<Rightarrow> 'a list \<Rightarrow> bool res" where
  "res_any p [] = Inr False"
| "res_any p (x # xs) = res_bind (p x) (\<lambda>b. if b then Inr True else res_any p xs)"

text \<open>A loop that updates one variable.\<close>

fun res_fold :: "('a \<Rightarrow> 'b \<Rightarrow> 'b res) \<Rightarrow> 'a list \<Rightarrow> 'b \<Rightarrow> 'b res" where
  "res_fold f [] y = Inr y"
| "res_fold f (x # xs) y = res_bind (f x y) (res_fold f xs)"

text \<open>Short-circuiting \<open>and\<close>\<close>

definition res_and :: "bool res \<Rightarrow> bool res \<Rightarrow> bool res" where
  "res_and a b = res_bind a (\<lambda>x. if x then b else Inr False)"

lemma res_filter_Inr:
  "res_filter p xs = Inr ys \<Longrightarrow>
     (\<forall>x \<in> set xs. \<exists>b. p x = Inr b) \<and> ys = filter (\<lambda>x. p x = Inr True) xs"
proof (induction xs arbitrary: ys)
  case (Cons x xs)
  from Cons.prems obtain b zs where b: "p x = Inr b" "res_filter p xs = Inr zs" "ys = (if b then x # zs else zs)"
    by (auto simp: res_inv)
  from Cons.IH [OF b(2)] b(1,3) show ?case by auto
qed simp

lemma res_filter_total: "\<forall>x \<in> set xs. \<exists>b. p x = Inr b \<Longrightarrow> res_filter p xs = Inr (filter (\<lambda>x. p x = Inr True) xs)"
  by (induction xs) auto

lemma res_and_Inr_True [simp]: "res_and a b = Inr True \<longleftrightarrow> a = Inr True \<and> b = Inr True"
  by (auto simp: res_and_def res_inv split: if_splits)

lemma res_and_simps [simp]: "res_and (Inr True) b = b" "res_and (Inr False) b = Inr False" "res_and (Inl e) b = Inl e"
  by (simp_all add: res_and_def)

section \<open>Access\<close>

text \<open>\<open>v[k]\<close>, \<open>v.get(k, d)\<close> and \<open>k in v\<close> for a string \<open>k\<close>\<close>

fun get_item :: "json \<Rightarrow> string \<Rightarrow> json res" where
  "get_item (JObj d) k = dict_item d k"
| "get_item v k = Inl TypeError"

fun get_or :: "json \<Rightarrow> string \<Rightarrow> json \<Rightarrow> json res" where
  "get_or (JObj d) k v = Inr (dict_get d k v)"
| "get_or _ k v = Inl (OtherError ''AttributeError'')"

lemma get_item_Inr [res_inv]: "get_item v k = Inr w \<longleftrightarrow> (\<exists>d. v = JObj d \<and> map_of d k = Some w)"
  by (cases v) (auto simp: dict_item_def split: option.splits)

lemma get_or_Inr [res_inv]: "get_or v k u = Inr w \<longleftrightarrow> (\<exists>d. v = JObj d \<and> w = dict_get d k u)"
  by (cases v) auto

text \<open>The string contains the other one.\<close>

definition substring :: "string \<Rightarrow> string \<Rightarrow> bool" where
  "substring k s = (\<exists>i \<in> set [0..<Suc (length s)]. take (length k) (drop i s) = k)"

fun has_key :: "json \<Rightarrow> string \<Rightarrow> bool res" where
  "has_key (JObj d) k = Inr (map_of d k \<noteq> None)"
| "has_key (JList vs) k = Inr (JStr k \<in> set vs)"
| "has_key (JStr s) k = Inr (substring k s)"
| "has_key _ k = Inl TypeError"

fun truthy :: "json \<Rightarrow> bool" where
  "truthy JNull = False"
| "truthy (JBool b) = b"
| "truthy (JInt i) = (i \<noteq> 0)"
| "truthy (JFloat x) = (x \<noteq> Fin 0 \<and> x \<noteq> NegZero)"
| "truthy (JStr s) = (s \<noteq> [])"
| "truthy (JList vs) = (vs \<noteq> [])"
| "truthy (JObj d) = (d \<noteq> [])"

section \<open>Equality\<close>

text \<open>
  Numbers are equal by value, dicts without regard to order. \<open>same\<close> is identity or equality, as
  \<open>in\<close> and the comparison of containers test it: the parser's NaN is one object.
\<close>

definition num_same :: "json \<Rightarrow> json \<Rightarrow> bool" where
  "num_same v w =
     (case (num_val v, num_val w) of
        (Some x, Some y) \<Rightarrow> x = y \<or> (is_finite x \<and> is_finite y \<and> fval x = fval y)
      | _ \<Rightarrow> False)"

function same :: "json \<Rightarrow> json \<Rightarrow> bool" where
  "same JNull w = (w = JNull)"
| "same (JStr s) w = (w = JStr s)"
| "same (JBool b) w = num_same (JBool b) w"
| "same (JInt i) w = num_same (JInt i) w"
| "same (JFloat x) w = num_same (JFloat x) w"
| "same (JList vs) w =
     (case w of JList ws \<Rightarrow> length vs = length ws \<and> list_all (\<lambda>p. same (fst p) (snd p)) (zip vs ws) | _ \<Rightarrow> False)"
| "same (JObj d) w =
     (case w of
        JObj e \<Rightarrow> length d = length e
          \<and> list_all (\<lambda>kv. case map_of e (fst kv) of None \<Rightarrow> False | Some u \<Rightarrow> same (snd kv) u) d
      | _ \<Rightarrow> False)"
  by pat_completeness auto
termination
proof (relation "measure (\<lambda>(v, _). size v)", goal_cases)
  case (2 vs w ws p)
  then have "fst p \<in> set vs" by (cases p) (auto dest: set_zip_leftD)
  then have "size (fst p) \<le> size_list size vs" by (rule size_list_estimation') simp
  then show ?case by (cases p) simp
next
  case (3 d w e kv u)
  obtain k v where kv: "kv = (k, v)" by (cases kv)
  with 3 have "(k, v) \<in> set d" by simp
  then have "size v < Suc (size_list (size_prod (\<lambda>_. 0) size) d)"
    by (induction d) auto
  then show ?case by (simp add: kv)
qed simp

definition py_eq :: "json \<Rightarrow> json \<Rightarrow> bool" where
  "py_eq v w = (v \<noteq> JFloat NaN \<and> same v w)"

definition py_in :: "json \<Rightarrow> json list \<Rightarrow> bool" where
  "py_in v vs = list_ex (\<lambda>w. v = w \<or> same v w) vs"

lemma same_str [simp]: "same v (JStr s) \<longleftrightarrow> v = JStr s"
  by (cases v) (auto simp: num_same_def split: option.splits)

lemma py_eq_str [simp]: "py_eq v (JStr s) \<longleftrightarrow> v = JStr s" "py_eq (JStr s) v \<longleftrightarrow> v = JStr s"
  by (auto simp: py_eq_def)

section \<open>Text and order\<close>

text \<open>\<open>str(v)\<close>, and the \<open>repr\<close> of a list given those of its elements\<close>

fun str_json :: "json \<Rightarrow> string" where
  "str_json (JStr s) = s"
| "str_json v = repr_json v"

definition repr_list :: "string list \<Rightarrow> string" where
  "repr_list xs = ''['' @ join '', '' xs @ '']''"

text \<open>\<open>v <= w\<close> of two numbers or two strings; lists, which Python orders too, do not occur.\<close>

definition py_le :: "json \<Rightarrow> json \<Rightarrow> bool res" where
  "py_le v w = (case (v, w) of (JStr s, JStr t) \<Rightarrow> Inr (s \<le> t) | _ \<Rightarrow> num_le v w)"

lemma py_le_int [simp]: "py_le (JInt i) (JInt j) = Inr (i \<le> j)"
  by (simp add: py_le_def)

section \<open>Dicts with any hashable key\<close>

type_synonym 'v jdict = "(json \<times> 'v) list"

fun jget :: "'v jdict \<Rightarrow> json \<Rightarrow> 'v option" where
  "jget [] k = None"
| "jget ((j, v) # d) k = (if k = j \<or> same k j then Some v else jget d k)"

fun jset :: "json \<Rightarrow> 'v \<Rightarrow> 'v jdict \<Rightarrow> 'v jdict" where
  "jset k v [] = [(k, v)]"
| "jset k v ((j, u) # d) = (if k = j \<or> same k j then (j, v) # d else (j, u) # jset k v d)"

end
