(* ===== verification/Py_Text.thy ===== *)
theory Py_Text
  imports Py_Values Iso_Time
begin

text \<open>
  \<open>float(s)\<close> and \<open>int(v)\<close> of a text or a parsed value, and \<open>timedelta(seconds=n)\<close>. Digits and
  white space outside ASCII are not modelled.
\<close>

section \<open>float(s)\<close>

text \<open>Underscores are allowed between two digits only.\<close>

fun drop_underscores :: "bool \<Rightarrow> string \<Rightarrow> string option" where
  "drop_underscores after_digit [] = Some []"
| "drop_underscores after_digit (c # s) =
     (if c = CHR ''_'' then
        (if after_digit \<and> (case s of [] \<Rightarrow> False | d # _ \<Rightarrow> is_digit d) then drop_underscores False s else None)
      else map_option ((#) c) (drop_underscores (is_digit c) s))"

definition lower_char :: "char \<Rightarrow> char" where
  "lower_char c = (let n = (of_char c :: nat) in if 65 \<le> n \<and> n \<le> 90 then char_of (n + 32) else c)"

definition decimal_float :: "bool \<Rightarrow> string \<Rightarrow> pyfloat option" where
  "decimal_float neg s =
     (let ip = takeWhile is_digit s; r = dropWhile is_digit s;
          fr = (case r of c # cs \<Rightarrow> if c = CHR ''.'' then takeWhile is_digit cs else [] | [] \<Rightarrow> []);
          r1 = (case r of c # cs \<Rightarrow> if c = CHR ''.'' then dropWhile is_digit cs else r | [] \<Rightarrow> []);
          (ex, r2) = scan_exp r1
      in if ip @ fr = [] \<or> r2 \<noteq> [] then None
         else Some (float_of_dec neg ip fr (case ex of None \<Rightarrow> 0 | Some e \<Rightarrow> e)))"

definition parse_float :: "string \<Rightarrow> pyfloat option" where
  "parse_float s =
     (let (neg, t) = exp_sign (strip s); name = map lower_char t in
      if name = ''inf'' \<or> name = ''infinity'' then Some (if neg then NegInf else PosInf)
      else if name = ''nan'' then Some NaN
      else (case drop_underscores False t of None \<Rightarrow> None | Some u \<Rightarrow> decimal_float neg u))"

section \<open>int(v)\<close>

text \<open>A text of more than 4300 digits is refused, as the interpreter does by default.\<close>

definition int_of_text :: "string \<Rightarrow> int res" where
  "int_of_text s =
     (let (neg, t) = exp_sign (strip s); refuse = Inl (ValueError ''invalid literal for int() with base 10'') in
      case drop_underscores False t of
        None \<Rightarrow> refuse
      | Some ds \<Rightarrow>
          if ds = [] \<or> \<not> list_all is_digit ds \<or> 4300 < length ds then refuse
          else Inr (if neg then - int (read_nat ds) else int (read_nat ds)))"

fun py_int :: "json \<Rightarrow> int res" where
  "py_int (JInt i) = Inr i"
| "py_int (JBool b) = Inr (if b then 1 else 0)"
| "py_int (JFloat x) = float_to_int x"
| "py_int (JStr s) = int_of_text s"
| "py_int _ = Inl TypeError"

section \<open>Durations\<close>

text \<open>In microseconds.\<close>

definition timedelta_seconds :: "int \<Rightarrow> int res" where
  "timedelta_seconds n = timedelta_us (n * 1000000)"

lemma timedelta_seconds_eq:
  "timedelta_seconds n = (if 999999999 < \<bar>n div 86400\<bar> then Inl OverflowError else Inr (n * 1000000))"
proof -
  have "n * 1000000 div int day_us = n div 86400" by (simp add: day_us_def)
  then show ?thesis by (simp add: timedelta_seconds_def timedelta_us_def)
qed

section \<open>Numbers read back\<close>

lemma digits_run: "takeWhile is_digit (show_nat n) = show_nat n" "dropWhile is_digit (show_nat n) = []"
  using show_nat_digits by (simp_all add: takeWhile_eq_all_conv dropWhile_eq_Nil_conv)

lemma drop_underscores_digits: "\<forall>c \<in> set s. is_digit c \<Longrightarrow> drop_underscores b s = Some s"
proof (induction s arbitrary: b)
  case (Cons c s)
  then have "c \<noteq> CHR ''_''" by (auto simp: is_digit_def)
  with Cons show ?case by simp
qed simp

lemma not_space_digit: "is_digit c \<Longrightarrow> \<not> is_space c"
  by (auto simp: is_digit_def is_space_def)

lemma strip_id: "s \<noteq> [] \<Longrightarrow> \<not> is_space (hd s) \<Longrightarrow> \<not> is_space (last s) \<Longrightarrow> strip s = s"
proof -
  assume s: "s \<noteq> []" "\<not> is_space (hd s)" "\<not> is_space (last s)"
  then have "dropWhile is_space s = s" "dropWhile is_space (rev s) = rev s"
    by (simp_all add: dropWhile_eq_self_iff hd_rev)
  then show ?thesis by (simp add: strip_def lstrip_def)
qed

lemma strip_strip [simp]: "strip (strip s) = strip s"
proof (cases "strip s = []")
  case True
  then show ?thesis by (simp only: True) (simp add: strip_def lstrip_def)
next
  case False
  let ?t = "dropWhile is_space s"
  have d: "strip s = rev (dropWhile is_space (rev ?t))" by (simp add: strip_def lstrip_def)
  with False have ne: "dropWhile is_space (rev ?t) \<noteq> []" by auto
  have "\<not> is_space (last (strip s))" using hd_dropWhile [OF ne] by (simp add: d last_rev)
  moreover have "hd (strip s) = hd ?t"
  proof -
    obtain us where us: "rev ?t = us @ dropWhile is_space (rev ?t)" by (metis takeWhile_dropWhile_id)
    then have "?t = strip s @ rev us" by (metis d rev_append rev_rev_ident)
    with False show ?thesis by (metis hd_append2)
  qed
  moreover have "?t \<noteq> []" using ne by (metis dropWhile.simps(1) rev.simps(1))
  then have "\<not> is_space (hd ?t)" by (rule hd_dropWhile)
  ultimately show ?thesis using strip_id [OF False] by simp
qed

lemma strip_show_int: "strip (show_int i) = show_int i"
proof (rule strip_id)
  have d: "is_digit (last (show_nat n))" "is_digit (hd (show_nat n))" for n
    using show_nat_digits show_nat_nonempty last_in_set hd_in_set by blast+
  then show "\<not> is_space (last (show_int i))" by (simp add: show_int_def not_space_digit)
  have "\<not> is_space (CHR ''-'')" by (simp add: is_space_def)
  then show "\<not> is_space (hd (show_int i))" using d by (simp add: show_int_def not_space_digit)
qed simp

lemma parse_show_nat:
  assumes "int n \<le> 2 ^ 53"
  shows "decimal_float neg (show_nat n) = Some (if neg then neg_float (Fin (of_nat n)) else Fin (of_nat n))"
proof -
  have "to_double (of_nat n) = Fin (of_nat n)"
    using to_double_int [of "int n"] assms by simp
  then show ?thesis by (simp add: decimal_float_def digits_run scan_exp_def float_of_dec_def pow10_def)
qed

lemma show_nat_not_name: "map lower_char (show_nat n) \<noteq> c # s" if "\<not> is_digit (lower_char c) \<or> \<not> is_digit c"
proof
  assume eq: "map lower_char (show_nat n) = c # s"
  then obtain d ds where "show_nat n = d # ds" "lower_char d = c" by (cases "show_nat n") auto
  moreover from this have "is_digit d" using show_nat_digits [of d n] by simp
  moreover from this have "lower_char d = d" by (simp add: lower_char_def is_digit_def Let_def)
  ultimately show False using that by simp
qed

lemma exp_sign_show_int: "exp_sign (show_int i) = (i < 0, show_nat (nat \<bar>i\<bar>))"
proof (cases "i < 0")
  case False
  obtain d ds where d: "show_nat (nat i) = d # ds" by (cases "show_nat (nat i)") auto
  then have "is_digit d" using show_nat_digits [of d "nat i"] by simp
  then have "d \<noteq> CHR ''-''" "d \<noteq> CHR ''+''" by (auto simp: is_digit_def)
  with False d show ?thesis by (simp add: exp_sign_def show_int_def)
qed (simp add: exp_sign_def show_int_def)

lemma parse_float_show_int:
  assumes "\<bar>i\<bar> \<le> 2 ^ 53"
  shows "parse_float (show_int i) = Some (if i < 0 then neg_float (Fin (of_nat (nat \<bar>i\<bar>))) else Fin (of_nat (nat \<bar>i\<bar>)))"
proof -
  have "map lower_char (show_nat n) \<noteq> ''inf''" "map lower_char (show_nat n) \<noteq> ''infinity''" "map lower_char (show_nat n) \<noteq> ''nan''" for n
    by (rule show_nat_not_name, simp add: is_digit_def)+
  moreover have "drop_underscores False (show_nat n) = Some (show_nat n)" for n
    using drop_underscores_digits show_nat_digits by blast
  ultimately show ?thesis
    using parse_show_nat [of "nat \<bar>i\<bar>"] assms
    by (simp add: parse_float_def strip_show_int exp_sign_show_int)
qed

end
