(* ===== verification/Arg_Parse.thy ===== *)
theory Arg_Parse
  imports Py_Text "HOL-Library.Sublist"
begin

text \<open>
  \<open>argparse\<close> of Python 3.11, as far as the five programs use it: options with one long flag each that take one
  argument or none, \<open>-h\<close>, \<open>--version\<close>, a group of options of which exactly one is required, and one positional
  argument: none, one text, any number of texts, or the name of a command with its own options. A parser returns the
  namespace, or exits with 0 (help, version) or with 2 (usage); what it prints then is not modelled.
\<close>

section \<open>Parsers\<close>

datatype arg_value = Absent | Text string | Whole int | Num pyfloat | Truth bool | Texts "string list"

type_synonym namespace = "arg_value dict"

text \<open>\<open>Takes\<close>: the conversion with the check of the choices, \<open>None\<close> when it refuses, the default, and whether the
  option is required.\<close>

datatype action = Takes "string \<Rightarrow> arg_value option" arg_value bool | Switch | Help | Version

record opt =
  flags :: "string list"
  dest :: string
  action :: action

text \<open>What the next argument that is no option is: \<open>Just_Read\<close> is after the one text, when a \<open>--\<close> may still follow,
  and \<open>Gathering\<close> is inside the run of texts.\<close>

datatype positional =
    No_More
  | One_Text string
  | Just_Read
  | All_Texts string
  | Gathering string
  | Command string

record arg_parser =
  options :: "opt list"
  one_of :: "string list"
  positional :: positional

definition text_arg :: "string \<Rightarrow> arg_value option" where
  "text_arg s = Some (Text s)"

definition int_arg :: "string \<Rightarrow> arg_value option" where
  "int_arg s = (case int_of_text s of Inl e \<Rightarrow> None | Inr i \<Rightarrow> Some (Whole i))"

definition float_arg :: "string \<Rightarrow> arg_value option" where
  "float_arg s = map_option Num (parse_float s)"

definition choice_arg :: "string list \<Rightarrow> string \<Rightarrow> arg_value option" where
  "choice_arg cs s = (if s \<in> set cs then Some (Text s) else None)"

text \<open>\<open>add_argument\<close>; the destination of \<open>--a-b\<close> is \<open>a_b\<close>.\<close>

definition dest_of :: "string \<Rightarrow> string" where
  "dest_of f = map (\<lambda>c. if c = CHR ''-'' then CHR ''_'' else c) (drop 2 f)"

definition takes :: "string \<Rightarrow> (string \<Rightarrow> arg_value option) \<Rightarrow> arg_value \<Rightarrow> opt" where
  "takes f conv d = \<lparr>flags = [f], dest = dest_of f, action = Takes conv d False\<rparr>"

definition requires :: "string \<Rightarrow> (string \<Rightarrow> arg_value option) \<Rightarrow> opt" where
  "requires f conv = \<lparr>flags = [f], dest = dest_of f, action = Takes conv Absent True\<rparr>"

definition switch :: "string \<Rightarrow> opt" where
  "switch f = \<lparr>flags = [f], dest = dest_of f, action = Switch\<rparr>"

definition help_option :: opt where
  "help_option = \<lparr>flags = [''-h'', ''--help''], dest = ''help'', action = Help\<rparr>"

definition version_option :: opt where
  "version_option = \<lparr>flags = [''--version''], dest = ''version'', action = Version\<rparr>"

section \<open>Which arguments are options\<close>

datatype token = Argument | Dashes | Unknown | Ambiguous | Short_Help string | Known opt "string option"

definition flag_table :: "opt list \<Rightarrow> (string \<times> opt) list" where
  "flag_table ps = concat (map (\<lambda>p. map (\<lambda>f. (f, p)) (flags p)) ps)"

definition split_eq :: "string \<Rightarrow> string \<times> string option" where
  "split_eq a = (takeWhile (\<lambda>c. c \<noteq> CHR ''='') a,
     (case dropWhile (\<lambda>c. c \<noteq> CHR ''='') a of [] \<Rightarrow> None | _ # v \<Rightarrow> Some v))"

text \<open>\<open>^-\d+$|^-\d*\.\d+$\<close>, where \<open>$\<close> also matches before a line end.\<close>

definition negative_number :: "string \<Rightarrow> bool" where
  "negative_number a =
     (case a of [] \<Rightarrow> False
      | c # t \<Rightarrow>
          let t = (if t \<noteq> [] \<and> last t = CHR 0x0A then butlast t else t); r = dropWhile is_digit t in
          c = CHR ''-''
          \<and> (t \<noteq> [] \<and> r = [] \<or> r \<noteq> [] \<and> hd r = CHR ''.'' \<and> tl r \<noteq> [] \<and> list_all is_digit (tl r)))"

text \<open>\<open>-h\<close> is the only short option, and it takes no argument.\<close>

definition classify :: "opt list \<Rightarrow> string \<Rightarrow> token" where
  "classify ps a =
     (if a = [] \<or> hd a \<noteq> CHR ''-'' then Argument
      else case map_of (flag_table ps) a of Some p \<Rightarrow> Known p None
      | None \<Rightarrow>
          if length a = 1 then Argument
          else
            let (f, v) = split_eq a; rest = (if negative_number a \<or> CHR '' '' \<in> set a then Argument else Unknown) in
            case (if v = None then None else map_of (flag_table ps) f) of
              Some p \<Rightarrow> if f = ''-h'' then Short_Help (drop 2 a) else Known p v
            | None \<Rightarrow>
                if a ! 1 = CHR ''-'' then
                  (case filter (\<lambda>(g, p). prefix f g) (flag_table ps) of
                     [] \<Rightarrow> rest
                   | [(g, p)] \<Rightarrow> Known p v
                   | _ \<Rightarrow> Ambiguous)
                else if a ! 1 = CHR ''h'' then Short_Help (drop 2 a)
                else rest)"

text \<open>What follows \<open>--\<close> is no option.\<close>

fun classify_all :: "opt list \<Rightarrow> string list \<Rightarrow> (token \<times> string) list" where
  "classify_all ps [] = []"
| "classify_all ps (a # as) =
     (if a = ''--'' then (Dashes, a) # map (\<lambda>b. (Argument, b)) as else (classify ps a, a) # classify_all ps as)"

text \<open>The letters after \<open>-h\<close>.\<close>

fun help_tail :: "string \<Rightarrow> int" where
  "help_tail [] = 0"
| "help_tail (c # t) = (if c = CHR ''h'' then help_tail t else if c \<in> set ''=-'' then 2 else 0)"

section \<open>Reading the arguments\<close>

text \<open>\<open>given\<close> are the destinations seen, \<open>extras\<close> what nothing consumed, \<open>chosen\<close> the command and its arguments.\<close>

record progress =
  space :: namespace
  given :: "string list"
  extras :: "string list"
  chosen :: "(string \<times> string list) option"

definition defaults :: "opt list \<Rightarrow> namespace" where
  "defaults ps = concat (map (\<lambda>p. case action p of Takes conv d r \<Rightarrow> [(dest p, d)] | Switch \<Rightarrow> [(dest p, Truth False)] | _ \<Rightarrow> []) ps)"

definition enter :: "string list \<Rightarrow> string \<Rightarrow> arg_value \<Rightarrow> progress \<Rightarrow> int + progress" where
  "enter ones d v st =
     (if d \<in> set ones \<and> (\<exists>e \<in> set ones. e \<noteq> d \<and> e \<in> set (given st)) then Inl 2
      else Inr (st\<lparr>space := AList.update d v (space st), given := given st @ [d]\<rparr>))"

definition give :: "string list \<Rightarrow> opt \<Rightarrow> (string \<Rightarrow> arg_value option) \<Rightarrow> string \<Rightarrow> progress \<Rightarrow> int + progress" where
  "give ones p conv s st = (case conv s of None \<Rightarrow> Inl 2 | Some v \<Rightarrow> enter ones (dest p) v st)"

definition gathered :: "string \<Rightarrow> string list \<Rightarrow> progress \<Rightarrow> progress" where
  "gathered d ss st = st\<lparr>space := AList.update d (Texts ss) (space st)\<rparr>"

definition texts_of :: "namespace \<Rightarrow> string \<Rightarrow> string list" where
  "texts_of ns d = (case map_of ns d of Some (Texts ss) \<Rightarrow> ss | _ \<Rightarrow> [])"

text \<open>An option ends a run of positional arguments.\<close>

fun run_over :: "positional \<Rightarrow> positional" where
  "run_over (Gathering d) = No_More"
| "run_over Just_Read = No_More"
| "run_over pos = pos"

fun parse_tokens :: "string list \<Rightarrow> positional \<Rightarrow> (token \<times> string) list \<Rightarrow> progress \<Rightarrow> int + positional \<times> progress" where
  "parse_tokens ones pos [] st = Inr (pos, st)"
| "parse_tokens ones pos ((Unknown, s) # ts) st =
     parse_tokens ones (run_over pos) ts (st\<lparr>extras := extras st @ [s]\<rparr>)"
| "parse_tokens ones pos ((Ambiguous, s) # ts) st = Inl 2"
| "parse_tokens ones pos ((Short_Help t, s) # ts) st = Inl (help_tail t)"
| "parse_tokens ones pos ((Known p v, s) # ts) st =
     (case action p of
        Takes conv d r \<Rightarrow>
          (case v of
             Some x \<Rightarrow> (case give ones p conv x st of Inl c \<Rightarrow> Inl c | Inr st' \<Rightarrow> parse_tokens ones (run_over pos) ts st')
           | None \<Rightarrow>
               (case ts of
                  (Argument, x) # ts' \<Rightarrow>
                    (case give ones p conv x st of Inl c \<Rightarrow> Inl c | Inr st' \<Rightarrow> parse_tokens ones (run_over pos) ts' st')
                | _ \<Rightarrow> Inl 2))
      | Switch \<Rightarrow>
          (if v \<noteq> None then Inl 2
           else case enter ones (dest p) (Truth True) st of Inl c \<Rightarrow> Inl c | Inr st' \<Rightarrow> parse_tokens ones (run_over pos) ts st')
      | _ \<Rightarrow> Inl (if v = None then 0 else 2))"
| "parse_tokens ones pos ((Argument, s) # ts) st =
     (case pos of
        One_Text d \<Rightarrow> parse_tokens ones Just_Read ts (st\<lparr>space := AList.update d (Text s) (space st)\<rparr>)
      | All_Texts d \<Rightarrow> parse_tokens ones (Gathering d) ts (gathered d [s] st)
      | Gathering d \<Rightarrow> parse_tokens ones (Gathering d) ts (gathered d (texts_of (space st) d @ [s]) st)
      | Command d \<Rightarrow> Inr (No_More, st\<lparr>space := AList.update d (Text s) (space st), chosen := Some (s, map snd ts)\<rparr>)
      | _ \<Rightarrow> parse_tokens ones No_More ts (st\<lparr>extras := extras st @ [s]\<rparr>))"
| "parse_tokens ones pos ((Dashes, s) # ts) st =
     (case pos of
        No_More \<Rightarrow> parse_tokens ones No_More ts (st\<lparr>extras := extras st @ [s]\<rparr>)
      | One_Text d \<Rightarrow> if ts = [] then Inl 2 else parse_tokens ones pos ts st
      | Just_Read \<Rightarrow> parse_tokens ones No_More ts st
      | All_Texts d \<Rightarrow> parse_tokens ones (Gathering d) ts (gathered d [] st)
      | Gathering d \<Rightarrow> parse_tokens ones (Gathering d) ts st
      | Command d \<Rightarrow> Inl 2)"

text \<open>The checks at the end.\<close>

definition is_required :: "opt \<Rightarrow> bool" where
  "is_required p = (case action p of Takes conv d r \<Rightarrow> r | _ \<Rightarrow> False)"

definition incomplete :: "arg_parser \<Rightarrow> positional \<Rightarrow> progress \<Rightarrow> bool" where
  "incomplete prs pos st \<longleftrightarrow>
     (\<exists>p \<in> set (options prs). is_required p \<and> dest p \<notin> set (given st))
     \<or> (case pos of One_Text d \<Rightarrow> True | Command d \<Rightarrow> True | _ \<Rightarrow> False)
     \<or> one_of prs \<noteq> [] \<and> (\<forall>d \<in> set (one_of prs). d \<notin> set (given st))"

definition start :: "arg_parser \<Rightarrow> progress" where
  "start prs = \<lparr>space = defaults (options prs), given = [], extras = [], chosen = None\<rparr>"

definition ambiguous :: "(token \<times> string) list \<Rightarrow> bool" where
  "ambiguous ts = list_ex (\<lambda>(t, s). case t of Ambiguous \<Rightarrow> True | _ \<Rightarrow> False) ts"

lemma ambiguous_iff [simp]: "ambiguous ts \<longleftrightarrow> Ambiguous \<in> fst ` set ts"
  by (force simp: ambiguous_def list_ex_iff split: token.splits)

definition parse_known :: "arg_parser \<Rightarrow> string list \<Rightarrow> int + progress" where
  "parse_known prs args =
     (let ts = classify_all (options prs) args in
      if ambiguous ts then Inl 2
      else case parse_tokens (one_of prs) (positional prs) ts (start prs) of
             Inl c \<Rightarrow> Inl c
           | Inr (pos, st) \<Rightarrow>
               if incomplete prs pos st then Inl 2
               else Inr (case pos of All_Texts d \<Rightarrow> gathered d [] st | _ \<Rightarrow> st))"

definition parse_args :: "arg_parser \<Rightarrow> string list \<Rightarrow> int + namespace" where
  "parse_args prs args =
     (case parse_known prs args of
        Inl c \<Rightarrow> Inl c
      | Inr st \<Rightarrow> if extras st \<noteq> [] then Inl 2 else Inr (space st))"

text \<open>A parser with commands, each with its own parser.\<close>

definition parse_command :: "arg_parser \<Rightarrow> (string \<times> arg_parser) list \<Rightarrow> string list \<Rightarrow> int + string \<times> namespace" where
  "parse_command outer subs args =
     (case parse_known outer args of
        Inl c \<Rightarrow> Inl c
      | Inr st \<Rightarrow>
          (case chosen st of
             None \<Rightarrow> Inl 2
           | Some (name, rest) \<Rightarrow>
               (case map_of subs name of
                  None \<Rightarrow> Inl 2
                | Some prs \<Rightarrow>
                    (case parse_known prs rest of
                       Inl c \<Rightarrow> Inl c
                     | Inr st' \<Rightarrow> if extras st @ extras st' \<noteq> [] then Inl 2 else Inr (name, space st')))))"

text \<open>What a program reads from the namespace: a text or \<open>None\<close>, and a switch.\<close>

fun text_of :: "arg_value option \<Rightarrow> string option" where
  "text_of (Some (Text s)) = Some s"
| "text_of _ = None"

definition is_on :: "namespace \<Rightarrow> string \<Rightarrow> bool" where
  "is_on ns d = (map_of ns d = Some (Truth True))"

section \<open>Exit codes\<close>

lemma give_Inl: "give ones p conv s st = Inl c \<Longrightarrow> c = 2"
  by (auto simp: give_def enter_def split: option.splits if_splits)

lemma enter_Inl: "enter ones d v st = Inl c \<Longrightarrow> c = 2"
  by (auto simp: enter_def split: if_splits)

lemma help_tail_code: "help_tail t = 0 \<or> help_tail t = 2"
  by (induction t) auto

fun asks_help :: "token \<Rightarrow> bool" where
  "asks_help (Short_Help s) = True"
| "asks_help (Known p v) = (action p = Help \<or> action p = Version)"
| "asks_help _ = False"

lemma parse_tokens_exit:
  "parse_tokens ones pos ts st = Inl c \<Longrightarrow> c = 2 \<or> c = 0 \<and> (\<exists>t \<in> fst ` set ts. asks_help t)"
proof (induction ones pos ts st rule: parse_tokens.induct)
  case (4 ones pos t s ts st)
  with help_tail_code [of t] show ?case by auto
next
  case (5 ones pos p v s ts st)
  show ?case
  proof (cases "action p")
    case (Takes conv d r)
    show ?thesis
    proof (cases v)
      case None
      show ?thesis
      proof (cases "\<exists>x ts'. ts = (Argument, x) # ts'")
        case True
        then obtain x ts' where ts: "ts = (Argument, x) # ts'" by blast
        show ?thesis
          using "5.IH"(1) [OF Takes None ts refl] "5.prems"
          by (cases "give ones p conv x st") (auto simp: Takes None ts dest: give_Inl)
      qed (use "5.prems" in \<open>auto simp: Takes None split: list.splits prod.splits token.splits\<close>)
    next
      case (Some x)
      show ?thesis
        using "5.IH"(2) [OF Takes Some] "5.prems"
        by (cases "give ones p conv x st") (auto simp: Takes Some dest: give_Inl)
    qed
  next
    case Switch
    show ?thesis
      using "5.IH"(3) [OF Switch] "5.prems"
      by (cases "enter ones (dest p) (Truth True) st") (auto simp: Switch dest: enter_Inl split: if_splits)
  qed (use "5.prems" in \<open>auto split: if_splits\<close>)
next
  case (6 ones pos s ts st)
  then show ?case by (cases pos) auto
next
  case (7 ones pos s ts st)
  then show ?case by (cases pos) (auto split: if_splits)
qed auto

lemma parse_known_exit:
  assumes "parse_known prs args = Inl c"
  shows "c = 2 \<or> c = 0 \<and> (\<exists>t \<in> fst ` set (classify_all (options prs) args). asks_help t)"
  using assms parse_tokens_exit by (fastforce simp: parse_known_def Let_def split: if_splits sum.splits)

section \<open>The types of the results\<close>

text \<open>An option that was given has a converted value, another one its default; a switch has a truth value.\<close>

fun has_value :: "bool \<Rightarrow> namespace \<Rightarrow> opt \<Rightarrow> bool" where
  "has_value was_given ns p =
     (case action p of
        Takes conv d r \<Rightarrow> \<exists>v. map_of ns (dest p) = Some v \<and> (if was_given then \<exists>s. conv s = Some v else v = d)
      | Switch \<Rightarrow> map_of ns (dest p) = Some (Truth was_given)
      | _ \<Rightarrow> True)"

definition typed :: "opt list \<Rightarrow> progress \<Rightarrow> bool" where
  "typed ps st = list_all (\<lambda>p. has_value (dest p \<in> set (given st)) (space st) p) ps"

lemma classify_known: "classify ps a = Known p v \<Longrightarrow> p \<in> set ps"
proof -
  have flag: "(f, p) \<in> set (flag_table ps) \<Longrightarrow> p \<in> set ps" for f p by (auto simp: flag_table_def)
  have found: "map_of (flag_table ps) f = Some p \<Longrightarrow> p \<in> set ps" for f p
    using flag map_of_SomeD by fastforce
  have only: "filter P (flag_table ps) = [(g, p)] \<Longrightarrow> p \<in> set ps" for P g p
    using flag [of g p] filter_set [of P "flag_table ps"] by auto
  show "classify ps a = Known p v \<Longrightarrow> p \<in> set ps"
    by (auto simp: classify_def Let_def split: if_splits option.splits prod.splits list.splits intro: found only)
qed

lemma classify_all_known: "(Known p v, s) \<in> set (classify_all ps as) \<Longrightarrow> p \<in> set ps"
  by (induction as) (auto dest: classify_known classify_known [OF sym] split: if_splits)

lemma enter_Inr:
  "enter ones d v st = Inr st' \<Longrightarrow> space st' = AList.update d v (space st) \<and> given st' = given st @ [d]"
  by (auto simp: enter_def split: if_splits)

lemma typed_enter:
  assumes "typed ps st" "distinct (map dest ps)" "p \<in> set ps" "enter ones (dest p) v st = Inr st'"
    "case action p of Takes conv d r \<Rightarrow> \<exists>s. conv s = Some v | Switch \<Rightarrow> v = Truth True | _ \<Rightarrow> True"
  shows "typed ps st'"
  unfolding typed_def list_all_iff
proof
  fix q assume q: "q \<in> set ps"
  note e = enter_Inr [OF assms(4)]
  show "has_value (dest q \<in> set (given st')) (space st') q"
  proof (cases "dest q = dest p")
    case True
    with assms(2,3) q have "q = p" by (metis distinct_map inj_onD)
    with assms(5) e show ?thesis by (auto simp: AList.update_conv split: action.splits)
  next
    case False
    then have "map_of (space st') (dest q) = map_of (space st) (dest q)" using e by (simp add: AList.update_conv)
    moreover have "dest q \<in> set (given st') \<longleftrightarrow> dest q \<in> set (given st)" using e False by auto
    ultimately show ?thesis using assms(1) q by (simp add: typed_def list_all_iff cong: action.case_cong)
  qed
qed

lemma typed_extras [simp]: "typed ps (st\<lparr>extras := es\<rparr>) = typed ps st"
  by (simp add: typed_def)

lemma parse_tokens_typed:
  "parse_tokens ones pos ts st = Inr (pos', st') \<Longrightarrow> pos = No_More \<Longrightarrow> distinct (map dest ps)
     \<Longrightarrow> (\<And>p v s. (Known p v, s) \<in> set ts \<Longrightarrow> p \<in> set ps) \<Longrightarrow> typed ps st \<Longrightarrow> typed ps st' \<and> pos' = No_More"
proof (induction ones pos ts st rule: parse_tokens.induct)
  case (5 ones pos p v s ts st)
  have p: "p \<in> set ps" using "5.prems"(4) by auto
  note enter = typed_enter [OF "5.prems"(5,3) p]
  show ?case
  proof (cases "action p")
    case (Takes conv d r)
    have give: "typed ps st1" if "give ones p conv x st = Inr st1" for x st1
      using that enter by (fastforce simp: give_def Takes split: option.splits)
    show ?thesis
    proof (cases v)
      case None
      show ?thesis
      proof (cases "\<exists>x ts'. ts = (Argument, x) # ts'")
        case True
        then obtain x ts' where ts: "ts = (Argument, x) # ts'" by blast
        obtain st1 where st1: "give ones p conv x st = Inr st1"
          "parse_tokens ones (run_over pos) ts' st1 = Inr (pos', st')"
          using "5.prems"(1) by (auto simp: Takes None ts split: sum.splits)
        show ?thesis
          using "5.IH"(1) [OF Takes None ts refl refl st1(1) st1(2)] "5.prems"(2-4) give [OF st1(1)] ts by auto
      qed (use "5.prems" in \<open>auto simp: Takes None split: list.splits prod.splits token.splits\<close>)
    next
      case (Some x)
      obtain st1 where st1: "give ones p conv x st = Inr st1"
        "parse_tokens ones (run_over pos) ts st1 = Inr (pos', st')"
        using "5.prems"(1) by (auto simp: Takes Some split: sum.splits)
      show ?thesis
        using "5.IH"(2) [OF Takes Some st1(1) st1(2)] "5.prems"(2-4) give [OF st1(1)] by auto
    qed
  next
    case Switch
    obtain st1 where st1: "v = None" "enter ones (dest p) (Truth True) st = Inr st1"
      "parse_tokens ones (run_over pos) ts st1 = Inr (pos', st')"
      using "5.prems"(1) by (auto simp: Switch split: sum.splits if_splits)
    have "typed ps st1" using enter [OF st1(2)] by (simp add: Switch)
    with "5.IH"(3) [OF Switch _ st1(2) st1(3)] "5.prems"(2-4) st1(1) show ?thesis by auto
  qed (use "5.prems" in auto)
qed auto

lemma typed_start:
  assumes "distinct (map dest (options prs))"
  shows "typed (options prs) (start prs)"
proof -
  have "distinct (map dest ps) \<Longrightarrow> p \<in> set ps \<Longrightarrow> has_value False (defaults ps) p" for p ps
  proof (induction ps)
    case (Cons q ps)
    have keys: "map_of (defaults qs) d = None" if "d \<notin> dest ` set qs" for qs d
      using that by (induction qs) (auto simp: defaults_def map_add_def split: action.splits)
    have d: "defaults (q # ps) = defaults [q] @ defaults ps" by (simp add: defaults_def)
    from Cons show ?case
      using keys [of "dest q" ps]
      by (cases "p = q") (auto simp: d map_add_def defaults_def split: action.splits option.splits)
  qed simp
  with assms show ?thesis by (simp add: typed_def start_def list_all_iff del: has_value.simps)
qed

lemma parse_args_typed:
  assumes "parse_known prs args = Inr st" "positional prs = No_More" "distinct (map dest (options prs))"
    "p \<in> set (options prs)"
  shows "has_value (dest p \<in> set (given st)) (space st) p \<and> (is_required p \<longrightarrow> dest p \<in> set (given st))"
proof -
  obtain pos where run: "parse_tokens (one_of prs) No_More (classify_all (options prs) args) (start prs) = Inr (pos, st)"
    "\<not> incomplete prs pos st"
  proof -
    obtain pos st1 where r: "parse_tokens (one_of prs) No_More (classify_all (options prs) args) (start prs) = Inr (pos, st1)"
      "\<not> incomplete prs pos st1" "st = (case pos of All_Texts d \<Rightarrow> gathered d [] st1 | _ \<Rightarrow> st1)"
      using assms(1,2) by (auto simp: parse_known_def Let_def split: if_splits sum.splits)
    have "pos = No_More"
      using parse_tokens_typed [OF r(1) refl assms(3) classify_all_known typed_start [OF assms(3)]] by simp
    with r that show thesis by simp
  qed
  from parse_tokens_typed [OF run(1) refl assms(3) classify_all_known typed_start [OF assms(3)]] run(2) assms(4) show ?thesis
    by (auto simp: typed_def list_all_iff incomplete_def simp del: has_value.simps)
qed

section \<open>Settings\<close>

text \<open>A command line as a list of settings, each option in full: a value in an argument of its own, or a switch.\<close>

datatype setting = Set opt string | On opt

fun setting_words :: "setting \<Rightarrow> string list" where
  "setting_words (Set p s) = [hd (flags p), s]"
| "setting_words (On p) = [hd (flags p)]"

fun setting_value :: "setting \<Rightarrow> string \<times> arg_value" where
  "setting_value (Set p s) = (dest p, (case action p of Takes conv d r \<Rightarrow> the (conv s) | _ \<Rightarrow> Absent))"
| "setting_value (On p) = (dest p, Truth True)"

text \<open>A value that does not begin with \<open>-\<close>, or is a negative number, is no option.\<close>

definition plain_value :: "string \<Rightarrow> bool" where
  "plain_value s = (s = [] \<or> hd s \<noteq> CHR ''-'')"

definition named :: "opt list \<Rightarrow> opt \<Rightarrow> bool" where
  "named ps p = (map_of (flag_table ps) (hd (flags p)) = Some p \<and> (\<exists>c f. hd (flags p) = ''--'' @ c # f))"

fun setting_ok :: "opt list \<Rightarrow> setting \<Rightarrow> bool" where
  "setting_ok ps (Set p s) = (named ps p \<and> plain_value s
     \<and> (case action p of Takes conv d r \<Rightarrow> conv s \<noteq> None | _ \<Rightarrow> False))"
| "setting_ok ps (On p) = (named ps p \<and> action p = Switch)"

definition apply_settings :: "setting list \<Rightarrow> progress \<Rightarrow> progress" where
  "apply_settings ss st = st\<lparr>space := foldl (\<lambda>ns (d, v). AList.update d v ns) (space st) (map setting_value ss),
     given := given st @ map (fst \<circ> setting_value) ss\<rparr>"

lemma classify_named: "named ps p \<Longrightarrow> classify ps (hd (flags p)) = Known p None"
  by (auto simp: named_def classify_def)

lemma named_not_dashes: "named ps p \<Longrightarrow> hd (flags p) \<noteq> ''--''"
  by (auto simp: named_def)

lemma classify_plain: "plain_value s \<Longrightarrow> classify ps s = Argument"
  by (auto simp: plain_value_def classify_def)

lemma plain_not_dashes: "plain_value s \<Longrightarrow> s \<noteq> ''--''"
  by (auto simp: plain_value_def)

lemma setting_token:
  assumes "setting_ok ps s"
  shows "classify_all ps (setting_words s @ as)
    = (case s of Set p v \<Rightarrow> [(Known p None, hd (flags p)), (Argument, v)] | On p \<Rightarrow> [(Known p None, hd (flags p))])
      @ classify_all ps as"
  using assms
  by (cases s) (auto simp: classify_named classify_plain dest: named_not_dashes plain_not_dashes)

lemma parse_settings:
  assumes "list_all (setting_ok ps) ss"
  shows "parse_tokens [] pos (classify_all ps (concat (map setting_words ss) @ as)) st
    = parse_tokens [] (if ss = [] then pos else run_over pos) (classify_all ps as) (apply_settings ss st)"
  using assms
proof (induction ss arbitrary: st pos)
  case Nil
  then show ?case by (simp add: apply_settings_def)
next
  case (Cons s ss)
  have idem: "run_over (run_over pos) = run_over pos" by (cases pos) simp_all
  from Cons.prems have s: "setting_ok ps s" and ss: "list_all (setting_ok ps) ss" by simp_all
  have "parse_tokens [] pos (classify_all ps (setting_words s @ bs)) st
    = parse_tokens [] (run_over pos) (classify_all ps bs) (apply_settings [s] st)" for bs
    unfolding setting_token [OF s] using s
    by (cases s) (auto simp: give_def enter_def apply_settings_def split: action.splits option.splits)
  then show ?case
    using Cons.IH [OF ss] idem by (simp add: apply_settings_def)
qed

lemma settings_unambiguous:
  "list_all (setting_ok ps) ss \<Longrightarrow> Ambiguous \<notin> fst ` set (classify_all ps (concat (map setting_words ss)))"
proof (induction ss)
  case (Cons s ss)
  then show ?case using setting_token [of ps s "concat (map setting_words ss)"] by (cases s) auto
qed simp

text \<open>What a parser without positional arguments or exclusive options makes of a list of settings: the defaults, with
  every setting entered in order.\<close>

lemma parse_known_settings:
  assumes "list_all (setting_ok (options prs)) ss" "positional prs = No_More" "one_of prs = []"
    "\<And>p. p \<in> set (options prs) \<Longrightarrow> is_required p \<Longrightarrow> dest p \<in> fst ` setting_value ` set ss"
  shows "parse_known prs (concat (map setting_words ss)) = Inr (apply_settings ss (start prs))"
proof -
  have "parse_tokens [] No_More (classify_all (options prs) (concat (map setting_words ss))) (start prs)
      = Inr (No_More, apply_settings ss (start prs))"
    using parse_settings [OF assms(1), of No_More "[]"] by simp
  moreover have "\<not> incomplete prs No_More (apply_settings ss (start prs))"
    using assms(3,4) by (auto simp: incomplete_def apply_settings_def)
  ultimately show ?thesis
    using settings_unambiguous [OF assms(1)] assms(2,3) by (simp add: parse_known_def)
qed

theorem parse_args_settings:
  assumes "list_all (setting_ok (options prs)) ss" "positional prs = No_More" "one_of prs = []"
    "\<And>p. p \<in> set (options prs) \<Longrightarrow> is_required p \<Longrightarrow> dest p \<in> fst ` setting_value ` set ss"
  shows "parse_args prs (concat (map setting_words ss))
    = Inr (foldl (\<lambda>ns (d, v). AList.update d v ns) (defaults (options prs)) (map setting_value ss))"
  by (simp add: parse_args_def parse_known_settings [OF assms] apply_settings_def start_def)

text \<open>A word that no option takes is a usage error, wherever it stands.\<close>

lemma stray_word_refused:
  assumes "list_all (setting_ok (options prs)) ss" "list_all (setting_ok (options prs)) ss'" "plain_value w"
    "positional prs = No_More" "one_of prs = []"
  shows "parse_args prs (concat (map setting_words ss) @ w # concat (map setting_words ss')) = Inl 2"
proof -
  let ?ps = "options prs" and ?st = "apply_settings ss (start prs)"
  have w: "classify ?ps w = Argument" "w \<noteq> ''--''" using assms(3) by (auto simp: classify_plain dest: plain_not_dashes)
  have "parse_tokens [] No_More (classify_all ?ps (concat (map setting_words ss) @ w # concat (map setting_words ss'))) (start prs)
      = parse_tokens [] No_More (classify_all ?ps (concat (map setting_words ss'))) (?st\<lparr>extras := extras ?st @ [w]\<rparr>)"
    using parse_settings [OF assms(1), of No_More "w # concat (map setting_words ss')" "start prs"] w by simp
  also have "\<dots> = Inr (No_More, apply_settings ss' (?st\<lparr>extras := extras ?st @ [w]\<rparr>))"
    using parse_settings [OF assms(2), of No_More "[]"] by simp
  finally show ?thesis
    using assms(4,5) by (auto simp: parse_args_def parse_known_def Let_def apply_settings_def)
qed

end
