(* ===== verification/Evidence_Audit.thy ===== *)
theory Evidence_Audit
  imports Py_Values Keys
begin

text \<open>
  \<open>tools/omp_tools/audit.py\<close> and \<open>_run_audit\<close> of \<open>tools/omp_tools/validate.py\<close>: the five checks of an
  evidence bundle, the citation, the report and the exit code.

  The members of a bundle are whatever its lines parse to, so every access may raise. The hash and
  the Ed25519 verification are parameters, \<open>H\<close> and \<open>ed\<close>. A verdict is \<open>Some True\<close>, \<open>Some False\<close>, or
  \<open>None\<close> for a check that could not be evaluated.
\<close>

section \<open>Checks\<close>

record check =
  check_name :: string
  passed :: "bool option"
  detail :: string
  check_findings :: "string list"

text \<open>The three symbols, in UTF-8.\<close>

definition check_symbol :: "check \<Rightarrow> string" where
  "check_symbol c =
     (case passed c of Some True \<Rightarrow> [CHR 0xE2, CHR 0x9C, CHR 0x94]
      | Some False \<Rightarrow> [CHR 0xE2, CHR 0x9C, CHR 0x96]
      | None \<Rightarrow> [CHR 0xE2, CHR 0x80, CHR 0x93])"

abbreviation verdict :: "string \<Rightarrow> bool option \<Rightarrow> string \<Rightarrow> string list \<Rightarrow> check" where
  "verdict n p d fs \<equiv> \<lparr>check_name = n, passed = p, detail = d, check_findings = fs\<rparr>"

section \<open>The digest of the evidence set\<close>

fun insert_by :: "('a \<Rightarrow> 'a \<Rightarrow> bool) \<Rightarrow> 'a \<Rightarrow> 'a list \<Rightarrow> 'a list" where
  "insert_by le x [] = [x]"
| "insert_by le x (y # ys) = (if le x y then x # y # ys else y # insert_by le x ys)"

definition sort_by :: "('a \<Rightarrow> 'a \<Rightarrow> bool) \<Rightarrow> 'a list \<Rightarrow> 'a list" where
  "sort_by le xs = foldr (insert_by le) xs []"

definition is_text :: "json \<Rightarrow> bool" where
  "is_text v = (case v of JStr s \<Rightarrow> True | _ \<Rightarrow> False)"

definition is_number :: "json \<Rightarrow> bool" where
  "is_number v = (num_val v \<noteq> None \<and> v \<noteq> JFloat NaN)"

text \<open>\<open>sorted(envelopes, key=lambda e: e["seq"])\<close>; keys that cannot be compared raise.\<close>

definition sort_by_seq :: "json list \<Rightarrow> json list res" where
  "sort_by_seq envs =
     res_bind (res_map (\<lambda>e. get_item e ''seq'') envs) (\<lambda>ks.
       if list_all is_number ks \<or> list_all is_text ks \<or> length ks \<le> 1
       then Inr (map snd (sort_by (\<lambda>a b. py_le (fst a) (fst b) = Inr True) (zip ks envs)))
       else Inl TypeError)"

definition records_hash :: "(string \<Rightarrow> string) \<Rightarrow> json list \<Rightarrow> string res" where
  "records_hash H envs =
     res_bind (sort_by_seq envs) (\<lambda>ordered_envs.
     res_bind (res_map (\<lambda>e. get_item e ''checksum'') ordered_envs) (\<lambda>cs.
     res_bind (res_map as_str cs) (\<lambda>texts. Inr (H (concat texts)))))"

section \<open>The run\<close>

definition is_given :: "string option \<Rightarrow> bool" where
  "is_given s = (case s of None \<Rightarrow> False | Some t \<Rightarrow> t \<noteq> [])"

definition no_run_msg :: string where
  "no_run_msg = ''no process_run envelope in the bundle - an evidence bundle is scoped to a run; pass the run's summary envelope too''"

definition select_run :: "json list \<Rightarrow> string option \<Rightarrow> json res" where
  "select_run envs run_id =
     res_bind (res_filter (\<lambda>e. res_bind (get_item e ''schema'') (\<lambda>s. Inr (s = JStr ''process_run''))) envs) (\<lambda>all_runs.
     res_bind
       (if is_given run_id then
          res_bind (res_filter (\<lambda>e. res_bind (get_item e ''body'') (\<lambda>b.
                      res_bind (get_or b ''run_id'' JNull) (\<lambda>r. Inr (r = JStr (the run_id))))) all_runs) (\<lambda>rs.
            if rs = [] then Inl (ValueError (''no process_run with run_id '' @ repr_str (the run_id) @ '' in the bundle''))
            else Inr rs)
        else Inr all_runs) (\<lambda>runs.
     (case runs of
        [] \<Rightarrow> Inl (ValueError no_run_msg)
      | [r] \<Rightarrow> Inr r
      | _ \<Rightarrow>
          res_bind (res_map (\<lambda>r. res_bind (get_item r ''body'') (\<lambda>b. get_item b ''run_id'')) runs) (\<lambda>ids.
          res_bind (res_map as_str ids) (\<lambda>names.
            Inl (ValueError (''bundle covers several runs ('' @ join '', '' (sort names) @ ''); pass --run-id'')))))))"

section \<open>Completeness\<close>

text \<open>\<open>e["gateway_id"] == gw and e["machine_id"] == mid\<close>\<close>

definition same_source :: "json \<Rightarrow> json \<Rightarrow> json \<Rightarrow> bool res" where
  "same_source gw mid e =
     res_and (res_bind (get_item e ''gateway_id'') (\<lambda>g. Inr (py_eq g gw)))
       (res_bind (get_item e ''machine_id'') (\<lambda>m. Inr (py_eq m mid)))"

text \<open>The number of an envelope of the source, as a member of a set.\<close>

definition seq_from :: "json \<Rightarrow> json \<Rightarrow> json \<Rightarrow> json list res" where
  "seq_from gw mid e =
     res_bind (same_source gw mid e) (\<lambda>b.
       if \<not> b then Inr []
       else res_bind (get_item e ''seq'') (\<lambda>s. if hashable s then Inr [s] else Inl TypeError))"

definition missing_of :: "int \<Rightarrow> int \<Rightarrow> json list \<Rightarrow> int list" where
  "missing_of first_seq last_seq have = filter (\<lambda>i. \<not> list_ex (\<lambda>s. equals_int s i) have) [first_seq..last_seq]"

definition completeness_verdict :: "json \<Rightarrow> json \<Rightarrow> int list \<Rightarrow> nat \<Rightarrow> check" where
  "completeness_verdict f l missing n =
     (let span = str_json f @ ''-'' @ str_json l in
      if missing \<noteq> [] then
        let shown = take 20 missing;
            more = (if length missing = length shown then []
                    else '' (+'' @ show_nat (length missing - length shown) @ '' more)'')
        in verdict ''completeness'' (Some False)
             (show_nat (length missing) @ '' envelope(s) missing from seq '' @ span)
             [''missing seq '' @ repr_list (map show_int shown) @ more]
      else verdict ''completeness'' (Some True)
             (''seq '' @ span @ '' complete ('' @ show_nat n @ '' envelopes)'') [])"

definition check_completeness :: "json list \<Rightarrow> json \<Rightarrow> check res" where
  "check_completeness cited run_env =
     res_bind (get_item run_env ''body'') (\<lambda>body.
     res_bind (get_or body ''event_seq_range'' JNull) (\<lambda>rng.
     if \<not> truthy rng then
       Inr (verdict ''completeness'' None ''process_run has no event_seq_range - nothing to cite'' [])
     else
       res_bind (get_item run_env ''gateway_id'') (\<lambda>gw.
       res_bind (get_item run_env ''machine_id'') (\<lambda>mid.
       res_bind (get_item rng ''first'') (\<lambda>f. res_bind (get_item rng ''last'') (\<lambda>l.
       res_bind (as_int l) (\<lambda>hi. res_bind (as_int f) (\<lambda>lo.
       res_bind (res_map (seq_from gw mid) cited) (\<lambda>have.
         Inr (completeness_verdict f l (missing_of lo hi (concat have)) (length [lo..hi])))))))))))"

section \<open>Integrity\<close>

text \<open>\<open>checksum\<close> of a body that need not be a dict\<close>

definition checksum_json :: "(string \<Rightarrow> string) \<Rightarrow> json \<Rightarrow> string res" where
  "checksum_json H v = res_bind (check_numbers v ''$'') (\<lambda>_. Inr (H (dumps canonical_opts v)))"

lemma checksum_json_dict: "checksum_json H (JObj b) = checksum H b"
  by (simp add: checksum_json_def checksum_def canonicalize_def res_bind_def split: sum.splits
      del: check_numbers.simps dumps.simps)

text \<open>\<open>f"seq {e['seq']}: ..."\<close>\<close>

definition seq_finding :: "json \<Rightarrow> string \<Rightarrow> string res" where
  "seq_finding e what = res_bind (get_item e ''seq'') (\<lambda>s. Inr (''seq '' @ str_json s @ '': '' @ what))"

definition integrity_of :: "(string \<Rightarrow> string) \<Rightarrow> json \<Rightarrow> string list res" where
  "integrity_of H e =
     res_bind (get_item e ''body'') (\<lambda>b.
     (case checksum_json H b of
        Inl (ValueError m) \<Rightarrow> res_bind (seq_finding e (''not canonicalizable ('' @ m @ '')'')) (\<lambda>f. Inr [f])
      | Inl x \<Rightarrow> Inl x
      | Inr c \<Rightarrow>
          res_bind (get_item e ''checksum'') (\<lambda>claimed.
            if claimed = JStr c then Inr []
            else res_bind (seq_finding e ''checksum mismatch'') (\<lambda>f. Inr [f]))))"

definition check_integrity :: "(string \<Rightarrow> string) \<Rightarrow> json list \<Rightarrow> check res" where
  "check_integrity H cited =
     res_bind (res_map (integrity_of H) cited) (\<lambda>fs.
       let bad = concat fs in
       Inr (if bad \<noteq> [] then
              verdict ''integrity'' (Some False)
                (show_nat (length bad) @ '' of '' @ show_nat (length cited) @ '' envelopes failed'') (take 20 bad)
            else verdict ''integrity'' (Some True)
                (''all '' @ show_nat (length cited) @ '' checksums recomputed and match'') []))"

section \<open>Authenticity\<close>

definition signature_ok :: "(string \<Rightarrow> string \<Rightarrow> string \<Rightarrow> bool) \<Rightarrow> string \<Rightarrow> json \<Rightarrow> bool" where
  "signature_ok ed pubkey e = (case e of JObj d \<Rightarrow> verify_envelope_sig ed d pubkey | _ \<Rightarrow> False)"

definition check_authenticity ::
  "(string \<Rightarrow> string \<Rightarrow> string \<Rightarrow> bool) \<Rightarrow> json list \<Rightarrow> string option \<Rightarrow> check res" where
  "check_authenticity ed cited pubkey =
     res_bind (res_filter (\<lambda>e. has_key e ''sig'') cited) (\<lambda>signed.
     if \<not> is_given pubkey then
       Inr (verdict ''authenticity'' None
         (''no pubkey supplied ('' @ show_nat (length signed) @ ''/'' @ show_nat (length cited) @ '' envelopes carry a signature)'') [])
     else if signed = [] then
       Inr (verdict ''authenticity'' None
         ''no envelopes are signed - checksums prove integrity, not origin'' [])
     else
       res_bind (res_map (\<lambda>e. seq_finding e ''signature does not verify'')
                   (filter (\<lambda>e. \<not> signature_ok ed (the pubkey) e) signed)) (\<lambda>bad.
         let unsigned = length cited - length signed in
         Inr (if bad \<noteq> [] then
                verdict ''authenticity'' (Some False) (show_nat (length bad) @ '' signature(s) failed'') (take 20 bad)
              else verdict ''authenticity'' (Some True)
                (''all '' @ show_nat (length signed) @ '' signatures verify against the supplied key'')
                (if unsigned \<noteq> 0 then [show_nat unsigned @ '' envelope(s) in the bundle are unsigned''] else []))))"

section \<open>Consistency\<close>

text \<open>
  The discrepancies found so far and the number of comparisons made; one function for each of the
  three comparisons.
\<close>

type_synonym tally = "string list \<times> nat"

definition has_event :: "string \<Rightarrow> json \<Rightarrow> bool res" where
  "has_event kind e =
     res_and (res_bind (get_item e ''schema'') (\<lambda>s. Inr (s = JStr ''event'')))
       (res_bind (get_item e ''body'') (\<lambda>b.
        res_bind (get_or b ''event_type'' JNull) (\<lambda>t. Inr (t = JStr kind))))"

definition starts_phase :: "json \<Rightarrow> bool res" where
  "starts_phase e =
     res_and (has_event ''phase_start'' e)
       (res_bind (get_item e ''body'') (\<lambda>b.
        res_bind (get_or b ''payload'' (JObj [])) (\<lambda>p. has_key p ''phase'')))"

definition phase_started :: "json \<Rightarrow> json list res" where
  "phase_started e =
     res_bind (starts_phase e) (\<lambda>b.
       if \<not> b then Inr []
       else res_bind (get_item e ''body'') (\<lambda>body. res_bind (get_item body ''payload'') (\<lambda>p.
            res_bind (get_item p ''phase'') (\<lambda>v. Inr [v]))))"

definition repr_values :: "json list \<Rightarrow> string" where
  "repr_values vs = repr_list (map repr_json vs)"

definition compare_phases :: "json \<Rightarrow> json list \<Rightarrow> tally res" where
  "compare_phases body ours =
     res_bind (get_or body ''phases'' (JList [])) (\<lambda>ps. res_bind (as_list ps) (\<lambda>phases.
     res_bind (res_map (\<lambda>p. get_item p ''name'') phases) (\<lambda>declared.
     if declared = [] then Inr ([], 0)
     else
       res_bind (res_map phase_started ours) (\<lambda>started_lists.
         let started = concat started_lists in
         if started = [] then Inr ([], 0)
         else
           let missing = filter (\<lambda>p. \<not> py_in p started) declared;
               extra = filter (\<lambda>p. \<not> py_in p declared) started
           in Inr ((if missing \<noteq> [] then [''phases in summary with no phase_start event: '' @ repr_values missing] else [])
                 @ (if extra \<noteq> [] then [''phase_start events absent from the summary: '' @ repr_values extra] else []), 1)))))"

definition quantity_table :: "json \<Rightarrow> json jdict res" where
  "quantity_table body =
     res_bind (get_or body ''quantities'' (JList [])) (\<lambda>qs. res_bind (as_list qs) (\<lambda>entries.
       res_fold (\<lambda>q d.
           res_bind (get_item q ''name'') (\<lambda>n. res_bind (get_item q ''value'') (\<lambda>v.
             if hashable n then Inr (jset n v d) else Inl TypeError)))
         entries []))"

definition add_energy :: "json \<Rightarrow> json jdict \<Rightarrow> json jdict res" where
  "add_energy e totals =
     res_bind (get_item e ''schema'') (\<lambda>s.
     if s \<noteq> JStr ''energy'' then Inr totals
     else
       res_bind (get_item e ''body'') (\<lambda>b. res_bind (get_item b ''metric'') (\<lambda>metric.
       if \<not> hashable metric then Inl TypeError
       else
         res_bind (get_item b ''value'') (\<lambda>v.
         res_bind (num_add (case jget totals metric of None \<Rightarrow> JInt 0 | Some t \<Rightarrow> t) v) (\<lambda>t.
           Inr (jset metric t totals))))))"

text \<open>\<open>claimed and abs(claimed - tot) / max(abs(claimed), 1) > 0.01\<close>\<close>

definition one_percent :: json where
  "one_percent = JFloat (to_double (1 / 100))"

definition deviates :: "json \<Rightarrow> json \<Rightarrow> bool res" where
  "deviates claimed tot =
     (if \<not> truthy claimed then Inr False
      else
        res_bind (num_sub claimed tot) (\<lambda>d. res_bind (num_abs d) (\<lambda>d.
        res_bind (num_abs claimed) (\<lambda>a. res_bind (num_max a (JInt 1)) (\<lambda>m.
        res_bind (num_div d m) (\<lambda>q. num_less one_percent q))))))"

definition compare_metric :: "json jdict \<Rightarrow> json \<times> json \<Rightarrow> tally \<Rightarrow> tally res" where
  "compare_metric quantities mt acc =
     (let (metric, tot) = mt;
          with_total = JStr (str_json metric @ ''_total'');
          qname = (if jget quantities with_total \<noteq> None then Some with_total
                   else if jget quantities metric \<noteq> None then Some metric else None)
      in (case qname of
            None \<Rightarrow> Inr acc
          | Some q \<Rightarrow>
              let claimed = the (jget quantities q) in
              res_bind (deviates claimed tot) (\<lambda>bad.
                Inr (fst acc @ (if bad then [''quantity '' @ str_json q @ ''='' @ str_json claimed
                                   @ '' but cited energy intervals sum to '' @ str_json tot] else []),
                     Suc (snd acc)))))"

definition compare_energy :: "json \<Rightarrow> json list \<Rightarrow> tally res" where
  "compare_energy body ours =
     res_bind (quantity_table body) (\<lambda>quantities.
     res_bind (res_fold add_energy ours []) (\<lambda>totals.
       res_fold (compare_metric quantities) totals ([], 0)))"

definition compare_bounds :: "json \<Rightarrow> json list \<Rightarrow> tally res" where
  "compare_bounds body ours =
     res_bind (res_any (has_event ''run_start'') ours) (\<lambda>has_start.
     res_bind (res_any (has_event ''run_end'') ours) (\<lambda>has_end.
     if \<not> has_start \<and> \<not> has_end then Inr ([], 0)
     else
       res_bind (if has_end then Inr JNull else get_or body ''outcome'' JNull) (\<lambda>outcome.
         Inr ((if \<not> has_start then [''no run_start event in the cited range''] else [])
            @ (if \<not> has_end \<and> outcome = JStr ''completed''
               then [''outcome is 'completed' but no run_end event is cited''] else []), 1))))"

definition consistency_verdict :: "tally \<Rightarrow> check" where
  "consistency_verdict t =
     (if snd t = 0 then
        verdict ''consistency'' None ''bundle carries nothing comparable against the summary'' []
      else if fst t \<noteq> [] then
        verdict ''consistency'' (Some False)
          (show_nat (length (fst t)) @ '' discrepancy(ies) across '' @ show_nat (snd t) @ '' comparison(s)'') (fst t)
      else verdict ''consistency'' (Some True)
          (''summary agrees with its events ('' @ show_nat (snd t) @ '' comparison(s))'') [])"

definition check_consistency :: "json list \<Rightarrow> json \<Rightarrow> check res" where
  "check_consistency cited run_env =
     res_bind (get_item run_env ''body'') (\<lambda>body.
     res_bind (get_item run_env ''gateway_id'') (\<lambda>gw. res_bind (get_item run_env ''machine_id'') (\<lambda>mid.
     res_bind (res_filter (same_source gw mid) cited) (\<lambda>ours.
     res_bind (compare_phases body ours) (\<lambda>a.
     res_bind (compare_energy body ours) (\<lambda>b.
     res_bind (compare_bounds body ours) (\<lambda>c.
       Inr (consistency_verdict (fst a @ fst b @ fst c, snd a + snd b + snd c)))))))))"

section \<open>Conformance\<close>

definition conformance_of :: "(string \<Rightarrow> string) \<Rightarrow> spec \<Rightarrow> json \<Rightarrow> string list res" where
  "conformance_of H spec e =
     res_bind (as_dict e) (\<lambda>d. res_bind (validate_envelope H spec d False) (\<lambda>errors.
       if errors = [] then Inr [] else res_bind (seq_finding e (hd errors)) (\<lambda>f. Inr [f])))"

definition check_conformance :: "(string \<Rightarrow> string) \<Rightarrow> spec \<Rightarrow> json list \<Rightarrow> check res" where
  "check_conformance H spec cited =
     res_bind (res_map (conformance_of H spec) cited) (\<lambda>fs.
       let bad = concat fs in
       Inr (if bad \<noteq> [] then
              verdict ''conformance'' (Some False)
                (show_nat (length bad) @ '' of '' @ show_nat (length cited) @ '' envelopes non-conformant'') (take 20 bad)
            else verdict ''conformance'' (Some True)
                (''all '' @ show_nat (length cited) @ '' envelopes valid against core + profile'') []))"

section \<open>The bundle\<close>

text \<open>\<open>rng["first"] <= e["seq"] <= rng["last"]\<close>\<close>

definition in_range :: "json \<Rightarrow> json \<Rightarrow> bool res" where
  "in_range rng e =
     res_bind (get_item rng ''first'') (\<lambda>f. res_bind (get_item e ''seq'') (\<lambda>s.
     res_and (py_le f s) (res_bind (get_item rng ''last'') (\<lambda>l. py_le s l))))"

definition is_cited :: "json \<Rightarrow> json \<Rightarrow> json \<Rightarrow> json \<Rightarrow> bool res" where
  "is_cited rng gw mid e =
     res_and (same_source gw mid e) (if truthy rng then in_range rng e else Inr True)"

definition cited_of :: "json list \<Rightarrow> json \<Rightarrow> json \<Rightarrow> json \<Rightarrow> json \<Rightarrow> json list res" where
  "cited_of envs run_env rng gw mid =
     res_bind (res_filter (is_cited rng gw mid) envs) (\<lambda>cited.
       Inr (if py_in run_env cited then cited else cited @ [run_env]))"

text \<open>\<open>next((e for e in envelopes if ...), None)\<close>\<close>

fun res_find :: "('a \<Rightarrow> bool res) \<Rightarrow> 'a list \<Rightarrow> 'a option res" where
  "res_find p [] = Inr None"
| "res_find p (x # xs) = res_bind (p x) (\<lambda>b. if b then Inr (Some x) else res_find p xs)"

definition json_of_verdict :: "bool option \<Rightarrow> json" where
  "json_of_verdict v = (case v of None \<Rightarrow> JNull | Some b \<Rightarrow> JBool b)"

text \<open>The five checks in the order of the code: completeness, integrity, authenticity, consistency, conformance.\<close>

record checks =
  chk_completeness :: check
  chk_integrity :: check
  chk_authenticity :: check
  chk_consistency :: check
  chk_conformance :: check

definition checks_list :: "checks \<Rightarrow> check list" where
  "checks_list cs =
     [chk_completeness cs, chk_integrity cs, chk_authenticity cs, chk_consistency cs, chk_conformance cs]"

definition run_checks ::
  "(string \<Rightarrow> string) \<Rightarrow> (string \<Rightarrow> string \<Rightarrow> string \<Rightarrow> bool) \<Rightarrow> spec \<Rightarrow> string option
     \<Rightarrow> json list \<Rightarrow> json \<Rightarrow> checks res" where
  "run_checks H ed spec pubkey cited run_env =
     res_bind (check_completeness cited run_env) (\<lambda>c1.
     res_bind (check_integrity H cited) (\<lambda>c2.
     res_bind (check_authenticity ed cited pubkey) (\<lambda>c3.
     res_bind (check_consistency cited run_env) (\<lambda>c4.
     res_bind (check_conformance H spec cited) (\<lambda>c5.
       Inr \<lparr>chk_completeness = c1, chk_integrity = c2, chk_authenticity = c3, chk_consistency = c4,
            chk_conformance = c5\<rparr>)))))"

definition verification_block :: "checks \<Rightarrow> json dict" where
  "verification_block cs =
     [(''seq_complete'', json_of_verdict (passed (chk_completeness cs))),
      (''checksums_valid'', json_of_verdict (passed (chk_integrity cs))),
      (''signatures_valid'', json_of_verdict (passed (chk_authenticity cs))),
      (''consistent'', json_of_verdict (passed (chk_consistency cs))),
      (''conformant'', json_of_verdict (passed (chk_conformance cs)))]"

definition citation_of ::
  "(string \<Rightarrow> string) \<Rightarrow> json list \<Rightarrow> json \<Rightarrow> json \<Rightarrow> json \<Rightarrow> json \<Rightarrow> json \<Rightarrow> checks \<Rightarrow> string option
     \<Rightarrow> json list \<Rightarrow> json res" where
  "citation_of H envs run_env body rng gw mid cs pubkey cited =
     res_bind (res_find (\<lambda>e. res_and (res_bind (get_item e ''schema'') (\<lambda>s. Inr (s = JStr ''machine'')))
                 (res_bind (get_item e ''machine_id'') (\<lambda>m. Inr (py_eq m mid)))) envs) (\<lambda>machine.
     res_bind (get_item run_env ''omp_version'') (\<lambda>ver.
     res_bind (get_item run_env ''profile'') (\<lambda>prof.
     res_bind (get_item body ''run_id'') (\<lambda>rid.
     res_bind (records_hash H cited) (\<lambda>digest.
     res_bind (case machine of
                 None \<Rightarrow> Inr []
               | Some e \<Rightarrow> res_bind (get_item e ''body'') (\<lambda>b.
                   res_bind (get_or b ''data_source'' JNull) (\<lambda>src. Inr [(''data_source'', src)]))) (\<lambda>source.
       Inr (JObj [(''evidence'', JObj
         ([(''standard'', JStr ''OMP''), (''omp_version'', ver), (''profile'', prof), (''gateway_id'', gw),
           (''machine_id'', mid), (''run_id'', rid), (''records_hash'', JStr digest),
           (''verification'', JObj (verification_block cs @ source))]
          @ (if truthy rng then [(''event_seq_range'', rng)] else [])
          @ (if is_given pubkey then [(''gateway_pubkey'', JStr (''ed25519:'' @ the pubkey))] else [])))])))))))"

definition audit_bundle ::
  "(string \<Rightarrow> string) \<Rightarrow> (string \<Rightarrow> string \<Rightarrow> string \<Rightarrow> bool) \<Rightarrow> spec \<Rightarrow> string option \<Rightarrow> string option
     \<Rightarrow> json list \<Rightarrow> (checks \<times> json) res" where
  "audit_bundle H ed spec pubkey run_id envs =
     res_bind (select_run envs run_id) (\<lambda>run_env.
     res_bind (get_item run_env ''body'') (\<lambda>body.
     res_bind (get_or body ''event_seq_range'' JNull) (\<lambda>rng.
     res_bind (get_item run_env ''gateway_id'') (\<lambda>gw. res_bind (get_item run_env ''machine_id'') (\<lambda>mid.
     res_bind (cited_of envs run_env rng gw mid) (\<lambda>cited.
     res_bind (run_checks H ed spec pubkey cited run_env) (\<lambda>cs.
     res_bind (citation_of H envs run_env body rng gw mid cs pubkey cited) (\<lambda>cit.
       Inr (cs, cit)))))))))"

section \<open>The report and the exit code\<close>

text \<open>The text of an exception that \<open>except ValueError\<close> catches.\<close>

fun value_error_text :: "pyexn \<Rightarrow> string option" where
  "value_error_text (ValueError m) = Some m"
| "value_error_text (RegistryError m) = Some m"
| "value_error_text (ModbusError m) = Some m"
| "value_error_text JSONDecodeError = Some []"
| "value_error_text _ = None"

text \<open>\<open>json.dumps(v, indent=2)\<close>, starting in column \<open>n\<close>\<close>

definition new_line :: "nat \<Rightarrow> string" where
  "new_line n = CHR 0x0A # replicate n (CHR '' '')"

function pretty :: "nat \<Rightarrow> json \<Rightarrow> string" where
  "pretty n (JList vs) =
     (if vs = [] then ''[]''
      else ''['' @ new_line (n + 2) @ join ('','' @ new_line (n + 2)) (map (pretty (n + 2)) vs) @ new_line n @ '']'')"
| "pretty n (JObj kvs) =
     (if kvs = [] then ''{}''
      else ''{'' @ new_line (n + 2)
        @ join ('','' @ new_line (n + 2)) (map (\<lambda>kv. quote default_opts (fst kv) @ '': '' @ pretty (n + 2) (snd kv)) kvs)
        @ new_line n @ ''}'')"
| "pretty n JNull = dumps default_opts JNull"
| "pretty n (JBool b) = dumps default_opts (JBool b)"
| "pretty n (JInt i) = dumps default_opts (JInt i)"
| "pretty n (JFloat x) = dumps default_opts (JFloat x)"
| "pretty n (JStr s) = dumps default_opts (JStr s)"
  by pat_completeness auto
termination
proof (relation "measure (\<lambda>(_, v). size v)", goal_cases)
  case (3 n kvs kv)
  obtain k v where kv: "kv = (k, v)" by (cases kv)
  with 3 have "(k, v) \<in> set kvs" by simp
  then have "size v < Suc (size_list (size_prod (\<lambda>_. 0) size) kvs)"
    by (induction kvs) auto
  then show ?case by (simp add: kv)
qed (auto simp: less_Suc_eq_le size_list_estimation')

definition report_lines :: "check \<Rightarrow> string list" where
  "report_lines c =
     (''  '' @ check_symbol c @ '' '' @ check_name c @ '': '' @ detail c)
       # map (\<lambda>f. ''      '' @ f) (check_findings c)"

definition format_report :: "check list \<Rightarrow> json \<Rightarrow> nat \<Rightarrow> string" where
  "format_report cs citation n =
     (let failed = filter (\<lambda>c. passed c = Some False) cs;
          skipped = filter (\<lambda>c. passed c = None) cs
      in join [CHR 0x0A]
        ([''audit: '' @ show_nat n @ '' envelope(s) in bundle'', []]
         @ concat (map report_lines cs) @ [[]]
         @ (if failed \<noteq> []
            then [''AUDIT FAILED - '' @ show_nat (length failed) @ '' check(s) did not pass: ''
                  @ join '', '' (map check_name failed)]
            else [''audit passed'' @ (if skipped \<noteq> []
                    then '' ('' @ show_nat (length skipped) @ '' check(s) not evaluated - see above)'' else [])])
         @ (if skipped \<noteq> [] then [''A claim built on this bundle must not assert what was not checked.''] else [])
         @ [[], ''citation block (DPP Evidence Chain s3):'', pretty 0 citation]))"

text \<open>The lines of the bundle; the first that does not parse ends the audit. \<open>Inl\<close> is its number.\<close>

fun parse_bundle :: "nat \<Rightarrow> string list \<Rightarrow> nat + json list" where
  "parse_bundle n [] = Inr []"
| "parse_bundle n (l # ls) =
     (if strip l = [] then parse_bundle (Suc n) ls
      else (case loads (strip l) of
              Inl e \<Rightarrow> Inl n
            | Inr v \<Rightarrow> (case parse_bundle (Suc n) ls of Inl k \<Rightarrow> Inl k | Inr vs \<Rightarrow> Inr (v # vs))))"

definition cross_mark :: string where
  "cross_mark = [CHR 0xE2, CHR 0x9C, CHR 0x96]"

definition bundle_parse_msg :: "string \<Rightarrow> nat \<Rightarrow> string" where
  "bundle_parse_msg m n =
     cross_mark @ '' line '' @ show_nat n @ '': not JSON ('' @ m
       @ '') - an evidence bundle must parse before it can be audited''"

text \<open>What is printed, and the exit code; \<open>parse_msg\<close> is the text of the parser's error.\<close>

definition run_audit ::
  "(string \<Rightarrow> string) \<Rightarrow> (string \<Rightarrow> string \<Rightarrow> string \<Rightarrow> bool) \<Rightarrow> spec \<Rightarrow> (string list \<Rightarrow> string)
     \<Rightarrow> string option \<Rightarrow> string option \<Rightarrow> string list \<Rightarrow> (string \<times> int) res" where
  "run_audit H ed spec parse_msg pubkey run_id ls =
     (case parse_bundle 1 ls of
        Inl n \<Rightarrow> Inr (bundle_parse_msg (parse_msg ls) n, 1)
      | Inr [] \<Rightarrow> Inr (cross_mark @ '' empty bundle'', 1)
      | Inr envs \<Rightarrow>
          (case audit_bundle H ed spec pubkey run_id envs of
             Inl e \<Rightarrow> (case value_error_text e of Some m \<Rightarrow> Inr (cross_mark @ '' '' @ m, 1) | None \<Rightarrow> Inl e)
           | Inr (cs, cit) \<Rightarrow>
               Inr (format_report (checks_list cs) cit (length envs),
                    if list_ex (\<lambda>c. passed c = Some False) (checks_list cs) then 1 else 0)))"

section \<open>What a verdict means\<close>

lemma res_map_concat_Nil:
  "res_map f xs = Inr ys \<Longrightarrow> concat ys = [] \<longleftrightarrow> (\<forall>x \<in> set xs. f x = Inr [])"
proof (induction xs arbitrary: ys)
  case (Cons x xs)
  then show ?case by (fastforce split: sum.splits)
qed simp

lemma set_concat_res_map:
  "res_map f xs = Inr ys \<Longrightarrow> set (concat ys) = {y. \<exists>x \<in> set xs. \<exists>zs. f x = Inr zs \<and> y \<in> set zs}"
proof (induction xs arbitrary: ys)
  case (Cons x xs)
  then show ?case by (fastforce split: sum.splits)
qed simp

lemma integrity_passed:
  "check_integrity H cited = Inr c \<Longrightarrow> passed c = Some (\<forall>e \<in> set cited. integrity_of H e = Inr [])"
proof -
  assume "check_integrity H cited = Inr c"
  then obtain fs where "res_map (integrity_of H) cited = Inr fs" "passed c = Some (concat fs = [])"
    by (auto simp: check_integrity_def res_inv Let_def)
  then show ?thesis by (simp add: res_map_concat_Nil del: concat_eq_Nil_conv)
qed

lemma conformance_passed:
  "check_conformance H spec cited = Inr c \<Longrightarrow>
     passed c = Some (\<forall>e \<in> set cited. \<exists>d. e = JObj d \<and> validate_envelope H spec d False = Inr [])"
proof -
  have one: "conformance_of H spec e = Inr [] \<longleftrightarrow> (\<exists>d. e = JObj d \<and> validate_envelope H spec d False = Inr [])" for e
    by (cases e) (auto simp: conformance_of_def res_inv)
  assume "check_conformance H spec cited = Inr c"
  then obtain fs where "res_map (conformance_of H spec) cited = Inr fs" "passed c = Some (concat fs = [])"
    by (auto simp: check_conformance_def res_inv Let_def)
  then show ?thesis by (simp add: res_map_concat_Nil one del: concat_eq_Nil_conv)
qed

definition is_signed :: "json \<Rightarrow> bool" where
  "is_signed e = (has_key e ''sig'' = Inr True)"

lemma authenticity_passed:
  assumes "check_authenticity ed cited pubkey = Inr c"
  shows "passed c =
    (if is_given pubkey \<and> (\<exists>e \<in> set cited. is_signed e)
     then Some (\<forall>e \<in> set cited. is_signed e \<longrightarrow> signature_ok ed (the pubkey) e) else None)"
proof -
  from assms obtain signed where s: "res_filter (\<lambda>e. has_key e ''sig'') cited = Inr signed"
    by (auto simp: check_authenticity_def res_inv)
  have signed: "signed = filter is_signed cited"
    using res_filter_Inr [OF s] by (simp add: is_signed_def [abs_def])
  show ?thesis
  proof (cases "is_given pubkey \<and> signed \<noteq> []")
    case True
    with assms s obtain bad where bad: "res_map (\<lambda>e. seq_finding e ''signature does not verify'')
         (filter (\<lambda>e. \<not> signature_ok ed (the pubkey) e) signed) = Inr bad" "passed c = Some (bad = [])"
      by (auto simp: check_authenticity_def res_inv Let_def)
    have "bad = [] \<longleftrightarrow> (\<forall>e \<in> set signed. signature_ok ed (the pubkey) e)"
    proof -
      have "length bad = length (filter (\<lambda>e. \<not> signature_ok ed (the pubkey) e) signed)"
        using bad(1) by (auto simp: res_map_Inr_iff dest: list_all2_lengthD)
      then have "bad = [] \<longleftrightarrow> filter (\<lambda>e. \<not> signature_ok ed (the pubkey) e) signed = []" by (metis length_0_conv)
      then show ?thesis by (simp add: filter_empty_conv)
    qed
    with True bad(2) signed show ?thesis by (auto simp: filter_empty_conv)
  next
    case False
    then have "passed c = None"
      using assms s by (auto simp: check_authenticity_def split: if_splits)
    with False signed show ?thesis by (auto simp: filter_empty_conv)
  qed
qed

text \<open>The number \<open>i\<close> is present: an envelope of the source carries it.\<close>

definition has_seq :: "json list \<Rightarrow> json \<Rightarrow> json \<Rightarrow> int \<Rightarrow> bool" where
  "has_seq envs gw mid i =
     (\<exists>e \<in> set envs. same_source gw mid e = Inr True \<and> (\<exists>s. get_item e ''seq'' = Inr s \<and> equals_int s i))"

lemma seq_from_member:
  assumes "seq_from gw mid e = Inr ss"
  shows "s \<in> set ss \<longleftrightarrow> same_source gw mid e = Inr True \<and> get_item e ''seq'' = Inr s"
  using assms by (auto simp: seq_from_def res_inv split: if_splits)

lemma missing_empty:
  assumes "res_map (seq_from gw mid) cited = Inr have"
  shows "missing_of lo hi (concat have) = [] \<longleftrightarrow> (\<forall>i \<in> {lo..hi}. has_seq cited gw mid i)"
proof -
  have "\<forall>e \<in> set cited. \<exists>ss. seq_from gw mid e = Inr ss"
    using assms by (auto simp: res_map_Inr_iff list_all2_conv_all_nth in_set_conv_nth)
  then have "s \<in> set (concat have) \<longleftrightarrow> (\<exists>e \<in> set cited. same_source gw mid e = Inr True \<and> get_item e ''seq'' = Inr s)" for s
    unfolding set_concat_res_map [OF assms] mem_Collect_eq
    by (metis seq_from_member)
  then show ?thesis
    unfolding missing_of_def has_seq_def filter_empty_conv list_ex_iff set_upto by (metis (lifting))
qed

lemma verdict_passed: "passed (completeness_verdict f l missing n) = Some (missing = [])"
  by (simp add: completeness_verdict_def Let_def)

lemma completeness_passed:
  assumes "check_completeness cited run_env = Inr c"
    and "get_item run_env ''body'' = Inr body" "get_or body ''event_seq_range'' JNull = Inr rng"
  shows "passed c = None \<longleftrightarrow> \<not> truthy rng"
    and "truthy rng \<Longrightarrow> \<exists>gw mid f l lo hi. get_item run_env ''gateway_id'' = Inr gw \<and> get_item run_env ''machine_id'' = Inr mid
      \<and> get_item rng ''first'' = Inr f \<and> get_item rng ''last'' = Inr l \<and> as_int f = Inr lo \<and> as_int l = Inr hi
      \<and> passed c = Some (\<forall>i \<in> {lo..hi}. has_seq cited gw mid i)"
proof -
  have T: "\<exists>gw mid f l lo hi. get_item run_env ''gateway_id'' = Inr gw \<and> get_item run_env ''machine_id'' = Inr mid
      \<and> get_item rng ''first'' = Inr f \<and> get_item rng ''last'' = Inr l \<and> as_int f = Inr lo \<and> as_int l = Inr hi
      \<and> passed c = Some (\<forall>i \<in> {lo..hi}. has_seq cited gw mid i)" if "truthy rng"
  proof -
    from assms that obtain gw mid f l lo hi have' where
      *: "get_item run_env ''gateway_id'' = Inr gw" "get_item run_env ''machine_id'' = Inr mid"
      "get_item rng ''first'' = Inr f" "get_item rng ''last'' = Inr l" "as_int l = Inr hi" "as_int f = Inr lo"
      "res_map (seq_from gw mid) cited = Inr have'"
      "c = completeness_verdict f l (missing_of lo hi (concat have')) (length [lo..hi])"
      unfolding check_completeness_def by (auto simp: res_bind_eq_Inr)
    have "passed c = Some (\<forall>i \<in> {lo..hi}. has_seq cited gw mid i)"
      unfolding *(8) verdict_passed missing_empty [OF *(7)] ..
    with * show ?thesis by blast
  qed
  then show "truthy rng \<Longrightarrow> \<exists>gw mid f l lo hi. get_item run_env ''gateway_id'' = Inr gw \<and> get_item run_env ''machine_id'' = Inr mid
      \<and> get_item rng ''first'' = Inr f \<and> get_item rng ''last'' = Inr l \<and> as_int f = Inr lo \<and> as_int l = Inr hi
      \<and> passed c = Some (\<forall>i \<in> {lo..hi}. has_seq cited gw mid i)" .
  show "passed c = None \<longleftrightarrow> \<not> truthy rng"
  proof
    assume "passed c = None"
    with T show "\<not> truthy rng" by fastforce
  next
    assume "\<not> truthy rng"
    with assms show "passed c = None" by (auto simp: check_completeness_def)
  qed
qed

lemma run_checks_Inr:
  "run_checks H ed spec pubkey cited run_env = Inr cs \<longleftrightarrow>
     check_completeness cited run_env = Inr (chk_completeness cs)
     \<and> check_integrity H cited = Inr (chk_integrity cs)
     \<and> check_authenticity ed cited pubkey = Inr (chk_authenticity cs)
     \<and> check_consistency cited run_env = Inr (chk_consistency cs)
     \<and> check_conformance H spec cited = Inr (chk_conformance cs)"
  by (cases cs) (auto simp: run_checks_def res_inv)

lemma select_run_member:
  assumes "select_run envs run_id = Inr r"
  shows "r \<in> set envs" "get_item r ''schema'' = Inr (JStr ''process_run'')"
proof -
  from assms obtain rs runs where rs: "res_filter (\<lambda>e. res_bind (get_item e ''schema'') (\<lambda>s. Inr (s = JStr ''process_run''))) envs = Inr rs"
    and runs: "(if is_given run_id then
          res_bind (res_filter (\<lambda>e. res_bind (get_item e ''body'') (\<lambda>b.
                      res_bind (get_or b ''run_id'' JNull) (\<lambda>r. Inr (r = JStr (the run_id))))) rs) (\<lambda>rs.
            if rs = [] then Inl (ValueError (''no process_run with run_id '' @ repr_str (the run_id) @ '' in the bundle''))
            else Inr rs)
        else Inr rs) = Inr runs"
    and r: "(case runs of [] \<Rightarrow> Inl (ValueError no_run_msg) | [r] \<Rightarrow> Inr r | _ \<Rightarrow>
          res_bind (res_map (\<lambda>r. res_bind (get_item r ''body'') (\<lambda>b. get_item b ''run_id'')) runs) (\<lambda>ids.
          res_bind (res_map as_str ids) (\<lambda>names.
            Inl (ValueError (''bundle covers several runs ('' @ join '', '' (sort names) @ ''); pass --run-id''))))) = Inr r"
    unfolding select_run_def res_bind_eq_Inr by blast
  from r have "runs = [r]"
    by (auto simp: res_inv split: list.splits)
  moreover have "set runs \<subseteq> set rs"
    using runs by (auto simp: res_inv split: if_splits dest!: res_filter_Inr)
  ultimately have "r \<in> set rs" by simp
  with res_filter_Inr [OF rs] show "r \<in> set envs" "get_item r ''schema'' = Inr (JStr ''process_run'')"
    by (auto simp: res_inv)
qed

lemma cited_member:
  assumes "cited_of envs run_env rng gw mid = Inr cited" "run_env \<in> set envs"
  shows "set cited \<subseteq> set envs"
  using assms by (auto simp: cited_of_def res_inv split: if_splits dest!: res_filter_Inr)

section \<open>Sorting and the digest\<close>

lemma concat_blocks:
  assumes "concat xs = concat ys" "\<forall>x \<in> set xs. length x = n" "\<forall>y \<in> set ys. length y = n" "0 < n"
  shows "xs = ys"
  using assms
proof (induction xs arbitrary: ys)
  case Nil
  then show ?case by (cases ys) auto
next
  case (Cons x xs)
  then obtain y ys' where "ys = y # ys'" by (cases ys) auto
  with Cons show ?case by auto
qed

lemma res_map_comp:
  "res_map (\<lambda>x. res_bind (f x) g) xs = Inr zs \<longleftrightarrow> (\<exists>ys. res_map f xs = Inr ys \<and> res_map g ys = Inr zs)"
  unfolding res_map_Inr_iff
proof (induction xs arbitrary: zs)
  case (Cons x xs)
  then show ?case by (auto simp: list_all2_Cons1 res_inv) blast+
qed simp

lemma res_map_member: "res_map f xs = Inr ys \<Longrightarrow> y \<in> set ys \<Longrightarrow> \<exists>x \<in> set xs. f x = Inr y"
proof (induction xs arbitrary: ys)
  case (Cons x xs)
  then show ?case by (fastforce split: sum.splits)
qed simp

lemma records_hash_Inr:
  "records_hash H envs = Inr h \<longleftrightarrow>
     (\<exists>es cs. sort_by_seq envs = Inr es \<and> res_map (\<lambda>e. res_bind (get_item e ''checksum'') as_str) es = Inr cs \<and> h = H (concat cs))"
  unfolding records_hash_def res_bind_eq_Inr res_map_comp by auto

lemma set_insert_by: "set (insert_by le x ys) = insert x (set ys)"
  by (induction ys) auto

lemma set_sort_by: "set (sort_by le xs) = set xs"
  unfolding sort_by_def by (induction xs) (auto simp: set_insert_by)

lemma length_sort_by: "length (sort_by le xs) = length xs"
proof -
  have "length (insert_by le x ys) = Suc (length ys)" for x and ys :: "'a list" by (induction ys) auto
  then show ?thesis unfolding sort_by_def by (induction xs) auto
qed

lemma sort_by_seq_set:
  assumes "sort_by_seq envs = Inr es"
  shows "set es = set envs" "length es = length envs"
proof -
  from assms obtain ks where ks: "res_map (\<lambda>e. get_item e ''seq'') envs = Inr ks"
    "es = map snd (sort_by (\<lambda>a b. py_le (fst a) (fst b) = Inr True) (zip ks envs))"
    by (auto simp: sort_by_seq_def res_inv split: if_splits)
  have len: "length ks = length envs"
    using ks(1) by (auto simp: res_map_Inr_iff dest: list_all2_lengthD)
  have "set es = snd ` set (zip ks envs)" by (simp add: ks(2) set_sort_by)
  also have "\<dots> = set envs" using len by (metis map_snd_zip set_map)
  finally show "set es = set envs" .
  show "length es = length envs" by (simp add: ks(2) length_sort_by len)
qed

section \<open>Properties\<close>

lemma audit_bundle_parts:
  assumes "audit_bundle H ed spec pubkey run_id envs = Inr (cs, cit)"
  obtains run body rng gw mid cited where
    "select_run envs run_id = Inr run" "get_item run ''body'' = Inr body"
    "get_or body ''event_seq_range'' JNull = Inr rng" "get_item run ''gateway_id'' = Inr gw"
    "get_item run ''machine_id'' = Inr mid" "cited_of envs run rng gw mid = Inr cited"
    "run_checks H ed spec pubkey cited run = Inr cs"
  using assms unfolding audit_bundle_def res_bind_eq_Inr by auto

text \<open>A number that is covered by evidence of which every envelope is valid and every signature verifies.\<close>

lemma covered_number:
  assumes "has_seq cited gw mid i" "set cited \<subseteq> set envs"
    "\<forall>e \<in> set cited. \<exists>d. e = JObj d \<and> validate_envelope H spec d False = Inr []"
    "\<forall>e \<in> set cited. is_signed e \<longrightarrow> signature_ok ed pk e"
  shows "\<exists>d s. JObj d \<in> set envs \<and> same_source gw mid (JObj d) = Inr True
    \<and> map_of d ''seq'' = Some s \<and> equals_int s i \<and> validate_envelope H spec d False = Inr []
    \<and> (is_signed (JObj d) \<longrightarrow> signature_ok ed pk (JObj d))"
proof -
  from assms(1) obtain e s where e: "e \<in> set cited" "same_source gw mid e = Inr True" "get_item e ''seq'' = Inr s" "equals_int s i"
    unfolding has_seq_def by blast
  with assms(3) obtain d where d: "e = JObj d" "validate_envelope H spec d False = Inr []" by blast
  from e(3) have "map_of d ''seq'' = Some s" by (simp add: d(1) dict_item_def split: option.splits)
  with e d assms(2,4) show ?thesis by blast
qed

text \<open>C10: What a fully passed audit establishes. If all five verdicts are \<open>True\<close>, the bundle holds a process_run
  envelope with a sequence range, and for every number of that range it holds an envelope of the run's gateway
  and machine with that number; every envelope of the bundle that is of this gateway and machine and has its number in the
  range is valid against core schemas, checksum and profile, and its signature, if it has one, verifies under the given
  key; and at least one envelope of the bundle is signed and verifies.\<close>

theorem audit_sound:
  assumes "audit_bundle H ed spec pubkey run_id envs = Inr (cs, cit)"
    and "\<forall>c \<in> set (checks_list cs). passed c = Some True"
  shows "\<exists>run body rng gw mid f l lo hi.
    run \<in> set envs \<and> get_item run ''schema'' = Inr (JStr ''process_run'') \<and> get_item run ''body'' = Inr body
    \<and> get_or body ''event_seq_range'' JNull = Inr rng \<and> get_item rng ''first'' = Inr f \<and> get_item rng ''last'' = Inr l
    \<and> as_int f = Inr lo \<and> as_int l = Inr hi
    \<and> get_item run ''gateway_id'' = Inr gw \<and> get_item run ''machine_id'' = Inr mid
    \<and> (\<forall>i \<in> {lo..hi}. \<exists>d s. JObj d \<in> set envs \<and> same_source gw mid (JObj d) = Inr True
         \<and> map_of d ''seq'' = Some s \<and> equals_int s i
         \<and> validate_envelope H spec d False = Inr []
         \<and> (is_signed (JObj d) \<longrightarrow> signature_ok ed (the pubkey) (JObj d)))
    \<and> (\<forall>e \<in> set envs. is_cited rng gw mid e = Inr True \<longrightarrow>
         (\<exists>d. e = JObj d \<and> validate_envelope H spec d False = Inr [])
         \<and> (is_signed e \<longrightarrow> signature_ok ed (the pubkey) e))
    \<and> (\<exists>e \<in> set envs. is_signed e \<and> signature_ok ed (the pubkey) e)"
proof -
  from audit_bundle_parts [OF assms(1)] obtain run body rng gw mid cited where
    p: "select_run envs run_id = Inr run" "get_item run ''body'' = Inr body"
      "get_or body ''event_seq_range'' JNull = Inr rng" "get_item run ''gateway_id'' = Inr gw"
      "get_item run ''machine_id'' = Inr mid" "cited_of envs run rng gw mid = Inr cited"
      "run_checks H ed spec pubkey cited run = Inr cs" by metis
  note c = p(7) [unfolded run_checks_Inr]
  have all: "passed (chk_completeness cs) = Some True" "passed (chk_authenticity cs) = Some True"
    "passed (chk_conformance cs) = Some True"
    using assms(2) by (simp_all add: checks_list_def)
  have sub: "set cited \<subseteq> set envs" using cited_member [OF p(6)] select_run_member(1) [OF p(1)] .
  have rng: "truthy rng" using completeness_passed(1) [OF conjunct1 [OF c] p(2,3)] all(1) by auto
  from completeness_passed(2) [OF conjunct1 [OF c] p(2,3) rng] p(4,5) all(1) obtain f l lo hi where
    r: "get_item rng ''first'' = Inr f" "get_item rng ''last'' = Inr l" "as_int f = Inr lo" "as_int l = Inr hi"
      "\<forall>i \<in> {lo..hi}. has_seq cited gw mid i" by auto
  have auth: "\<exists>e \<in> set cited. is_signed e" "\<forall>e \<in> set cited. is_signed e \<longrightarrow> signature_ok ed (the pubkey) e"
    using authenticity_passed [of ed cited pubkey] c all(2) by (auto split: if_splits)
  have conf: "\<forall>e \<in> set cited. \<exists>d. e = JObj d \<and> validate_envelope H spec d False = Inr []"
    using conformance_passed [of H spec cited] c all(3) by auto
  note each = covered_number [OF _ sub conf auth(2)]
  have "\<forall>e \<in> set envs. is_cited rng gw mid e = Inr True \<longrightarrow> e \<in> set cited"
    using p(6) by (auto simp: cited_of_def res_inv split: if_splits dest!: res_filter_Inr)
  with conf auth(2) have cited: "\<forall>e \<in> set envs. is_cited rng gw mid e = Inr True \<longrightarrow>
      (\<exists>d. e = JObj d \<and> validate_envelope H spec d False = Inr []) \<and> (is_signed e \<longrightarrow> signature_ok ed (the pubkey) e)" by blast
  show ?thesis
    by (rule exI [of _ run], rule exI [of _ body], rule exI [of _ rng], rule exI [of _ gw], rule exI [of _ mid],
        rule exI [of _ f], rule exI [of _ l], rule exI [of _ lo], rule exI [of _ hi])
      (use select_run_member [OF p(1)] p(2-5) r each cited auth sub in blast)
qed

text \<open>A bundle of three envelopes whose first is signed.\<close>

definition bundle_env :: "int \<Rightarrow> string \<Rightarrow> json dict \<Rightarrow> json dict \<Rightarrow> json" where
  "bundle_env q sch b sig =
     JObj ([(''omp_version'', JStr ''0.1''), (''profile'', JStr ''p/0.1''), (''gateway_id'', JStr ''gw1''),
       (''machine_id'', JStr ''m12''), (''seq'', JInt q), (''schema'', JStr sch), (''body'', JObj b),
       (''checksum'', JStr (dumps canonical_opts (JObj b)))] @ sig)"

abbreviation start_body :: "json dict" where "start_body \<equiv> [(''event_type'', JStr ''run_start'')]"
abbreviation end_body :: "json dict" where "end_body \<equiv> [(''event_type'', JStr ''run_end'')]"
abbreviation run_body :: "json dict" where
  "run_body \<equiv> [(''run_id'', JStr ''r1''), (''event_seq_range'', JObj [(''first'', JInt 1), (''last'', JInt 2)])]"

definition sample_bundle :: "json list" where
  "sample_bundle = [bundle_env 1 ''event'' start_body [(''sig'', JStr ''AAAA'')],
     bundle_env 2 ''event'' end_body [], bundle_env 3 ''process_run'' run_body []]"

lemma bundle_env_get [simp]:
  "get_item (bundle_env q sch b sig) ''gateway_id'' = Inr (JStr ''gw1'')"
  "get_item (bundle_env q sch b sig) ''machine_id'' = Inr (JStr ''m12'')"
  "get_item (bundle_env q sch b sig) ''seq'' = Inr (JInt q)"
  "get_item (bundle_env q sch b sig) ''schema'' = Inr (JStr sch)"
  "get_item (bundle_env q sch b sig) ''body'' = Inr (JObj b)"
  "get_item (bundle_env q sch b sig) ''omp_version'' = Inr (JStr ''0.1'')"
  "get_item (bundle_env q sch b sig) ''profile'' = Inr (JStr ''p/0.1'')"
  "get_item (bundle_env q sch b sig) ''checksum'' = Inr (JStr (dumps canonical_opts (JObj b)))"
  "has_key (bundle_env q sch b sig) ''sig'' = Inr (map_of sig ''sig'' \<noteq> None)"
  "bundle_env q sch b sig = bundle_env q' sch' b' sig' \<longleftrightarrow> q = q' \<and> sch = sch' \<and> b = b' \<and> sig = sig'"
  by (auto simp: bundle_env_def dict_item_def simp del: dumps.simps)

lemma bundle_source [simp]: "same_source (JStr ''gw1'') (JStr ''m12'') (bundle_env q sch b sig) = Inr True"
  by (simp add: same_source_def)

lemma bundle_integrity [simp]:
  "integral_floats (JObj b) \<Longrightarrow> integrity_of (\<lambda>s. s) (bundle_env q sch b sig) = Inr []"
  by (simp add: integrity_of_def checksum_json_dict checksum_ok_iff [THEN iffD2] del: dumps.simps integral_floats.simps)

lemma bundle_conformance [simp]:
  assumes "integral_floats (JObj b)" "sch = ''event'' \<or> sch = ''process_run''"
  shows "conformance_of (\<lambda>s. s) accept_all (bundle_env q sch b sig) = Inr []"
proof -
  have "validate_envelope (\<lambda>s. s) accept_all d False = Inr []" if "JObj d = bundle_env q sch b sig" for d
  proof -
    have d: "d = [(''omp_version'', JStr ''0.1''), (''profile'', JStr ''p/0.1''), (''gateway_id'', JStr ''gw1''),
       (''machine_id'', JStr ''m12''), (''seq'', JInt q), (''schema'', JStr sch), (''body'', JObj b),
       (''checksum'', JStr (dumps canonical_opts (JObj b)))] @ sig"
      using that by (simp add: bundle_env_def)
    have s: "checksum (\<lambda>s. s) b = Inr (dumps canonical_opts (JObj b))"
      using assms(1) checksum_ok_iff by blast
    show ?thesis
      by (simp add: validate_ok_iff accept_all_def d s profile_errors_def dict_item_def del: dumps.simps)
  qed
  moreover obtain d where "bundle_env q sch b sig = JObj d" by (simp add: bundle_env_def)
  ultimately show ?thesis by (simp add: conformance_of_def)
qed

lemma sample_select: "select_run sample_bundle None = Inr (bundle_env 3 ''process_run'' run_body [])"
  by (simp add: select_run_def sample_bundle_def is_given_def)

lemma sample_cited:
  "cited_of sample_bundle (bundle_env 3 ''process_run'' run_body []) (JObj [(''first'', JInt 1), (''last'', JInt 2)])
     (JStr ''gw1'') (JStr ''m12'') = Inr sample_bundle"
proof -
  have "\<not> same (bundle_env 3 ''process_run'' run_body []) (bundle_env 1 ''event'' start_body [(''sig'', JStr ''AAAA'')])"
    "\<not> same (bundle_env 3 ''process_run'' run_body []) (bundle_env 2 ''event'' end_body [])"
    by (simp_all add: bundle_env_def num_same_def del: dumps.simps)
  then show ?thesis
    by (simp add: cited_of_def sample_bundle_def is_cited_def in_range_def dict_item_def py_in_def)
qed

abbreviation sample_run :: json where "sample_run \<equiv> bundle_env 3 ''process_run'' run_body []"

lemma sample_completeness: "\<exists>c. check_completeness sample_bundle sample_run = Inr c \<and> passed c = Some True"
  by (simp add: check_completeness_def dict_access seq_from_def sample_bundle_def missing_of_def
      verdict_passed upto_rec1)

lemma sample_integrity: "\<exists>c. check_integrity (\<lambda>s. s) sample_bundle = Inr c \<and> passed c = Some True"
  by (simp add: check_integrity_def sample_bundle_def)

lemma sample_authenticity:
  "\<exists>c. check_authenticity (\<lambda>_ _ _. True) sample_bundle (Some ''AAAA'') = Inr c \<and> passed c = Some True"
proof -
  have "signature_ok (\<lambda>_ _ _. True) ''AAAA'' (bundle_env 1 ''event'' start_body [(''sig'', JStr ''AAAA'')])"
    by (simp add: signature_ok_def bundle_env_def verify_envelope_sig_def verify_signature_def b64decode_def b64_val_def
        Let_def del: dumps.simps)
  then show ?thesis by (simp add: check_authenticity_def sample_bundle_def is_given_def Let_def)
qed

lemma sample_consistency: "\<exists>c. check_consistency sample_bundle sample_run = Inr c \<and> passed c = Some True"
  by (simp add: check_consistency_def sample_bundle_def compare_phases_def compare_energy_def compare_bounds_def
      dict_get_def quantity_table_def add_energy_def has_event_def consistency_verdict_def)

lemma sample_conformance: "\<exists>c. check_conformance (\<lambda>s. s) accept_all sample_bundle = Inr c \<and> passed c = Some True"
  by (simp add: check_conformance_def sample_bundle_def)

lemma sample_checks:
  "\<exists>cs. run_checks (\<lambda>s. s) (\<lambda>_ _ _. True) accept_all (Some ''AAAA'') sample_bundle sample_run = Inr cs
     \<and> (\<forall>c \<in> set (checks_list cs). passed c = Some True)"
proof -
  from sample_completeness obtain c1 where 1: "check_completeness sample_bundle sample_run = Inr c1" "passed c1 = Some True" by blast
  from sample_integrity obtain c2 where 2: "check_integrity (\<lambda>s. s) sample_bundle = Inr c2" "passed c2 = Some True" by blast
  from sample_authenticity obtain c3 where 3: "check_authenticity (\<lambda>_ _ _. True) sample_bundle (Some ''AAAA'') = Inr c3"
    "passed c3 = Some True" by blast
  from sample_consistency obtain c4 where 4: "check_consistency sample_bundle sample_run = Inr c4" "passed c4 = Some True" by blast
  from sample_conformance obtain c5 where 5: "check_conformance (\<lambda>s. s) accept_all sample_bundle = Inr c5" "passed c5 = Some True" by blast
  show ?thesis by (simp add: run_checks_def 1 2 3 4 5 checks_list_def)
qed

lemma sample_audit:
  "\<exists>cs cit. audit_bundle (\<lambda>s. s) (\<lambda>_ _ _. True) accept_all (Some ''AAAA'') None sample_bundle = Inr (cs, cit)
     \<and> (\<forall>c \<in> set (checks_list cs). passed c = Some True)"
proof -
  from sample_checks obtain cs where cs: "run_checks (\<lambda>s. s) (\<lambda>_ _ _. True) accept_all (Some ''AAAA'') sample_bundle
      (bundle_env 3 ''process_run'' run_body []) = Inr cs" "\<forall>c \<in> set (checks_list cs). passed c = Some True" by blast
  let ?rng = "JObj [(''first'', JInt 1), (''last'', JInt 2)]"
  have "\<exists>h. records_hash (\<lambda>s. s) sample_bundle = Inr h"
    by (simp add: records_hash_def sort_by_seq_def sample_bundle_def is_number_def sort_by_def del: dumps.simps)
  then have "\<exists>cit. citation_of (\<lambda>s. s) sample_bundle (bundle_env 3 ''process_run'' run_body []) (JObj run_body) ?rng
      (JStr ''gw1'') (JStr ''m12'') cs (Some ''AAAA'') sample_bundle = Inr cit"
    by (auto simp: citation_of_def sample_bundle_def dict_item_def)
  with cs sample_cited show ?thesis
    by (auto simp: audit_bundle_def sample_select dict_get_def)
qed

theorem audit_sound_witness:
  "\<exists>d s. JObj d \<in> set sample_bundle \<and> map_of d ''seq'' = Some s \<and> equals_int s 2
     \<and> validate_envelope (\<lambda>s. s) accept_all d False = Inr []"
proof -
  from sample_audit obtain cs cit where a: "audit_bundle (\<lambda>s. s) (\<lambda>_ _ _. True) accept_all (Some ''AAAA'') None sample_bundle = Inr (cs, cit)"
    "\<forall>c \<in> set (checks_list cs). passed c = Some True" by blast
  from audit_sound [OF a] obtain run body rng gw mid f l lo hi where r: "run \<in> set sample_bundle"
    "get_item run ''schema'' = Inr (JStr ''process_run'')" "get_item run ''body'' = Inr body"
    "get_or body ''event_seq_range'' JNull = Inr rng" "get_item rng ''first'' = Inr f" "get_item rng ''last'' = Inr l"
    "as_int f = Inr lo" "as_int l = Inr hi"
    "\<forall>i \<in> {lo..hi}. \<exists>d s. JObj d \<in> set sample_bundle \<and> same_source gw mid (JObj d) = Inr True
         \<and> map_of d ''seq'' = Some s \<and> equals_int s i
         \<and> validate_envelope (\<lambda>s. s) accept_all d False = Inr []
         \<and> (is_signed (JObj d) \<longrightarrow> signature_ok (\<lambda>_ _ _. True) (the (Some ''AAAA'')) (JObj d))"
    by (elim exE conjE) (rule that)
  from r(1,2) have "run = bundle_env 3 ''process_run'' run_body []" by (auto simp: sample_bundle_def)
  with r(3-8) have "lo = 1" "hi = 2" by (auto simp: dict_access)
  with r(9) show ?thesis by (metis atLeastAtMost_iff one_le_numeral order_refl)
qed

text \<open>The authenticity verdict never overclaims: it is \<open>None\<close> exactly when no public key is given or nothing in
  the evidence is signed, and otherwise it is \<open>True\<close> exactly when every signature that is there verifies.\<close>

theorem authenticity_honest:
  assumes "check_authenticity ed cited pubkey = Inr c"
  shows "(passed c = None \<longleftrightarrow> \<not> is_given pubkey \<or> (\<forall>e \<in> set cited. \<not> is_signed e))
    \<and> (passed c = Some True \<longleftrightarrow> is_given pubkey \<and> (\<exists>e \<in> set cited. is_signed e)
      \<and> (\<forall>e \<in> set cited. is_signed e \<longrightarrow> signature_ok ed (the pubkey) e))"
  using authenticity_passed [OF assms] by auto

theorem authenticity_honest_witness:
  "\<exists>c. check_authenticity (\<lambda>_ _ _. False) [JObj []] (Some ''AAAA'') = Inr c \<and> passed c = None"
proof -
  obtain c where c: "check_authenticity (\<lambda>_ _ _. False) [JObj []] (Some ''AAAA'') = Inr c"
    by (simp add: check_authenticity_def is_given_def)
  moreover have "\<not> is_signed (JObj [])" by (simp add: is_signed_def)
  ultimately show ?thesis using authenticity_honest [OF c] by auto
qed

text \<open>C27: The completeness verdict is exact: with a range of two integers it is \<open>True\<close> exactly when every number
  from the first to the last is carried by an envelope of the run's source. A range whose first number is greater
  than its last is therefore reported complete for every bundle.\<close>

theorem completeness_exact:
  assumes "check_completeness cited run = Inr c" "get_item run ''body'' = Inr body"
    and "get_or body ''event_seq_range'' JNull = Inr rng" "get_item rng ''first'' = Inr (JInt lo)"
      "get_item rng ''last'' = Inr (JInt hi)" "get_item run ''gateway_id'' = Inr gw" "get_item run ''machine_id'' = Inr mid"
  shows "passed c = Some (\<forall>i. lo \<le> i \<and> i \<le> hi \<longrightarrow>
    (\<exists>e \<in> set cited. same_source gw mid e = Inr True \<and> (\<exists>s. get_item e ''seq'' = Inr s \<and> equals_int s i)))"
proof -
  have "truthy rng" using assms(4) by (cases rng) (auto simp: dict_item_def)
  from completeness_passed(2) [OF assms(1-3) this] assms(4-7)
  show ?thesis by (auto simp: has_seq_def)
qed

theorem completeness_exact_witness:
  "\<exists>c. check_completeness [] (bundle_env 3 ''process_run''
       [(''event_seq_range'', JObj [(''first'', JInt 5), (''last'', JInt 4)])] []) = Inr c \<and> passed c = Some True"
proof -
  let ?run = "bundle_env 3 ''process_run'' [(''event_seq_range'', JObj [(''first'', JInt 5), (''last'', JInt 4)])] []"
  obtain c where c: "check_completeness [] ?run = Inr c"
    by (simp add: check_completeness_def dict_access)
  have "passed c = Some (\<forall>i. 5 \<le> i \<and> i \<le> (4 :: int) \<longrightarrow>
    (\<exists>e \<in> set []. same_source (JStr ''gw1'') (JStr ''m12'') e = Inr True \<and> (\<exists>s. get_item e ''seq'' = Inr s \<and> equals_int s i)))"
    by (rule completeness_exact [OF c,
        where body = "JObj [(''event_seq_range'', JObj [(''first'', JInt 5), (''last'', JInt 4)])]" and rng = "JObj [(''first'', JInt 5), (''last'', JInt 4)]"])
      (simp_all add: dict_access)
  then show ?thesis using c by auto
qed

text \<open>The records hash commits to the evidence: if two bundles have the same records hash and their checksums
  are texts of 64 characters, the checksums in sequence order are the same list, or two different texts with the
  same hash have been exhibited.\<close>

theorem records_hash_commits:
  assumes "records_hash H xs = Inr h" "records_hash H ys = Inr h"
    and "\<forall>e \<in> set xs \<union> set ys. \<forall>c. get_item e ''checksum'' = Inr (JStr c) \<longrightarrow> length c = 64"
  shows "\<exists>es fs cs ds. sort_by_seq xs = Inr es \<and> sort_by_seq ys = Inr fs
    \<and> res_map (\<lambda>e. res_bind (get_item e ''checksum'') as_str) es = Inr cs
    \<and> res_map (\<lambda>e. res_bind (get_item e ''checksum'') as_str) fs = Inr ds
    \<and> (cs = ds \<or> concat cs \<noteq> concat ds \<and> H (concat cs) = H (concat ds))"
proof -
  from assms(1,2) obtain es fs cs ds where
    e: "sort_by_seq xs = Inr es" "res_map (\<lambda>e. res_bind (get_item e ''checksum'') as_str) es = Inr cs" "h = H (concat cs)"
    and f: "sort_by_seq ys = Inr fs" "res_map (\<lambda>e. res_bind (get_item e ''checksum'') as_str) fs = Inr ds" "h = H (concat ds)"
    unfolding records_hash_Inr by blast
  have len: "\<forall>c \<in> set bs. length c = 64"
    if "res_map (\<lambda>e. res_bind (get_item e ''checksum'') as_str) as = Inr bs" "set as \<subseteq> set xs \<union> set ys" for as bs
  proof
    fix c assume "c \<in> set bs"
    from res_map_member [OF that(1) this] obtain e where
      "e \<in> set as" "res_bind (get_item e ''checksum'') as_str = Inr c" by blast
    with that(2) assms(3) show "length c = 64" by (auto simp: res_inv elim!: as_str.elims)
  qed
  have "cs = ds" if "concat cs = concat ds"
    by (rule concat_blocks [OF that len [OF e(2)] len [OF f(2)]])
      (use sort_by_seq_set [OF e(1)] sort_by_seq_set [OF f(1)] in auto)
  with e f show ?thesis by blast
qed

definition zero_digest :: string where
  "zero_digest = replicate 64 (CHR ''0'')"

theorem records_hash_commits_witness:
  "\<exists>h. records_hash (\<lambda>s. s) [JObj [(''seq'', JInt 1), (''checksum'', JStr zero_digest)]] = Inr h"
proof -
  let ?b = "[JObj [(''seq'', JInt 1), (''checksum'', JStr zero_digest)]]"
  obtain h where h: "records_hash (\<lambda>s. s) ?b = Inr h"
    by (simp add: records_hash_def sort_by_seq_def sort_by_def dict_item_def is_number_def)
  have "length zero_digest = 64" unfolding zero_digest_def by (rule length_replicate)
  with records_hash_commits [OF h h] h show ?thesis by (auto simp: dict_item_def)
qed

text \<open>The exit code: the audit exits with 0 exactly when the bundle parses and is not empty, the five checks
  could be run, and none of them failed; a check that was not evaluated does not fail the audit.\<close>

theorem audit_exit_code:
  "(\<exists>out. run_audit H ed spec parse_msg pubkey run_id ls = Inr (out, 0)) \<longleftrightarrow>
     (\<exists>envs cs cit. parse_bundle 1 ls = Inr envs \<and> envs \<noteq> []
        \<and> audit_bundle H ed spec pubkey run_id envs = Inr (cs, cit)
        \<and> (\<forall>c \<in> set (checks_list cs). passed c \<noteq> Some False))"
proof (cases "parse_bundle 1 ls")
  case (Inl n)
  then show ?thesis by (simp add: run_audit_def)
next
  case (Inr envs)
  show ?thesis
  proof (cases envs)
    case Nil
    with Inr show ?thesis by (simp add: run_audit_def)
  next
    case (Cons e es)
    show ?thesis
    proof (cases "audit_bundle H ed spec pubkey run_id envs")
      case (Inl x)
      with \<open>parse_bundle 1 ls = Inr envs\<close> Cons show ?thesis
        by (cases "value_error_text x") (simp_all add: run_audit_def)
    next
      case r: (Inr a)
      with \<open>parse_bundle 1 ls = Inr envs\<close> Cons show ?thesis
        by (cases a) (auto simp: run_audit_def list_ex_iff)
    qed
  qed
qed

end
