(* ===== verification/Validate_Main.thy ===== *)
theory Validate_Main
  imports Evidence_Audit
begin

text \<open>
  \<open>main\<close> of \<open>tools/omp_tools/validate.py\<close> without \<open>--audit\<close>: every line of the input is parsed, validated
  and, with \<open>--pubkey\<close>, its signature required and verified. The output is a list of lines.
  The arguments and the files are in \<open>Cli_Tools\<close>.
\<close>

record tallies =
  n_valid :: nat
  n_invalid :: nat
  by_schema :: "(json \<times> nat) list"
  printed :: "string list"

definition no_tallies :: tallies where
  "no_tallies = \<lparr>n_valid = 0, n_invalid = 0, by_schema = [], printed = []\<rparr>"

definition reject :: "bool \<Rightarrow> string \<Rightarrow> tallies \<Rightarrow> tallies" where
  "reject quiet report_line t =
     t\<lparr>n_invalid := Suc (n_invalid t), printed := printed t @ (if quiet then [] else [report_line])\<rparr>"

text \<open>The errors of a parsed value; the signature is looked at only when there is no other error.\<close>

definition signature_errors ::
  "(string \<Rightarrow> string \<Rightarrow> string \<Rightarrow> bool) \<Rightarrow> string option \<Rightarrow> json dict \<Rightarrow> string list" where
  "signature_errors ed pubkey env =
     (if \<not> is_given pubkey then []
      else if map_of env ''sig'' = None then [''signature required (--pubkey given) but absent'']
      else if \<not> verify_envelope_sig ed env (the pubkey) then [''signature verification failed'']
      else [])"

definition value_errors ::
  "(string \<Rightarrow> string) \<Rightarrow> (string \<Rightarrow> string \<Rightarrow> string \<Rightarrow> bool) \<Rightarrow> spec \<Rightarrow> string option \<Rightarrow> json \<Rightarrow> string list res" where
  "value_errors H ed spec pubkey v =
     (case v of
        JObj env \<Rightarrow>
          res_bind (validate_envelope H spec env False) (\<lambda>errors.
            Inr (if errors \<noteq> [] then errors else signature_errors ed pubkey env))
      | _ \<Rightarrow> Inr [''not a JSON object''])"

text \<open>Where the error is: by number when the envelope has an integer one, else by line.\<close>

definition error_place :: "nat \<Rightarrow> json \<Rightarrow> string" where
  "error_place lineno v =
     (case v of
        JObj env \<Rightarrow>
          (case dict_get env ''seq'' JNull of
             JInt i \<Rightarrow> ''seq '' @ show_int i
           | JBool b \<Rightarrow> ''seq '' @ repr_json (JBool b)
           | _ \<Rightarrow> ''line '' @ show_nat lineno)
      | _ \<Rightarrow> ''line '' @ show_nat lineno)"

fun count_schema :: "json \<Rightarrow> (json \<times> nat) list \<Rightarrow> (json \<times> nat) list" where
  "count_schema k [] = [(k, 1)]"
| "count_schema k ((j, n) # d) = (if k = j then (j, Suc n) # d else (j, n) # count_schema k d)"

definition validate_line ::
  "(string \<Rightarrow> string) \<Rightarrow> (string \<Rightarrow> string \<Rightarrow> string \<Rightarrow> bool) \<Rightarrow> spec \<Rightarrow> (string \<Rightarrow> string) \<Rightarrow> string option \<Rightarrow> bool
     \<Rightarrow> nat \<Rightarrow> string \<Rightarrow> tallies \<Rightarrow> tallies res" where
  "validate_line H ed spec parse_msg pubkey quiet lineno line t =
     (if strip line = [] then Inr t
      else (case loads (strip line) of
              Inl e \<Rightarrow> Inr (reject False (cross_mark @ '' line '' @ show_nat lineno @ '': not JSON ('' @ parse_msg (strip line) @ '')'') t)
            | Inr v \<Rightarrow>
                res_bind (value_errors H ed spec pubkey v) (\<lambda>errors.
                  if errors \<noteq> [] then
                    Inr (reject quiet (cross_mark @ '' '' @ error_place lineno v @ '': '' @ hd errors) t)
                  else
                    res_bind (get_item v ''schema'') (\<lambda>s.
                      Inr (t\<lparr>n_valid := Suc (n_valid t), by_schema := count_schema s (by_schema t)\<rparr>)))))"

fun validate_lines ::
  "(string \<Rightarrow> string) \<Rightarrow> (string \<Rightarrow> string \<Rightarrow> string \<Rightarrow> bool) \<Rightarrow> spec \<Rightarrow> (string \<Rightarrow> string) \<Rightarrow> string option \<Rightarrow> bool
     \<Rightarrow> nat \<Rightarrow> string list \<Rightarrow> tallies \<Rightarrow> tallies res" where
  "validate_lines H ed spec parse_msg pubkey quiet lineno [] t = Inr t"
| "validate_lines H ed spec parse_msg pubkey quiet lineno (l # ls) t =
     res_bind (validate_line H ed spec parse_msg pubkey quiet lineno l t)
       (validate_lines H ed spec parse_msg pubkey quiet (Suc lineno) ls)"

definition schema_detail :: "(json \<times> nat) list \<Rightarrow> string" where
  "schema_detail d =
     join '', '' (map (\<lambda>kv. fst kv @ '' x'' @ show_nat (snd kv)) (sort_key fst (map (\<lambda>(k, n). (str_json k, n)) d)))"

definition check_mark :: string where
  "check_mark = [CHR 0xE2, CHR 0x9C, CHR 0x94]"

definition validate_main ::
  "(string \<Rightarrow> string) \<Rightarrow> (string \<Rightarrow> string \<Rightarrow> string \<Rightarrow> bool) \<Rightarrow> spec \<Rightarrow> (string \<Rightarrow> string) \<Rightarrow> string option \<Rightarrow> bool
     \<Rightarrow> string list \<Rightarrow> (string list \<times> int) res" where
  "validate_main H ed spec parse_msg pubkey quiet ls =
     res_bind (validate_lines H ed spec parse_msg pubkey quiet 1 ls no_tallies) (\<lambda>t.
       Inr (if n_invalid t = 0 then
              (printed t @ [check_mark @ '' '' @ show_nat (n_valid t) @ '' messages valid''
                 @ (if schema_detail (by_schema t) \<noteq> [] then '' (schema: '' @ schema_detail (by_schema t) @ '')'' else [])], 0)
            else
              (printed t @ [show_nat (n_valid t) @ '' valid, '' @ show_nat (n_invalid t) @ '' invalid (details above)''], 1)))"

section \<open>The exit code\<close>

text \<open>A line that does not count against the stream.\<close>

definition line_ok ::
  "(string \<Rightarrow> string) \<Rightarrow> (string \<Rightarrow> string \<Rightarrow> string \<Rightarrow> bool) \<Rightarrow> spec \<Rightarrow> string option \<Rightarrow> string \<Rightarrow> bool" where
  "line_ok H ed spec pubkey line \<longleftrightarrow> strip line = [] \<or>
     (\<exists>env. loads (strip line) = Inr (JObj env) \<and> validate_envelope H spec env False = Inr []
        \<and> (is_given pubkey \<longrightarrow> map_of env ''sig'' \<noteq> None \<and> verify_envelope_sig ed env (the pubkey)))"

lemma value_errors_Nil:
  "value_errors H ed spec pubkey v = Inr [] \<longleftrightarrow>
     (\<exists>env. v = JObj env \<and> validate_envelope H spec env False = Inr []
        \<and> (is_given pubkey \<longrightarrow> map_of env ''sig'' \<noteq> None \<and> verify_envelope_sig ed env (the pubkey)))"
  by (cases v) (auto simp: value_errors_def res_inv signature_errors_def)

lemma validate_line_counts:
  assumes "validate_line H ed spec msg pubkey quiet n line t = Inr t'"
  shows "n_invalid t' = n_invalid t + (if line_ok H ed spec pubkey line then 0 else 1)"
    and "n_valid t' = n_valid t + (if line_ok H ed spec pubkey line \<and> strip line \<noteq> [] then 1 else 0)"
proof -
  have "n_invalid t' = n_invalid t + (if line_ok H ed spec pubkey line then 0 else 1)
    \<and> n_valid t' = n_valid t + (if line_ok H ed spec pubkey line \<and> strip line \<noteq> [] then 1 else 0)"
  proof (cases "strip line = []")
    case True
    with assms show ?thesis by (simp add: validate_line_def line_ok_def)
  next
    case ne: False
    show ?thesis
    proof (cases "loads (strip line)")
      case (Inl e)
      with assms ne show ?thesis by (auto simp: validate_line_def line_ok_def reject_def)
    next
      case (Inr v)
      with assms ne obtain errors where e: "value_errors H ed spec pubkey v = Inr errors"
        by (auto simp: validate_line_def res_inv)
      have ok: "line_ok H ed spec pubkey line \<longleftrightarrow> errors = []"
        using ne Inr e value_errors_Nil [of H ed spec pubkey v] by (auto simp: line_ok_def)
      show ?thesis
      proof (cases "errors = []")
        case True
        with assms ne Inr e ok show ?thesis by (auto simp: validate_line_def res_inv)
      next
        case False
        with assms ne Inr e ok show ?thesis by (auto simp: validate_line_def reject_def)
      qed
    qed
  qed
  then show "n_invalid t' = n_invalid t + (if line_ok H ed spec pubkey line then 0 else 1)"
    "n_valid t' = n_valid t + (if line_ok H ed spec pubkey line \<and> strip line \<noteq> [] then 1 else 0)" by auto
qed

lemma validate_lines_counts:
  "validate_lines H ed spec msg pubkey quiet n ls t = Inr t' \<Longrightarrow>
     n_invalid t' = n_invalid t + length (filter (\<lambda>l. \<not> line_ok H ed spec pubkey l) ls)
     \<and> n_valid t' = n_valid t + length (filter (\<lambda>l. line_ok H ed spec pubkey l \<and> strip l \<noteq> []) ls)"
proof (induction ls arbitrary: n t)
  case (Cons l ls)
  from Cons.prems obtain t1 where "validate_line H ed spec msg pubkey quiet n l t = Inr t1"
    "validate_lines H ed spec msg pubkey quiet (Suc n) ls t1 = Inr t'" by (auto simp: res_inv)
  with Cons.IH [OF this(2)] validate_line_counts [OF this(1)] show ?case by auto
qed simp

text \<open>The exit code of omp-validate: whenever it returns, it returns 0 exactly when every line that is not blank is
  the JSON text of an object that passes the whole validation and, if a key is given, carries a signature that
  verifies; the summary line then counts the lines that are not blank.\<close>

theorem validate_exit_code:
  assumes "validate_main H ed spec parse_msg pubkey quiet ls = Inr (out, code)"
  shows "(code = 0 \<longleftrightarrow> (\<forall>l \<in> set ls. line_ok H ed spec pubkey l)) \<and> (code = 0 \<or> code = 1)
    \<and> (code = 0 \<longrightarrow> (\<exists>s. last out = check_mark @ '' '' @ show_nat (length (filter (\<lambda>l. strip l \<noteq> []) ls)) @ '' messages valid'' @ s))"
proof -
  from assms obtain t where t: "validate_lines H ed spec parse_msg pubkey quiet 1 ls no_tallies = Inr t"
    by (auto simp: validate_main_def res_inv)
  from validate_lines_counts [OF t] have n: "n_invalid t = length (filter (\<lambda>l. \<not> line_ok H ed spec pubkey l) ls)"
    "n_valid t = length (filter (\<lambda>l. line_ok H ed spec pubkey l \<and> strip l \<noteq> []) ls)" by (auto simp: no_tallies_def)
  have zero: "n_invalid t = 0 \<longleftrightarrow> (\<forall>l \<in> set ls. line_ok H ed spec pubkey l)" by (simp add: n(1) filter_empty_conv)
  have same: "n_valid t = length (filter (\<lambda>l. strip l \<noteq> []) ls)" if "n_invalid t = 0"
  proof -
    have "filter (\<lambda>l. line_ok H ed spec pubkey l \<and> strip l \<noteq> []) ls = filter (\<lambda>l. strip l \<noteq> []) ls"
      by (rule filter_cong) (use that zero in simp_all)
    then show ?thesis by (simp only: n(2))
  qed
  show ?thesis
  proof (cases "n_invalid t = 0")
    case True
    with assms t have "code = 0" "out = printed t @ [check_mark @ '' '' @ show_nat (n_valid t) @ '' messages valid''
        @ (if schema_detail (by_schema t) \<noteq> [] then '' (schema: '' @ schema_detail (by_schema t) @ '')'' else [])]"
      unfolding validate_main_def by simp_all
    then have "code = 0" "\<exists>s. last out = check_mark @ '' '' @ show_nat (n_valid t) @ '' messages valid'' @ s"
      by (simp, intro exI, simp only: last_snoc)
    with True zero same show ?thesis by simp
  next
    case False
    with assms t have "code = 1" by (simp add: validate_main_def)
    with False zero show ?thesis by simp
  qed
qed

theorem validate_exit_code_witness:
  "\<exists>out. validate_main (\<lambda>s. s) (\<lambda>_ _ _. True) accept_all (\<lambda>_. []) None True [''{''] = Inr (out, 1)"
proof -
  have s: "strip ''{'' = ''{''" by (simp add: strip_def lstrip_def is_space_def)
  have l: "loads ''{'' = Inl JSONDecodeError"
    by (simp add: loads_def skip_ws_def is_ws_def expect_def pkey_def eval_nat_numeral)
  have "\<exists>r. validate_main (\<lambda>s. s) (\<lambda>_ _ _. True) accept_all (\<lambda>_. []) None True [''{''] = Inr r"
    by (simp add: validate_main_def validate_line_def s l)
  then obtain out code where r: "validate_main (\<lambda>s. s) (\<lambda>_ _ _. True) accept_all (\<lambda>_. []) None True [''{''] = Inr (out, code)"
    by auto
  have "\<not> line_ok (\<lambda>s. s) (\<lambda>_ _ _. True) accept_all None ''{''" by (simp add: line_ok_def s l)
  with validate_exit_code [OF r] r show ?thesis by auto
qed

end
