(* ===== verification/Adapter_Base.thy ===== *)
theory Adapter_Base
  imports Engine
begin

text \<open>
  \<open>gateway/omp/adapter.py\<close>: the state every adapter keeps about its own health and the delay before
  the next attempt; and \<open>_supervise\<close> and \<open>_probe_with_timeout\<close> of \<open>gateway/omp/cli.py\<close>, which run an
  adapter. The clock is an argument. The delays are integral floats of at most 300, so their
  arithmetic is exact and they are represented by integers.
\<close>

section \<open>Health and backoff\<close>

record health =
  state :: string
  connected_since :: "string option"
  last_data_ts :: "string option"
  reconnect_count :: int
  error_count :: int
  health_detail :: "string option"

record adapter_state =
  health_of :: health
  backoff_s :: int

definition initial_health :: health where
  "initial_health = \<lparr>state = ''disconnected'', connected_since = None, last_data_ts = None,
     reconnect_count = 0, error_count = 0, health_detail = None\<rparr>"

definition new_adapter :: adapter_state where
  "new_adapter = \<lparr>health_of = initial_health, backoff_s = 1\<rparr>"

definition adapter_body :: "string \<Rightarrow> string \<Rightarrow> json dict \<Rightarrow> string option \<Rightarrow> body" where
  "adapter_body schema profile_ref b event_ts =
     \<lparr>body_schema = schema, body_profile = profile_ref, body_body = b, body_event_ts = event_ts\<rparr>"

text \<open>\<open>MachineInfo\<close>: what \<open>probe\<close> says about a machine; the serial number is any value of the configuration.\<close>

record machine_info =
  machine_class :: string
  info_make :: "string option"
  info_model :: "string option"
  info_serial :: json
  capabilities :: "string list"
  data_source :: string

definition mark_connected :: "string \<Rightarrow> adapter_state \<Rightarrow> adapter_state" where
  "mark_connected now a =
     (let h = health_of a;
          n = (if state h \<noteq> ''ok'' \<and> connected_since h \<noteq> None then reconnect_count h + 1 else reconnect_count h)
      in a\<lparr>health_of := h\<lparr>reconnect_count := n, state := ''ok'', connected_since := Some now, health_detail := None\<rparr>,
           backoff_s := 1\<rparr>)"

definition mark_data :: "string \<Rightarrow> adapter_state \<Rightarrow> adapter_state" where
  "mark_data now a = a\<lparr>health_of := (health_of a)\<lparr>last_data_ts := Some now\<rparr>\<rparr>"

definition mark_error :: "string \<Rightarrow> string \<Rightarrow> adapter_state \<Rightarrow> adapter_state" where
  "mark_error new_state what a =
     a\<lparr>health_of := (health_of a)\<lparr>state := new_state, error_count := error_count (health_of a) + 1,
                                 health_detail := Some what\<rparr>\<rparr>"

definition mark_degraded :: "string \<Rightarrow> adapter_state \<Rightarrow> adapter_state" where
  "mark_degraded = mark_error ''degraded''"

definition mark_disconnected :: "string \<Rightarrow> adapter_state \<Rightarrow> adapter_state" where
  "mark_disconnected = mark_error ''disconnected''"

definition mark_failed :: "string \<Rightarrow> adapter_state \<Rightarrow> adapter_state" where
  "mark_failed what a = a\<lparr>health_of := (health_of a)\<lparr>state := ''failed'', health_detail := Some what\<rparr>\<rparr>"

definition backoff :: "adapter_state \<Rightarrow> int \<times> adapter_state" where
  "backoff a = (backoff_s a, a\<lparr>backoff_s := min (backoff_s a * 2) 300\<rparr>)"

section \<open>What the health report summarises\<close>

datatype mark = Connected string | Data string | Degraded string | Disconnected string | Failed string | Backoff

fun apply_mark :: "mark \<Rightarrow> adapter_state \<Rightarrow> adapter_state" where
  "apply_mark (Connected now) a = mark_connected now a"
| "apply_mark (Data now) a = mark_data now a"
| "apply_mark (Degraded d) a = mark_degraded d a"
| "apply_mark (Disconnected d) a = mark_disconnected d a"
| "apply_mark (Failed d) a = mark_failed d a"
| "apply_mark Backoff a = snd (backoff a)"

definition after :: "mark list \<Rightarrow> adapter_state" where
  "after ms = foldl (\<lambda>a m. apply_mark m a) new_adapter ms"

text \<open>The same read off the history: \<open>reconnects\<close> counts the connections that follow an earlier connection
  and a state other than ok.\<close>

fun state_after :: "mark \<Rightarrow> string \<Rightarrow> string" where
  "state_after (Connected _) s = ''ok''"
| "state_after (Degraded _) s = ''degraded''"
| "state_after (Disconnected _) s = ''disconnected''"
| "state_after (Failed _) s = ''failed''"
| "state_after _ s = s"

fun is_connect :: "mark \<Rightarrow> bool" where
  "is_connect (Connected _) = True"
| "is_connect _ = False"

fun is_error :: "mark \<Rightarrow> bool" where
  "is_error (Degraded _) = True"
| "is_error (Disconnected _) = True"
| "is_error _ = False"

definition history_state :: "mark list \<Rightarrow> string" where
  "history_state ms = foldl (\<lambda>s m. state_after m s) ''disconnected'' ms"

definition reconnects :: "mark list \<Rightarrow> nat" where
  "reconnects ms =
     length (filter (\<lambda>i. is_connect (ms ! i) \<and> history_state (take i ms) \<noteq> ''ok'' \<and> list_ex is_connect (take i ms))
       [0..<length ms])"

lemma after_snoc: "after (ms @ [m]) = apply_mark m (after ms)"
  by (simp add: after_def)

lemma history_state_snoc: "history_state (ms @ [m]) = state_after m (history_state ms)"
  by (simp add: history_state_def)

lemma reconnects_snoc:
  "reconnects (ms @ [m]) = reconnects ms
     + (if is_connect m \<and> history_state ms \<noteq> ''ok'' \<and> list_ex is_connect ms then 1 else 0)"
proof -
  have "filter (\<lambda>i. is_connect ((ms @ [m]) ! i) \<and> history_state (take i (ms @ [m])) \<noteq> ''ok'' \<and> list_ex is_connect (take i (ms @ [m])))
       [0..<length ms]
    = filter (\<lambda>i. is_connect (ms ! i) \<and> history_state (take i ms) \<noteq> ''ok'' \<and> list_ex is_connect (take i ms))
       [0..<length ms]"
    by (rule filter_cong) (auto simp: nth_append)
  then show ?thesis by (simp add: reconnects_def)
qed

lemma health_history:
  "state (health_of (after ms)) = history_state ms
   \<and> error_count (health_of (after ms)) = int (length (filter is_error ms))
   \<and> (connected_since (health_of (after ms)) \<noteq> None \<longleftrightarrow> list_ex is_connect ms)
   \<and> reconnect_count (health_of (after ms)) = int (reconnects ms)
   \<and> 1 \<le> backoff_s (after ms) \<and> backoff_s (after ms) \<le> 300"
proof (induction ms rule: rev_induct)
  case Nil
  then show ?case by (simp add: after_def new_adapter_def initial_health_def history_state_def reconnects_def)
next
  case (snoc m ms)
  then show ?case
    by (cases m) (auto simp: after_snoc history_state_snoc reconnects_snoc Let_def
        mark_connected_def mark_data_def mark_degraded_def mark_disconnected_def mark_error_def mark_failed_def
        backoff_def)
qed

text \<open>The health an adapter reports is the summary of its history: the state of the last mark, the number of
  degradations and disconnections, and the number of connections after an earlier connection was lost; and the
  delay before the next attempt stays between 1 s and 5 min.\<close>

theorem health_is_summary:
  "(let a = after ms in
      state (health_of a) = history_state ms
      \<and> error_count (health_of a) = int (length (filter is_error ms))
      \<and> reconnect_count (health_of a) = int (reconnects ms)
      \<and> 1 \<le> backoff_s a \<and> backoff_s a \<le> 300)"
  using health_history [of ms] by (simp add: Let_def)

text \<open>The delays of consecutive failures: doubled from the last one, at most 300.\<close>

fun delays :: "nat \<Rightarrow> adapter_state \<Rightarrow> int list" where
  "delays 0 a = []"
| "delays (Suc n) a = (case backoff a of (d, a') \<Rightarrow> d # delays n a')"

lemma delays_double:
  "1 \<le> backoff_s a \<Longrightarrow> backoff_s a \<le> 300 \<Longrightarrow> i < n \<Longrightarrow> delays n a ! i = min (backoff_s a * 2 ^ i) 300"
proof (induction n arbitrary: a i)
  case (Suc n)
  show ?case
  proof (cases i)
    case 0
    with Suc.prems show ?thesis by (simp add: backoff_def)
  next
    case (Suc j)
    let ?a = "snd (backoff a)"
    have b: "backoff_s ?a = min (backoff_s a * 2) 300" by (simp add: backoff_def)
    have "delays (Suc n) a ! i = delays n ?a ! j" by (simp add: Suc backoff_def)
    also have "\<dots> = min (backoff_s ?a * 2 ^ j) 300"
      using Suc.IH [of ?a j] Suc.prems \<open>i = Suc j\<close> b by auto
    also have "\<dots> = min (backoff_s a * 2 ^ i) 300"
    proof (cases "backoff_s a * 2 \<le> 300")
      case True
      then show ?thesis by (simp add: b Suc)
    next
      case False
      have one: "(1 :: int) \<le> 2 ^ j" by simp
      have "300 \<le> 300 * (2 :: int) ^ j" using one by linarith
      moreover have "300 \<le> backoff_s a * 2 * 2 ^ j"
        using mult_mono [of 300 "backoff_s a * 2" 1 "2 ^ j"] False one by simp
      ultimately show ?thesis using False by (simp add: b Suc mult.assoc)
    qed
    finally show ?thesis .
  qed
qed simp

section \<open>Supervision\<close>

text \<open>
  One pass through the loop of \<open>_supervise\<close>: whether the stop event is set when it begins, what
  \<open>start\<close> does to the adapter and how it ends, and whether the stop event is set during the wait. \<open>start\<close> returns,
  raises an exception (with its text), or raises \<open>SystemExit\<close>, which \<open>except Exception\<close> does not catch and which ends the
  thread without a word. A run is the list of the passes the environment offers; \<open>Running\<close> means the list is used up: the
  last \<open>start\<close>, or the next one, has not ended.
\<close>

datatype start_end = Comes_Back | Raises string | Exits

record pass =
  stop_set :: bool
  started :: "adapter_state \<Rightarrow> adapter_state"
  how_ended :: start_end
  stop_in_wait :: bool

datatype ending = Stopped | Returned | Gave_Up | Thread_Exited | Running

record supervision =
  ended :: ending
  final :: adapter_state
  starts :: nat
  waits :: "int list"
  stderr_lines :: "string list"

definition crash_line :: "string \<Rightarrow> string \<Rightarrow> int \<Rightarrow> string" where
  "crash_line machine_id what delay =
     ''# '' @ machine_id @ '': adapter crashed ('' @ what @ ''); retry in '' @ float_repr (Fin (of_int delay)) @ ''s''"

definition give_up_line :: "string \<Rightarrow> int \<Rightarrow> string \<Rightarrow> string" where
  "give_up_line machine_id crashes what =
     ''# '' @ machine_id @ '': adapter failed after '' @ show_int crashes @ '' crashes ('' @ what @ '') - not retrying''"

fun supervise_loop :: "string \<Rightarrow> int \<Rightarrow> pass list \<Rightarrow> int \<Rightarrow> supervision \<Rightarrow> supervision" where
  "supervise_loop machine_id max_crashes [] crashes s = s\<lparr>ended := Running\<rparr>"
| "supervise_loop machine_id max_crashes (p # ps) crashes s =
     (if stop_set p then s\<lparr>ended := Stopped\<rparr>
      else
        let a = started p (final s); s = s\<lparr>final := a, starts := Suc (starts s)\<rparr> in
        (case how_ended p of
           Comes_Back \<Rightarrow> s\<lparr>ended := Returned\<rparr>
         | Exits \<Rightarrow> s\<lparr>ended := Thread_Exited\<rparr>
         | Raises what \<Rightarrow>
             let crashes = crashes + 1 in
             if crashes \<ge> max_crashes then
               s\<lparr>ended := Gave_Up,
                 final := mark_failed (''stopped after '' @ show_int crashes @ '' crashes; last: '' @ what) a,
                 stderr_lines := stderr_lines s @ [give_up_line machine_id crashes what]\<rparr>
             else
               let (delay, a) = backoff (mark_disconnected (''crash '' @ show_int crashes @ '': '' @ what) a);
                   s = s\<lparr>final := a, waits := waits s @ [delay],
                         stderr_lines := stderr_lines s @ [crash_line machine_id what delay]\<rparr>
               in if stop_in_wait p then s\<lparr>ended := Stopped\<rparr>
                  else supervise_loop machine_id max_crashes ps crashes s))"

definition supervise :: "string \<Rightarrow> int \<Rightarrow> pass list \<Rightarrow> adapter_state \<Rightarrow> supervision" where
  "supervise machine_id max_crashes ps a =
     supervise_loop machine_id max_crashes ps 0
       \<lparr>ended = Running, final = a, starts = 0, waits = [], stderr_lines = []\<rparr>"

lemma supervise_loop_ends:
  assumes "0 \<le> crashes \<and> crashes \<le> max 0 (max_crashes - 1)" "max 1 max_crashes \<le> crashes + int (length ps)"
    and "s' = supervise_loop machine_id max_crashes ps crashes s"
  shows "ended s' \<noteq> Running
    \<and> int (starts s') \<le> int (starts s) + (max 1 max_crashes - crashes)
    \<and> (ended s' = Gave_Up \<longrightarrow> state (health_of (final s')) = ''failed''
        \<and> int (starts s') = int (starts s) + (max 1 max_crashes - crashes))"
  using assms
proof (induction ps arbitrary: crashes s)
  case Nil
  then show ?case by (auto simp: max_def split: if_splits)
next
  case (Cons p ps)
  show ?case
  proof (cases "stop_set p \<or> how_ended p = Comes_Back \<or> how_ended p = Exits \<or> crashes + 1 \<ge> max_crashes")
    case True
    have one: "max 1 max_crashes - crashes \<ge> 1" using Cons.prems(1) by auto
    moreover have "max 1 max_crashes - crashes = 1" if "max_crashes \<le> crashes + 1" using Cons.prems(1) that by auto
    ultimately show ?thesis
      using True Cons.prems(3) by (cases "how_ended p"; cases "stop_set p") (simp_all add: Let_def mark_failed_def)
  next
    case False
    then obtain what where p: "\<not> stop_set p" "how_ended p = Raises what" "crashes + 1 < max_crashes" by (cases "how_ended p") auto
    obtain delay a where b: "backoff (mark_disconnected (''crash '' @ show_int (crashes + 1) @ '': '' @ what) (started p (final s))) = (delay, a)"
      by (cases "backoff (mark_disconnected (''crash '' @ show_int (crashes + 1) @ '': '' @ what) (started p (final s)))")
    let ?s = "s\<lparr>starts := Suc (starts s), final := a, waits := waits s @ [delay],
        stderr_lines := stderr_lines s @ [crash_line machine_id what delay]\<rparr>"
    show ?thesis
    proof (cases "stop_in_wait p")
      case True
      with Cons.prems(3) p b have "s' = ?s\<lparr>ended := Stopped\<rparr>" by (simp add: Let_def)
      with p(3) show ?thesis by simp
    next
      case False
      with Cons.prems(3) p b have "s' = supervise_loop machine_id max_crashes ps (crashes + 1) ?s" by (simp add: Let_def)
      from Cons.IH [OF _ _ this] Cons.prems(1,2) p(3) show ?thesis by auto
    qed
  qed
qed

text \<open>C21: Supervision ends: whatever the adapter does, after at most \<open>max_crashes\<close> starts (one, if that is less than
  one) the loop has ended, and when it gave up it did exactly that many starts and the machine is marked failed.
  A crash-looping adapter is never retried forever.\<close>

theorem supervise_terminates:
  assumes "max 1 max_crashes \<le> int (length ps)"
  shows "(let r = supervise machine_id max_crashes ps a in
      ended r \<noteq> Running \<and> int (starts r) \<le> max 1 max_crashes
      \<and> (ended r = Gave_Up \<longrightarrow> state (health_of (final r)) = ''failed'' \<and> int (starts r) = max 1 max_crashes))"
  using supervise_loop_ends [of 0 max_crashes ps, OF _ _ refl, of machine_id
      "\<lparr>ended = Running, final = a, starts = 0, waits = [], stderr_lines = []\<rparr>"] assms
  unfolding supervise_def Let_def by simp

definition crash_pass :: pass where
  "crash_pass = \<lparr>stop_set = False, started = (\<lambda>a. a), how_ended = Raises ''io'', stop_in_wait = False\<rparr>"

theorem supervise_terminates_witness:
  "int (starts (supervise ''m12'' 2 [crash_pass, crash_pass, crash_pass] new_adapter)) = 2"
proof -
  have "ended (supervise ''m12'' 2 [crash_pass, crash_pass, crash_pass] new_adapter) = Gave_Up"
    by (simp add: supervise_def crash_pass_def Let_def backoff_def)
  with supervise_terminates [of 2 "[crash_pass, crash_pass, crash_pass]" "''m12''" new_adapter]
  show ?thesis by (simp add: Let_def)
qed

text \<open>
  The waits of a crash loop: as long as \<open>start\<close> leaves the delay alone, they are the first of the doubling sequence.
\<close>

lemma waits_follow_delay: "backoff_s a = backoff_s b \<Longrightarrow> delays n a = delays n b"
proof (induction n arbitrary: a b)
  case (Suc n)
  let ?next = "\<lambda>a :: adapter_state. a\<lparr>backoff_s := min (backoff_s a * 2) 300\<rparr>"
  have "delays n (?next a) = delays n (?next b)" by (rule Suc.IH) (simp add: Suc.prems)
  with Suc.prems show ?case by (simp add: backoff_def)
qed simp

definition crash_pass_ok :: "pass \<Rightarrow> bool" where
  "crash_pass_ok p = (\<not> stop_set p \<and> (\<exists>what. how_ended p = Raises what) \<and> \<not> stop_in_wait p)"

text \<open>One crash that is not the last one.\<close>

lemma supervise_loop_crash:
  assumes "crash_pass_ok p" "crashes + 1 < max_crashes"
  obtains s' where "supervise_loop machine_id max_crashes (p # ps) crashes s = supervise_loop machine_id max_crashes ps (crashes + 1) s'"
    "waits s' = waits s @ [backoff_s (started p (final s))]"
    "backoff_s (final s') = min (backoff_s (started p (final s)) * 2) 300"
proof -
  obtain what where p: "\<not> stop_set p" "how_ended p = Raises what" "\<not> stop_in_wait p" using assms(1) by (auto simp: crash_pass_ok_def)
  let ?a = "mark_disconnected (''crash '' @ show_int (crashes + 1) @ '': '' @ what) (started p (final s))"
  obtain delay a where b: "backoff ?a = (delay, a)" by (cases "backoff ?a")
  then have "delay = backoff_s (started p (final s))" "backoff_s a = min (backoff_s (started p (final s)) * 2) 300"
    by (auto simp: backoff_def mark_disconnected_def mark_error_def)
  moreover have "supervise_loop machine_id max_crashes (p # ps) crashes s = supervise_loop machine_id max_crashes ps (crashes + 1)
      (s\<lparr>starts := Suc (starts s), final := a, waits := waits s @ [delay],
        stderr_lines := stderr_lines s @ [crash_line machine_id what delay]\<rparr>)"
    using p b assms(2) by (simp add: Let_def)
  ultimately show thesis using that by simp
qed

lemma supervise_loop_last_crash:
  assumes "crash_pass_ok p" "max_crashes \<le> crashes + 1"
  shows "waits (supervise_loop machine_id max_crashes (p # ps) crashes s) = waits s"
  using assms by (auto simp: crash_pass_ok_def Let_def)

lemma supervise_waits:
  assumes "\<forall>p \<in> set ps. crash_pass_ok p \<and> (\<forall>a. backoff_s (started p a) = backoff_s a)"
    and "max_crashes = crashes + 1 + int n" "n < length ps"
  shows "waits (supervise_loop machine_id max_crashes ps crashes s) = waits s @ delays n (final s)"
  using assms
proof (induction n arbitrary: ps crashes s)
  case 0
  then show ?case by (cases ps) (auto simp: supervise_loop_last_crash simp del: supervise_loop.simps)
next
  case (Suc n)
  from Suc.prems(3) obtain p ps' where ps: "ps = p # ps'" "n < length ps'" by (cases ps) auto
  with Suc.prems have p: "crash_pass_ok p" "backoff_s (started p (final s)) = backoff_s (final s)" "crashes + 1 < max_crashes" by auto
  obtain s' where s': "supervise_loop machine_id max_crashes ps crashes s = supervise_loop machine_id max_crashes ps' (crashes + 1) s'"
    "waits s' = waits s @ [backoff_s (final s)]" "backoff_s (final s') = min (backoff_s (final s) * 2) 300"
    using supervise_loop_crash [OF p(1,3), of machine_id ps' s] by (metis p(2) ps(1))
  have "waits (supervise_loop machine_id max_crashes ps' (crashes + 1) s') = waits s' @ delays n (final s')"
    by (rule Suc.IH) (use Suc.prems ps in auto)
  moreover have "delays n (final s') = delays n (snd (backoff (final s)))"
    by (rule waits_follow_delay) (simp add: s'(3) backoff_def)
  ultimately show ?case using s'(1,2) by (simp add: backoff_def)
qed

lemma supervise_waits_reset:
  assumes "\<forall>p \<in> set ps. crash_pass_ok p \<and> (\<forall>a. backoff_s (started p a) = 1)"
    and "max_crashes = crashes + 1 + int n" "n < length ps"
  shows "waits (supervise_loop machine_id max_crashes ps crashes s) = waits s @ replicate n 1"
  using assms
proof (induction n arbitrary: ps crashes s)
  case 0
  then show ?case by (cases ps) (auto simp: supervise_loop_last_crash simp del: supervise_loop.simps)
next
  case (Suc n)
  from Suc.prems(3) obtain p ps' where ps: "ps = p # ps'" "n < length ps'" by (cases ps) auto
  with Suc.prems have p: "crash_pass_ok p" "backoff_s (started p (final s)) = 1" "crashes + 1 < max_crashes" by auto
  obtain s' where s': "supervise_loop machine_id max_crashes ps crashes s = supervise_loop machine_id max_crashes ps' (crashes + 1) s'"
    "waits s' = waits s @ [1]"
    using supervise_loop_crash [OF p(1,3), of machine_id ps' s] by (metis p(2) ps(1))
  have "waits (supervise_loop machine_id max_crashes ps' (crashes + 1) s') = waits s' @ replicate n 1"
    by (rule Suc.IH) (use Suc.prems ps in auto)
  with s' show ?case by simp
qed

lemma length_delays [simp]: "length (delays n a) = n"
  by (induction n arbitrary: a) (simp_all add: split_beta)



section \<open>The probe\<close>

text \<open>
  What \<open>probe\<close> does on its thread: it never ends, or ends at some time with a result or an exception.
  A probe that ends at the very timeout is in time. \<open>SystemExit\<close> ends the thread and leaves no result.
\<close>

datatype 'a probe_run = Hangs | Ends rat "'a res"

definition probe_result :: "'a res \<Rightarrow> 'a res" where
  "probe_result r = (case r of Inr x \<Rightarrow> Inr x | Inl e \<Rightarrow> if is_exception e then Inl e else Inl (KeyError ''info''))"

fun probe_with_timeout :: "'a probe_run \<Rightarrow> rat \<Rightarrow> 'a res" where
  "probe_with_timeout Hangs timeout_s = Inl (OtherError ''TimeoutError'')"
| "probe_with_timeout (Ends t r) timeout_s =
     (if t > timeout_s then Inl (OtherError ''TimeoutError'') else probe_result r)"

lemma probe_raises_exception: "probe_with_timeout p timeout_s = Inl e \<Longrightarrow> is_exception e"
  by (cases p) (auto simp: probe_result_def split: if_splits sum.splits)

end
