(* ===== verification/Registry.thy ===== *)
theory Registry
  imports Py_Values Keys
begin

text \<open>
  \<open>gateway/omp/core/registry.py\<close>: the checks \<open>load_registry\<close> makes of the parsed registry. The YAML
  parser is a library: the input here is the value it returns.
\<close>

section \<open>One machine\<close>

definition id_pattern :: string where "id_pattern = ''^[a-z0-9][a-z0-9-]{2,62}$''"

definition require :: "string \<Rightarrow> json \<Rightarrow> string \<Rightarrow> unit res" where
  "require pos m key =
     res_bind (has_key m key) (\<lambda>b. if b then Inr () else Inl (RegistryError (pos @ '': missing '' @ key)))"

definition set_default :: "'v dict \<Rightarrow> string \<Rightarrow> 'v \<Rightarrow> 'v dict" where
  "set_default d k v = (case map_of d k of None \<Rightarrow> d @ [(k, v)] | Some _ \<Rightarrow> d)"

definition check_machine :: "string set \<Rightarrow> nat \<Rightarrow> json \<Rightarrow> (string \<times> json) res" where
  "check_machine seen i m =
     (let pos = ''machines['' @ show_nat i @ '']'' in
      res_bind (require pos m ''machine_id'') (\<lambda>_.
      res_bind (require pos m ''adapter'') (\<lambda>_.
      res_bind (as_dict m) (\<lambda>d.
      res_bind (dict_item d ''machine_id'') (\<lambda>v.
      res_bind (as_str v) (\<lambda>mid.
        if \<not> id_full mid then
          Inl (RegistryError (pos @ '': machine_id '' @ repr_str mid @ '' must match '' @ id_pattern))
        else if mid \<in> seen then Inl (RegistryError (pos @ '': duplicate machine_id '' @ repr_str mid))
        else
          (let loc = dict_get d ''location'' JNull;
               done = Inr (mid, JObj (set_default d ''config'' (JObj [])))
           in if loc = JNull then done
              else res_bind (has_key loc ''site'') (\<lambda>b.
                     if b then done
                     else Inl (RegistryError
                       (pos @ '': location.site is required when location is given''))))))))))"

fun check_machines :: "string set \<Rightarrow> nat \<Rightarrow> json list \<Rightarrow> json list res" where
  "check_machines seen i [] = Inr []"
| "check_machines seen i (m # ms) =
     res_bind (check_machine seen i m) (\<lambda>(mid, m').
     res_bind (check_machines (insert mid seen) (Suc i) ms) (\<lambda>ms'. Inr (m' # ms')))"

section \<open>The registry\<close>

definition load_registry :: "json \<Rightarrow> json dict res" where
  "load_registry parsed =
     res_bind (as_dict (if truthy parsed then parsed else JObj [])) (\<lambda>data.
       (case map_of data ''machines'' of
          None \<Rightarrow> Inr data
        | Some (JList ms) \<Rightarrow>
            res_bind (check_machines {} 0 ms) (\<lambda>ms'. Inr (AList.update ''machines'' (JList ms') data))
        | Some _ \<Rightarrow> Inl (RegistryError ''machines must be a list'')))"

lemma map_of_Cons_eq: "map_of ((k, v) # d) k = Some v"
  by simp

section \<open>What a loaded registry satisfies\<close>

definition machine_id_of :: "json \<Rightarrow> string" where
  "machine_id_of m = (case m of JObj d \<Rightarrow> (case map_of d ''machine_id'' of Some (JStr s) \<Rightarrow> s | _ \<Rightarrow> []) | _ \<Rightarrow> [])"

definition machine_ok :: "json \<Rightarrow> bool" where
  "machine_ok m =
     (case m of
        JObj d \<Rightarrow>
          (case map_of d ''machine_id'' of Some (JStr s) \<Rightarrow> id_full s | _ \<Rightarrow> False)
          \<and> map_of d ''adapter'' \<noteq> None
          \<and> (dict_get d ''location'' JNull = JNull \<or> has_key (dict_get d ''location'' JNull) ''site'' = Inr True)
      | _ \<Rightarrow> False)"

definition with_config :: "json \<Rightarrow> json" where
  "with_config m = (case m of JObj d \<Rightarrow> JObj (set_default d ''config'' (JObj [])) | v \<Rightarrow> v)"

lemma require_ok [simp]: "require pos m key = Inr () \<longleftrightarrow> has_key m key = Inr True"
  by (cases "has_key m key") (auto simp: require_def)

lemma has_key_obj: "has_key m k = Inr True \<Longrightarrow> as_dict m = Inr d \<Longrightarrow> map_of d k \<noteq> None"
  by (cases m) auto

lemma check_machine_ok_iff:
  "check_machine seen i m = Inr (mid, m') \<longleftrightarrow>
     machine_ok m \<and> mid = machine_id_of m \<and> mid \<notin> seen \<and> m' = with_config m"
proof (cases m)
  case (JObj d)
  show ?thesis
  proof (cases "map_of d ''machine_id''")
    case None
    then show ?thesis by (simp add: JObj check_machine_def require_def machine_ok_def)
  next
    case id: (Some v)
    show ?thesis
    proof (cases "map_of d ''adapter''")
      case None
      with id show ?thesis by (simp add: JObj check_machine_def require_def machine_ok_def)
    next
      case (Some a)
      show ?thesis
      proof (cases v)
        case (JStr s)
        then show ?thesis
          using id Some JObj
          by (cases "has_key (dict_get d ''location'' JNull) ''site''")
            (auto simp: check_machine_def require_def dict_item_def machine_ok_def machine_id_of_def
              with_config_def Let_def)
      qed (use id Some JObj in \<open>simp_all add: check_machine_def require_def dict_item_def machine_ok_def\<close>)
    qed
  qed
qed (auto simp: check_machine_def require_def machine_ok_def res_inv Let_def split: if_splits)

lemma check_machines_ok_iff:
  "check_machines seen i ms = Inr ms' \<longleftrightarrow>
     list_all machine_ok ms \<and> distinct (map machine_id_of ms)
     \<and> set (map machine_id_of ms) \<inter> seen = {} \<and> ms' = map with_config ms"
proof (induction seen i ms arbitrary: ms' rule: check_machines.induct)
  case (2 seen i m ms)
  then show ?case
    by (auto simp: res_inv check_machine_ok_iff)
qed auto

lemma load_registry_ok_iff:
  assumes "map_of data ''machines'' = Some (JList ms)"
  shows "load_registry (JObj data) = Inr data' \<longleftrightarrow>
     list_all machine_ok ms \<and> distinct (map machine_id_of ms)
     \<and> data' = AList.update ''machines'' (JList (map with_config ms)) data"
proof -
  have "data \<noteq> []" using assms by auto
  then show ?thesis
    using assms by (auto simp: load_registry_def res_inv check_machines_ok_iff)
qed

text \<open>
  What is raised for a list of machines that are mappings with text ids, and locations that are
  mappings: \<open>RegistryError\<close> and nothing else.
\<close>

definition machine_typed :: "json \<Rightarrow> bool" where
  "machine_typed m =
     (case m of
        JObj d \<Rightarrow>
          (case map_of d ''machine_id'' of None \<Rightarrow> True | Some (JStr s) \<Rightarrow> True | _ \<Rightarrow> False)
          \<and> (case map_of d ''location'' of None \<Rightarrow> True | Some JNull \<Rightarrow> True | Some (JObj l) \<Rightarrow> True | _ \<Rightarrow> False)
      | _ \<Rightarrow> False)"

lemma machine_typed_cases:
  assumes "machine_typed m"
  obtains d where "m = JObj d" "map_of d ''machine_id'' = None"
    | d s where "m = JObj d" "map_of d ''machine_id'' = Some (JStr s)"
        "dict_get d ''location'' JNull = JNull"
    | d s l where "m = JObj d" "map_of d ''machine_id'' = Some (JStr s)"
        "dict_get d ''location'' JNull = JObj l"
proof (cases m)
  case (JObj d)
  show thesis
  proof (cases "map_of d ''machine_id''")
    case None
    with JObj that(1) show ?thesis by blast
  next
    case (Some v)
    with assms JObj obtain s where s: "v = JStr s" by (cases v) (auto simp: machine_typed_def)
    from assms JObj have "dict_get d ''location'' JNull = JNull \<or> (\<exists>l. dict_get d ''location'' JNull = JObj l)"
      by (auto simp: machine_typed_def dict_get_def split: option.splits json.splits)
    with that(2,3) JObj Some s show ?thesis by blast
  qed
qed (use assms in \<open>auto simp: machine_typed_def\<close>)

lemma check_machine_error:
  assumes "machine_typed m" "check_machine seen i m = Inl e"
  shows "\<exists>t. e = RegistryError t"
  using assms(1)
proof (cases rule: machine_typed_cases)
  case (1 d)
  with assms(2) show ?thesis by (auto simp: check_machine_def require_def Let_def split: if_splits)
next
  case (2 d s)
  with assms(2) show ?thesis
    by (auto simp: check_machine_def require_def dict_item_def Let_def split: if_splits)
next
  case (3 d s l)
  with assms(2) show ?thesis
    by (auto simp: check_machine_def require_def dict_item_def Let_def split: if_splits)
qed

lemma check_machines_error:
  "list_all machine_typed ms \<Longrightarrow> check_machines seen i ms = Inl e \<Longrightarrow> \<exists>t. e = RegistryError t"
  by (induction seen i ms rule: check_machines.induct) (auto simp: res_bind_eq_Inl dest: check_machine_error)

section \<open>Properties\<close>

text \<open>\<open>load_registry\<close> accepts a list of machines exactly when every machine is a mapping with an adapter and an
  id that matches the pattern, with a site wherever a location is given, and no id occurs twice; the result is the
  same registry with an empty configuration added where none was given.\<close>

theorem load_registry_exact:
  assumes "map_of data ''machines'' = Some (JList ms)"
  shows "load_registry (JObj data) = Inr data' \<longleftrightarrow>
     list_all machine_ok ms \<and> distinct (map machine_id_of ms)
     \<and> data' = AList.update ''machines'' (JList (map with_config ms)) data"
  using assms by (rule load_registry_ok_iff)

theorem load_registry_exact_witness:
  "load_registry (JObj [(''machines'', JList [JObj [(''machine_id'', JStr ''dye-01''), (''adapter'', JStr ''generic-modbus'')]])])
   = Inr [(''machines'', JList [JObj [(''machine_id'', JStr ''dye-01''), (''adapter'', JStr ''generic-modbus''), (''config'', JObj [])]])]"
proof -
  have "id_full ''dye-01''" by (simp add: id_full_def id_tail_def id_head_def is_digit_def less_eq_char_def)
  then show ?thesis
    by (subst load_registry_exact [OF map_of_Cons_eq])
      (simp_all add: machine_ok_def dict_get_def with_config_def set_default_def)
qed

text \<open>On machines that are mappings with text ids, and locations that are mappings, the only exception is
  \<open>RegistryError\<close>, which the command line reports as a configuration error.\<close>

theorem load_registry_errors:
  assumes "map_of data ''machines'' = Some (JList ms)" "list_all machine_typed ms"
    "load_registry (JObj data) = Inl e"
  shows "\<exists>t. e = RegistryError t"
proof -
  have "data \<noteq> []" using assms(1) by auto
  then show ?thesis
    using assms by (auto simp: load_registry_def res_bind_eq_Inl dest: check_machines_error)
qed

theorem load_registry_errors_witness:
  "\<exists>e t. load_registry (JObj [(''machines'', JList [JObj []])]) = Inl e \<and> e = RegistryError t"
proof -
  let ?r = "load_registry (JObj [(''machines'', JList [JObj []])])"
  have "?r \<noteq> Inr d" for d by (subst load_registry_ok_iff [OF map_of_Cons_eq]) (simp add: machine_ok_def)
  then obtain e where e: "?r = Inl e" by (cases ?r) auto
  with load_registry_errors [OF _ _ e] show ?thesis by (auto simp: machine_typed_def)
qed

end
