(* ===== verification/Daemon.thy ===== *)
theory Daemon
  imports Adapter_Base Registry Exporters
begin

text \<open>
  \<open>cmd_run\<close> of \<open>gateway/omp/cli.py\<close>: the daemon starts, reloads and stops the machines of the registry.
  What the world does is a function of the number of the step it is asked in, so that a registry,
  an adapter directory, a probe or an adapter's \<open>stop\<close> may behave differently each time. The adapter threads run
  concurrently and are the subject of \<open>Gateway_System\<close> and \<open>Supervision\<close>. Here \<open>running\<close> is the table of that name, and
  \<open>acts\<close> records what the daemon did: a thread was started, the adapter's \<open>stop\<close> was called by \<open>stop_machine\<close>, or by the
  adapter's own \<open>emit\<close>. That \<open>stop\<close> was called does not mean that the thread has ended: \<open>stop_machine\<close> waits for it ten seconds
  at most, and \<open>Supervision\<close> shows how the call can be without effect. A profile in the registry that is not text is outside the model.
\<close>

section \<open>State and world\<close>

record adapter_class =
  class_name :: string
  class_version :: string
  supported_profiles :: "string list"

record world =
  class_at :: "nat \<Rightarrow> string \<Rightarrow> adapter_class res"
  probe_at :: "nat \<Rightarrow> json \<Rightarrow> machine_info probe_run"
  stop_raises :: "nat \<Rightarrow> pyexn option"
  clock_at :: "nat \<Rightarrow> datetime"
  exc_str :: "pyexn \<Rightarrow> string"

record run_options =
  adapters_dir :: string
  probe_timeout :: rat

text \<open>An entry of \<open>running\<close>: the adapter object, known by the step that made it, and its specification.\<close>

record entry =
  instance_no :: nat
  spec_of :: json

datatype act = Started nat string | Stopped nat string | Wound_Down nat string

record 'd exporter =
  ex_name :: string
  ex_publish :: "json \<Rightarrow> 'd \<Rightarrow> unit res \<times> 'd"

record 'd daemon =
  buffer_db :: store
  running :: "entry dict"
  acts :: "act list"
  stderr_out :: "string list"
  moment :: nat
  stop_evt :: bool
  pid_file :: "string option"
  destinations :: 'd

section \<open>Draining\<close>

text \<open>
  One more unit of fuel than rows is enough for each drain, so the exception in the first branch is
  never raised (\<open>drain_exporters_returns\<close>).
\<close>

fun drain_exporters :: "'d exporter list \<Rightarrow> 'd \<Rightarrow> store \<Rightarrow> unit res \<times> 'd \<times> store" where
  "drain_exporters [] d st = (Inr (), d, st)"
| "drain_exporters (x # xs) d st =
     (case drain (Suc (length (buffer st))) (ex_name x) (ex_publish x) 500 d st of
        None \<Rightarrow> (Inl (OtherError ''out of fuel''), d, st)
      | Some (Inl e, d, st) \<Rightarrow> (Inl e, d, st)
      | Some (Inr _, d, st) \<Rightarrow> drain_exporters xs d st)"

definition drain_all :: "'d exporter list \<Rightarrow> 'd daemon \<Rightarrow> bool res \<times> 'd daemon" where
  "drain_all xs s =
     (case drain_exporters xs (destinations s) (buffer_db s) of
        (r, d, st) \<Rightarrow>
          let s = s\<lparr>destinations := d, buffer_db := st\<rparr> in
          (case r of
            Inr _ \<Rightarrow> (Inr True, s)
          | Inl e \<Rightarrow> if e = ExporterClosed then (Inr False, s\<lparr>stop_evt := True\<rparr>) else (Inl e, s)))"

lemma drain_returns:
  assumes "wf_store st"
  shows "\<exists>r d' st'. drain (Suc (length (buffer st))) x publish 500 d st = Some (r, d', st') \<and> wf_store st'"
proof -
  obtain k e d' where d: "deliver publish (map snd (undelivered x st)) d = (k, e, d')"
    by (cases "deliver publish (map snd (undelivered x st)) d")
  have n: "length (undelivered x st) < Suc (length (buffer st))"
    by (simp add: undelivered_def le_imp_less_Suc)
  show ?thesis
    by (rule drain_deliver [OF assms _ _ n d, of 500]) (auto simp: bind_int_def max_int64_def)
qed

text \<open>A drain of all exporters ends with an exception only if one of the drains does.\<close>

lemma drain_exporters_returns:
  "wf_store st \<Longrightarrow> drain_exporters xs d st = (Inl e, d', st') \<Longrightarrow>
     \<exists>name publish d1 st1. wf_store st1 \<and> drain (Suc (length (buffer st1))) name publish 500 d1 st1 = Some (Inl e, d', st')"
proof (induction xs arbitrary: d st)
  case (Cons x xs)
  from drain_returns [OF Cons.prems(1), of "ex_name x" "ex_publish x" d] obtain r d1 st1 where
    r: "drain (Suc (length (buffer st))) (ex_name x) (ex_publish x) 500 d st = Some (r, d1, st1)" "wf_store st1" by blast
  show ?case
  proof (cases r)
    case (Inl e1)
    with Cons.prems(2) r(1) have "r = Inl e" "d1 = d'" "st1 = st'" by simp_all
    with Cons.prems(1) r(1) show ?thesis by blast
  next
    case (Inr n)
    with Cons.prems(2) r have "drain_exporters xs d1 st1 = (Inl e, d', st')" by simp
    from Cons.IH [OF r(2) this] show ?thesis .
  qed
qed simp

text \<open>The \<open>emit\<close> an adapter is given; the flag says whether it tells the adapter to stop.\<close>

definition gateway_emit ::
  "engine \<Rightarrow> 'd exporter list \<Rightarrow> datetime \<Rightarrow> string \<Rightarrow> body \<Rightarrow> 'd daemon \<Rightarrow> bool res \<times> 'd daemon" where
  "gateway_emit eng xs clock machine_id b s =
     (case process eng clock machine_id b (buffer_db s) of
        (Inl e, st) \<Rightarrow> (Inl e, s\<lparr>buffer_db := st\<rparr>)
      | (Inr _, st) \<Rightarrow>
          (case drain_all xs (s\<lparr>buffer_db := st\<rparr>) of
             (Inl e, s) \<Rightarrow> (Inl e, s)
           | (Inr alive, s) \<Rightarrow> (Inr (\<not> alive), s)))"

section \<open>Starting and stopping a machine\<close>

definition join_path :: "string \<Rightarrow> string \<Rightarrow> string" where
  "join_path d p = (if starts_with ''/'' p then p else d @ ''/'' @ p)"

definition load_machine :: "run_options \<Rightarrow> world \<Rightarrow> nat \<Rightarrow> json \<Rightarrow> adapter_class res" where
  "load_machine opts w n m =
     res_bind (get_item m ''adapter'') (\<lambda>a. res_bind (as_str a) (\<lambda>a. class_at w n (join_path (adapters_dir opts) a)))"

definition announcement :: "world \<Rightarrow> nat \<Rightarrow> adapter_class \<Rightarrow> machine_info \<Rightarrow> json \<Rightarrow> body res" where
  "announcement w n cls info m =
     res_bind (get_or m ''profile'' (JStr (case supported_profiles cls of [] \<Rightarrow> ''generic/0.1'' | p # _ \<Rightarrow> p))) (\<lambda>p.
     res_bind (as_str p) (\<lambda>profile_ref.
     res_bind (get_or m ''location'' (JObj [(''site'', JStr ''unknown'')])) (\<lambda>loc.
       Inr (adapter_body ''machine'' profile_ref
         ([(''machine_class'', JStr (machine_class info))]
          @ (case info_make info of None \<Rightarrow> [] | Some s \<Rightarrow> if s = [] then [] else [(''make'', JStr s)])
          @ (case info_model info of None \<Rightarrow> [] | Some s \<Rightarrow> if s = [] then [] else [(''model'', JStr s)])
          @ [(''location'', loc), (''capabilities'', JList (map JStr (capabilities info))),
             (''adapter'', JObj [(''name'', JStr (class_name cls)), (''version'', JStr (class_version cls))]),
             (''data_source'', JStr (data_source info))])
         (Some (now_iso (clock_at w n)))))))"

text \<open>The part of \<open>start_machine\<close> inside its \<open>try\<close>.\<close>

definition announce ::
  "engine \<Rightarrow> run_options \<Rightarrow> world \<Rightarrow> nat \<Rightarrow> adapter_class \<Rightarrow> string \<Rightarrow> json \<Rightarrow> json \<Rightarrow> store \<Rightarrow> unit res \<times> store" where
  "announce eng opts w n cls machine_id config m st =
     (case res_bind (probe_with_timeout (probe_at w n config) (probe_timeout opts)) (\<lambda>info. announcement w n cls info m) of
        Inl e \<Rightarrow> (Inl e, st)
      | Inr b \<Rightarrow> (case process eng (clock_at w n) machine_id b st of (Inl e, st) \<Rightarrow> (Inl e, st) | (Inr _, st) \<Rightarrow> (Inr (), st)))"

definition probe_failed_line :: "string \<Rightarrow> string \<Rightarrow> string" where
  "probe_failed_line machine_id what = ''# probe failed for '' @ machine_id @ '': '' @ what"

definition start_machine ::
  "engine \<Rightarrow> run_options \<Rightarrow> world \<Rightarrow> json \<Rightarrow> 'd daemon \<Rightarrow> bool res \<times> 'd daemon" where
  "start_machine eng opts w m s0 =
     (let n = moment s0; s = s0\<lparr>moment := Suc n\<rparr> in
      case res_bind (load_machine opts w n m) (\<lambda>cls. res_bind (get_item m ''config'') (\<lambda>config.
             res_bind (get_item m ''machine_id'') (\<lambda>mid. res_bind (as_str mid) (\<lambda>mid. Inr (cls, config, mid))))) of
        Inl e \<Rightarrow> (Inl e, s)
      | Inr (cls, config, mid) \<Rightarrow>
          (case announce eng opts w n cls mid config m (buffer_db s) of
             (Inl e, st) \<Rightarrow>
               let s = s\<lparr>buffer_db := st\<rparr> in
               if is_exception e
               then (Inr False, s\<lparr>stderr_out := stderr_out s @ [probe_failed_line mid (exc_str w e)]\<rparr>)
               else (Inl e, s)
           | (Inr _, st) \<Rightarrow>
               (Inr True, s\<lparr>buffer_db := st, acts := acts s @ [Started n mid],
                            running := AList.update mid \<lparr>instance_no = n, spec_of = m\<rparr> (running s)\<rparr>)))"

text \<open>
  The entry is taken out and its adapter's \<open>stop\<close> is called, which may raise: an adapter whose \<open>start\<close> has not begun
  has no stop flag yet.
\<close>

definition taken_out :: "string \<Rightarrow> 'd daemon \<Rightarrow> 'd daemon" where
  "taken_out mid s =
     (case map_of (running s) mid of
        None \<Rightarrow> s
      | Some e \<Rightarrow> s\<lparr>moment := Suc (moment s), running := AList.delete mid (running s),
                    acts := acts s @ [Stopped (instance_no e) mid]\<rparr>)"

definition stop_machine :: "world \<Rightarrow> string \<Rightarrow> 'd daemon \<Rightarrow> unit res \<times> 'd daemon" where
  "stop_machine w mid s =
     (if map_of (running s) mid = None then (Inr (), s)
      else (case stop_raises w (moment s) of
              None \<Rightarrow> (Inr (), taken_out mid s)
            | Some e \<Rightarrow> (Inl e, taken_out mid s)))"

fun stop_all :: "world \<Rightarrow> string list \<Rightarrow> 'd daemon \<Rightarrow> unit res \<times> 'd daemon" where
  "stop_all w [] s = (Inr (), s)"
| "stop_all w (mid # mids) s =
     (case stop_machine w mid s of
        (Inl e, s) \<Rightarrow> (Inl e, s)
      | (Inr _, s) \<Rightarrow> stop_all w mids s)"

fun start_all :: "engine \<Rightarrow> run_options \<Rightarrow> world \<Rightarrow> json list \<Rightarrow> 'd daemon \<Rightarrow> unit res \<times> 'd daemon" where
  "start_all eng opts w [] s = (Inr (), s)"
| "start_all eng opts w (m # ms) s =
     (case start_machine eng opts w m s of
        (Inl e, s) \<Rightarrow> (Inl e, s)
      | (Inr _, s) \<Rightarrow> start_all eng opts w ms s)"

fun restart_all :: "engine \<Rightarrow> run_options \<Rightarrow> world \<Rightarrow> json list \<Rightarrow> 'd daemon \<Rightarrow> unit res \<times> 'd daemon" where
  "restart_all eng opts w [] s = (Inr (), s)"
| "restart_all eng opts w (m # ms) s =
     (case stop_machine w (machine_id_of m) s of
        (Inl e, s) \<Rightarrow> (Inl e, s)
      | (Inr _, s) \<Rightarrow>
          (case start_machine eng opts w m s of
             (Inl e, s) \<Rightarrow> (Inl e, s)
           | (Inr _, s) \<Rightarrow> restart_all eng opts w ms s))"

section \<open>Reload\<close>

text \<open>
  The machines of the registry that was read, each with its adapter loadable. \<open>file\<close> is the parsed
  registry file or the exception of reading it. The ids of a loaded registry are distinct texts, so
  the dict \<open>wanted\<close> is represented by the list of machines.
\<close>

definition machine_list :: "json dict \<Rightarrow> json list res" where
  "machine_list reg = as_list (dict_get reg ''machines'' (JList []))"

definition checked_machines :: "run_options \<Rightarrow> world \<Rightarrow> nat \<Rightarrow> json res \<Rightarrow> json list res" where
  "checked_machines opts w n file =
     res_bind file (\<lambda>parsed. res_bind (load_registry parsed) (\<lambda>reg. res_bind (machine_list reg) (\<lambda>ms.
     res_bind (res_map (load_machine opts w n) ms) (\<lambda>_. Inr ms))))"

definition spec_changed :: "entry dict \<Rightarrow> json \<Rightarrow> bool" where
  "spec_changed run m =
     (case map_of run (machine_id_of m) of None \<Rightarrow> False | Some e \<Rightarrow> \<not> py_eq (spec_of e) m)"

definition reloaded_line :: "nat \<Rightarrow> nat \<Rightarrow> nat \<Rightarrow> int \<Rightarrow> string" where
  "reloaded_line added removed changed untouched =
     ''# reloaded: +'' @ show_nat added @ '' -'' @ show_nat removed @ '' ~'' @ show_nat changed @ '', ''
     @ show_int (max untouched 0) @ '' untouched''"

definition refused_line :: "string \<Rightarrow> string" where
  "refused_line what = ''# reload REFUSED, still running the previous registry: '' @ what"

definition say :: "string \<Rightarrow> 'd daemon \<Rightarrow> 'd daemon" where
  "say line s = s\<lparr>stderr_out := stderr_out s @ [line]\<rparr>"

definition apply_reload ::
  "engine \<Rightarrow> run_options \<Rightarrow> world \<Rightarrow> json res \<Rightarrow> 'd daemon \<Rightarrow> unit res \<times> 'd daemon" where
  "apply_reload eng opts w file s0 =
     (let s = s0\<lparr>moment := Suc (moment s0)\<rparr> in
      case checked_machines opts w (moment s0) file of
        Inl e \<Rightarrow> if is_exception e then (Inr (), say (refused_line (exc_str w e)) s) else (Inl e, s)
      | Inr ms \<Rightarrow>
          let run = running s;
              added = filter (\<lambda>m. map_of run (machine_id_of m) = None) ms;
              removed = filter (\<lambda>mid. mid \<notin> set (map machine_id_of ms)) (map fst run);
              changed = filter (spec_changed run) ms
          in (case stop_all w removed s of
                (Inl e, s) \<Rightarrow> (Inl e, s)
              | (Inr _, s) \<Rightarrow>
                  (case restart_all eng opts w changed s of
                     (Inl e, s) \<Rightarrow> (Inl e, s)
                   | (Inr _, s) \<Rightarrow>
                       (case start_all eng opts w added s of
                          (Inl e, s) \<Rightarrow> (Inl e, s)
                        | (Inr _, s) \<Rightarrow>
                            (Inr (), say (reloaded_line (length added) (length removed) (length changed)
                               (int (length (running s)) - int (length added) - int (length changed))) s)))))"

section \<open>The run\<close>

text \<open>
  One turn of the main loop: what the adapter threads emit while it waits, each with the number of its adapter (which may be
  one that has been stopped and still runs), whether the wait is
  interrupted from the keyboard, the registry file if a reload was requested, and the clocks after
  the wait. The length of the wait has no effect on the state.
\<close>

record tick =
  emits :: "(datetime \<times> nat \<times> string \<times> body) list"
  interrupted :: bool
  reload_file :: "json res option"
  mono_after :: rat
  prune_clock :: datetime

record run_limits =
  deadline :: "rat option"
  retention_days :: json
  max_buffer_bytes :: "int option"
  file_size :: "store \<Rightarrow> int"

text \<open>
  \<open>emit\<close> of \<open>start_machine\<close>: when the destination is gone it tells its own adapter to stop. An exception goes to the
  adapter that called it.
\<close>

definition adapter_emit ::
  "engine \<Rightarrow> 'd exporter list \<Rightarrow> datetime \<Rightarrow> nat \<Rightarrow> string \<Rightarrow> body \<Rightarrow> 'd daemon \<Rightarrow> unit res \<times> 'd daemon" where
  "adapter_emit eng xs clock n mid b s =
     (case gateway_emit eng xs clock mid b s of
        (Inl e, s) \<Rightarrow> (Inl e, s)
      | (Inr gone, s) \<Rightarrow> (Inr (), if gone then s\<lparr>acts := acts s @ [Wound_Down n mid]\<rparr> else s))"

definition emit_during :: "engine \<Rightarrow> 'd exporter list \<Rightarrow> (datetime \<times> nat \<times> string \<times> body) list \<Rightarrow> 'd daemon \<Rightarrow> 'd daemon" where
  "emit_during eng xs es s = foldl (\<lambda>s (clock, n, mid, b). snd (adapter_emit eng xs clock n mid b s)) s es"

definition pruned_line :: "int \<Rightarrow> string \<Rightarrow> string" where
  "pruned_line n why = ''# pruned '' @ show_int n @ '' delivered envelope(s): '' @ why"

text \<open>The result is whether the loop was left.\<close>

fun main_loop ::
  "engine \<Rightarrow> run_options \<Rightarrow> run_limits \<Rightarrow> world \<Rightarrow> 'd exporter list \<Rightarrow> tick list \<Rightarrow> 'd daemon \<Rightarrow> bool res \<times> 'd daemon" where
  "main_loop eng opts lims w xs [] s = (Inr False, s)"
| "main_loop eng opts lims w xs (t # ts) s =
     (if stop_evt s then (Inr True, s)
      else
        let s = emit_during eng xs (emits t) s in
        if interrupted t \<or> stop_evt s then (Inr True, s)
        else (case reload_file t of
            Some file \<Rightarrow>
              (case apply_reload eng opts w file s of
                 (Inl e, s) \<Rightarrow> (Inl e, s)
               | (Inr _, s) \<Rightarrow> main_loop eng opts lims w xs ts s)
          | None \<Rightarrow>
              if (case deadline lims of None \<Rightarrow> False | Some d \<Rightarrow> d \<le> mono_after t) then (Inr True, s)
              else (case prune (file_size lims) (prune_clock t) (map ex_name xs) (retention_days lims)
                           (max_buffer_bytes lims) None (buffer_db s) of
                      (Inl e, st) \<Rightarrow> (Inl e, s\<lparr>buffer_db := st\<rparr>)
                    | (Inr r, st) \<Rightarrow>
                        let s = s\<lparr>buffer_db := st\<rparr> in
                        main_loop eng opts lims w xs ts
                          (if pruned r \<noteq> 0 then say (pruned_line (pruned r) (result_reason r)) s else s))))"

text \<open>The end of \<open>cmd_run\<close> after the loop\<close>

definition shut_down :: "world \<Rightarrow> 'd exporter list \<Rightarrow> 'd daemon \<Rightarrow> int res \<times> 'd daemon" where
  "shut_down w xs s =
     (case stop_all w (map fst (running s)) s of
        (Inl e, s) \<Rightarrow> (Inl e, s)
      | (Inr _, s) \<Rightarrow>
          (case drain_all xs s of
             (Inl e, s) \<Rightarrow> (Inl e, s)
           | (Inr _, s) \<Rightarrow> (Inr 0, s\<lparr>pid_file := None\<rparr>)))"

text \<open>
  \<open>cmd_run\<close> on a store that is open and a registry and exporters that were built; the result is the
  exit code, or \<open>None\<close> while the ticks are used up and the loop still runs.
\<close>

definition cmd_run ::
  "engine \<Rightarrow> run_options \<Rightarrow> run_limits \<Rightarrow> world \<Rightarrow> 'd exporter list \<Rightarrow> int \<Rightarrow> json dict \<Rightarrow> tick list \<Rightarrow> 'd daemon
     \<Rightarrow> int option res \<times> 'd daemon" where
  "cmd_run eng opts lims w xs pid reg ticks s0 =
     (let s = s0\<lparr>pid_file := Some (show_int pid @ [newline])\<rparr> in
      case machine_list reg of
        Inl e \<Rightarrow> (Inl e, s)
      | Inr ms \<Rightarrow>
          (case start_all eng opts w ms s of
             (Inl e, s) \<Rightarrow> (Inl e, s)
           | (Inr _, s) \<Rightarrow>
               (case drain_all xs s of
                  (Inl e, s) \<Rightarrow> (Inl e, s)
                | (Inr _, s) \<Rightarrow>
                    (case main_loop eng opts lims w xs ticks s of
                       (Inl e, s) \<Rightarrow> (Inl e, s)
                     | (Inr False, s) \<Rightarrow> (Inr None, s)
                     | (Inr True, s) \<Rightarrow>
                         (case shut_down w xs s of (Inl e, s) \<Rightarrow> (Inl e, s) | (Inr c, s) \<Rightarrow> (Inr (Some c), s))))))"

section \<open>What an operation leaves alone\<close>

fun act_id :: "act \<Rightarrow> string" where
  "act_id (Started n mid) = mid"
| "act_id (Stopped n mid) = mid"
| "act_id (Wound_Down n mid) = mid"

text \<open>Machines other than the given ones keep their entry, and nothing is done to them.\<close>

definition only_touches :: "string set \<Rightarrow> 'd daemon \<Rightarrow> 'd daemon \<Rightarrow> bool" where
  "only_touches K s s' =
     ((\<forall>k. k \<notin> K \<longrightarrow> map_of (running s') k = map_of (running s) k)
      \<and> (\<exists>new. acts s' = acts s @ new \<and> (\<forall>a \<in> set new. act_id a \<in> K))
      \<and> (\<exists>lines. stderr_out s' = stderr_out s @ lines))"

lemma only_touches_refl: "only_touches K s s"
  by (simp add: only_touches_def)

lemma only_touches_trans: "only_touches K s s1 \<Longrightarrow> only_touches L s1 s2 \<Longrightarrow> only_touches (K \<union> L) s s2"
  unfolding only_touches_def by (elim conjE exE, intro conjI) auto

lemma only_touches_mono: "only_touches K s s1 \<Longrightarrow> K \<subseteq> L \<Longrightarrow> only_touches L s s1"
  unfolding only_touches_def by blast

lemma only_touchesD:
  assumes "only_touches K s s'" "k \<notin> K"
  shows "map_of (running s') k = map_of (running s) k
    \<and> (\<exists>new. acts s' = acts s @ new \<and> (\<forall>a \<in> set new. act_id a \<noteq> k))"
  using assms unfolding only_touches_def by metis

lemma taken_out_touches: "only_touches {mid} s (taken_out mid s)"
  by (auto simp: only_touches_def taken_out_def delete_conv' split: option.splits)

lemma stop_machine_state: "stop_machine w mid s = (r, s') \<Longrightarrow> s' = taken_out mid s"
  by (auto simp: stop_machine_def taken_out_def split: if_splits option.splits)

lemma stop_machine_touches: "stop_machine w mid s = (r, s') \<Longrightarrow> only_touches {mid} s s'"
  using stop_machine_state taken_out_touches by metis

lemma stop_all_touches: "stop_all w mids s = (r, s') \<Longrightarrow> only_touches (set mids) s s'"
proof (induction mids arbitrary: s)
  case (Cons mid mids)
  obtain r1 s1 where s1: "stop_machine w mid s = (r1, s1)" by (cases "stop_machine w mid s")
  note t1 = stop_machine_touches [OF s1]
  show ?case
  proof (cases r1)
    case (Inl e)
    with Cons.prems s1 t1 show ?thesis by (auto elim: only_touches_mono)
  next
    case (Inr u)
    with Cons.prems s1 have "stop_all w mids s1 = (r, s')" by simp
    from only_touches_trans [OF t1 Cons.IH [OF this]] show ?thesis by simp
  qed
qed (simp add: only_touches_refl)

lemma machine_id_of_item: "get_item m ''machine_id'' = Inr (JStr mid) \<Longrightarrow> machine_id_of m = mid"
  by (auto simp: get_item_Inr machine_id_of_def)

lemma start_machine_cases:
  assumes "start_machine eng opts w m s = (r, s')"
  obtains (raised) e where "r = Inl e" "running s' = running s" "acts s' = acts s" "stderr_out s' = stderr_out s"
  | (failed) what where "r = Inr False" "running s' = running s" "acts s' = acts s"
      "stderr_out s' = stderr_out s @ [probe_failed_line (machine_id_of m) what]"
  | (started) "r = Inr True" "acts s' = acts s @ [Started (moment s) (machine_id_of m)]" "stderr_out s' = stderr_out s"
      "running s' = AList.update (machine_id_of m) \<lparr>instance_no = moment s, spec_of = m\<rparr> (running s)"
proof (cases "res_bind (load_machine opts w (moment s) m) (\<lambda>cls. res_bind (get_item m ''config'') (\<lambda>config.
             res_bind (get_item m ''machine_id'') (\<lambda>mid. res_bind (as_str mid) (\<lambda>mid. Inr (cls, config, mid)))))")
  case (Inl e)
  with assms have "r = Inl e" "s' = s\<lparr>moment := Suc (moment s)\<rparr>" by (simp_all add: start_machine_def Let_def)
  then show thesis by (intro raised) simp_all
next
  case (Inr x)
  then obtain cls config mid where x: "x = (cls, config, mid)" "get_item m ''machine_id'' = Inr (JStr mid)"
    by (auto simp: res_inv elim!: as_str.elims)
  note mid = machine_id_of_item [OF x(2)]
  obtain a st where a: "announce eng opts w (moment s) cls mid config m (buffer_db s) = (a, st)"
    by (cases "announce eng opts w (moment s) cls mid config m (buffer_db s)")
  show thesis
  proof (cases a)
    case (Inl e)
    show thesis
    proof (cases "is_exception e")
      case True
      with assms Inr x a Inl mid show ?thesis by (intro failed [of "exc_str w e"]) (auto simp: start_machine_def Let_def)
    next
      case False
      with assms Inr x a Inl mid show ?thesis by (intro raised [of e]) (auto simp: start_machine_def Let_def)
    qed
  next
    case ok: (Inr u)
    with assms Inr x a mid show ?thesis by (intro started) (auto simp: start_machine_def Let_def)
  qed
qed

lemma start_machine_moment: "start_machine eng opts w m s = (r, s') \<Longrightarrow> moment s' = Suc (moment s)"
  by (auto simp: start_machine_def Let_def split: sum.splits prod.splits if_splits)

lemma start_machine_touches:
  assumes "start_machine eng opts w m s = (r, s')"
  shows "only_touches {machine_id_of m} s s'"
  using assms by (cases rule: start_machine_cases) (auto simp: only_touches_def update_conv')

lemma start_all_touches: "start_all eng opts w ms s = (r, s') \<Longrightarrow> only_touches (machine_id_of ` set ms) s s'"
proof (induction ms arbitrary: s)
  case (Cons m ms)
  obtain r1 s1 where s1: "start_machine eng opts w m s = (r1, s1)" by (cases "start_machine eng opts w m s")
  note t1 = start_machine_touches [OF s1]
  show ?case
  proof (cases r1)
    case (Inl e)
    with Cons.prems s1 t1 show ?thesis by (auto elim: only_touches_mono)
  next
    case (Inr b)
    with Cons.prems s1 have "start_all eng opts w ms s1 = (r, s')" by simp
    from only_touches_trans [OF t1 Cons.IH [OF this]] show ?thesis by simp
  qed
qed (simp add: only_touches_refl)

text \<open>The two steps of a restart.\<close>

lemma restart_all_Cons:
  assumes "restart_all eng opts w (m # ms) s = (r, s')"
  obtains (not_stopped) e where "r = Inl e" "stop_machine w (machine_id_of m) s = (Inl e, s')"
  | (not_started) e s1 where "r = Inl e" "stop_machine w (machine_id_of m) s = (Inr (), s1)" "start_machine eng opts w m s1 = (Inl e, s')"
  | (restarted) b s1 s2 where "stop_machine w (machine_id_of m) s = (Inr (), s1)" "start_machine eng opts w m s1 = (Inr b, s2)"
      "restart_all eng opts w ms s2 = (r, s')"
  using assms by (auto split: prod.splits sum.splits)

lemma restart_all_touches: "restart_all eng opts w ms s = (r, s') \<Longrightarrow> only_touches (machine_id_of ` set ms) s s'"
proof (induction ms arbitrary: s)
  case (Cons m ms)
  from Cons.prems show ?case
  proof (cases rule: restart_all_Cons)
    case (not_stopped e)
    then show ?thesis by (auto dest!: stop_machine_touches elim: only_touches_mono)
  next
    case (not_started e s1)
    from only_touches_trans [OF stop_machine_touches [OF not_started(2)] start_machine_touches [OF not_started(3)]]
    show ?thesis by (rule only_touches_mono) auto
  next
    case (restarted b s1 s2)
    from only_touches_trans [OF only_touches_trans [OF stop_machine_touches [OF restarted(1)] start_machine_touches [OF restarted(2)]]
        Cons.IH [OF restarted(3)]]
    show ?thesis by (rule only_touches_mono) auto
  qed
qed (simp add: only_touches_refl)

lemma machine_id_of_with_config [simp]: "machine_id_of (with_config m) = machine_id_of m"
  by (cases m) (auto simp: machine_id_of_def with_config_def set_default_def map_of_append split: option.splits)

lemma load_registry_distinct:
  assumes "load_registry parsed = Inr reg" "machine_list reg = Inr ms"
  shows "distinct (map machine_id_of ms)"
proof -
  from assms(1) obtain data where d: "as_dict (if truthy parsed then parsed else JObj []) = Inr data"
    by (auto simp: load_registry_def res_inv)
  show ?thesis
  proof (cases "map_of data ''machines''")
    case None
    with assms d have "ms = []" by (auto simp: load_registry_def machine_list_def dict_get_def)
    then show ?thesis by simp
  next
    case (Some v)
    with assms(1) d obtain l where l: "v = JList l" by (cases v) (auto simp: load_registry_def)
    with Some d have "parsed = JObj data" by (cases "truthy parsed"; cases parsed) auto
    with assms(1) have "distinct (map machine_id_of l)" "reg = AList.update ''machines'' (JList (map with_config l)) data"
      using load_registry_ok_iff [of data l reg] Some l by simp_all
    moreover from this assms(2) have "ms = map with_config l" by (simp add: machine_list_def dict_get_def)
    ultimately show ?thesis by (simp add: comp_def)
  qed
qed

lemma checked_machines_distinct: "checked_machines opts w n file = Inr ms \<Longrightarrow> distinct (map machine_id_of ms)"
  by (auto simp: checked_machines_def res_inv dest: load_registry_distinct)

section \<open>Reload: properties\<close>

text \<open>A refused reload: nothing happens but a line, or an exception that is not an \<open>Exception\<close> goes on.\<close>

lemma reload_refused:
  assumes "checked_machines opts w (moment s) file = Inl e"
  shows "apply_reload eng opts w file s =
    (if is_exception e then (Inr (), say (refused_line (exc_str w e)) (s\<lparr>moment := Suc (moment s)\<rparr>))
     else (Inl e, s\<lparr>moment := Suc (moment s)\<rparr>))"
  using assms by (simp add: apply_reload_def Let_def)

lemma apply_reload_steps:
  assumes "checked_machines opts w (moment s) file = Inr ms" "apply_reload eng opts w file s = (r, s')"
  defines "changed \<equiv> filter (spec_changed (running s)) ms"
    and "added \<equiv> filter (\<lambda>m. map_of (running s) (machine_id_of m) = None) ms"
    and "removed \<equiv> filter (\<lambda>mid. mid \<notin> set (map machine_id_of ms)) (map fst (running s))"
  obtains (broken) e where "r = Inl e" "only_touches (set removed \<union> machine_id_of ` set changed \<union> machine_id_of ` set added) s s'"
  | (applied) s1 s2 s3 where "r = Inr ()"
      "stop_all w removed (s\<lparr>moment := Suc (moment s)\<rparr>) = (Inr (), s1)"
      "restart_all eng opts w changed s1 = (Inr (), s2)" "start_all eng opts w added s2 = (Inr (), s3)"
      "s' = say (reloaded_line (length added) (length removed) (length changed)
              (int (length (running s3)) - int (length added) - int (length changed))) s3"
proof -
  let ?s = "s\<lparr>moment := Suc (moment s)\<rparr>"
  obtain r1 s1 where s1: "stop_all w removed ?s = (r1, s1)" by (cases "stop_all w removed ?s")
  have t1: "only_touches (set removed) s s1" using stop_all_touches [OF s1] by (simp add: only_touches_def)
  obtain r2 s2 where s2: "restart_all eng opts w changed s1 = (r2, s2)" by (cases "restart_all eng opts w changed s1")
  note t2 = only_touches_trans [OF t1 restart_all_touches [OF s2]]
  obtain r3 s3 where s3: "start_all eng opts w added s2 = (r3, s3)" by (cases "start_all eng opts w added s2")
  note t3 = only_touches_trans [OF t2 start_all_touches [OF s3]]
  have run: "(r, s') = (case stop_all w removed ?s of
      (Inl e, s) \<Rightarrow> (Inl e, s)
    | (Inr _, s) \<Rightarrow> (case restart_all eng opts w changed s of
        (Inl e, s) \<Rightarrow> (Inl e, s)
      | (Inr _, s) \<Rightarrow> (case start_all eng opts w added s of
          (Inl e, s) \<Rightarrow> (Inl e, s)
        | (Inr _, s) \<Rightarrow> (Inr (), say (reloaded_line (length added) (length removed) (length changed)
              (int (length (running s)) - int (length added) - int (length changed))) s))))"
    using assms(1,2) by (simp add: apply_reload_def Let_def removed_def changed_def added_def cong: sum.case_cong prod.case_cong)
  show thesis
  proof (cases r1)
    case (Inl e)
    with run s1 have "r = Inl e" "s' = s1" by simp_all
    with t1 show ?thesis by (intro broken) (auto elim: only_touches_mono)
  next
    case one: (Inr u)
    show ?thesis
    proof (cases r2)
      case (Inl e)
      with run one s1 s2 have "r = Inl e" "s' = s2" by simp_all
      with t2 show ?thesis by (intro broken) (auto elim: only_touches_mono)
    next
      case two: (Inr v)
      show ?thesis
      proof (cases r3)
        case (Inl e)
        with run one two s1 s2 s3 have "r = Inl e" "s' = s3" by simp_all
        with t3 show ?thesis by (intro broken) auto
      next
        case (Inr x)
        with run one two s1 s2 s3 show ?thesis by (intro applied [of s1 s2 s3]) simp_all
      qed
    qed
  qed
qed

lemma apply_reload_touches:
  assumes "checked_machines opts w (moment s) file = Inr ms" "apply_reload eng opts w file s = (r, s')"
  shows "only_touches (set (filter (\<lambda>mid. mid \<notin> set (map machine_id_of ms)) (map fst (running s)))
     \<union> machine_id_of ` set (filter (spec_changed (running s)) ms)
     \<union> machine_id_of ` set (filter (\<lambda>m. map_of (running s) (machine_id_of m) = None) ms)) s s'"
  using assms
proof (cases rule: apply_reload_steps)
  case (applied s1 s2 s3)
  let ?R = "filter (\<lambda>mid. mid \<notin> set (map machine_id_of ms)) (map fst (running s))"
  have "only_touches (set ?R) s s1"
    using stop_all_touches [OF applied(2)] by (simp add: only_touches_def)
  from only_touches_trans [OF only_touches_trans [OF this restart_all_touches [OF applied(3)]] start_all_touches [OF applied(4)]]
  show ?thesis unfolding applied(5) by (auto simp: only_touches_def say_def)
qed

text \<open>C13: Machines whose specification is unchanged stream on through a reload: whatever else the reload does, and even
  if it ends in an exception, such a machine keeps the very adapter it had, which is neither stopped nor started.\<close>

theorem reload_keeps_unchanged:
  assumes "checked_machines opts w (moment s) file = Inr ms" "apply_reload eng opts w file s = (r, s')"
    and "m \<in> set ms" "map_of (running s) (machine_id_of m) = Some e" "py_eq (spec_of e) m"
  shows "map_of (running s') (machine_id_of m) = Some e
    \<and> (\<exists>new. acts s' = acts s @ new \<and> (\<forall>a \<in> set new. act_id a \<noteq> machine_id_of m))"
proof -
  let ?K = "set (filter (\<lambda>mid. mid \<notin> set (map machine_id_of ms)) (map fst (running s)))
     \<union> machine_id_of ` set (filter (spec_changed (running s)) ms)
     \<union> machine_id_of ` set (filter (\<lambda>m. map_of (running s) (machine_id_of m) = None) ms)"
  have "m' = m" if "m' \<in> set ms" "machine_id_of m' = machine_id_of m" for m'
    using checked_machines_distinct [OF assms(1)] that assms(3) by (auto simp: distinct_map inj_on_def)
  then have "machine_id_of m \<notin> ?K"
    using assms(3-5) by (auto simp: spec_changed_def)
  from only_touchesD [OF apply_reload_touches [OF assms(1,2)] this] assms(4) show ?thesis by simp
qed

lemma running_stop_machine:
  "stop_machine w mid s = (r, s') \<Longrightarrow> map_of (running s') k = (if k = mid then None else map_of (running s) k)"
  by (auto dest!: stop_machine_state simp: taken_out_def delete_conv' split: option.splits)

lemma running_stop_all:
  "stop_all w mids s = (Inr (), s') \<Longrightarrow> map_of (running s') k = (if k \<in> set mids then None else map_of (running s) k)"
proof (induction mids arbitrary: s)
  case (Cons mid mids)
  then obtain s1 where s1: "stop_machine w mid s = (Inr (), s1)" "stop_all w mids s1 = (Inr (), s')"
    by (auto split: prod.splits sum.splits)
  with Cons.IH [OF s1(2)] running_stop_machine [OF s1(1)] show ?case by auto
qed simp

text \<open>Whatever is taken out of the table had its \<open>stop\<close> called.\<close>

definition stop_called :: "'d daemon \<Rightarrow> string \<Rightarrow> 'd daemon \<Rightarrow> bool" where
  "stop_called s k s' = (\<forall>e. map_of (running s) k = Some e \<longrightarrow> Stopped (instance_no e) k \<in> set (acts s'))"

lemma stop_called_later: "stop_called s k s1 \<Longrightarrow> only_touches K s1 s2 \<Longrightarrow> stop_called s k s2"
  unfolding stop_called_def only_touches_def by auto

lemma stop_called_earlier:
  "stop_called s1 k s2 \<Longrightarrow> only_touches K s s1 \<Longrightarrow> k \<notin> K \<Longrightarrow> stop_called s k s2"
  unfolding stop_called_def only_touches_def by simp

lemma stop_machine_called: "stop_machine w mid s = (r, s') \<Longrightarrow> stop_called s mid s'"
  by (auto dest!: stop_machine_state simp: taken_out_def stop_called_def split: option.splits)

lemma stop_all_called: "stop_all w mids s = (Inr (), s') \<Longrightarrow> mid \<in> set mids \<Longrightarrow> stop_called s mid s'"
proof (induction mids arbitrary: s)
  case (Cons m mids)
  then obtain s1 where s1: "stop_machine w m s = (Inr (), s1)" "stop_all w mids s1 = (Inr (), s')"
    by (auto split: prod.splits sum.splits)
  show ?case
  proof (cases "mid = m")
    case True
    with stop_called_later [OF stop_machine_called [OF s1(1)] stop_all_touches [OF s1(2)]] show ?thesis by simp
  next
    case False
    with Cons.prems(2) stop_called_earlier [OF Cons.IH [OF s1(2)] stop_machine_touches [OF s1(1)]] show ?thesis by simp
  qed
qed simp

lemma restart_all_called:
  "restart_all eng opts w ms s = (Inr (), s') \<Longrightarrow> distinct (map machine_id_of ms) \<Longrightarrow> m \<in> set ms \<Longrightarrow> stop_called s (machine_id_of m) s'"
proof (induction ms arbitrary: s)
  case (Cons m1 ms)
  from Cons.prems(1) show ?case
  proof (cases rule: restart_all_Cons)
    case (restarted b s1 s2)
    note t = only_touches_trans [OF stop_machine_touches [OF restarted(1)] start_machine_touches [OF restarted(2)]]
    show ?thesis
    proof (cases "m = m1")
      case True
      with stop_called_later [OF stop_called_later [OF stop_machine_called [OF restarted(1)] start_machine_touches [OF restarted(2)]]
          restart_all_touches [OF restarted(3)]] show ?thesis by simp
    next
      case False
      with Cons.prems(2,3) have "m \<in> set ms" "machine_id_of m \<notin> {machine_id_of m1} \<union> {machine_id_of m1}"
        by (auto, metis imageI)
      with Cons.IH [OF restarted(3)] Cons.prems(2) stop_called_earlier [OF _ t] show ?thesis by simp
    qed
  qed simp_all
qed simp

text \<open>A machine is running as wanted, or its start failed with a message.\<close>

definition as_wanted :: "'d daemon \<Rightarrow> json \<Rightarrow> bool" where
  "as_wanted s m =
     ((\<exists>e. map_of (running s) (machine_id_of m) = Some e \<and> (spec_of e = m \<or> py_eq (spec_of e) m))
      \<or> (map_of (running s) (machine_id_of m) = None
         \<and> (\<exists>what. probe_failed_line (machine_id_of m) what \<in> set (stderr_out s))))"

lemma as_wanted_kept:
  assumes "as_wanted s m" "only_touches K s s'" "machine_id_of m \<notin> K"
  shows "as_wanted s' m"
  using assms unfolding as_wanted_def only_touches_def by auto

lemma start_machine_wanted:
  assumes "start_machine eng opts w m s = (Inr b, s')" "map_of (running s) (machine_id_of m) = None"
  shows "as_wanted s' m"
  using assms(1)
proof (cases rule: start_machine_cases)
  case (failed what)
  with assms(2) show ?thesis by (auto simp: as_wanted_def)
next
  case started
  then show ?thesis by (simp add: as_wanted_def update_conv')
qed simp

lemma restart_all_wanted:
  "restart_all eng opts w ms s = (Inr (), s') \<Longrightarrow> distinct (map machine_id_of ms) \<Longrightarrow> \<forall>m \<in> set ms. as_wanted s' m"
proof (induction ms arbitrary: s)
  case (Cons m ms)
  from Cons.prems(1) show ?case
  proof (cases rule: restart_all_Cons)
    case (restarted b s1 s2)
    have "map_of (running s1) (machine_id_of m) = None" using running_stop_machine [OF restarted(1)] by simp
    from as_wanted_kept [OF start_machine_wanted [OF restarted(2) this] restart_all_touches [OF restarted(3)]]
      Cons.IH [OF restarted(3)] Cons.prems(2)
    show ?thesis by auto
  qed simp_all
qed simp

lemma start_all_wanted:
  "start_all eng opts w ms s = (Inr (), s') \<Longrightarrow> distinct (map machine_id_of ms) \<Longrightarrow>
     \<forall>m \<in> set ms. map_of (running s) (machine_id_of m) = None \<Longrightarrow> \<forall>m \<in> set ms. as_wanted s' m"
proof (induction ms arbitrary: s)
  case (Cons m ms)
  from Cons.prems(1) obtain b s1 where s1: "start_machine eng opts w m s = (Inr b, s1)" "start_all eng opts w ms s1 = (Inr (), s')"
    by (auto split: prod.splits sum.splits)
  have "\<forall>m' \<in> set ms. map_of (running s1) (machine_id_of m') = None"
  proof
    fix m' assume m': "m' \<in> set ms"
    with Cons.prems(2) have "machine_id_of m' \<notin> {machine_id_of m}" by (simp, metis imageI)
    with only_touchesD [OF start_machine_touches [OF s1(1)] this] Cons.prems(3) m'
    show "map_of (running s1) (machine_id_of m') = None" by simp
  qed
  from Cons.IH [OF s1(2) _ this] Cons.prems(2,3)
    as_wanted_kept [OF start_machine_wanted [OF s1(1)] start_all_touches [OF s1(2)]]
  show ?case by auto
qed simp

text \<open>
  The three phases of an accepted reload: \<open>s1\<close> after the removed machines are stopped, \<open>s2\<close> after the changed ones
  are restarted, \<open>s3\<close> after the new ones are started.
\<close>

definition reload_phases ::
  "engine \<Rightarrow> run_options \<Rightarrow> world \<Rightarrow> json list \<Rightarrow> 'd daemon \<Rightarrow> 'd daemon \<Rightarrow> 'd daemon \<Rightarrow> 'd daemon \<Rightarrow> bool" where
  "reload_phases eng opts w ms s s1 s2 s3 =
     (distinct (map machine_id_of ms)
      \<and> (\<forall>k. map_of (running s1) k = (if k \<in> machine_id_of ` set ms then map_of (running s) k else None))
      \<and> restart_all eng opts w (filter (spec_changed (running s)) ms) s1 = (Inr (), s2)
      \<and> start_all eng opts w (filter (\<lambda>m. map_of (running s) (machine_id_of m) = None) ms) s2 = (Inr (), s3))"

lemma reload_outside:
  assumes "reload_phases eng opts w ms s s1 s2 s3" "k \<notin> machine_id_of ` set ms"
  shows "map_of (running s3) k = None"
proof -
  note ph = assms(1) [unfolded reload_phases_def]
  have "k \<notin> machine_id_of ` set (filter P ms)" for P using assms(2) by auto
  with only_touchesD [OF restart_all_touches, of eng opts w _ s1 "Inr ()" s2 k]
    only_touchesD [OF start_all_touches, of eng opts w _ s2 "Inr ()" s3 k] ph assms(2)
  show ?thesis by metis
qed

lemma reload_inside:
  assumes "reload_phases eng opts w ms s s1 s2 s3" "m \<in> set ms"
  shows "as_wanted s3 m"
proof -
  let ?changed = "filter (spec_changed (running s)) ms" and ?added = "filter (\<lambda>m. map_of (running s) (machine_id_of m) = None) ms"
  have d: "distinct (map machine_id_of ms)"
    and s1: "\<And>k. map_of (running s1) k = (if k \<in> machine_id_of ` set ms then map_of (running s) k else None)"
    and re: "restart_all eng opts w ?changed s1 = (Inr (), s2)" and st: "start_all eng opts w ?added s2 = (Inr (), s3)"
    using assms(1) unfolding reload_phases_def by blast+
  note t2 = restart_all_touches [OF re] and t3 = start_all_touches [OF st]
  have inj: "m = m'" if "m \<in> set ms" "m' \<in> set ms" "machine_id_of m = machine_id_of m'" for m m'
    using d that by (auto simp: distinct_map inj_on_def)
  consider (added) "m \<in> set ?added" | (changed) "m \<in> set ?changed" "m \<notin> set ?added" | (same) "m \<notin> set ?changed" "m \<notin> set ?added"
    by blast
  then show ?thesis
  proof cases
    case added
    have "map_of (running s2) (machine_id_of m') = None" if "m' \<in> set ?added" for m'
    proof -
      have "machine_id_of m' \<notin> machine_id_of ` set ?changed" using that inj by (auto simp: spec_changed_def)
      with only_touchesD [OF t2, of "machine_id_of m'"] s1 that show ?thesis by auto
    qed
    then show ?thesis using start_all_wanted [OF st] added d by (simp add: distinct_map_filter)
  next
    case changed
    with assms(2) inj have na: "machine_id_of m \<notin> machine_id_of ` set ?added" by auto
    from restart_all_wanted [OF re] d changed have "as_wanted s2 m" by (simp add: distinct_map_filter)
    from as_wanted_kept [OF this t3 na] show ?thesis .
  next
    case same
    with assms(2) inj have "machine_id_of m \<notin> machine_id_of ` set ?added" "machine_id_of m \<notin> machine_id_of ` set ?changed" by auto
    with only_touchesD [OF t2, of "machine_id_of m"] only_touchesD [OF t3, of "machine_id_of m"] s1 assms(2)
    have "map_of (running s3) (machine_id_of m) = map_of (running s) (machine_id_of m)" by auto
    with same assms(2) show ?thesis by (auto simp: as_wanted_def spec_changed_def split: option.splits)
  qed
qed

lemma as_wanted_say: "as_wanted s m \<Longrightarrow> as_wanted (say line s) m" "running (say line s) = running s"
  by (auto simp: say_def as_wanted_def)

text \<open>C12: After an accepted reload that ends without an exception, the table of running machines is what the new registry
  asks for: it has no machine outside it, and every machine in it is either in the table with that specification or its start
  failed and it is named on the standard error. The \<open>stop\<close> of every adapter that left the table has been called: those
  of the machines no longer wanted and of those whose specification changed. (What such a call achieves is another matter:
  \<open>stop_lost_in_backoff\<close>.)\<close>

theorem reload_exact:
  assumes "checked_machines opts w (moment s) file = Inr ms" "apply_reload eng opts w file s = (Inr (), s')"
  shows "(\<forall>k. map_of (running s') k \<noteq> None \<longrightarrow> k \<in> machine_id_of ` set ms) \<and> (\<forall>m \<in> set ms. as_wanted s' m)
    \<and> (\<forall>k e. map_of (running s) k = Some e \<and> (k \<notin> machine_id_of ` set ms \<or> (\<exists>m \<in> set ms. machine_id_of m = k \<and> \<not> py_eq (spec_of e) m))
         \<longrightarrow> Stopped (instance_no e) k \<in> set (acts s'))"
  using assms
proof (cases rule: apply_reload_steps)
  case (applied s1 s2 s3)
  let ?s = "s\<lparr>moment := Suc (moment s)\<rparr>" and ?changed = "filter (spec_changed (running s)) ms"
    and ?removed = "filter (\<lambda>mid. mid \<notin> set (map machine_id_of ms)) (map fst (running s))"
  note d = checked_machines_distinct [OF assms(1)]
  have "map_of (running s1) k = (if k \<in> machine_id_of ` set ms then map_of (running s) k else None)" for k
  proof -
    have "k \<in> fst ` set (running s)" if "map_of (running s) k \<noteq> None" using that by (auto simp: map_of_eq_None_iff)
    then show ?thesis by (auto simp: running_stop_all [OF applied(2)] map_of_eq_None_iff)
  qed
  with applied(3,4) d have ph: "reload_phases eng opts w ms s s1 s2 s3" by (simp add: reload_phases_def)
  note t1 = stop_all_touches [OF applied(2)] and t2 = restart_all_touches [OF applied(3)] and t3 = start_all_touches [OF applied(4)]
  have "stop_called ?s k s3" if "map_of (running s) k = Some e" "k \<notin> machine_id_of ` set ms" for k e
  proof -
    have "k \<in> set ?removed" using that map_of_SomeD [OF that(1)] by force
    from stop_called_later [OF stop_called_later [OF stop_all_called [OF applied(2) this] t2] t3] show ?thesis .
  qed
  moreover have "stop_called ?s k s3"
    if "map_of (running s) k = Some e" "m \<in> set ms" "machine_id_of m = k" "\<not> py_eq (spec_of e) m" for k e m
  proof -
    have m: "m \<in> set ?changed" using that by (simp add: spec_changed_def)
    have "stop_called s1 (machine_id_of m) s2"
      using restart_all_called [OF applied(3) _ m] d by (simp add: distinct_map_filter)
    from stop_called_earlier [OF stop_called_later [OF this t3] t1] that(2,3) show ?thesis by auto
  qed
  ultimately have "Stopped (instance_no e) k \<in> set (acts s3)"
    if "map_of (running s) k = Some e" "k \<notin> machine_id_of ` set ms \<or> (\<exists>m \<in> set ms. machine_id_of m = k \<and> \<not> py_eq (spec_of e) m)" for k e
    using that unfolding stop_called_def by auto
  moreover have "acts s' = acts s3" by (simp add: applied(5) say_def)
  ultimately show ?thesis
    using reload_inside [OF ph] reload_outside [OF ph] unfolding applied(5) as_wanted_say(2)
    by (metis as_wanted_say(1) applied(5))
qed simp

section \<open>Every adapter that is started is stopped\<close>

fun act_no :: "act \<Rightarrow> nat" where
  "act_no (Started n mid) = n"
| "act_no (Stopped n mid) = n"
| "act_no (Wound_Down n mid) = n"

fun of_daemon :: "act \<Rightarrow> bool" where
  "of_daemon (Wound_Down n mid) = False"
| "of_daemon _ = True"

text \<open>What the daemon itself did, as opposed to the \<open>emit\<close> of an adapter.\<close>

definition daemon_acts :: "'d daemon \<Rightarrow> act list" where
  "daemon_acts s = filter of_daemon (acts s)"

lemma daemon_acts_members [simp]:
  "Started n mid \<in> set (daemon_acts s) \<longleftrightarrow> Started n mid \<in> set (acts s)"
  "Stopped n mid \<in> set (daemon_acts s) \<longleftrightarrow> Stopped n mid \<in> set (acts s)"
  by (simp_all add: daemon_acts_def)

text \<open>What is running is what was started and not stopped; nothing is started or stopped twice.\<close>

definition lifecycle_ok :: "'d daemon \<Rightarrow> bool" where
  "lifecycle_ok s =
     ((\<forall>n mid. Started n mid \<in> set (acts s) \<and> Stopped n mid \<notin> set (acts s)
          \<longleftrightarrow> (\<exists>e. map_of (running s) mid = Some e \<and> instance_no e = n))
      \<and> (\<forall>n mid. Stopped n mid \<in> set (acts s) \<longrightarrow> Started n mid \<in> set (acts s))
      \<and> (\<forall>a \<in> set (daemon_acts s). act_no a < moment s) \<and> distinct (daemon_acts s))"

lemma lifecycle_running:
  "lifecycle_ok s \<Longrightarrow> Started n mid \<in> set (acts s) \<and> Stopped n mid \<notin> set (acts s)
     \<longleftrightarrow> (\<exists>e. map_of (running s) mid = Some e \<and> instance_no e = n)"
  by (simp add: lifecycle_ok_def)

lemma lifecycle_cong:
  assumes "running s' = running s" "daemon_acts s' = daemon_acts s" "moment s \<le> moment s'" "lifecycle_ok s"
  shows "lifecycle_ok s'"
  using assms(4) order_less_le_trans [OF _ assms(3)]
  unfolding lifecycle_ok_def daemon_acts_members [symmetric] assms(1,2) by blast

lemma distinct_count_list: "distinct xs \<Longrightarrow> count_list xs a = (if a \<in> set xs then 1 else 0)"
  by (induction xs) auto

lemma daemon_acts_cong: "acts s' = acts s \<Longrightarrow> daemon_acts s' = daemon_acts s"
  by (simp add: daemon_acts_def)

lemma taken_out_lifecycle:
  assumes "lifecycle_ok s"
  shows "lifecycle_ok (taken_out mid s)"
proof (cases "map_of (running s) mid")
  case (Some e)
  then have r: "Started (instance_no e) mid \<in> set (acts s)" "Stopped (instance_no e) mid \<notin> set (acts s)"
    using assms by (auto simp: lifecycle_ok_def)
  have u: "n = instance_no e" if "Started n mid \<in> set (acts s)" "Stopped n mid \<notin> set (acts s)" for n
    using lifecycle_running [OF assms, of n mid] Some that by auto
  have s': "acts (taken_out mid s) = acts s @ [Stopped (instance_no e) mid]" "moment (taken_out mid s) = Suc (moment s)"
    "daemon_acts (taken_out mid s) = daemon_acts s @ [Stopped (instance_no e) mid]"
    "map_of (running (taken_out mid s)) k = (if k = mid then None else map_of (running s) k)" for k
    using Some by (simp_all add: taken_out_def delete_conv' daemon_acts_def)
  have "Started n k \<in> set (acts (taken_out mid s)) \<and> Stopped n k \<notin> set (acts (taken_out mid s))
      \<longleftrightarrow> (\<exists>e. map_of (running (taken_out mid s)) k = Some e \<and> instance_no e = n)" for n k
    using lifecycle_running [OF assms, of n k] u [of n] Some by (cases "k = mid") (auto simp: s')
  moreover have "instance_no e < moment s" using assms r(1) by (force simp: lifecycle_ok_def simp flip: daemon_acts_members)
  ultimately show ?thesis
    using assms r unfolding lifecycle_ok_def s' by (auto simp: less_Suc_eq)
qed (simp add: taken_out_def assms)

lemma stop_machine_lifecycle: "stop_machine w mid s = (r, s') \<Longrightarrow> lifecycle_ok s \<Longrightarrow> lifecycle_ok s'"
  using stop_machine_state taken_out_lifecycle by metis

lemma stop_all_lifecycle: "stop_all w mids s = (r, s') \<Longrightarrow> lifecycle_ok s \<Longrightarrow> lifecycle_ok s'"
proof (induction mids arbitrary: s)
  case (Cons mid mids)
  obtain r1 s1 where s1: "stop_machine w mid s = (r1, s1)" by (cases "stop_machine w mid s")
  with Cons stop_machine_lifecycle [OF s1] show ?case by (auto split: sum.splits)
qed simp

lemma start_machine_lifecycle:
  assumes "start_machine eng opts w m s = (r, s')" "lifecycle_ok s" "map_of (running s) (machine_id_of m) = None"
  shows "lifecycle_ok s'"
proof -
  note mo = start_machine_moment [OF assms(1)]
  show ?thesis
    using assms(1)
  proof (cases rule: start_machine_cases)
    case started
    have da: "daemon_acts s' = daemon_acts s @ [Started (moment s) (machine_id_of m)]" by (simp add: daemon_acts_def started(2))
    have "a \<noteq> Started (moment s) mid \<and> a \<noteq> Stopped (moment s) mid" if "a \<in> set (daemon_acts s)" for a mid
      using assms(2) that by (auto simp: lifecycle_ok_def)
    then have fresh: "Started (moment s) mid \<notin> set (acts s)" "Stopped (moment s) mid \<notin> set (acts s)" for mid
      by (metis daemon_acts_members)+
    have none: "Started n (machine_id_of m) \<in> set (acts s) \<Longrightarrow> Stopped n (machine_id_of m) \<in> set (acts s)" for n
      using lifecycle_running [OF assms(2), of n "machine_id_of m"] assms(3) by auto
    show ?thesis
      using assms(2) fresh none mo
      unfolding lifecycle_ok_def started(2,4) da by (auto simp: update_conv' less_Suc_eq)
  qed (use assms(2) mo in \<open>auto elim!: lifecycle_cong [rotated 3] simp: daemon_acts_def\<close>)
qed

lemma restart_all_lifecycle:
  "restart_all eng opts w ms s = (r, s') \<Longrightarrow> lifecycle_ok s \<Longrightarrow> lifecycle_ok s'"
proof (induction ms arbitrary: s)
  case (Cons m ms)
  have start: "lifecycle_ok s2"
    if "stop_machine w (machine_id_of m) s = (Inr (), s1)" "start_machine eng opts w m s1 = (r2, s2)" for s1 r2 s2
    using start_machine_lifecycle [OF that(2) stop_machine_lifecycle [OF that(1) Cons.prems(2)]] running_stop_machine [OF that(1)] by simp
  from Cons.prems(1) show ?case
    by (cases rule: restart_all_Cons) (use start Cons stop_machine_lifecycle in \<open>blast+\<close>)
qed simp

lemma start_all_lifecycle:
  "start_all eng opts w ms s = (r, s') \<Longrightarrow> distinct (map machine_id_of ms) \<Longrightarrow>
     \<forall>m \<in> set ms. map_of (running s) (machine_id_of m) = None \<Longrightarrow> lifecycle_ok s \<Longrightarrow> lifecycle_ok s'"
proof (induction ms arbitrary: s)
  case (Cons m ms)
  obtain r1 s1 where s1: "start_machine eng opts w m s = (r1, s1)" by (cases "start_machine eng opts w m s")
  have ok: "lifecycle_ok s1" using start_machine_lifecycle [OF s1] Cons.prems by simp
  have "map_of (running s1) (machine_id_of m') = None" if "m' \<in> set ms" for m'
  proof -
    have "machine_id_of m' \<notin> {machine_id_of m}" using that Cons.prems(2) by (simp, metis imageI)
    with only_touchesD [OF start_machine_touches [OF s1] this] Cons.prems(3) that show ?thesis by simp
  qed
  then show ?case using Cons s1 ok by (auto split: sum.splits)
qed simp

lemma apply_reload_lifecycle:
  assumes "apply_reload eng opts w file s = (r, s')" "lifecycle_ok s"
  shows "lifecycle_ok s'"
proof (cases "checked_machines opts w (moment s) file")
  case (Inl e)
  with assms show ?thesis
    by (auto simp: reload_refused say_def daemon_acts_def split: if_splits elim!: lifecycle_cong [rotated 3])
next
  case (Inr ms)
  let ?s = "s\<lparr>moment := Suc (moment s)\<rparr>"
  let ?changed = "filter (spec_changed (running s)) ms"
    and ?added = "filter (\<lambda>m. map_of (running s) (machine_id_of m) = None) ms"
    and ?removed = "filter (\<lambda>mid. mid \<notin> set (map machine_id_of ms)) (map fst (running s))"
  note d = checked_machines_distinct [OF Inr]
  obtain r1 s1 where s1: "stop_all w ?removed ?s = (r1, s1)" by (cases "stop_all w ?removed ?s")
  have "lifecycle_ok ?s" by (rule lifecycle_cong [OF _ _ _ assms(2)]) (simp_all add: daemon_acts_def)
  then have ok1: "lifecycle_ok s1" by (rule stop_all_lifecycle [OF s1])
  obtain r2 s2 where s2: "restart_all eng opts w ?changed s1 = (r2, s2)" by (cases "restart_all eng opts w ?changed s1")
  note ok2 = restart_all_lifecycle [OF s2 ok1]
  obtain r3 s3 where s3: "start_all eng opts w ?added s2 = (r3, s3)" by (cases "start_all eng opts w ?added s2")
  have "lifecycle_ok s3" if "r1 = Inr ()"
  proof (rule start_all_lifecycle [OF s3 _ _ ok2])
    show "distinct (map machine_id_of ?added)" using d by (simp add: distinct_map_filter)
    show "\<forall>m \<in> set ?added. map_of (running s2) (machine_id_of m) = None"
    proof
      fix m assume m: "m \<in> set ?added"
      then have "machine_id_of m \<notin> machine_id_of ` set ?changed"
        using d by (auto simp: spec_changed_def distinct_map inj_on_def)
      from only_touchesD [OF restart_all_touches [OF s2] this] m s1 that
      show "map_of (running s2) (machine_id_of m) = None" by (simp add: running_stop_all)
    qed
  qed
  moreover have "lifecycle_ok (say line s3)" if "lifecycle_ok s3" for line
    by (rule lifecycle_cong [OF _ _ _ that]) (simp_all add: say_def daemon_acts_def)
  ultimately show ?thesis
    using assms(1) Inr s1 s2 s3 ok1 ok2
    by (cases r1; cases r2; cases r3) (auto simp: apply_reload_def Let_def)
qed

lemma drain_all_frame:
  "drain_all xs s = (r, s') \<Longrightarrow> running s' = running s \<and> acts s' = acts s \<and> moment s' = moment s \<and> pid_file s' = pid_file s"
  by (auto simp: drain_all_def Let_def split: prod.splits sum.splits if_splits)

lemma gateway_emit_frame:
  assumes "gateway_emit eng xs clock mid b s = (r, s')"
  shows "running s' = running s \<and> acts s' = acts s \<and> moment s' = moment s \<and> pid_file s' = pid_file s"
proof -
  obtain p st where p: "process eng clock mid b (buffer_db s) = (p, st)" by (cases "process eng clock mid b (buffer_db s)")
  obtain q s1 where q: "drain_all xs (s\<lparr>buffer_db := st\<rparr>) = (q, s1)" by (cases "drain_all xs (s\<lparr>buffer_db := st\<rparr>)")
  from assms p q drain_all_frame [OF q] show ?thesis
    by (cases p; cases q) (auto simp: gateway_emit_def)
qed

text \<open>What is emitted changes neither the table nor what the daemon did; only adapters are told to stop by their own \<open>emit\<close>.\<close>

lemma adapter_emit_frame:
  assumes "adapter_emit eng xs clock n mid b s = (r, s')"
  shows "running s' = running s \<and> daemon_acts s' = daemon_acts s \<and> moment s' = moment s \<and> pid_file s' = pid_file s"
proof -
  obtain g s1 where g: "gateway_emit eng xs clock mid b s = (g, s1)" by (cases "gateway_emit eng xs clock mid b s")
  with assms gateway_emit_frame [OF g] show ?thesis
    by (auto simp: adapter_emit_def daemon_acts_def split: sum.splits if_splits)
qed

lemma emit_during_frame:
  "running (emit_during eng xs es s) = running s \<and> daemon_acts (emit_during eng xs es s) = daemon_acts s
   \<and> moment (emit_during eng xs es s) = moment s \<and> pid_file (emit_during eng xs es s) = pid_file s"
proof (induction es arbitrary: s)
  case (Cons e es)
  obtain clock n mid b where e: "e = (clock, n, mid, b)" by (cases e) auto
  obtain r s1 where s1: "adapter_emit eng xs clock n mid b s = (r, s1)" by (cases "adapter_emit eng xs clock n mid b s")
  from Cons [of s1] adapter_emit_frame [OF s1] s1 show ?case by (simp add: emit_during_def e)
qed (simp add: emit_during_def)

lemma main_loop_lifecycle:
  "main_loop eng opts lims w xs ts s = (r, s') \<Longrightarrow> lifecycle_ok s \<Longrightarrow> lifecycle_ok s'"
proof (induction ts arbitrary: s)
  case (Cons t ts)
  let ?s = "emit_during eng xs (emits t) s"
  have ok: "lifecycle_ok ?s"
    by (rule lifecycle_cong [OF _ _ _ Cons.prems(2)]) (simp_all add: emit_during_frame)
  show ?case
  proof (cases "stop_evt s \<or> interrupted t \<or> stop_evt ?s")
    case True
    with Cons.prems ok show ?thesis by (auto simp: Let_def split: if_splits)
  next
    case go: False
    show ?thesis
    proof (cases "reload_file t")
      case (Some f)
      obtain r1 s1 where s1: "apply_reload eng opts w f ?s = (r1, s1)" by (cases "apply_reload eng opts w f ?s")
      with Cons.prems go Some Cons.IH [of s1] apply_reload_lifecycle [OF s1 ok] show ?thesis
        by (auto simp: Let_def split: sum.splits)
    next
      case None
      obtain p st where p: "prune (file_size lims) (prune_clock t) (map ex_name xs) (retention_days lims)
          (max_buffer_bytes lims) None (buffer_db ?s) = (p, st)"
        by (cases "prune (file_size lims) (prune_clock t) (map ex_name xs) (retention_days lims)
          (max_buffer_bytes lims) None (buffer_db ?s)")
      have "lifecycle_ok (?s\<lparr>buffer_db := st\<rparr>)" "lifecycle_ok (say line (?s\<lparr>buffer_db := st\<rparr>))" for line
        by (rule lifecycle_cong [OF _ _ _ ok]; simp add: say_def daemon_acts_def)+
      with Cons.prems go None p Cons.IH ok show ?thesis
        by (auto simp: Let_def split: sum.splits if_splits)
    qed
  qed
qed simp

text \<open>C14: When the daemon ends by itself, with the exit code 0, the \<open>stop\<close> of every adapter it ever started, at the
  beginning or in a reload, has been called by the daemon exactly once, and of no other adapter; the table of running
  machines is empty and the pid file is gone. (The \<open>emit\<close> of an adapter whose destination is gone calls its \<open>stop\<close> as
  well, which is not counted here.)\<close>

theorem every_adapter_stopped:
  assumes "load_registry parsed = Inr reg" "running s0 = []" "acts s0 = []"
    and "cmd_run eng opts lims w xs pid reg ticks s0 = (Inr (Some c), s')"
  shows "c = 0 \<and> running s' = [] \<and> pid_file s' = None
    \<and> (\<forall>n mid. count_list (acts s') (Stopped n mid) = (if Started n mid \<in> set (acts s') then 1 else 0)
         \<and> count_list (acts s') (Started n mid) \<le> 1)"
proof -
  let ?s = "s0\<lparr>pid_file := Some (show_int pid @ [newline])\<rparr>"
  from assms(4) obtain ms s1 b1 s2 s3 where run: "machine_list reg = Inr ms" "start_all eng opts w ms ?s = (Inr (), s1)"
    "drain_all xs s1 = (Inr b1, s2)" "main_loop eng opts lims w xs ticks s2 = (Inr True, s3)" "shut_down w xs s3 = (Inr c, s')"
    by (auto simp: cmd_run_def Let_def split: sum.splits prod.splits bool.splits)
  have "lifecycle_ok ?s" using assms(2,3) by (simp add: lifecycle_ok_def daemon_acts_def)
  from start_all_lifecycle [OF run(2) load_registry_distinct [OF assms(1) run(1)] _ this]
  have "lifecycle_ok s1" by (simp add: assms(2))
  with drain_all_frame [OF run(3)] have "lifecycle_ok s2" by (auto elim!: lifecycle_cong [rotated 3] simp: daemon_acts_def)
  with main_loop_lifecycle [OF run(4)] have "lifecycle_ok s3" by blast
  from run(5) obtain s4 b5 s5 where s4: "stop_all w (map fst (running s3)) s3 = (Inr (), s4)" "drain_all xs s4 = (Inr b5, s5)"
    "c = 0" "s' = s5\<lparr>pid_file := None\<rparr>"
    by (auto simp: shut_down_def split: prod.splits sum.splits)
  have ok: "lifecycle_ok s4" by (rule stop_all_lifecycle [OF s4(1) \<open>lifecycle_ok s3\<close>])
  note frame = drain_all_frame [OF s4(2)]
  have none: "map_of (running s') k = None" for k
    using frame s4(4) by (simp add: running_stop_all [OF s4(1)] map_of_eq_None_iff)
  then have "map_of (running s') = Map.empty" by blast
  then have empty: "running s' = []" by simp
  have ok': "lifecycle_ok s'"
    by (rule lifecycle_cong [OF _ _ _ ok]) (simp_all add: frame s4(4) daemon_acts_def)
  have count: "count_list (acts s') a = (if a \<in> set (acts s') then 1 else 0)" if "of_daemon a" for a
  proof -
    have "count_list (filter of_daemon as) a = count_list as a" for as using that by (induction as) auto
    then have "count_list (acts s') a = count_list (daemon_acts s') a" by (simp add: daemon_acts_def)
    moreover have "distinct (daemon_acts s')" using ok' by (simp add: lifecycle_ok_def)
    moreover have "a \<in> set (daemon_acts s') \<longleftrightarrow> a \<in> set (acts s')" using that by (simp add: daemon_acts_def)
    ultimately show ?thesis by (simp add: distinct_count_list)
  qed
  have "Stopped n mid \<in> set (acts s') \<longleftrightarrow> Started n mid \<in> set (acts s')" for n mid
    using ok' empty unfolding lifecycle_ok_def by auto
  with empty s4(3,4) count show ?thesis by simp
qed

section \<open>Reloads that are refused\<close>

text \<open>Every reload that is asked for in these turns is refused, whenever it comes.\<close>

definition all_refused :: "run_options \<Rightarrow> world \<Rightarrow> tick list \<Rightarrow> bool" where
  "all_refused opts w ts =
     (\<forall>t \<in> set ts. \<forall>file. reload_file t = Some file \<longrightarrow> (\<forall>n. \<exists>e. checked_machines opts w n file = Inl e))"

text \<open>In one of these turns a reload is refused with an exception that \<open>except Exception\<close> lets pass.\<close>

definition one_not_caught :: "run_options \<Rightarrow> world \<Rightarrow> tick list \<Rightarrow> bool" where
  "one_not_caught opts w ts =
     (\<exists>t \<in> set ts. \<exists>file. reload_file t = Some file \<and> (\<forall>n. \<exists>e. checked_machines opts w n file = Inl e \<and> \<not> is_exception e))"

definition prune_raises :: "run_limits \<Rightarrow> 'd exporter list \<Rightarrow> pyexn \<Rightarrow> bool" where
  "prune_raises lims xs e =
     (\<exists>clock st st'. prune (file_size lims) clock (map ex_name xs) (retention_days lims) (max_buffer_bytes lims) None st = (Inl e, st'))"

lemma say_frame: "running (say line s) = running s \<and> daemon_acts (say line s) = daemon_acts s \<and> pid_file (say line s) = pid_file s"
  by (simp add: say_def daemon_acts_def)

text \<open>One turn of the loop that is not cut short.\<close>

lemma refused_turn:
  assumes "checked_machines opts w (moment s) file = Inl e"
  obtains s1 where "apply_reload eng opts w file s = (if is_exception e then Inr () else Inl e, s1)"
    "running s1 = running s" "daemon_acts s1 = daemon_acts s" "pid_file s1 = pid_file s"
proof (cases "is_exception e")
  case True
  show thesis
    by (rule that [of "say (refused_line (exc_str w e)) (s\<lparr>moment := Suc (moment s)\<rparr>)"])
      (simp_all add: reload_refused [OF assms] True say_def daemon_acts_def)
next
  case False
  show thesis
    by (rule that [of "s\<lparr>moment := Suc (moment s)\<rparr>"])
      (simp_all add: reload_refused [OF assms] False daemon_acts_def)
qed


section \<open>A concrete floor\<close>

definition press_class :: adapter_class where
  "press_class = \<lparr>class_name = ''generic-serial'', class_version = ''0.1.0'', supported_profiles = []\<rparr>"

definition press_info :: machine_info where
  "press_info = \<lparr>machine_class = ''press'', info_make = None, info_model = None, info_serial = JNull,
     capabilities = [''event''], data_source = ''native''\<rparr>"

definition demo_world :: world where
  "demo_world = \<lparr>class_at = (\<lambda>_ _. Inr press_class), probe_at = (\<lambda>_ _. Ends 0 (Inr press_info)),
     stop_raises = (\<lambda>_. None),
     clock_at = (\<lambda>_. \<lparr>dt_year = 2026, dt_month = 7, dt_day = 24, dt_hour = 2, dt_minute = 0, dt_second = 0, dt_us = 0\<rparr>),
     exc_str = exn_text\<rparr>"

definition demo_opts :: run_options where
  "demo_opts = \<lparr>adapters_dir = ''adapters'', probe_timeout = 30\<rparr>"

text \<open>A machine whose announcement is dead-lettered, for its location is not integral; it starts all the same.\<close>

definition press :: json where
  "press = JObj [(''machine_id'', JStr ''press-01''), (''adapter'', JStr ''generic-serial''),
     (''location'', JObj [(''site'', JStr ''f1''), (''area'', JFloat (Fin (1 / 2)))]), (''config'', JObj [])]"

definition floor_registry :: json where
  "floor_registry = JObj [(''machines'', JList [press])]"

definition demo_daemon :: "json list daemon" where
  "demo_daemon = \<lparr>buffer_db = empty_store, running = [], acts = [], stderr_out = [], moment = 0, stop_evt = False,
     pid_file = None, destinations = []\<rparr>"

lemma press_registry: "load_registry floor_registry = Inr [(''machines'', JList [press])]"
proof -
  have "id_full ''press-01''" by (simp add: id_full_def id_tail_def id_head_def is_digit_def less_eq_char_def)
  then show ?thesis
    unfolding floor_registry_def
    by (subst load_registry_ok_iff [OF map_of_Cons_eq])
      (simp_all add: machine_ok_def dict_get_def with_config_def set_default_def press_def)
qed

lemma unfit_body_dead_letter:
  assumes "body_schema b \<in> set core_schemas" "\<not> integral_floats (JObj (body_body b))"
  shows "\<exists>st. process strict_engine clock mid b empty_store = (Inr None, st)"
proof -
  obtain m where m: "checksum (\<lambda>s. s) (body_body b) = Inl (ValueError m)"
    using assms(2) checksum_ok_iff [of "\<lambda>s. s" "body_body b"] checksum_error [of "\<lambda>s. s" "body_body b"]
    by (cases "checksum (\<lambda>s. s) (body_body b)") auto
  show ?thesis
    using assms(1)
    by (simp add: process_def finish_def next_seq_def empty_store_def last_seq_def dict_get_def bind_int_def max_int64_def
        build_envelope_def make_envelope_def strict_engine_def m dead_letter_def)
qed

lemma press_starts: "\<exists>st. start_machine strict_engine demo_opts demo_world press demo_daemon =
   (Inr True, demo_daemon\<lparr>moment := 1, buffer_db := st, acts := [Started 0 ''press-01''],
      running := [(''press-01'', \<lparr>instance_no = 0, spec_of = press\<rparr>)]\<rparr>)"
proof -
  obtain b where b: "announcement demo_world 0 press_class press_info press = Inr b" "body_schema b = ''machine''"
    "(''location'', JObj [(''site'', JStr ''f1''), (''area'', JFloat (Fin (1 / 2)))]) \<in> set (body_body b)"
    by (simp add: announcement_def press_class_def press_info_def press_def dict_get_def adapter_body_def)
  have "\<lfloor>1 / 2 :: rat\<rfloor> = 0" by (simp add: floor_eq_iff)
  then have "\<not> integral_floats (JObj [(''site'', JStr ''f1''), (''area'', JFloat (Fin (1 / 2)))])"
    by (simp add: is_integral_def trunc_rat_def)
  with b(3) have "\<not> integral_floats (JObj (body_body b))" by (force simp del: integral_floats.simps(1))
  with b(2) obtain st where "process strict_engine (clock_at demo_world 0) ''press-01'' b empty_store = (Inr None, st)"
    using unfit_body_dead_letter [of b "clock_at demo_world 0" "''press-01''"] by (auto simp: core_schemas_def)
  with b(1) have "announce strict_engine demo_opts demo_world 0 press_class ''press-01'' (JObj []) press empty_store = (Inr (), st)"
    by (simp add: announce_def demo_world_def probe_result_def demo_opts_def)
  moreover have "load_machine demo_opts demo_world 0 press = Inr press_class"
    by (simp add: load_machine_def press_def dict_item_def demo_world_def)
  moreover have "get_item press ''config'' = Inr (JObj [])" "get_item press ''machine_id'' = Inr (JStr ''press-01'')"
    by (simp_all add: press_def dict_item_def)
  ultimately show ?thesis by (simp add: start_machine_def demo_daemon_def)
qed

text \<open>The daemon after the start of the press.\<close>

definition pressing :: "store \<Rightarrow> json list daemon" where
  "pressing st = demo_daemon\<lparr>moment := 1, buffer_db := st, acts := [Started 0 ''press-01''],
      running := [(''press-01'', \<lparr>instance_no = 0, spec_of = press\<rparr>)]\<rparr>"

lemma press_id: "machine_id_of press = ''press-01''"
  by (simp add: machine_id_of_def press_def)

lemma press_same: "py_eq press press"
  by (simp add: py_eq_def press_def num_same_def)

lemma press_checked: "checked_machines demo_opts demo_world n (Inr floor_registry) = Inr [press]"
  by (simp add: checked_machines_def press_registry machine_list_def dict_get_def load_machine_def)
    (simp add: press_def dict_item_def demo_world_def)

lemma press_reload: "apply_reload strict_engine demo_opts demo_world (Inr floor_registry) (pressing st)
  = (Inr (), say (reloaded_line 0 0 0 1) (pressing st\<lparr>moment := 2\<rparr>))"
proof -
  have "checked_machines demo_opts demo_world (moment (pressing st)) (Inr floor_registry) = Inr [press]"
    by (rule press_checked)
  then show ?thesis
    by (simp add: apply_reload_def Let_def spec_changed_def press_id press_same)
      (simp add: pressing_def press_id press_same flip: numeral_2_eq_2)
qed

theorem reload_keeps_unchanged_witness:
  "map_of (running (snd (apply_reload strict_engine demo_opts demo_world (Inr floor_registry) (pressing empty_store)))) ''press-01''
   = Some \<lparr>instance_no = 0, spec_of = press\<rparr>"
proof -
  have "map_of (running (pressing empty_store)) (machine_id_of press) = Some \<lparr>instance_no = 0, spec_of = press\<rparr>"
    by (simp add: pressing_def press_id)
  from reload_keeps_unchanged [OF press_checked press_reload _ this] show ?thesis
    by (simp add: press_reload press_same press_id)
qed

theorem reload_exact_witness:
  "\<exists>s'. apply_reload strict_engine demo_opts demo_world (Inr floor_registry) (pressing empty_store) = (Inr (), s')
     \<and> as_wanted s' press"
  using reload_exact [OF press_checked press_reload [of empty_store]] press_reload [of empty_store] by auto

definition demo_limits :: run_limits where
  "demo_limits = \<lparr>deadline = Some 0, retention_days = JInt 30, max_buffer_bytes = None, file_size = (\<lambda>_. 0)\<rparr>"

definition last_tick :: tick where
  "last_tick = \<lparr>emits = [], interrupted = False, reload_file = None, mono_after = 1,
     prune_clock = \<lparr>dt_year = 2026, dt_month = 7, dt_day = 24, dt_hour = 2, dt_minute = 0, dt_second = 0, dt_us = 0\<rparr>\<rparr>"

text \<open>A registry file that cannot be read, asked for in one turn, and the deadline in the next.\<close>

definition unreadable :: tick where
  "unreadable = last_tick\<lparr>reload_file := Some (Inl (OtherError ''FileNotFoundError''))\<rparr>"


theorem every_adapter_stopped_witness:
  "\<exists>s'. cmd_run strict_engine demo_opts demo_limits demo_world [] 7 [(''machines'', JList [press])] [last_tick] demo_daemon
      = (Inr (Some 0), s')
    \<and> Started 0 ''press-01'' \<in> set (acts s') \<and> Stopped 0 ''press-01'' \<in> set (acts s')"
proof -
  have s: "start_machine eng o1 w m (s\<lparr>pid_file := p\<rparr>) = (case start_machine eng o1 w m s of (r, s') \<Rightarrow> (r, s'\<lparr>pid_file := p\<rparr>))"
    for eng o1 w m p and s :: "json list daemon"
    by (auto simp: start_machine_def Let_def split: sum.splits prod.splits)
  obtain st where st: "start_machine strict_engine demo_opts demo_world press demo_daemon = (Inr True, pressing st)"
    using press_starts by (auto simp: pressing_def)
  obtain s' where s': "cmd_run strict_engine demo_opts demo_limits demo_world [] 7 [(''machines'', JList [press])] [last_tick] demo_daemon
      = (Inr (Some 0), s')" "acts s' = [Started 0 ''press-01'', Stopped 0 ''press-01'']"
    by (simp add: cmd_run_def machine_list_def dict_get_def s st drain_all_def shut_down_def Let_def
        emit_during_def last_tick_def demo_limits_def stop_machine_def)
      (simp add: pressing_def demo_daemon_def demo_world_def Let_def emit_during_def shut_down_def drain_all_def stop_machine_def taken_out_def)
  from every_adapter_stopped [OF press_registry _ _ s'(1)] s' show ?thesis
    by (simp add: demo_daemon_def)
qed

end
