(* ===== verification/Commands.thy ===== *)
theory Commands
  imports Daemon Py_Text
begin

text \<open>
  The other commands of \<open>gateway/omp/cli.py\<close>: the exporters of a registry, the identity and the key of a
  gateway, \<open>run-once\<close>, \<open>reload\<close>, \<open>status\<close> and \<open>dead-letters\<close>. A command returns its exit code with the lines it
  prints on the standard output and on the standard error. Files are optional texts of the state.
\<close>

record printed =
  code :: int
  out_lines :: "string list"
  err_lines :: "string list"

section \<open>The exporters of a registry\<close>

datatype exporter_conf =
    Stdout_Exporter
  | Mqtt_Exporter (broker_host: string) (broker_port: int) (mqtt_prefix: json) (mqtt_locations: "json dict")

text \<open>The match of \<open>mqtt://([^:/]+)(?::(\d+))?\<close> with the whole text: its two groups.\<close>

definition match_broker :: "string \<Rightarrow> (string \<times> string option) option" where
  "match_broker url =
     (let r = drop 7 url; host = takeWhile (\<lambda>c. c \<noteq> CHR '':'' \<and> c \<noteq> CHR ''/'') r;
          rest = dropWhile (\<lambda>c. c \<noteq> CHR '':'' \<and> c \<noteq> CHR ''/'') r
      in if \<not> starts_with ''mqtt://'' url \<or> host = [] then None
         else (case rest of
             [] \<Rightarrow> Some (host, None)
           | c # ds \<Rightarrow> if c = CHR '':'' \<and> ds \<noteq> [] \<and> list_all is_digit ds then Some (host, Some ds) else None))"

definition machine_locations :: "json list \<Rightarrow> json dict res" where
  "machine_locations ms =
     res_fold (\<lambda>m d. res_bind (get_item m ''machine_id'') (\<lambda>mid. res_bind (as_str mid) (\<lambda>mid.
       res_bind (get_or m ''location'' (JObj [])) (\<lambda>loc. Inr (AList.update mid loc d))))) ms []"

definition build_mqtt :: "json dict \<Rightarrow> json \<Rightarrow> exporter_conf res" where
  "build_mqtt reg e =
     res_bind (get_item e ''broker'') (\<lambda>b. res_bind (as_str b) (\<lambda>url.
       (case match_broker url of
          None \<Rightarrow> Inl (SystemExit (''bad broker URL '' @ repr_str url))
        | Some (host, port) \<Rightarrow>
            res_bind (machine_list reg) (\<lambda>ms. res_bind (machine_locations ms) (\<lambda>locs.
            res_bind (case port of None \<Rightarrow> Inr 1883 | Some ds \<Rightarrow> int_of_text ds) (\<lambda>p.
            res_bind (get_or e ''topic_prefix'' (JStr ''omp'')) (\<lambda>pre. Inr (Mqtt_Exporter host p pre locs))))))))"

definition build_exporter :: "json dict \<Rightarrow> json \<Rightarrow> exporter_conf res" where
  "build_exporter reg e =
     res_bind (get_item e ''type'') (\<lambda>t.
       if t = JStr ''stdout'' then Inr Stdout_Exporter
       else if t = JStr ''mqtt'' then build_mqtt reg e
       else Inl (SystemExit (''unsupported exporter type '' @ repr_json t @ '' (REST/OPC UA/CSV are roadmap)'')))"

definition build_exporters :: "json dict \<Rightarrow> exporter_conf list res" where
  "build_exporters reg =
     (let configured = dict_get reg ''exporters'' (JList []) in
      if \<not> truthy configured then Inr [Stdout_Exporter]
      else res_bind (as_list configured) (res_map (build_exporter reg)))"

section \<open>Identity and key\<close>

record 'pem state_dir =
  id_file :: "string option"
  key_file :: "'pem option"

text \<open>The identity \<open>run\<close> takes, and the file it leaves.\<close>

definition resolve_identity :: "string option \<Rightarrow> string option \<Rightarrow> string" where
  "resolve_identity given file =
     (case given of Some g \<Rightarrow> g | None \<Rightarrow> (case file of Some t \<Rightarrow> strip t | None \<Rightarrow> ''gw-unnamed-01''))"

definition persist_identity :: "string \<Rightarrow> string option \<Rightarrow> string option" where
  "persist_identity g file = (if map_option strip file \<noteq> Some g then Some (g @ [newline]) else file)"

text \<open>
  \<open>GatewayKey\<close>: \<open>parse_pem\<close> is the loading of a private key, with whether it is an Ed25519 one; \<open>fresh\<close> is the
  key \<open>generate\<close> draws and \<open>write_pem\<close> its file, which is created and never overwritten.
\<close>

definition load_key :: "('pem \<Rightarrow> ('k \<times> bool) res) \<Rightarrow> string \<Rightarrow> 'pem \<Rightarrow> 'k res" where
  "load_key parse_pem path pem =
     res_bind (parse_pem pem) (\<lambda>(k, ed25519).
       if ed25519 then Inr k else Inl (ValueError (path @ '' is not an Ed25519 private key'')))"

definition generate_key :: "('k \<Rightarrow> 'pem) \<Rightarrow> 'k \<Rightarrow> 'pem option \<Rightarrow> 'k res \<times> 'pem option" where
  "generate_key write_pem fresh file =
     (case file of Some _ \<Rightarrow> (Inl (OtherError ''FileExistsError''), file) | None \<Rightarrow> (Inr fresh, Some (write_pem fresh)))"

definition load_or_generate ::
  "('pem \<Rightarrow> ('k \<times> bool) res) \<Rightarrow> ('k \<Rightarrow> 'pem) \<Rightarrow> string \<Rightarrow> 'k \<Rightarrow> 'pem option \<Rightarrow> 'k res \<times> 'pem option" where
  "load_or_generate parse_pem write_pem path fresh file =
     (case file of
        Some pem \<Rightarrow> (load_key parse_pem path pem, file)
      | None \<Rightarrow> generate_key write_pem fresh file)"

definition systemd_unit :: "string \<Rightarrow> string \<Rightarrow> string \<Rightarrow> string" where
  "systemd_unit exe prefix state_path =
     join [newline] [''[Unit]'', ''Description=Open Machine Protocol gateway'', ''After=network-online.target'', [],
       ''[Service]'', ''User=omp'',
       ''ExecStart='' @ exe @ '' run --registry '' @ prefix @ ''/registry.yaml --state-dir '' @ state_path @ '' --sign'',
       ''Restart=on-failure'', ''RestartSec=5'', [], ''[Install]'', ''WantedBy=multi-user.target'', []]"

text \<open>\<open>public\<close> gives the raw public key; the result has the registry file and the state directory after it.\<close>

definition cmd_install ::
  "('pem \<Rightarrow> ('k \<times> bool) res) \<Rightarrow> ('k \<Rightarrow> 'pem) \<Rightarrow> ('k \<Rightarrow> string) \<Rightarrow> 'k \<Rightarrow> string \<Rightarrow> string \<Rightarrow> string \<Rightarrow> string \<Rightarrow> string option
     \<Rightarrow> string option \<Rightarrow> 'pem state_dir \<Rightarrow> printed res \<times> string option \<times> 'pem state_dir" where
  "cmd_install parse_pem write_pem public fresh exe host_name prefix state_path given registry sd =
     (let g = (case given of Some g \<Rightarrow> if g = [] then ''gw-'' @ map lower_char host_name else g
               | None \<Rightarrow> ''gw-'' @ map lower_char host_name);
          registry = (case registry of None \<Rightarrow> Some (''machines: []'' @ [newline]) | Some t \<Rightarrow> Some t);
          (k, pem) = load_or_generate parse_pem write_pem (state_path @ ''/keys/gateway.pem'') fresh (key_file sd);
          sd = sd\<lparr>id_file := Some (g @ [newline]), key_file := pem\<rparr>
      in (res_bind k (\<lambda>k. Inr \<lparr>code = 0, out_lines =
             [''gateway_id: '' @ g, ''pubkey: ed25519:'' @ public_key_b64 (public k),
              ''# record both in your key registry now (DPP Evidence Chain s6)'',
              ''# systemd unit (write to /etc/systemd/system/omp-gateway.service):'',
              systemd_unit exe prefix state_path], err_lines = []\<rparr>), registry, sd))"

definition missing_line :: "string \<Rightarrow> string \<Rightarrow> string" where
  "missing_line what path =
     ''no '' @ what @ '' at '' @ path @ '' - run '' @ repr_str ''omp-gateway install-service'' @ '' (or ''
     @ repr_str ''run --sign'' @ '') against this state dir first''"

definition cmd_show_identity ::
  "('pem \<Rightarrow> ('k \<times> bool) res) \<Rightarrow> ('k \<Rightarrow> string) \<Rightarrow> string \<Rightarrow> 'pem state_dir \<Rightarrow> printed res" where
  "cmd_show_identity parse_pem public state_path sd =
     (case (id_file sd, key_file sd) of
        (None, _) \<Rightarrow> Inr \<lparr>code = 1, out_lines = [], err_lines = [missing_line ''gateway id'' (state_path @ ''/gateway_id'')]\<rparr>
      | (Some _, None) \<Rightarrow>
          Inr \<lparr>code = 1, out_lines = [], err_lines = [missing_line ''gateway keypair'' (state_path @ ''/keys/gateway.pem'')]\<rparr>
      | (Some t, Some pem) \<Rightarrow>
          res_bind (load_key parse_pem (state_path @ ''/keys/gateway.pem'') pem) (\<lambda>k.
            Inr \<lparr>code = 0, out_lines = [''gateway_id: '' @ strip t, ''pubkey: ed25519:'' @ public_key_b64 (public k)], err_lines = []\<rparr>))"

section \<open>reload, status, dead-letters\<close>

definition signal_caught :: "pyexn \<Rightarrow> bool" where
  "signal_caught e = (is_value_error e \<or> e \<in> {OtherError ''ProcessLookupError'', OtherError ''PermissionError''})"

text \<open>\<open>kill\<close> sends the hangup signal to a process.\<close>

definition cmd_reload :: "(pyexn \<Rightarrow> string) \<Rightarrow> (int \<Rightarrow> unit res) \<Rightarrow> string \<Rightarrow> string option \<Rightarrow> printed res" where
  "cmd_reload describe kill path pid_text =
     (case pid_text of
        None \<Rightarrow> Inr \<lparr>code = 1, out_lines = [], err_lines = [''no running gateway found ('' @ path @ '' absent)'']\<rparr>
      | Some t \<Rightarrow>
          (case res_bind (int_of_text (strip t)) (\<lambda>pid. res_bind (kill pid) (\<lambda>_. Inr pid)) of
             Inl e \<Rightarrow>
               if signal_caught e
               then Inr \<lparr>code = 1, out_lines = [], err_lines = [''could not signal gateway: '' @ describe e]\<rparr>
               else Inl e
           | Inr pid \<Rightarrow>
               Inr \<lparr>code = 0, out_lines = [''reload requested (pid '' @ show_int pid
                      @ ''); the gateway validates before applying and refuses an invalid registry''], err_lines = []\<rparr>))"

definition cmd_status :: "(store \<Rightarrow> int) \<Rightarrow> store \<Rightarrow> printed res" where
  "cmd_status db_bytes st =
     res_bind (snapshot_of db_bytes st) (\<lambda>snap.
       Inr \<lparr>code = 0, out_lines =
         [''machines: '' @ show_int (int (length (snap_machines snap))) @ ''  buffered: '' @ show_int (snap_buffered snap)
          @ ''  dead_letters: '' @ show_int (snap_dead_letters snap) @ ''  buffer_db: ''
          @ show_int (snap_db_bytes snap div 1024) @ '' KiB'']
         @ map (\<lambda>(m, q). ''  '' @ m @ ''  seq '' @ show_int q) (sort_key fst (snap_machines snap))
         @ map (\<lambda>(x, r). ''  exporter '' @ x @ '' at row '' @ show_int r) (sort_key fst (snap_cursors snap))
         @ map (\<lambda>(ts, n, why). ''  pruned '' @ show_int n @ '' envelope(s) at '' @ ts @ '' ('' @ why @ '')'')
             (snap_recent_prunes snap), err_lines = []\<rparr>)"

definition cmd_dead_letters :: "int \<Rightarrow> store \<Rightarrow> printed res" where
  "cmd_dead_letters limit st =
     res_bind (dead_letters limit st) (\<lambda>dead.
       Inr \<lparr>code = (if dead = [] then 0 else 1),
            out_lines = map (\<lambda>(m, ts, b, e). ts @ ''  '' @ m @ ''  '' @ e) dead, err_lines = []\<rparr>)"

section \<open>run-once\<close>

text \<open>What the adapter emits, one body: an exception goes back to the adapter's thread.\<close>

definition once_emit ::
  "engine \<Rightarrow> 'd exporter \<Rightarrow> string \<Rightarrow> datetime \<times> body \<Rightarrow> 'd \<times> store \<Rightarrow> unit res \<times> 'd \<times> store" where
  "once_emit eng x mid cb ds =
     (case process eng (fst cb) mid (snd cb) (snd ds) of
        (Inl e, st) \<Rightarrow> (Inl e, fst ds, st)
      | (Inr None, st) \<Rightarrow> (Inr (), fst ds, st)
      | (Inr (Some _), st) \<Rightarrow> drain_exporters [x] (fst ds) st)"

text \<open>The bodies emitted until the adapter stops, or until an exception ends its thread.\<close>

fun once_all ::
  "engine \<Rightarrow> 'd exporter \<Rightarrow> string \<Rightarrow> (datetime \<times> body) list \<Rightarrow> 'd \<times> store \<Rightarrow> 'd \<times> store" where
  "once_all eng x mid [] ds = ds"
| "once_all eng x mid (cb # cbs) ds =
     (case once_emit eng x mid cb ds of
        (Inl e, ds) \<Rightarrow> ds
      | (Inr _, ds) \<Rightarrow> once_all eng x mid cbs ds)"

definition dead_report :: "(string \<times> string \<times> json \<times> string) list \<Rightarrow> string list" where
  "dead_report dead =
     (''# '' @ show_nat (length dead) @ '' dead-lettered message(s):'')
     # map (\<lambda>(m, ts, b, e). ''#   '' @ m @ '' '' @ ts @ '': '' @ e) dead"

definition cmd_run_once ::
  "engine \<Rightarrow> 'd exporter \<Rightarrow> string \<Rightarrow> (datetime \<times> body) list \<Rightarrow> 'd \<times> store \<Rightarrow> printed res \<times> 'd \<times> store" where
  "cmd_run_once eng x mid cbs ds =
     (let ds = once_all eng x mid cbs ds in
      (case drain_exporters [x] (fst ds) (snd ds) of
         (Inl e, ds) \<Rightarrow> (Inl e, ds)
       | (Inr _, ds) \<Rightarrow>
           (res_bind (dead_letters 100 (snd ds)) (\<lambda>dead.
              Inr \<lparr>code = (if dead = [] then 0 else 1), out_lines = [],
                   err_lines = (if dead = [] then [] else dead_report dead)\<rparr>), ds)))"

section \<open>Properties\<close>

lemma strip_newline: "strip (g @ [newline]) = strip g"
proof -
  have sp: "is_space newline" by (simp add: is_space_def newline_def)
  show ?thesis
  proof (cases "\<forall>c \<in> set g. is_space c")
    case True
    with sp have "lstrip (g @ [newline]) = []" "lstrip g = []" by (auto simp: lstrip_def dropWhile_eq_Nil_conv)
    then show ?thesis by (simp add: strip_def)
  next
    case False
    then have "lstrip (g @ [newline]) = lstrip g @ [newline]" by (auto simp: lstrip_def dropWhile_append1)
    with sp show ?thesis by (simp add: strip_def lstrip_def)
  qed
qed

lemma load_key_Inr [simp]: "load_key parse_pem path pem = Inr k \<longleftrightarrow> parse_pem pem = Inr (k, True)"
  by (auto simp: load_key_def res_inv split: if_splits)

text \<open>The identity a gateway runs under is the one \<open>show-identity\<close> prints, with the public key it signs with, and a
  restart finds the same ones: up to white space around the identity, and for keys that their files keep.\<close>

theorem identity_persists:
  assumes "\<And>k. parse_pem (write_pem k) = Inr (k, True)"
    and "load_or_generate parse_pem write_pem path fresh (key_file sd) = (Inr k, pem)"
    and "g = resolve_identity given (id_file sd)"
    and "sd' = sd\<lparr>id_file := persist_identity g (id_file sd), key_file := pem\<rparr>"
  shows "cmd_show_identity parse_pem public p sd' =
      Inr \<lparr>code = 0, out_lines = [''gateway_id: '' @ strip g, ''pubkey: ed25519:'' @ public_key_b64 (public k)], err_lines = []\<rparr>
    \<and> resolve_identity None (id_file sd') = strip g
    \<and> load_or_generate parse_pem write_pem path fresh' (key_file sd') = (Inr k, key_file sd')"
proof -
  obtain t where t: "id_file sd' = Some t" "strip t = strip g"
    using assms(4) strip_newline [of g] by (cases "id_file sd") (auto simp: persist_identity_def split: if_splits)
  have "\<exists>pm. pem = Some pm \<and> parse_pem pm = Inr (k, True)"
  proof (cases "key_file sd")
    case None
    with assms(1) [of k] assms(2) show ?thesis by (auto simp: load_or_generate_def generate_key_def)
  next
    case (Some a)
    with assms(2) have "pem = Some a" "parse_pem a = Inr (k, True)" by (simp_all add: load_or_generate_def)
    then show ?thesis by blast
  qed
  then obtain pm where p: "pem = Some pm" "parse_pem pm = Inr (k, True)" by blast
  then have l: "load_key parse_pem path' pm = Inr k" for path' by simp
  have k: "key_file sd' = Some pm" using p assms(4) by simp
  show ?thesis
    using t l k by (simp add: cmd_show_identity_def resolve_identity_def load_or_generate_def del: load_key_Inr)
qed

theorem identity_persists_witness:
  "cmd_show_identity (\<lambda>pem. Inr (pem, True)) (\<lambda>k. k) ''/var/lib/omp''
     \<lparr>id_file = Some (''gw-07'' @ [newline]), key_file = Some ''seed''\<rparr>
   = Inr \<lparr>code = 0, out_lines = [''gateway_id: gw-07'', ''pubkey: ed25519:'' @ public_key_b64 ''seed''], err_lines = []\<rparr>"
proof -
  have s: "strip ''gw-07'' = ''gw-07''" by (simp add: strip_def lstrip_def is_space_def)
  let ?sd = "\<lparr>id_file = None, key_file = None\<rparr>"
  have "load_or_generate (\<lambda>pem. Inr (pem, True)) (\<lambda>k. k) ''p'' ''seed'' (key_file ?sd) = (Inr ''seed'', Some ''seed'')"
    by (simp add: load_or_generate_def generate_key_def)
  from identity_persists [where given = "Some ''gw-07''" and sd = ?sd and parse_pem = "\<lambda>pem. Inr (pem, True)" and public = "\<lambda>k. k"
      and p = "''/var/lib/omp''", OF _ this refl refl]
  show ?thesis by (simp add: resolve_identity_def persist_identity_def s)
qed

text \<open>\<open>run-once\<close> tells whether every message was valid: its exit code is 1 exactly when a dead letter is in the store
  at the end, and then each of the last hundred is reported.\<close>

theorem run_once_exit_code:
  assumes "cmd_run_once eng x mid cbs ds = (Inr r, d, st)"
  shows "code r = (if dead_table st = [] then 0 else 1)
    \<and> (dead_table st \<noteq> [] \<longrightarrow> length (err_lines r) = 1 + min 100 (length (dead_table st)))"
proof -
  from assms obtain dead where d: "dead_letters 100 st = Inr dead"
    "r = \<lparr>code = (if dead = [] then 0 else 1), out_lines = [], err_lines = (if dead = [] then [] else dead_report dead)\<rparr>"
    by (auto simp: cmd_run_once_def Let_def res_inv split: prod.splits sum.splits)
  have b: "bind_int 100 = Inr 100" by (simp add: bind_int_def max_int64_def)
  have "length (sql_limit 100 (rev (dead_table st))) = min 100 (length (dead_table st))"
    by (simp add: sql_limit_def)
  with d(1) b have "length dead = min 100 (length (dead_table st))"
    by (auto simp: dead_letters_def res_map_Inr_iff dest: list_all2_lengthD)
  moreover from this have "dead = [] \<longleftrightarrow> dead_table st = []" by (metis length_0_conv min_0R min_def zero_neq_numeral)
  ultimately show ?thesis using d(2) by (simp add: dead_report_def)
qed

definition odd_body :: body where
  "odd_body = \<lparr>body_schema = ''event'', body_profile = ''generic/0.1'', body_body = [(''v'', JFloat NaN)], body_event_ts = Some ''t''\<rparr>"

lemma odd_body_dead: "\<exists>st row. process strict_engine clock ''m1'' odd_body empty_store = (Inr None, st)
    \<and> buffer st = [] \<and> dead_table st = [row] \<and> dead_body row = dumps plain_opts (JObj (body_body odd_body))"
proof -
  have "\<not> integral_floats (JObj (body_body odd_body))" by (simp add: odd_body_def)
  then obtain m where m: "checksum (\<lambda>s. s) (body_body odd_body) = Inl (ValueError m)"
    using checksum_ok_iff [of "\<lambda>s. s" "body_body odd_body"] checksum_error [of "\<lambda>s. s" "body_body odd_body"]
    by (cases "checksum (\<lambda>s. s) (body_body odd_body)") auto
  have s: "body_schema odd_body \<in> set core_schemas" by (simp add: odd_body_def core_schemas_def)
  show ?thesis
    using s by (simp add: process_def finish_def next_seq_def empty_store_def last_seq_def dict_get_def bind_int_def max_int64_def
        build_envelope_def make_envelope_def strict_engine_def m dead_letter_def del: dumps.simps)
qed

theorem run_once_exit_code_witness:
  "\<exists>r d st. cmd_run_once strict_engine \<lparr>ex_name = ''stdout'', ex_publish = (\<lambda>e d. (Inr (), d @ [e]))\<rparr> ''m1''
      [(undefined, odd_body)] ([], empty_store) = (Inr r, d, st) \<and> code r = 1 \<and> length (err_lines r) = 2"
proof -
  let ?x = "\<lparr>ex_name = ''stdout'', ex_publish = (\<lambda>e d. (Inr (), d @ [e]))\<rparr> :: json list exporter"
  obtain st row where p: "process strict_engine undefined ''m1'' odd_body empty_store = (Inr None, st)"
    "buffer st = []" "dead_table st = [row]" "dead_body row = dumps plain_opts (JObj (body_body odd_body))"
    using odd_body_dead by blast
  have l: "loads (dead_body row) = Inr (JObj (body_body odd_body))"
    unfolding p(4) by (rule loads_dumps_plain) (simp_all add: odd_body_def)
  have "drain_exporters [?x] [] st = (Inr (), [], st)"
    using p(2) by (simp add: drain_def pending_def rows_after_def bind_int_def max_int64_def sql_limit_def)
  moreover have "\<exists>dead. dead_letters 100 st = Inr dead"
    using p(3) l by (simp add: dead_letters_def bind_int_def max_int64_def sql_limit_def)
  ultimately obtain r where c: "cmd_run_once strict_engine ?x ''m1'' [(undefined, odd_body)] ([], empty_store) = (Inr r, [], st)"
    using p(1) by (auto simp: cmd_run_once_def once_emit_def Let_def simp del: drain_exporters.simps)
  from run_once_exit_code [OF c] p(3) have "code r = 1" "length (err_lines r) = 2" by simp_all
  with c show ?thesis by blast
qed

text \<open>A broker URL is read back as it is written: host and port, or the host and the default port.\<close>

theorem broker_url_read_back:
  assumes "h \<noteq> []" "CHR '':'' \<notin> set h" "CHR ''/'' \<notin> set h"
  shows "match_broker (''mqtt://'' @ h @ '':'' @ show_nat p) = Some (h, Some (show_nat p))
    \<and> match_broker (''mqtt://'' @ h) = Some (h, None)"
proof -
  let ?P = "\<lambda>c. c \<noteq> CHR '':'' \<and> c \<noteq> CHR ''/''"
  have all: "\<And>c. c \<in> set h \<Longrightarrow> ?P c" using assms(2,3) by auto
  have h: "takeWhile ?P h = h" "dropWhile ?P h = []"
    "takeWhile ?P (h @ CHR '':'' # r) = h" "dropWhile ?P (h @ CHR '':'' # r) = CHR '':'' # r" for r
    using all takeWhile_append2 [of h ?P "CHR '':'' # r"] dropWhile_append2 [of h ?P "CHR '':'' # r"]
    by (auto simp: takeWhile_eq_all_conv dropWhile_eq_Nil_conv)
  have "list_all is_digit (show_nat p)" using show_nat_digits by (auto simp: list_all_iff)
  with assms(1) show ?thesis by (simp add: match_broker_def Let_def h)
qed

theorem broker_url_read_back_witness:
  "match_broker (''mqtt://broker:'' @ show_nat 1884) = Some (''broker'', Some (show_nat 1884))"
  using broker_url_read_back [of "''broker''" 1884] by simp

end
