(* ===== verification/Simulate.thy ===== *)
theory Simulate
  imports Commands Py_Num
begin

text \<open>
  \<open>tools/omp_tools/simulate.py\<close>: the simulated machines, the two production profiles, the corruption of
  messages, and the command with its two sinks. Time is simulated; a run starts at \<open>EPOCH\<close>.

  The generator of \<open>random.Random\<close> is a parameter: three functions that draw from a state and return
  the next one. What the module computes from the draws (\<open>uniform\<close>, \<open>randint\<close>, \<open>randrange\<close>, \<open>choice\<close>)
  is modelled. Argument parsing and the MQTT client are not modelled.
\<close>

section \<open>Durations\<close>

text \<open>The two groups of \<open>(\d+(?:\.\d+)?)(s|m|h)\<close> matched against the whole text.\<close>

definition match_duration :: "string \<Rightarrow> (string \<times> char) option" where
  "match_duration s =
     (let ip = takeWhile is_digit s; r = dropWhile is_digit s;
          fr = (case r of c # cs \<Rightarrow> if c = CHR ''.'' \<and> takeWhile is_digit cs \<noteq> [] then c # takeWhile is_digit cs else []
                | [] \<Rightarrow> []);
          u = drop (length fr) r
      in if ip \<noteq> [] \<and> length u = 1 \<and> hd u \<in> set ''smh'' then Some (ip @ fr, hd u) else None)"

definition unit_seconds :: "char \<Rightarrow> nat" where
  "unit_seconds c = (if c = CHR ''s'' then 1 else if c = CHR ''m'' then 60 else 3600)"

definition parse_duration :: "string \<Rightarrow> pyfloat res" where
  "parse_duration s =
     (let refuse = Inl (OtherError (''bad duration '' @ repr_str s @ '' (use e.g. 10s, 5m, 8h)'')) in
      case match_duration s of
        None \<Rightarrow> refuse
      | Some (number, u) \<Rightarrow>
          (case parse_float number of
             None \<Rightarrow> refuse
           | Some x \<Rightarrow> Inr (float_mul x (Fin (of_nat (unit_seconds u))))))"

section \<open>Random draws\<close>

record 'r generator =
  next_random :: "'r \<Rightarrow> pyfloat \<times> 'r"
  next_bits32 :: "'r \<Rightarrow> nat \<times> 'r"
  next_below :: "nat \<Rightarrow> 'r \<Rightarrow> nat \<times> 'r"

text \<open>The documented ranges: \<open>0.0 <= random() < 1.0\<close>, 32 bits, and a number below the bound.\<close>

definition generator_ok :: "'r generator \<Rightarrow> bool" where
  "generator_ok g \<longleftrightarrow>
     (\<forall>r. \<exists>q. fst (next_random g r) = Fin q \<and> 0 \<le> q \<and> q < 1)
     \<and> (\<forall>r. fst (next_bits32 g r) < 2 ^ 32)
     \<and> (\<forall>n r. 0 < n \<longrightarrow> fst (next_below g n r) < n)"

text \<open>\<open>a + (b - a) * random()\<close> for ints \<open>a\<close> and \<open>b\<close>\<close>

definition uniform :: "'r generator \<Rightarrow> int \<Rightarrow> int \<Rightarrow> 'r \<Rightarrow> pyfloat \<times> 'r" where
  "uniform g a b r =
     (case next_random g r of (x, r') \<Rightarrow> (float_add (Fin (of_int a)) (float_mul (Fin (of_int (b - a))) x), r'))"

definition randint :: "'r generator \<Rightarrow> int \<Rightarrow> int \<Rightarrow> 'r \<Rightarrow> int \<times> 'r" where
  "randint g a b r = (case next_below g (nat (b + 1 - a)) r of (n, r') \<Rightarrow> (a + int n, r'))"

definition randrange :: "'r generator \<Rightarrow> int \<Rightarrow> int \<Rightarrow> int \<Rightarrow> 'r \<Rightarrow> int \<times> 'r" where
  "randrange g a b step r =
     (case next_below g (nat ((b - a + step - 1) div step)) r of (n, r') \<Rightarrow> (a + step * int n, r'))"

definition choice :: "'r generator \<Rightarrow> 'a list \<Rightarrow> 'r \<Rightarrow> 'a \<times> 'r" where
  "choice g xs r = (case next_below g (length xs) r of (n, r') \<Rightarrow> (xs ! n, r'))"

section \<open>Machines and the simulator\<close>

definition EPOCH :: datetime where
  "EPOCH = \<lparr>dt_year = 2026, dt_month = 7, dt_day = 24, dt_hour = 2, dt_minute = 0, dt_second = 0, dt_us = 0\<rparr>"

definition iso_of :: "datetime \<Rightarrow> string" where
  "iso_of t = iso_text t"

record machine =
  sim_machine_id :: string
  sim_class :: string
  sim_caps :: "string list"
  sim_seq :: int

record 'r simulator =
  sim_profile :: string
  sim_profile_ref :: string
  sim_site :: string
  sim_area :: string
  sim_line :: string
  sim_gateway_id :: string
  sim_rng :: 'r
  sim_token :: string
  sim_sent :: "json dict list"

text \<open>The state of a run: the machine and the simulator it belongs to. \<open>sim_sent\<close> is what \<open>out\<close> was given.\<close>

type_synonym 'r sim_world = "machine \<times> 'r simulator"

definition two_digits_of :: "nat \<Rightarrow> string" where
  "two_digits_of n = (if n < 10 then CHR ''0'' # show_nat n else show_nat n)"

definition new_machine :: "'r simulator \<Rightarrow> nat \<Rightarrow> string \<Rightarrow> string list \<Rightarrow> machine" where
  "new_machine sim index cls caps =
     \<lparr>sim_machine_id = ''sim-'' @ sim_line sim @ ''-m'' @ two_digits_of index, sim_class = cls, sim_caps = caps, sim_seq = 0\<rparr>"

definition area_of :: "string \<Rightarrow> string" where
  "area_of profile = (if profile = ''textile-dyeing'' then ''dyeing'' else ''sewing'')"

text \<open>Eight hexadecimal digits of a 32-bit number.\<close>

definition hex8 :: "nat \<Rightarrow> string" where
  "hex8 n = hex4_digits (n div 65536) @ hex4_digits (n mod 65536)"

definition new_simulator :: "'r generator \<Rightarrow> string \<Rightarrow> string \<Rightarrow> string \<Rightarrow> 'r \<Rightarrow> 'r simulator" where
  "new_simulator g profile site line r =
     (case next_bits32 g r of (n, r') \<Rightarrow>
        \<lparr>sim_profile = profile, sim_profile_ref = profile @ ''/0.1'', sim_site = site, sim_area = area_of profile,
         sim_line = line, sim_gateway_id = ''gw-sim-01'', sim_rng = r', sim_token = hex8 n, sim_sent = []\<rparr>)"

text \<open>One operation after the other; an exception ends the run.\<close>

definition and_then :: "'a res \<times> 's \<Rightarrow> ('a \<Rightarrow> 's \<Rightarrow> 'b res \<times> 's) \<Rightarrow> 'b res \<times> 's" where
  "and_then p f = (case p of (Inl e, s) \<Rightarrow> (Inl e, s) | (Inr x, s) \<Rightarrow> f x s)"

lemma and_then_simps [simp]:
  "and_then (Inl e, s) f = (Inl e, s)"
  "and_then (Inr x, s) f = f x s"
  by (simp_all add: and_then_def)

definition draw :: "('r \<Rightarrow> 'a \<times> 'r) \<Rightarrow> 'r sim_world \<Rightarrow> 'a res \<times> 'r sim_world" where
  "draw d w = (case d (sim_rng (snd w)) of (x, r) \<Rightarrow> (Inr x, (fst w, (snd w)\<lparr>sim_rng := r\<rparr>)))"

definition emit :: "(string \<Rightarrow> string) \<Rightarrow> string \<Rightarrow> json dict \<Rightarrow> datetime \<Rightarrow> 'r sim_world \<Rightarrow> unit res \<times> 'r sim_world" where
  "emit H schema body t w =
     (let m = (fst w)\<lparr>sim_seq := sim_seq (fst w) + 1\<rparr>; s = snd w in
      case make_envelope H schema body (sim_profile_ref s) (sim_gateway_id s) (sim_machine_id m) (sim_seq m)
             (iso_of t) ''0.1.0'' None of
        Inl e \<Rightarrow> (Inl e, (m, s))
      | Inr env \<Rightarrow> (Inr (), (m, s\<lparr>sim_sent := sim_sent s @ [env]\<rparr>)))"

definition machine_body :: "'r sim_world \<Rightarrow> json dict" where
  "machine_body w =
     (let m = fst w; s = snd w in
      [(''machine_class'', JStr (sim_class m)), (''make'', JStr ''SimWorks''), (''model'', JStr ''SW-100''),
       (''location'', JObj [(''site'', JStr (sim_site s)), (''area'', JStr (sim_area s)), (''line'', JStr (sim_line s)),
          (''station'', JStr (drop (length (sim_machine_id m) - 3) (sim_machine_id m)))]),
       (''capabilities'', JList (map JStr (sim_caps m))),
       (''adapter'', JObj [(''name'', JStr ''omp-simulate''), (''version'', JStr ''0.1.0'')]),
       (''data_source'', JStr ''native'')])"

definition announce_machine :: "(string \<Rightarrow> string) \<Rightarrow> datetime \<Rightarrow> 'r sim_world \<Rightarrow> unit res \<times> 'r sim_world" where
  "announce_machine H t w = emit H ''machine'' (machine_body w) t w"

text \<open>\<open>t + timedelta(seconds=x)\<close>\<close>

definition later :: "datetime \<Rightarrow> pyfloat \<Rightarrow> datetime res" where
  "later t x = res_bind (timedelta_float 1000000 x) (\<lambda>d. of_instant (int (instant t) + d))"

section \<open>Cyclic machines\<close>

record cycle_vars =
  cy_t :: datetime
  cy_cycles :: int
  cy_anchor :: datetime
  cy_running :: bool

definition event_body :: "string \<Rightarrow> json dict \<Rightarrow> json dict" where
  "event_body event_type members = (''event_type'', JStr event_type) # members"

definition cycle_body :: "string \<Rightarrow> int \<Rightarrow> int \<Rightarrow> json dict" where
  "cycle_body run_id cycles ms =
     event_body ''cycle_complete''
       [(''run_id'', JStr run_id),
        (''payload'', JObj [(''cycle_count'', JInt cycles), (''cycle_time_ms'', JInt ms)])]"

text \<open>\<open>random() < p\<close> for a decimal literal \<open>p\<close>\<close>

definition chance :: "'r generator \<Rightarrow> rat \<Rightarrow> 'r \<Rightarrow> bool \<times> 'r" where
  "chance g p r = (case next_random g r of (x, r') \<Rightarrow> (float_less x (to_double p), r'))"

text \<open>The branch of a running machine; the result says whether the loop is left.\<close>

definition run_cycle ::
  "(string \<Rightarrow> string) \<Rightarrow> 'r generator \<Rightarrow> string \<Rightarrow> datetime \<Rightarrow> cycle_vars \<Rightarrow> 'r sim_world
     \<Rightarrow> (bool \<times> cycle_vars) res \<times> 'r sim_world" where
  "run_cycle H g run_id stop v w =
     and_then (draw (uniform g 18 45) w) (\<lambda>cycle_s w.
     and_then (later (cy_t v) cycle_s, w) (\<lambda>t w.
       if instant stop \<le> instant t then (Inr (True, v\<lparr>cy_t := t\<rparr>), w)
       else
         let v = v\<lparr>cy_t := t, cy_cycles := cy_cycles v + 1\<rparr> in
         and_then (float_to_int (float_mul cycle_s (Fin 1000)), w) (\<lambda>ms w.
         and_then (emit H ''event'' (cycle_body run_id (cy_cycles v) ms) t w) (\<lambda>_ w.
         and_then (draw (chance g (4 / 100)) w) (\<lambda>halts w.
           if halts then
             and_then (emit H ''event'' (event_body ''stop'' [(''payload'', JObj [(''reason'', JStr ''unknown'')])]) t w)
               (\<lambda>_ w. (Inr (False, v\<lparr>cy_running := False\<rparr>), w))
           else (Inr (False, v), w))))))"

definition restart_body :: "int \<Rightarrow> json dict" where
  "restart_body ms =
     event_body ''start'' [(''payload'', JObj [(''reason'', JStr ''unknown'')]), (''duration_ms'', JInt ms)]"

text \<open>The branch of a stopped machine.\<close>

definition run_stop ::
  "(string \<Rightarrow> string) \<Rightarrow> 'r generator \<Rightarrow> cycle_vars \<Rightarrow> 'r sim_world \<Rightarrow> (bool \<times> cycle_vars) res \<times> 'r sim_world" where
  "run_stop H g v w =
     and_then (draw (uniform g 30 240) w) (\<lambda>stop_s w.
     and_then (later (cy_t v) stop_s, w) (\<lambda>t w.
     and_then (float_to_int (float_mul stop_s (Fin 1000)), w) (\<lambda>ms w.
     and_then (emit H ''event'' (restart_body ms) t w) (\<lambda>_ w.
       (Inr (False, v\<lparr>cy_t := t, cy_running := True\<rparr>), w)))))"

definition interval_json :: "datetime \<Rightarrow> datetime \<Rightarrow> json" where
  "interval_json a b = JObj [(''start_ts'', JStr (iso_of a)), (''end_ts'', JStr (iso_of b))]"

definition energy_report :: "int \<Rightarrow> datetime \<Rightarrow> datetime \<Rightarrow> string \<Rightarrow> string \<Rightarrow> json dict" where
  "energy_report n a b source run_id =
     [(''metric'', JStr ''kwh''), (''value'', JInt n), (''interval'', interval_json a b),
      (''source'', JStr source), (''run_id'', JStr run_id)]"

text \<open>\<open>(b - a).total_seconds()\<close>\<close>

definition total_seconds :: "datetime \<Rightarrow> datetime \<Rightarrow> pyfloat res" where
  "total_seconds a b = int_truediv (int (instant b) - int (instant a)) 1000000"

definition energy_tick ::
  "(string \<Rightarrow> string) \<Rightarrow> 'r generator \<Rightarrow> string \<Rightarrow> cycle_vars \<Rightarrow> 'r sim_world \<Rightarrow> cycle_vars res \<times> 'r sim_world" where
  "energy_tick H g run_id v w =
     and_then (total_seconds (cy_anchor v) (cy_t v), w) (\<lambda>x w.
       if float_less x (Fin 3600) then (Inr v, w)
       else
         and_then (draw (randint g 0 2) w) (\<lambda>n w.
         and_then (emit H ''energy'' (energy_report n (cy_anchor v) (cy_t v) ''ct_clamp'' run_id) (cy_t v) w) (\<lambda>_ w.
           (Inr (v\<lparr>cy_anchor := cy_t v\<rparr>), w))))"

text \<open>The body of the loop, and the loop: \<open>None\<close> if it never ends.\<close>

definition cyclic_step ::
  "(string \<Rightarrow> string) \<Rightarrow> 'r generator \<Rightarrow> string \<Rightarrow> datetime \<Rightarrow> cycle_vars \<Rightarrow> 'r sim_world
     \<Rightarrow> (bool \<times> cycle_vars) res \<times> 'r sim_world" where
  "cyclic_step H g run_id stop v w =
     and_then (if cy_running v then run_cycle H g run_id stop v w else run_stop H g v w) (\<lambda>(left, v) w.
       if left then (Inr (True, v), w)
       else and_then (energy_tick H g run_id v w) (\<lambda>v w. (Inr (False, v), w)))"

partial_function (option) cyclic_loop ::
  "(string \<Rightarrow> string) \<Rightarrow> 'r generator \<Rightarrow> string \<Rightarrow> datetime \<Rightarrow> cycle_vars \<Rightarrow> 'r sim_world
     \<Rightarrow> (cycle_vars res \<times> 'r sim_world) option" where
  "cyclic_loop H g run_id stop v w =
     (if instant (cy_t v) < instant stop then
        (case cyclic_step H g run_id stop v w of
           (r, w') \<Rightarrow>
             (case r of
                Inl e \<Rightarrow> Some (Inl e, w')
              | Inr lv \<Rightarrow> if fst lv then Some (Inr (snd lv), w') else cyclic_loop H g run_id stop (snd lv) w'))
      else Some (Inr v, w))"

declare cyclic_loop.simps [simp del]

definition seq_range :: "int \<Rightarrow> int \<Rightarrow> json" where
  "seq_range a b = JObj [(''first'', JInt a), (''last'', JInt b)]"

definition shift_body :: "string \<Rightarrow> datetime \<Rightarrow> int \<Rightarrow> int \<Rightarrow> int \<Rightarrow> json dict" where
  "shift_body run_id t cycles first_no last_no =
     [(''run_id'', JStr run_id), (''run_type'', JStr ''shift''), (''start_ts'', JStr (iso_of EPOCH)),
      (''end_ts'', JStr (iso_of t)), (''outcome'', JStr ''completed''),
      (''quantities'', JList [JObj [(''name'', JStr ''cycles_total''), (''value'', JInt cycles), (''unit'', JStr ''1'')]]),
      (''event_seq_range'', seq_range first_no last_no)]"

definition run_end_cyclic ::
  "(string \<Rightarrow> string) \<Rightarrow> string \<Rightarrow> int \<Rightarrow> cycle_vars \<Rightarrow> 'r sim_world \<Rightarrow> unit res \<times> 'r sim_world" where
  "run_end_cyclic H run_id first_seq v w =
     and_then (emit H ''event'' (event_body ''run_end'' [(''run_id'', JStr run_id)]) (cy_t v) w) (\<lambda>_ w.
       emit H ''process_run'' (shift_body run_id (cy_t v) (cy_cycles v) first_seq (sim_seq (fst w))) (cy_t v) w)"

definition run_cyclic_machine ::
  "(string \<Rightarrow> string) \<Rightarrow> 'r generator \<Rightarrow> pyfloat \<Rightarrow> 'r sim_world \<Rightarrow> (unit res \<times> 'r sim_world) option" where
  "run_cyclic_machine H g seconds w =
     (case later EPOCH seconds of
        Inl e \<Rightarrow> Some (Inl e, w)
      | Inr stop \<Rightarrow>
          let run_id = ''run-'' @ sim_machine_id (fst w) @ ''-'' @ sim_token (snd w) in
          (case and_then (announce_machine H EPOCH w) (\<lambda>_ w.
                  emit H ''event'' (event_body ''run_start'' [(''run_id'', JStr run_id)]) EPOCH w) of
             (Inl e, w) \<Rightarrow> Some (Inl e, w)
           | (Inr _, w) \<Rightarrow>
               let first_seq = sim_seq (fst w) in
               map_option (\<lambda>p. and_then p (run_end_cyclic H run_id first_seq))
                 (cyclic_loop H g run_id stop
                    \<lparr>cy_t = EPOCH, cy_cycles = 0, cy_anchor = EPOCH, cy_running = True\<rparr> w)))"

section \<open>Dyeing machines\<close>

text \<open>\<open>x // y\<close> of floats, for an \<open>x\<close> that is not negative and a positive \<open>y\<close>\<close>

definition float_floordiv :: "pyfloat \<Rightarrow> rat \<Rightarrow> pyfloat" where
  "float_floordiv x y =
     (if \<not> is_finite x then NaN
      else let r = fval x - of_int (trunc_rat (fval x / y)) * y;
               q = fval (to_double (fval (to_double (fval x - r)) / y))
           in if q - of_int \<lfloor>q\<rfloor> \<le> 1 / 2 then Fin (of_int \<lfloor>q\<rfloor>) else Fin (of_int \<lfloor>q\<rfloor> + 1))"

text \<open>The phases: name and share of the duration.\<close>

definition dye_plan :: "(string \<times> rat) list" where
  "dye_plan = [(''load'', 5 / 100), (''heat'', 15 / 100), (''hold'', 35 / 100), (''cool'', 10 / 100),
     (''rinse'', 20 / 100), (''drain'', 5 / 100), (''unload'', 10 / 100)]"

definition phase_params :: "int \<Rightarrow> string \<Rightarrow> json dict" where
  "phase_params fabric_kg name =
     (if name = ''load'' then [(''fabric_kg'', JInt fabric_kg)]
      else if name = ''heat'' then [(''from_c'', JInt 30), (''to_c'', JInt 60), (''gradient_c_per_min'', JInt 2)]
      else if name = ''hold'' then [(''temp_c'', JInt 60), (''duration_min'', JInt 45)]
      else if name = ''cool'' then [(''from_c'', JInt 60), (''to_c'', JInt 40), (''gradient_c_per_min'', JInt 2)]
      else if name = ''rinse'' then [(''cycles'', JInt 2), (''temp_c'', JInt 40)]
      else [])"

text \<open>The bounds of the bath temperature in a phase, and the temperature after it.\<close>

definition phase_temps :: "string \<Rightarrow> int \<Rightarrow> (int \<times> int) \<times> int" where
  "phase_temps name temp =
     (if name = ''heat'' then ((30, 60), 60)
      else if name = ''hold'' then ((59, 61), temp)
      else if name = ''cool'' then ((40, 60), 40)
      else ((temp - 1, temp + 1), temp))"

definition bath_body :: "string \<Rightarrow> datetime \<Rightarrow> datetime \<Rightarrow> int \<Rightarrow> int \<Rightarrow> int \<Rightarrow> json dict" where
  "bath_body run_id start t lo hi n =
     [(''channel'', JStr ''bath_temp''), (''unit'', JStr ''Cel''), (''mode'', JStr ''stats''), (''run_id'', JStr run_id),
      (''stats'', JObj [(''start_ts'', JStr (iso_of start)), (''end_ts'', JStr (iso_of t)), (''min'', JInt lo),
         (''max'', JInt hi), (''avg'', JInt ((lo + hi) div 2)), (''count'', JInt n)])]"

definition phase_event :: "string \<Rightarrow> string \<Rightarrow> string \<Rightarrow> json dict" where
  "phase_event event_type run_id name =
     event_body event_type [(''run_id'', JStr run_id), (''payload'', JObj [(''phase'', JStr name)])]"

definition phase_record :: "string \<Rightarrow> datetime \<Rightarrow> datetime \<Rightarrow> json dict \<Rightarrow> json" where
  "phase_record name start t params =
     JObj [(''name'', JStr name), (''start_ts'', JStr (iso_of start)), (''end_ts'', JStr (iso_of t)),
           (''params'', JObj params)]"

definition maybe_addition ::
  "(string \<Rightarrow> string) \<Rightarrow> 'r generator \<Rightarrow> string \<Rightarrow> string \<Rightarrow> datetime \<Rightarrow> 'r sim_world \<Rightarrow> unit res \<times> 'r sim_world" where
  "maybe_addition H g run_id name t w =
     (if name \<noteq> ''hold'' then (Inr (), w)
      else
        and_then (draw (chance g (3 / 10)) w) (\<lambda>b w.
          if b then
            emit H ''event''
              (event_body ''addition'' [(''run_id'', JStr run_id), (''payload'', JObj [(''reason'', JStr ''shade_correction'')])]) t w
          else (Inr (), w)))"

text \<open>One phase: its end, the temperature after it, and its record.\<close>

definition run_phase ::
  "(string \<Rightarrow> string) \<Rightarrow> 'r generator \<Rightarrow> string \<Rightarrow> int \<Rightarrow> pyfloat \<Rightarrow> string \<times> rat \<Rightarrow> datetime \<times> int \<Rightarrow> 'r sim_world
     \<Rightarrow> (datetime \<times> int \<times> json) res \<times> 'r sim_world" where
  "run_phase H g run_id fabric_kg seconds phase tt w =
     (let name = fst phase; start = fst tt; phase_s = float_mul seconds (to_double (snd phase));
          ((lo, hi), temp) = phase_temps name (snd tt) in
      and_then (emit H ''event'' (phase_event ''phase_start'' run_id name) start w) (\<lambda>_ w.
      and_then (later start phase_s, w) (\<lambda>t w.
      and_then (float_to_int (float_floordiv phase_s 10), w) (\<lambda>n w.
      and_then (emit H ''telemetry'' (bath_body run_id start t lo hi (max n 1)) t w) (\<lambda>_ w.
      and_then (maybe_addition H g run_id name t w) (\<lambda>_ w.
      and_then (emit H ''event'' (phase_event ''phase_end'' run_id name) t w) (\<lambda>_ w.
        (Inr (t, temp, phase_record name start t (phase_params fabric_kg name)), w))))))))"

fun run_phases ::
  "(string \<Rightarrow> string) \<Rightarrow> 'r generator \<Rightarrow> string \<Rightarrow> int \<Rightarrow> pyfloat \<Rightarrow> (string \<times> rat) list \<Rightarrow> datetime \<times> int \<Rightarrow> json list
     \<Rightarrow> 'r sim_world \<Rightarrow> (datetime \<times> json list) res \<times> 'r sim_world" where
  "run_phases H g run_id fabric_kg seconds [] tt js w = (Inr (fst tt, js), w)"
| "run_phases H g run_id fabric_kg seconds (ph # phs) tt js w =
     and_then (run_phase H g run_id fabric_kg seconds ph tt w) (\<lambda>(t, temp, j) w.
       run_phases H g run_id fabric_kg seconds phs (t, temp) (js @ [j]) w)"

definition batch_body :: "string \<Rightarrow> datetime \<Rightarrow> json list \<Rightarrow> int \<Rightarrow> int \<Rightarrow> int \<Rightarrow> json dict" where
  "batch_body run_id t phases fabric_kg first_no last_no =
     [(''run_id'', JStr run_id), (''run_type'', JStr ''batch''), (''start_ts'', JStr (iso_of EPOCH)),
      (''end_ts'', JStr (iso_of t)), (''outcome'', JStr ''completed''), (''phases'', JList phases),
      (''quantities'', JList
         [JObj [(''name'', JStr ''fabric_kg''), (''value'', JInt fabric_kg), (''unit'', JStr ''kg'')],
          JObj [(''name'', JStr ''water_l_total''), (''value'', JInt (fabric_kg * 4)), (''unit'', JStr ''L'')]]),
      (''event_seq_range'', seq_range first_no last_no)]"

definition run_end_dye ::
  "(string \<Rightarrow> string) \<Rightarrow> 'r generator \<Rightarrow> string \<Rightarrow> int \<Rightarrow> int \<Rightarrow> datetime \<times> json list \<Rightarrow> 'r sim_world \<Rightarrow> unit res \<times> 'r sim_world" where
  "run_end_dye H g run_id fabric_kg first_seq tp w =
     and_then (draw (randint g 30 60) w) (\<lambda>n w.
     and_then (emit H ''energy'' (energy_report n EPOCH (fst tp) ''submeter'' run_id) (fst tp) w) (\<lambda>_ w.
     and_then (emit H ''event'' (event_body ''run_end'' [(''run_id'', JStr run_id)]) (fst tp) w) (\<lambda>_ w.
       emit H ''process_run'' (batch_body run_id (fst tp) (snd tp) fabric_kg first_seq (sim_seq (fst w))) (fst tp) w)))"

definition run_dye_machine ::
  "(string \<Rightarrow> string) \<Rightarrow> 'r generator \<Rightarrow> pyfloat \<Rightarrow> 'r sim_world \<Rightarrow> unit res \<times> 'r sim_world" where
  "run_dye_machine H g seconds w =
     (let run_id = ''batch-'' @ sim_machine_id (fst w) @ ''-'' @ sim_token (snd w) in
      and_then (announce_machine H EPOCH w) (\<lambda>_ w.
      and_then (emit H ''event'' (event_body ''run_start'' [(''run_id'', JStr run_id)]) EPOCH w) (\<lambda>_ w.
        let first_seq = sim_seq (fst w) in
        and_then (draw (randrange g 300 600 20) w) (\<lambda>fabric_kg w.
        and_then (run_phases H g run_id fabric_kg seconds dye_plan (EPOCH, 30) [] w) (\<lambda>tp w.
          run_end_dye H g run_id fabric_kg first_seq tp w)))))"

section \<open>All machines\<close>

definition run_machine ::
  "(string \<Rightarrow> string) \<Rightarrow> 'r generator \<Rightarrow> pyfloat \<Rightarrow> nat \<Rightarrow> 'r simulator \<Rightarrow> (unit res \<times> 'r sim_world) option" where
  "run_machine H g seconds i s =
     (if sim_profile s = ''textile-dyeing'' then
        Some (run_dye_machine H g seconds
          (new_machine s i ''jet_dyeing'' [''event'', ''process_run'', ''energy'', ''telemetry''], s))
      else
        run_cyclic_machine H g seconds
          (new_machine s i (if sim_profile s = ''textile-sewing'' then ''lockstitch'' else ''unclassified'')
             [''event'', ''process_run'', ''energy''], s))"

fun run_machines ::
  "(string \<Rightarrow> string) \<Rightarrow> 'r generator \<Rightarrow> pyfloat \<Rightarrow> nat list \<Rightarrow> 'r simulator \<Rightarrow> (unit res \<times> 'r simulator) option" where
  "run_machines H g seconds [] s = Some (Inr (), s)"
| "run_machines H g seconds (i # ms) s =
     (case run_machine H g seconds i s of
        None \<Rightarrow> None
      | Some (Inl e, w) \<Rightarrow> Some (Inl e, snd w)
      | Some (Inr _, w) \<Rightarrow> run_machines H g seconds ms (snd w))"

definition run_simulator ::
  "(string \<Rightarrow> string) \<Rightarrow> 'r generator \<Rightarrow> int \<Rightarrow> pyfloat \<Rightarrow> 'r simulator \<Rightarrow> (unit res \<times> 'r simulator) option" where
  "run_simulator H g machines seconds s = run_machines H g seconds [1..<nat (machines + 1)] s"

section \<open>Corruption\<close>

text \<open>\<open>isinstance(v, int)\<close>; a bool is one.\<close>

definition is_int :: "json \<Rightarrow> bool" where
  "is_int v = (case v of JInt i \<Rightarrow> True | JBool b \<Rightarrow> True | _ \<Rightarrow> False)"

text \<open>The first int member becomes its text; \<open>None\<close> if there is none.\<close>

fun flip_first :: "json dict \<Rightarrow> json dict option" where
  "flip_first [] = None"
| "flip_first (kv # d) =
     (if is_int (snd kv) then Some ((fst kv, JStr (str_json (snd kv))) # d) else map_option ((#) kv) (flip_first d))"

definition zero_checksum :: string where
  "zero_checksum = replicate 64 (CHR ''0'')"

definition flip_types :: "json dict \<Rightarrow> json dict \<Rightarrow> json dict res" where
  "flip_types env body =
     res_bind (dict_item body ''payload'') (\<lambda>p.
       (case p of
          JObj d \<Rightarrow>
            Inr (case flip_first d of
                   Some d' \<Rightarrow> AList.update ''body'' (JObj (AList.update ''payload'' (JObj d') body)) env
                 | None \<Rightarrow> AList.update ''checksum'' (JStr zero_checksum) env)
        | _ \<Rightarrow> Inl (OtherError ''AttributeError'')))"

text \<open>The checksum with its first character replaced.\<close>

definition flip_checksum :: "json dict \<Rightarrow> json dict res" where
  "flip_checksum env =
     res_bind (dict_item env ''checksum'') (\<lambda>c. res_bind (as_str c) (\<lambda>s.
       (case s of
          [] \<Rightarrow> Inl IndexError
        | x # xs \<Rightarrow> Inr (AList.update ''checksum'' (JStr ((if x \<noteq> CHR ''f'' then CHR ''f'' else CHR ''0'') # xs)) env))))"

definition break_envelope :: "string \<Rightarrow> json dict \<Rightarrow> json dict res" where
  "break_envelope kind env =
     res_bind (dict_item env ''body'') (\<lambda>b.
     res_bind
       (if kind = ''type_flip'' then
          res_bind (dict_item env ''schema'') (\<lambda>s. if s = JStr ''event'' then has_key b ''payload'' else Inr False)
        else Inr False) (\<lambda>flip.
     if flip then res_bind (as_dict b) (flip_types env)
     else if kind = ''checksum'' then flip_checksum env
     else Inr (AList.update ''unexpected_field'' (JBool True) env)))"

definition corrupt :: "'r generator \<Rightarrow> json dict \<Rightarrow> 'r \<Rightarrow> json dict res \<times> 'r" where
  "corrupt g envelope r =
     (case choice g [''type_flip'', ''checksum'', ''field''] r of
        (kind, r') \<Rightarrow>
          (res_bind (loads (dumps default_opts (JObj envelope))) (\<lambda>v. res_bind (as_dict v) (break_envelope kind)), r'))"

section \<open>The command\<close>

datatype sink = Stdout_Sink | Mqtt_Sink string int

text \<open>\<open>_make_sink\<close>; the last argument says whether the MQTT client library is installed.\<close>

definition make_sink :: "string option \<Rightarrow> bool \<Rightarrow> sink res" where
  "make_sink export have_mqtt =
     (case export of
        None \<Rightarrow> Inr Stdout_Sink
      | Some url \<Rightarrow>
          if url = [] then Inr Stdout_Sink
          else (case match_broker url of
                  None \<Rightarrow> Inl (SystemExit ''2'')
                | Some (host, port) \<Rightarrow>
                    if \<not> have_mqtt then Inl (SystemExit ''2'')
                    else res_bind (case port of None \<Rightarrow> Inr 1883 | Some ds \<Rightarrow> int_of_text ds) (\<lambda>p. Inr (Mqtt_Sink host p))))"

datatype delivery = Printed string | Published (pub_topic: string) (pub_payload: string) (pub_qos: nat)

record sim_args =
  arg_profile :: string
  arg_machines :: int
  arg_duration :: pyfloat
  arg_chaos :: bool
  arg_chaos_rate :: pyfloat
  arg_export :: "string option"
  arg_site :: string
  arg_line :: string

definition sink_deliver :: "sim_args \<Rightarrow> sink \<Rightarrow> json dict \<Rightarrow> delivery res" where
  "sink_deliver args sink env =
     (let payload = dumps plain_opts (JObj env) in
      case sink of
        Stdout_Sink \<Rightarrow> Inr (Printed payload)
      | Mqtt_Sink host port \<Rightarrow>
          res_bind (dict_item env ''machine_id'') (\<lambda>m. res_bind (dict_item env ''schema'') (\<lambda>s.
            Inr (Published (''omp/'' @ arg_site args @ ''/'' @ area_of (arg_profile args) @ ''/'' @ arg_line args @ ''/''
                   @ str_json m @ ''/'' @ str_json s) payload 1))))"

text \<open>\<open>out\<close>: the deliveries so far and the generator of the corruption.\<close>

definition sim_out ::
  "'r generator \<Rightarrow> sim_args \<Rightarrow> sink \<Rightarrow> json dict \<Rightarrow> delivery list \<times> 'r \<Rightarrow> unit res \<times> delivery list \<times> 'r" where
  "sim_out g args sink env dr =
     (let (ds, r) = dr;
          (hit, r) = (if arg_chaos args then
                        (case next_random g r of (x, r') \<Rightarrow> (float_less x (arg_chaos_rate args), r'))
                      else (False, r));
          (e, r) = (if hit then corrupt g env r else (Inr env, r))
      in case res_bind e (sink_deliver args sink) of
           Inl x \<Rightarrow> (Inl x, ds, r)
         | Inr d \<Rightarrow> (Inr (), ds @ [d], r))"

fun sim_out_all ::
  "'r generator \<Rightarrow> sim_args \<Rightarrow> sink \<Rightarrow> json dict list \<Rightarrow> delivery list \<times> 'r \<Rightarrow> unit res \<times> delivery list \<times> 'r" where
  "sim_out_all g args sink [] dr = (Inr (), dr)"
| "sim_out_all g args sink (env # envs) dr = and_then (sim_out g args sink env dr) (\<lambda>_. sim_out_all g args sink envs)"

text \<open>
  \<open>main\<close>: the exit code and the deliveries. The simulator and the corruption have a generator state each.
  \<open>out\<close> is called for every envelope as it is emitted; an exception of the simulator ends the run after the
  envelopes emitted before it, and one of \<open>out\<close> ends it at once.
\<close>

definition simulate_main ::
  "(string \<Rightarrow> string) \<Rightarrow> 'r generator \<Rightarrow> bool \<Rightarrow> sim_args \<Rightarrow> 'r \<Rightarrow> 'r \<Rightarrow> (int res \<times> delivery list) option" where
  "simulate_main H g have_mqtt args r0 r1 =
     (case make_sink (arg_export args) have_mqtt of
        Inl e \<Rightarrow> Some (Inl e, [])
      | Inr sink \<Rightarrow>
          map_option (\<lambda>(x, s).
            (case and_then (sim_out_all g args sink (sim_sent s) ([], r1)) (\<lambda>_ dr. (x, dr)) of
               (y, ds, _) \<Rightarrow> (res_bind y (\<lambda>_. Inr 0), ds)))
            (run_simulator H g (arg_machines args) (arg_duration args)
               (new_simulator g (arg_profile args) (arg_site args) (arg_line args) r0)))"

end
