(* ===== verification/Py_Utf8.thy ===== *)
theory Py_Utf8
  imports Json_Roundtrip
begin

text \<open>
  \<open>bytes.decode(errors="replace")\<close>: the lenient UTF-8 decoder of the standard library, over the bytes of a
  \<^typ>\<open>string\<close>. Texts are UTF-8 themselves, so on valid input the decoder is the identity. Then
  \<open>str.splitlines()\<close>.
\<close>

section \<open>Decoding\<close>

text \<open>U+FFFD, which stands for what cannot be decoded.\<close>

definition replacement :: string where
  "replacement = utf8 65533"

text \<open>
  \<open>raw.decode(errors="replace")\<close>: a byte that cannot start or continue a UTF-8 sequence ends it, and the part
  read so far is replaced. \<open>follow b\<close> is the range of the byte after the first byte \<open>b\<close> and the number of
  bytes after it.
\<close>

definition is_cont :: "char \<Rightarrow> bool" where
  "is_cont c = (128 \<le> (of_char c :: nat) \<and> (of_char c :: nat) < 192)"

definition follow :: "nat \<Rightarrow> ((nat \<times> nat) \<times> nat) option" where
  "follow b =
     (if 194 \<le> b \<and> b \<le> 223 then Some ((128, 191), 1)
      else if b = 224 then Some ((160, 191), 2)
      else if b = 237 then Some ((128, 159), 2)
      else if 225 \<le> b \<and> b \<le> 239 then Some ((128, 191), 2)
      else if b = 240 then Some ((144, 191), 3)
      else if 241 \<le> b \<and> b \<le> 243 then Some ((128, 191), 3)
      else if b = 244 then Some ((128, 143), 3)
      else None)"

text \<open>The bytes of one character and what is left, or the number of bytes to replace.\<close>

definition take_char :: "char \<Rightarrow> string \<Rightarrow> string option \<times> string" where
  "take_char a s =
     (if (of_char a :: nat) < 128 then (Some [a], s)
      else case follow (of_char a) of
        None \<Rightarrow> (None, s)
      | Some ((lo, hi), k) \<Rightarrow>
          (case s of
             [] \<Rightarrow> (None, [])
           | c # cs \<Rightarrow>
               if lo \<le> of_char c \<and> of_char c \<le> hi then
                 let more = takeWhile is_cont (take (k - 1) cs) in
                 if length more = k - 1 then (Some (a # c # more), drop (k - 1) cs)
                 else (None, drop (length more) cs)
               else (None, s)))"

lemma take_char_length: "take_char a s = (ch, r) \<Longrightarrow> length r \<le> length s"
  by (auto simp: take_char_def Let_def split: if_splits option.splits list.splits)

function utf8_decode :: "string \<Rightarrow> string" where
  "utf8_decode [] = []"
| "utf8_decode (a # s) =
     (case take_char a s of (ch, r) \<Rightarrow>
        (case ch of Some cs \<Rightarrow> cs | None \<Rightarrow> replacement) @ utf8_decode r)"
  by pat_completeness auto

termination
  by (relation "measure length") (auto simp: less_Suc_eq_le intro: take_char_length [OF sym])

section \<open>Valid text is kept\<close>

lemma is_cont_low: "m < 64 \<Longrightarrow> is_cont (char_of (128 + m :: nat))"
  by (simp add: is_cont_def of_char_byte)

lemma take_char_utf8:
  assumes "scalar n"
  shows "\<exists>a s. utf8 n @ r = a # s \<and> take_char a s = (Some (utf8 n), r)"
proof -
  have n: "n < 1114112" "n < 55296 \<or> 57343 < n" using assms by (auto simp: scalar_def)
  consider "n < 128" | "128 \<le> n" "n < 2048" | "2048 \<le> n" "n < 65536" | "65536 \<le> n" by linarith
  then show ?thesis
  proof cases
    case 1
    then show ?thesis by (simp add: utf8_def take_char_def of_char_byte)
  next
    case 2
    then have b: "2 \<le> n div 64" "n div 64 < 32" by (simp_all add: less_mult_imp_div_less)
    then have "follow (192 + n div 64) = Some ((128, 191), 1)" by (simp add: follow_def)
    moreover have "n mod 64 < 64" by simp
    ultimately show ?thesis using 2 b by (simp add: utf8_def take_char_def of_char_byte)
  next
    case 3
    have d: "n div 4096 < 16" using 3(2) by (simp add: less_mult_imp_div_less)
    have m: "n div 64 mod 64 < 64" "n mod 64 < 64" by simp_all
    have e: "n div 64 = n div 4096 * 64 + n div 64 mod 64"
      using div_mult_mod_eq [of "n div 64" 64] by (simp add: div_mult2_eq [symmetric])
    have f0: "n div 4096 = 0 \<Longrightarrow> 32 \<le> n div 64 mod 64" using e 3(1) by simp
    have f13: "n div 4096 = 13 \<Longrightarrow> n div 64 mod 64 < 32"
    proof -
      assume "n div 4096 = 13"
      then have "n < 57344" using div_mult_mod_eq [of n 4096] mod_less_divisor [of 4096 n] by linarith
      with n have "n < 55296" by linarith
      then have "n div 64 < 864" by (simp add: less_mult_imp_div_less)
      with e \<open>n div 4096 = 13\<close> show ?thesis by simp
    qed
    obtain lo hi where f: "follow (224 + n div 4096) = Some ((lo, hi), 2)" "lo \<le> 128 + n div 64 mod 64" "128 + n div 64 mod 64 \<le> hi"
    proof -
      consider "n div 4096 = 0" | "n div 4096 = 13" | "n div 4096 \<noteq> 0" "n div 4096 \<noteq> 13" by blast
      then show thesis
      proof cases
        case 1
        then show thesis using f0 m by (intro that [of 160 191]) (simp_all add: follow_def)
      next
        case 2
        then show thesis using f13 m by (intro that [of 128 159]) (simp_all add: follow_def)
      next
        case 3
        then show thesis using d m by (intro that [of 128 191]) (simp_all add: follow_def)
      qed
    qed
    have c: "is_cont (char_of (128 + n mod 64))" by (rule is_cont_low) simp
    show ?thesis using 3 d m f c by (simp add: utf8_def take_char_def of_char_byte Let_def)
  next
    case 4
    have d: "n div 262144 \<le> 4" using n(1) by (simp add: less_mult_imp_div_less Suc_leI flip: less_Suc_eq_le)
    have m: "n div 4096 mod 64 < 64" "n div 64 mod 64 < 64" "n mod 64 < 64" by simp_all
    have e: "n div 4096 = n div 262144 * 64 + n div 4096 mod 64"
      using div_mult_mod_eq [of "n div 4096" 64] by (simp add: div_mult2_eq [symmetric])
    have g: "16 \<le> n div 4096" "n div 4096 < 272" using 4 n(1) by (simp_all add: less_mult_imp_div_less less_eq_div_iff_mult_less_eq)
    obtain lo hi where f: "follow (240 + n div 262144) = Some ((lo, hi), 3)" "lo \<le> 128 + n div 4096 mod 64" "128 + n div 4096 mod 64 \<le> hi"
    proof -
      consider "n div 262144 = 0" | "n div 262144 = 4" | "n div 262144 \<noteq> 0" "n div 262144 < 4" using d by linarith
      then show thesis
      proof cases
        case 1
        then show thesis using e g m by (intro that [of 144 191]) (simp_all add: follow_def)
      next
        case 2
        then show thesis using e g m by (intro that [of 128 143]) (simp_all add: follow_def)
      next
        case 3
        then show thesis using m by (intro that [of 128 191]) (simp_all add: follow_def)
      qed
    qed
    have c: "is_cont (char_of (128 + n mod 64))" "is_cont (char_of (128 + n div 64 mod 64))" by (rule is_cont_low, simp)+
    show ?thesis using 4 d m f c by (simp add: utf8_def take_char_def of_char_byte Let_def)
  qed
qed

text \<open>On valid UTF-8 the lenient decoder is the identity.\<close>

lemma utf8_decode_valid: "utf8_ok s \<Longrightarrow> utf8_decode s = s"
proof -
  have "list_all scalar ns \<Longrightarrow> utf8_decode (concat (map utf8 ns)) = concat (map utf8 ns)" for ns
  proof (induction ns)
    case (Cons n ns)
    then obtain a s where a: "utf8 n @ concat (map utf8 ns) = a # s" "take_char a s = (Some (utf8 n), concat (map utf8 ns))"
      using take_char_utf8 [of n "concat (map utf8 ns)"] by auto
    have "utf8_decode (a # s) = utf8 n @ utf8_decode (concat (map utf8 ns))" by (simp add: a(2))
    with Cons a(1) show ?case by simp
  qed simp
  then show "utf8_ok s \<Longrightarrow> utf8_decode s = s" unfolding utf8_ok_def by metis
qed

section \<open>Lines of a text\<close>

text \<open>
  What follows a line boundary at the beginning: CR LF, CR, LF, VT, FF, the separators FS, GS and RS, NEL, and the
  line and paragraph separators U+2028 and U+2029.
\<close>

definition line_end :: "string \<Rightarrow> string option" where
  "line_end s =
     (case s of
        [] \<Rightarrow> None
      | c # r \<Rightarrow>
          if take 2 s = [CHR 0x0D, CHR 0x0A] then Some (drop 2 s)
          else if (of_char c :: nat) \<in> {10, 11, 12, 13, 28, 29, 30} then Some r
          else if take 2 s = utf8 133 then Some (drop 2 s)
          else if take 3 s = utf8 8232 \<or> take 3 s = utf8 8233 then Some (drop 3 s)
          else None)"

lemma line_end_shorter: "line_end (c # s) = Some r \<Longrightarrow> length r \<le> length s"
  by (auto simp: line_end_def split: if_splits)

function splitlines_from :: "string \<Rightarrow> string \<Rightarrow> string list" where
  "splitlines_from line [] = (if line = [] then [] else [line])"
| "splitlines_from line (c # s) =
     (case line_end (c # s) of
        Some r \<Rightarrow> line # splitlines_from [] r
      | None \<Rightarrow> splitlines_from (line @ [c]) s)"
  by pat_completeness auto

termination
  by (relation "measure (\<lambda>(_, s). length s)") (auto simp: less_Suc_eq_le intro: line_end_shorter)

definition splitlines :: "string \<Rightarrow> string list" where
  "splitlines s = splitlines_from [] s"

definition printable_ascii :: "string \<Rightarrow> bool" where
  "printable_ascii l = (\<forall>c \<in> set l. 32 \<le> (of_char c :: nat) \<and> (of_char c :: nat) < 127)"

lemma line_end_printable:
  assumes "32 \<le> (of_char c :: nat)" "(of_char c :: nat) < 127"
  shows "line_end (c # s) = None"
proof -
  have "c \<noteq> CHR 0x0D" "c \<noteq> CHR 0xC2" "c \<noteq> CHR 0xE2" using assms by auto
  with assms show ?thesis by (auto simp: line_end_def utf8_def)
qed

lemma splitlines_from_line:
  "printable_ascii l \<Longrightarrow> splitlines_from acc (l @ CHR 0x0A # s) = (acc @ l) # splitlines_from [] s"
  by (induction l arbitrary: acc) (simp_all add: printable_ascii_def line_end_printable, simp add: line_end_def)

lemma splitlines_lines:
  "list_all printable_ascii ls \<Longrightarrow> splitlines (concat (map (\<lambda>l. l @ [CHR 0x0A]) ls)) = ls"
  by (induction ls) (simp_all add: splitlines_def splitlines_from_line)

end
