(* ===== verification/Json_Lines.thy ===== *)
theory Json_Lines
  imports Py_Utf8
begin

text \<open>
  JSON lines: the form in which envelopes and capture records travel between the tools, one printed object on a line.
  Iterating over a file in text mode cuts it at its line ends; what a printer writes on one line comes back as one
  line. The contract is the locale \<open>line_codec\<close>.
\<close>

section \<open>Cutting a text into lines\<close>

text \<open>\<open>for line in f\<close> of a binary file: a line keeps its end.\<close>

fun byte_lines :: "string \<Rightarrow> string list" where
  "byte_lines [] = []"
| "byte_lines (c # s) =
     (if c = CHR 0x0A then [c] # byte_lines s
      else (case byte_lines s of [] \<Rightarrow> [[c]] | l # ls \<Rightarrow> (c # l) # ls))"

text \<open>The line ends of a file in text mode, CR LF and CR, are read as LF.\<close>

fun universal_newlines :: "string \<Rightarrow> string" where
  "universal_newlines [] = []"
| "universal_newlines [c] = [if c = CHR 0x0D then CHR 0x0A else c]"
| "universal_newlines (c # d # s) =
     (if c = CHR 0x0D then CHR 0x0A # universal_newlines (if d = CHR 0x0A then s else d # s)
      else c # universal_newlines (d # s))"

definition text_lines :: "string \<Rightarrow> string list" where
  "text_lines s = byte_lines (universal_newlines s)"

definition one_line :: "string \<Rightarrow> bool" where
  "one_line l = (CHR 0x0A \<notin> set l \<and> CHR 0x0D \<notin> set l)"

lemma universal_newlines_id: "CHR 0x0D \<notin> set s \<Longrightarrow> universal_newlines s = s"
  by (induction s rule: universal_newlines.induct) auto

lemma byte_lines_line: "CHR 0x0A \<notin> set l \<Longrightarrow> byte_lines (l @ CHR 0x0A # s) = (l @ [CHR 0x0A]) # byte_lines s"
  by (induction l) auto

lemma text_lines_join:
  "list_all one_line ls \<Longrightarrow> text_lines (concat (map (\<lambda>l. l @ [CHR 0x0A]) ls)) = map (\<lambda>l. l @ [CHR 0x0A]) ls"
proof -
  assume a: "list_all one_line ls"
  have "CHR 0x0D \<notin> set (concat (map (\<lambda>l. l @ [CHR 0x0A]) ls))"
    using a by (auto simp: list_all_iff one_line_def)
  moreover have "byte_lines (concat (map (\<lambda>l. l @ [CHR 0x0A]) ls)) = map (\<lambda>l. l @ [CHR 0x0A]) ls"
    using a by (induction ls) (simp_all add: byte_lines_line one_line_def)
  ultimately show ?thesis unfolding text_lines_def by (metis universal_newlines_id)
qed

locale line_codec = codec +
  assumes encode_one_line: "ok x \<Longrightarrow> one_line (encode x)"
begin

text \<open>A stream of printed values, cut into lines, is the printed values, and each line reads back.\<close>

lemma text_lines_stream:
  "list_all ok xs \<Longrightarrow>
     text_lines (concat (map (\<lambda>x. encode x @ [CHR 0x0A]) xs)) = map (\<lambda>x. encode x @ [CHR 0x0A]) xs"
  using text_lines_join [of "map encode xs"] by (simp add: list_all_iff encode_one_line o_def)

lemma decode_stream:
  "list_all ok xs \<Longrightarrow>
     map (decode \<circ> butlast) (text_lines (concat (map (\<lambda>x. encode x @ [CHR 0x0A]) xs))) = map Some xs"
  by (simp add: text_lines_stream list_all_iff decode_encode)

end

section \<open>Printed JSON is one line\<close>

text \<open>No character of a printed value is a control character.\<close>

definition visible :: "string \<Rightarrow> bool" where
  "visible s = (\<forall>c \<in> set s. 32 \<le> (of_char c :: nat))"

lemma visible_simps [simp]:
  "visible []" "visible (c # s) \<longleftrightarrow> 32 \<le> (of_char c :: nat) \<and> visible s" "visible (s @ t) \<longleftrightarrow> visible s \<and> visible t"
  by (auto simp: visible_def)

lemma visible_one_line: "visible s \<Longrightarrow> one_line s"
  by (auto simp: visible_def one_line_def)

lemma visible_concat: "(\<And>x. x \<in> set xs \<Longrightarrow> visible (f x)) \<Longrightarrow> visible (concat (map f xs))"
  by (induction xs) auto

lemma visible_join: "visible sep \<Longrightarrow> (\<And>x. x \<in> set xs \<Longrightarrow> visible x) \<Longrightarrow> visible (join sep xs)"
  by (induction sep xs rule: join.induct) auto

lemma digits_visible: "\<forall>c \<in> set s. is_digit c \<Longrightarrow> visible s"
  by (auto simp: visible_def is_digit_def)

lemma show_visible [simp]: "visible (show_nat n)" "visible (show_int i)"
  using show_nat_digits digits_visible by (auto simp: show_int_def)

lemma hex_visible: "n < 16 \<Longrightarrow> 32 \<le> (of_char (hex_char n) :: nat)"
  by (simp add: hex_char_def of_char_byte)

lemma escape_visible: "visible (escape_char c)"
proof -
  have "(of_char c :: nat) < 32 \<Longrightarrow> visible (hex2 (of_char c))"
    by (simp add: hex2_def hex_visible)
  then show ?thesis by (simp add: escape_char_def Let_def)
qed

lemma u_escape_visible: "n < 65536 \<Longrightarrow> visible (u_escape n)"
  by (simp add: u_escape_def hex4_digits_def hex_visible less_mult_imp_div_less)

lemma escape_code_visible: "n < 1114112 \<Longrightarrow> visible (escape_code n)"
proof -
  assume n: "n < 1114112"
  then have "(n - 65536) div 1024 < 4096" by (simp add: less_mult_imp_div_less)
  then have "visible (u_escape (55296 + (n - 65536) div 1024))" by (intro u_escape_visible) simp
  moreover have "visible (u_escape (56320 + (n - 65536) mod 1024))"
    using mod_less_divisor [of 1024 "n - 65536"] by (intro u_escape_visible) linarith
  ultimately show ?thesis by (simp add: escape_code_def escape_visible u_escape_visible)
qed

lemma escaped_visible: "text_ok cfg s \<Longrightarrow> visible (escaped cfg s)"
  by (auto simp: escaped_def text_ok_def utf8_ok_def scalar_def list_all_iff intro!: visible_concat escape_visible escape_code_visible)

lemma quote_visible: "text_ok cfg s \<Longrightarrow> visible (quote cfg s)"
  by (simp add: quote_def escaped_visible)

lemma visible_parts: "visible s \<Longrightarrow> visible (take n s)" "visible s \<Longrightarrow> visible (drop n s)" "visible s \<Longrightarrow> visible (tl s)"
  "visible s \<Longrightarrow> s \<noteq> [] \<Longrightarrow> 32 \<le> (of_char (hd s) :: nat)" "visible (replicate n c) \<longleftrightarrow> n = 0 \<or> 32 \<le> (of_char c :: nat)"
  by (auto simp: visible_def dest: in_set_takeD in_set_dropD) (cases s; simp)

lemma format_dec_visible: "visible (format_dec m e)"
  by (simp add: format_dec_def Let_def two_digits_def visible_parts)

lemma float_visible: "visible (float_dump x)"
proof -
  have "visible (repr_pos q)" for q by (cases "shortest q") (simp add: repr_pos_def format_dec_visible)
  then show ?thesis by (cases x) simp_all
qed

lemma dumps_visible: "visible (item_sep cfg) \<Longrightarrow> visible (key_sep cfg) \<Longrightarrow> texts_ok cfg v \<Longrightarrow> visible (dumps cfg v)"
  by (induction cfg v rule: dumps.induct) (fastforce simp: float_visible intro!: visible_join quote_visible)+

section \<open>The printers of the program\<close>

definition read_json_text :: "string \<Rightarrow> json option" where
  "read_json_text s = (case loads s of Inr v \<Rightarrow> Some v | Inl _ \<Rightarrow> None)"

interpretation json_line: line_codec "dumps plain_opts" read_json_text "\<lambda>v. wf_json v \<and> floats_ok v"
proof
  fix v assume "wf_json v \<and> floats_ok v"
  then show "read_json_text (dumps plain_opts v) = Some v" by (simp add: read_json_text_def loads_dumps_plain)
  show "one_line (dumps plain_opts v)" by (intro visible_one_line dumps_visible texts_ok_simps) (simp_all add: plain_opts_def)
qed

interpretation ascii_line: line_codec "dumps default_opts" read_json_text
  "\<lambda>v. texts_ok default_opts v \<and> wf_json v \<and> floats_ok v"
proof
  fix v assume v: "texts_ok default_opts v \<and> wf_json v \<and> floats_ok v"
  then show "read_json_text (dumps default_opts v) = Some v" by (simp add: read_json_text_def loads_dumps_default)
  have "visible (item_sep default_opts)" "visible (key_sep default_opts)" by (simp_all add: default_opts_def)
  from dumps_visible [OF this conjunct1 [OF v]] show "one_line (dumps default_opts v)" by (rule visible_one_line)
qed

end
