(* ===== verification/Sniff.thy ===== *)
theory Sniff
  imports Json_Lines Py_Values
begin

text \<open>
  \<open>tools/omp_tools/sniff.py\<close>: the records of a capture, the capture of the standard input, and the listing of a
  capture. Bytes are a \<^typ>\<open>string\<close>, as texts are; the clock is an argument. The serial port and the argument
  parser are not modelled.
\<close>

section \<open>Decoding\<close>

text \<open>\<open>raw.decode("ascii", errors="replace")\<close>\<close>

definition ascii_decode :: "string \<Rightarrow> string" where
  "ascii_decode raw = concat (map (\<lambda>c. if (of_char c :: nat) < 128 then [c] else replacement) raw)"

text \<open>\<open>line.rstrip(b"\r\n")\<close> and \<open>bytes.strip()\<close>\<close>

definition rstrip_eol :: "string \<Rightarrow> string" where
  "rstrip_eol s = rev (dropWhile (\<lambda>c. c = CHR 0x0D \<or> c = CHR 0x0A) (rev s))"

definition is_byte_space :: "char \<Rightarrow> bool" where
  "is_byte_space c = (of_char c \<in> {9, 10, 11, 12, 13, 32 :: nat})"

definition bytes_strip :: "string \<Rightarrow> string" where
  "bytes_strip s = rev (dropWhile is_byte_space (rev (dropWhile is_byte_space s)))"

section \<open>Records\<close>

text \<open>\<open>ts or now_iso()\<close>\<close>

definition stamp :: "string option \<Rightarrow> string \<Rightarrow> string" where
  "stamp ts now = (case ts of Some t \<Rightarrow> if t = [] then now else t | None \<Rightarrow> now)"

definition hex_text :: "string \<Rightarrow> string" where
  "hex_text raw = join '' '' (map (\<lambda>c. hex2 (of_char c)) raw)"

definition printable :: "string \<Rightarrow> string option" where
  "printable raw =
     (let text = strip (ascii_decode raw) in
      if text \<noteq> [] \<and> list_all (\<lambda>n. 31 < n \<and> n < 127 \<or> n = 9) (code_points text) then Some text else None)"

definition capture_record :: "string \<Rightarrow> string \<Rightarrow> string option \<Rightarrow> string \<Rightarrow> json dict" where
  "capture_record raw src ts now =
     [(''t'', JStr (stamp ts now)), (''src'', JStr src), (''hex'', JStr (hex_text raw))]
     @ (case printable raw of None \<Rightarrow> [] | Some text \<Rightarrow> [(''text'', JStr text)])"

definition capture_note :: "string \<Rightarrow> string option \<Rightarrow> string \<Rightarrow> json dict" where
  "capture_note text ts now = [(''t'', JStr (stamp ts now)), (''note'', JStr text)]"

section \<open>Capture of the standard input\<close>

definition stdin_record :: "string \<Rightarrow> string \<Rightarrow> json dict" where
  "stdin_record now line =
     (if take 1 line = ''#'' then capture_note (utf8_decode (bytes_strip (tl line))) None now
      else capture_record line ''stdin'' None now)"

text \<open>The lines written; \<open>now i\<close> is the clock at the \<open>i\<close>-th line.\<close>

fun capture_lines :: "(nat \<Rightarrow> string) \<Rightarrow> nat \<Rightarrow> string list \<Rightarrow> string list" where
  "capture_lines now i [] = []"
| "capture_lines now i (l # ls) =
     (let line = rstrip_eol l in
      if line = [] then capture_lines now (Suc i) ls
      else (dumps plain_opts (JObj (stdin_record (now i) line)) @ [CHR 0x0A]) # capture_lines now (Suc i) ls)"

definition capture_stdin :: "(nat \<Rightarrow> string) \<Rightarrow> string \<Rightarrow> string list \<times> int" where
  "capture_stdin now input = (capture_lines now 0 (byte_lines input), 0)"

section \<open>Capture of a serial port\<close>

text \<open>
  One turn of the loop: what \<open>readline\<close> returned, the line typed if one was ready, and the clock at each record.
  The loop runs until it is interrupted.
\<close>

record turn =
  turn_raw :: string
  turn_raw_now :: string
  turn_typed :: "string option"
  turn_typed_now :: string

definition written :: "json dict \<Rightarrow> string" where
  "written r = dumps plain_opts (JObj r) @ [CHR 0x0A]"

definition serial_turn :: "string \<Rightarrow> turn \<Rightarrow> string list" where
  "serial_turn port u =
     (if turn_raw u = [] then []
      else [written (capture_record (rstrip_eol (turn_raw u)) (''serial:'' @ port) None (turn_raw_now u))])
     @ (case turn_typed u of
          None \<Rightarrow> []
        | Some s \<Rightarrow> if strip s = [] then [] else [written (capture_note (strip s) None (turn_typed_now u))])"

definition capture_serial :: "bool \<Rightarrow> string \<Rightarrow> turn list \<Rightarrow> string list \<times> int" where
  "capture_serial have_serial port turns =
     (if \<not> have_serial then ([], 2) else (concat (map (serial_turn port) turns), 0))"

section \<open>Listing a capture\<close>

definition dashes :: string where
  "dashes = utf8 9472 @ utf8 9472"

definition decode_record :: "json \<Rightarrow> string res" where
  "decode_record rec =
     res_bind (has_key rec ''note'') (\<lambda>is_note.
     if is_note then
       res_bind (get_item rec ''t'') (\<lambda>t. res_bind (get_item rec ''note'') (\<lambda>n.
         Inr (str_json t @ ''  '' @ dashes @ '' '' @ str_json n @ '' '' @ dashes)))
     else
       res_bind (get_or rec ''text'' JNull) (\<lambda>text.
       res_bind (if truthy text then Inr text else get_item rec ''hex'') (\<lambda>shown.
       res_bind (get_item rec ''t'') (\<lambda>t. Inr (str_json t @ ''  '' @ str_json shown)))))"

text \<open>What is printed, and the exit code or the exception that ends the listing.\<close>

fun decode_lines :: "string list \<Rightarrow> string list \<times> int res" where
  "decode_lines [] = ([], Inr 0)"
| "decode_lines (l # ls) =
     (if strip l = [] then decode_lines ls
      else (case res_bind (loads (strip l)) decode_record of
              Inl e \<Rightarrow> ([], Inl e)
            | Inr out \<Rightarrow> (case decode_lines ls of (outs, r) \<Rightarrow> (out # outs, r))))"

text \<open>\<open>decode\<close>: the file is read in text mode.\<close>

definition decode_file :: "string \<Rightarrow> string list \<times> int res" where
  "decode_file text = decode_lines (text_lines text)"

section \<open>Nothing is lost\<close>

text \<open>The bytes a hex text denotes.\<close>

fun unhex :: "string \<Rightarrow> string" where
  "unhex (a # b # s) =
     (case (hex_val a, hex_val b) of
        (Some x, Some y) \<Rightarrow> char_of (16 * x + y) # unhex (drop 1 s)
      | _ \<Rightarrow> [])"
| "unhex _ = []"

lemma unhex_hex2: "unhex (hex2 (of_char c) @ s) = c # unhex (drop 1 s)"
proof -
  have "(of_char c :: nat) < 256" by simp
  then have "hex_val (hex_char (of_char c div 16)) = Some (of_char c div 16)" "hex_val (hex_char (of_char c mod 16)) = Some (of_char c mod 16)"
    by (simp_all add: hex_val_hex_char less_mult_imp_div_less)
  moreover have "char_of (16 * (of_char c div 16) + of_char c mod 16 :: nat) = c" by simp
  ultimately show ?thesis by (simp add: hex2_def)
qed

lemma unhex_hex_text: "unhex (hex_text raw) = raw"
  unfolding hex_text_def
proof (induction raw)
  case (Cons c raw)
  then show ?case by (simp add: join_Cons unhex_hex2)
qed simp

interpretation hex: codec hex_text "\<lambda>s. Some (unhex s)" "\<lambda>_. True"
  by unfold_locales (simp add: unhex_hex_text)

lemma strip_ends: "a # s @ [b] = l \<Longrightarrow> \<not> is_space a \<Longrightarrow> \<not> is_space b \<Longrightarrow> strip (l @ [CHR 0x0A]) = l"
proof -
  assume l: "a # s @ [b] = l" and a: "\<not> is_space a" and b: "\<not> is_space b"
  have "is_space (CHR 0x0A)" by (simp add: is_space_def)
  then show ?thesis unfolding strip_def lstrip_def l [symmetric] using a b by simp
qed

lemma strip_dumped: "strip (dumps plain_opts (JObj kvs) @ [CHR 0x0A]) = dumps plain_opts (JObj kvs)"
  by (rule strip_ends [where a = "CHR ''{''" and b = "CHR ''}''"]) (simp_all add: is_space_def)

lemma dumped_nonempty: "dumps plain_opts (JObj kvs) \<noteq> []"
  by simp

lemma loads_record: "distinct (map fst kvs) \<Longrightarrow> \<forall>kv \<in> set kvs. \<exists>s. snd kv = JStr s \<Longrightarrow> loads (dumps plain_opts (JObj kvs)) = Inr (JObj kvs)"
  by (rule loads_dumps_plain) auto

lemma record_dict: "distinct (map fst (stdin_record now line)) \<and> (\<forall>kv \<in> set (stdin_record now line). \<exists>s. snd kv = JStr s)"
  by (auto simp: stdin_record_def capture_note_def capture_record_def split: option.splits)

text \<open>How a captured line is shown again.\<close>

definition shown_line :: "string \<Rightarrow> string \<Rightarrow> string" where
  "shown_line now line =
     (if take 1 line = ''#'' then now @ ''  '' @ dashes @ '' '' @ utf8_decode (bytes_strip (tl line)) @ '' '' @ dashes
      else now @ ''  '' @ (case printable line of Some text \<Rightarrow> text | None \<Rightarrow> hex_text line))"

lemma printable_nonempty: "printable raw = Some t \<Longrightarrow> t \<noteq> []"
  by (auto simp: printable_def Let_def split: if_splits)

lemma decode_stdin_record: "decode_record (JObj (stdin_record now line)) = Inr (shown_line now line)"
  using printable_nonempty [of line]
  by (auto simp: stdin_record_def capture_note_def capture_record_def decode_record_def shown_line_def stamp_def
      dict_access split: option.splits)

definition captured :: "(nat \<Rightarrow> string) \<Rightarrow> string list \<Rightarrow> (string \<times> string) list" where
  "captured now ls = filter (\<lambda>p. snd p \<noteq> []) (map (\<lambda>(i, l). (now i, rstrip_eol l)) (enumerate 0 ls))"

lemma decode_capture_lines:
  "decode_lines (capture_lines now i ls)
     = (map (\<lambda>(n, l). shown_line n l) (filter (\<lambda>p. snd p \<noteq> []) (map (\<lambda>(j, l). (now j, rstrip_eol l)) (enumerate i ls))), Inr 0)"
proof (induction ls arbitrary: i)
  case (Cons l ls)
  let ?kvs = "stdin_record (now i) (rstrip_eol l)"
  have "loads (dumps plain_opts (JObj ?kvs)) = Inr (JObj ?kvs)" by (rule loads_record) (use record_dict in blast)+
  with Cons show ?case
    using dumped_nonempty [of ?kvs]
    by (simp add: Let_def strip_dumped decode_stdin_record del: dumps.simps)
qed simp

text \<open>The records of a capture are printed one on a line.\<close>

lemma capture_lines_text: "text_lines (concat (capture_lines now i ls)) = capture_lines now i ls"
proof -
  have "\<exists>vs. list_all (\<lambda>v. wf_json v \<and> floats_ok v) vs \<and> capture_lines now i ls = map (\<lambda>v. dumps plain_opts v @ [CHR 0x0A]) vs"
  proof (induction ls arbitrary: i)
    case (Cons l ls)
    from Cons.IH [of "Suc i"] obtain vs where vs: "list_all (\<lambda>v. wf_json v \<and> floats_ok v) vs"
      "capture_lines now (Suc i) ls = map (\<lambda>v. dumps plain_opts v @ [CHR 0x0A]) vs" by blast
    let ?v = "JObj (stdin_record (now i) (rstrip_eol l))"
    have "wf_json ?v \<and> floats_ok ?v" using record_dict [of "now i" "rstrip_eol l"] by auto
    with vs show ?case
      by (intro exI [of _ "if rstrip_eol l = [] then vs else ?v # vs"])
        (simp add: Let_def del: dumps.simps wf_json.simps floats_ok.simps)
  qed simp
  then obtain vs where "list_all (\<lambda>v. wf_json v \<and> floats_ok v) vs"
    "capture_lines now i ls = map (\<lambda>v. dumps plain_opts v @ [CHR 0x0A]) vs" by blast
  with json_line.text_lines_stream show ?thesis by simp
qed

text \<open>C40: A capture of the standard input, listed again, shows every non-empty line in order with its time: notes as notes,
  printable lines as text, and every other line by its bytes; the listing ends with 0, whatever the bytes are.\<close>

theorem decode_capture:
  "decode_file (concat (fst (capture_stdin now input)))
     = (map (\<lambda>(n, l). shown_line n l) (captured now (byte_lines input)), Inr 0)"
  by (simp add: decode_file_def capture_stdin_def captured_def capture_lines_text decode_capture_lines)

text \<open>The bytes of a captured line can be read back from its record.\<close>

theorem capture_lossless: "map_of (capture_record raw src ts now) ''hex'' = Some (JStr h) \<Longrightarrow> unhex h = raw"
  by (auto simp: capture_record_def unhex_hex_text)

theorem capture_lossless_witness: "unhex (hex_text [CHR 0x02, CHR 0xFF]) = [CHR 0x02, CHR 0xFF]"
  by (rule capture_lossless [where src = "''stdin''" and ts = None and now = "''t''"]) (simp add: capture_record_def)

end
