(* ===== verification/Ingest.thy ===== *)
theory Ingest
  imports Py_Values Iso_Time
begin

text \<open>
  \<open>examples/platform-ingest-reference/ingest.py\<close>: the consumer. One line goes through parse,
  validate, dedup, verify, store raw and project; the tables are lists in insertion order.

  A call that raises leaves the database as it was (nothing is committed) and ends the program.
  The text of a JSON syntax error is a parameter, \<open>parse_msg\<close>.
\<close>

section \<open>Tables\<close>

record raw_row =
  raw_gateway :: string
  raw_machine :: string
  raw_seq :: int
  raw_envelope :: string
  raw_valid :: int

record alarm_row =
  alarm_gateway :: string
  alarm_machine :: string
  alarm_seq :: int
  first_envelope :: string
  second_envelope :: string

record consumer =
  raw_table :: "raw_row list"
  quarantine :: "(string \<times> string) list"
  alarms :: "alarm_row list"
  machines_table :: "((string \<times> string \<times> int) \<times> string) list"
  runs_table :: "((string \<times> string \<times> string) \<times> string \<times> string) list"
  n_stored :: int
  n_duplicates :: int
  n_quarantined :: int
  n_alarms :: int
  n_unknown :: int
  unknown_types :: "string list"

definition empty_consumer :: consumer where
  "empty_consumer = \<lparr>raw_table = [], quarantine = [], alarms = [], machines_table = [], runs_table = [],
     n_stored = 0, n_duplicates = 0, n_quarantined = 0, n_alarms = 0, n_unknown = 0, unknown_types = []\<rparr>"

section \<open>Binding\<close>

text \<open>
  What SQLite stores for a bound value in a text and in an integer column; an integral float becomes
  the integer (column affinity). Other types do not pass the envelope schema.
\<close>

definition int64 :: "int \<Rightarrow> bool" where
  "int64 i = (- (2 ^ 63) \<le> i \<and> i < 2 ^ 63)"

fun bind_seq :: "json \<Rightarrow> int res" where
  "bind_seq (JInt i) = (if int64 i then Inr i else Inl OverflowError)"
| "bind_seq (JFloat x) =
     (if is_finite x \<and> is_integral x \<and> int64 (trunc_rat (fval x)) then Inr (trunc_rat (fval x)) else Inl TypeError)"
| "bind_seq _ = Inl TypeError"

definition envelope_key :: "json dict \<Rightarrow> (string \<times> string \<times> int) res" where
  "envelope_key env =
     res_bind (dict_item env ''gateway_id'') (\<lambda>g. res_bind (dict_item env ''machine_id'') (\<lambda>m.
     res_bind (dict_item env ''seq'') (\<lambda>s.
     res_bind (as_str g) (\<lambda>g. res_bind (as_str m) (\<lambda>m. res_bind (bind_seq s) (\<lambda>s. Inr (g, m, s)))))))"

definition raw_key :: "raw_row \<Rightarrow> string \<times> string \<times> int" where
  "raw_key r = (raw_gateway r, raw_machine r, raw_seq r)"

section \<open>Stages\<close>

definition note_unknown_vocabulary :: "spec \<Rightarrow> json dict \<Rightarrow> consumer \<Rightarrow> consumer res" where
  "note_unknown_vocabulary spec env c =
     res_bind (dict_item env ''schema'') (\<lambda>schema.
     if schema \<noteq> JStr ''event'' then Inr c
     else
       res_bind (dict_item env ''profile'') (\<lambda>p. res_bind (as_str p) (\<lambda>ref.
       (case profiles spec (profile_name ref) of
          None \<Rightarrow> Inr c
        | Some prof \<Rightarrow>
            res_bind (dict_item env ''body'') (\<lambda>b. res_bind (as_dict b) (\<lambda>body.
              let et = dict_get body ''event_type'' JNull in
              if \<not> hashable et then Inl TypeError
              else if et \<notin> JStr ` set core_event_types \<and> lookup_key (p_events prof) et = None
              then Inr (c\<lparr>n_unknown := n_unknown c + 1,
                          unknown_types := List.insert (profile_name ref @ '':'' @ str_json et) (unknown_types c)\<rparr>)
              else Inr c))))))"

definition quarantine_line :: "string \<Rightarrow> string \<Rightarrow> consumer \<Rightarrow> consumer" where
  "quarantine_line raw reason c =
     c\<lparr>quarantine := quarantine c @ [(raw, reason)], n_quarantined := n_quarantined c + 1\<rparr>"

definition project :: "json dict \<Rightarrow> string \<times> string \<times> int \<Rightarrow> consumer \<Rightarrow> consumer res" where
  "project env key c =
     (case key of (g, m, q) \<Rightarrow>
     res_bind (dict_item env ''schema'') (\<lambda>schema.
     res_bind (dict_item env ''body'') (\<lambda>b.
     if schema = JStr ''machine'' then
       Inr (case map_of (machines_table c) key of
              Some _ \<Rightarrow> c
            | None \<Rightarrow> c\<lparr>machines_table := machines_table c @ [(key, dumps default_opts b)]\<rparr>)
     else if schema = JStr ''process_run'' then
       res_bind (as_dict b) (\<lambda>body.
       res_bind (dict_item body ''run_id'') (\<lambda>r. res_bind (as_str r) (\<lambda>r.
       res_bind (dict_item body ''outcome'') (\<lambda>s. res_bind (as_str s) (\<lambda>s.
         Inr (c\<lparr>runs_table := AList.update (g, m, r) (s, dumps default_opts b) (runs_table c)\<rparr>))))))
     else Inr c)))"

text \<open>The dedup stage: the stored envelope of the key, parsed again.\<close>

definition dedup :: "json dict \<Rightarrow> string \<times> string \<times> int \<Rightarrow> string \<Rightarrow> consumer \<Rightarrow> consumer res" where
  "dedup env key prior_text c =
     (case key of (g, m, q) \<Rightarrow>
     res_bind (loads prior_text) (\<lambda>v. res_bind (as_dict v) (\<lambda>prior.
     res_bind (dict_item prior ''checksum'') (\<lambda>c1. res_bind (dict_item env ''checksum'') (\<lambda>c2.
       Inr (if c1 = c2 then c\<lparr>n_duplicates := n_duplicates c + 1\<rparr>
            else c\<lparr>alarms := alarms c @
                   [\<lparr>alarm_gateway = g, alarm_machine = m, alarm_seq = q, first_envelope = prior_text,
                     second_envelope = dumps default_opts (JObj env)\<rparr>],
                   n_alarms := n_alarms c + 1\<rparr>))))))"

text \<open>Stages 4 to 6, for a key that is not stored yet.\<close>

definition store_raw ::
  "(string \<Rightarrow> string) \<Rightarrow> json dict \<Rightarrow> string \<times> string \<times> int \<Rightarrow> consumer \<Rightarrow> consumer res" where
  "store_raw H env key c =
     (case key of (g, m, q) \<Rightarrow>
     res_bind (dict_item env ''body'') (\<lambda>b. res_bind (as_dict b) (\<lambda>body.
     res_bind (checksum H body) (\<lambda>sum. res_bind (dict_item env ''checksum'') (\<lambda>claimed.
     res_bind (project env key (c\<lparr>raw_table := raw_table c @
         [\<lparr>raw_gateway = g, raw_machine = m, raw_seq = q, raw_envelope = dumps default_opts (JObj env),
           raw_valid = (if JStr sum = claimed then 1 else 0)\<rparr>]\<rparr>)) (\<lambda>c'.
       Inr (c'\<lparr>n_stored := n_stored c' + 1\<rparr>)))))))"

definition ingest_envelope :: "(string \<Rightarrow> string) \<Rightarrow> spec \<Rightarrow> json dict \<Rightarrow> consumer \<Rightarrow> consumer res" where
  "ingest_envelope H spec env c =
     res_bind (note_unknown_vocabulary spec env c) (\<lambda>c.
     res_bind (envelope_key env) (\<lambda>key.
       (case find (\<lambda>r. raw_key r = key) (raw_table c) of
          Some row \<Rightarrow> dedup env key (raw_envelope row) c
        | None \<Rightarrow> store_raw H env key c)))"

definition ingest_line ::
  "(string \<Rightarrow> string) \<Rightarrow> spec \<Rightarrow> (string \<Rightarrow> string) \<Rightarrow> string \<Rightarrow> consumer \<Rightarrow> consumer res" where
  "ingest_line H spec parse_msg line c =
     (let raw = strip line in
      if raw = [] then Inr c
      else (case loads raw of
              Inl e \<Rightarrow> Inr (quarantine_line raw (''parse: '' @ parse_msg raw) c)
            | Inr (JObj env) \<Rightarrow>
                res_bind (validate_envelope H spec env True) (\<lambda>errors.
                  if errors \<noteq> [] then Inr (quarantine_line raw (''validate: '' @ hd errors) c)
                  else ingest_envelope H spec env c)
            | Inr v \<Rightarrow> Inr (quarantine_line raw ''parse: not an object'' c)))"

fun ingest_all ::
  "(string \<Rightarrow> string) \<Rightarrow> spec \<Rightarrow> (string \<Rightarrow> string) \<Rightarrow> string list \<Rightarrow> consumer \<Rightarrow> consumer res" where
  "ingest_all H spec parse_msg [] c = Inr c"
| "ingest_all H spec parse_msg (l # ls) c =
     res_bind (ingest_line H spec parse_msg l c) (\<lambda>c'. ingest_all H spec parse_msg ls c')"

section \<open>Gaps and the report\<close>

definition seqs_by_machine :: "raw_row list \<Rightarrow> ((string \<times> string) \<times> int list) list" where
  "seqs_by_machine rows =
     foldl (\<lambda>d r. let k = (raw_gateway r, raw_machine r) in
              AList.update k ((case map_of d k of None \<Rightarrow> [] | Some qs \<Rightarrow> qs) @ [raw_seq r]) d)
       [] rows"

definition missing_seqs :: "int list \<Rightarrow> int list" where
  "missing_seqs qs = filter (\<lambda>i. i \<notin> set qs) [1..Max (set qs)]"

definition gaps :: "consumer \<Rightarrow> int list dict" where
  "gaps c =
     (let rows = sort_key raw_gateway (sort_key raw_machine (sort_key raw_seq (raw_table c))) in
      foldl (\<lambda>out ((g, m), qs). let missing = missing_seqs qs in
               if missing \<noteq> [] then AList.update (g @ ''/'' @ m) missing out else out)
        [] (seqs_by_machine rows))"

definition report :: "consumer \<Rightarrow> string" where
  "report c =
     join [CHR 0x0A]
       ([''stored: '' @ show_int (n_stored c), ''duplicates: '' @ show_int (n_duplicates c),
         ''quarantined: '' @ show_int (n_quarantined c), ''alarms: '' @ show_int (n_alarms c),
         ''unknown_event_types: '' @ show_int (n_unknown c)]
        @ (if unknown_types c \<noteq> []
           then [''unknown event types (newer profile minor, kept as opaque): ''
                 @ repr_list (map repr_str (sort (unknown_types c)))]
           else [])
        @ [''machines with seq gaps: '' @ show_nat (length (gaps c))]
        @ map (\<lambda>(k, qs). ''  '' @ k @ '' missing seq '' @ repr_list (map show_int qs) @ '' (seq_complete: false)'')
            (gaps c))"

section \<open>What each stage leaves alone\<close>

lemma note_unknown_eq:
  assumes "note_unknown_vocabulary spec env c = Inr c'"
  shows "\<exists>n u. c' = c\<lparr>n_unknown := n, unknown_types := u\<rparr>"
proof (cases "c' = c")
  case True
  then have "c' = c\<lparr>n_unknown := n_unknown c, unknown_types := unknown_types c\<rparr>" by simp
  then show ?thesis by blast
next
  case False
  with assms show ?thesis
    by (auto simp: note_unknown_vocabulary_def res_inv Let_def split: if_splits option.splits)
qed

lemma project_frame:
  assumes "project env key c = Inr c'"
  shows "raw_table c' = raw_table c" "quarantine c' = quarantine c" "alarms c' = alarms c"
    "n_stored c' = n_stored c" "n_duplicates c' = n_duplicates c" "n_quarantined c' = n_quarantined c"
    "n_alarms c' = n_alarms c" "n_unknown c' = n_unknown c" "unknown_types c' = unknown_types c"
  using assms by (auto simp: project_def res_inv split: prod.splits if_splits option.splits)

text \<open>The row an accepted envelope is stored as; after the validation stage it is always valid.\<close>

definition row_of :: "json dict \<Rightarrow> string \<times> string \<times> int \<Rightarrow> raw_row" where
  "row_of env key = (case key of (g, m, q) \<Rightarrow>
     \<lparr>raw_gateway = g, raw_machine = m, raw_seq = q, raw_envelope = dumps default_opts (JObj env), raw_valid = 1\<rparr>)"

lemma raw_key_row_of [simp]: "raw_key (row_of env key) = key"
  by (cases key) (simp add: raw_key_def row_of_def)

lemma row_of_envelope [simp]: "raw_envelope (row_of env key) = dumps default_opts (JObj env)"
  by (cases key) (simp add: row_of_def del: dumps.simps)

definition accepted ::
  "(string \<Rightarrow> string) \<Rightarrow> spec \<Rightarrow> string \<Rightarrow> json dict \<Rightarrow> string \<times> string \<times> int \<Rightarrow> bool" where
  "accepted H spec line env key =
     (strip line \<noteq> [] \<and> loads (strip line) = Inr (JObj env)
      \<and> validate_envelope H spec env True = Inr [] \<and> envelope_key env = Inr key)"

lemma find_key_None: "find (\<lambda>r. raw_key r = key) rows = None \<longleftrightarrow> key \<notin> raw_key ` set rows"
  by (auto simp: find_None_iff)

lemma find_key_Some: "find (\<lambda>r. raw_key r = key) rows = Some r \<Longrightarrow> r \<in> set rows \<and> raw_key r = key"
  by (auto simp: find_Some_iff)

lemma store_raw_ok:
  assumes "store_raw H env key c = Inr c'" "validate_envelope H spec env fc = Inr []"
  shows "raw_table c' = raw_table c @ [row_of env key]" "quarantine c' = quarantine c" "alarms c' = alarms c"
    "n_stored c' = n_stored c + 1" "n_duplicates c' = n_duplicates c" "n_quarantined c' = n_quarantined c"
    "n_alarms c' = n_alarms c"
proof -
  obtain g m q where key: "key = (g, m, q)" by (cases key)
  from assms(2) obtain b s where b: "map_of env ''body'' = Some (JObj b)" "checksum H b = Inr s"
    "map_of env ''checksum'' = Some (JStr s)"
    by (auto simp: validate_ok_iff)
  from assms(1) obtain c1 where
    "project env key (c\<lparr>raw_table := raw_table c @ [row_of env key]\<rparr>) = Inr c1"
    "c' = c1\<lparr>n_stored := n_stored c1 + 1\<rparr>"
    by (auto simp: store_raw_def key b dict_item_def row_of_def res_inv simp del: dumps.simps)
  with project_frame [OF this(1)] show "raw_table c' = raw_table c @ [row_of env key]"
    "quarantine c' = quarantine c" "alarms c' = alarms c"
    "n_stored c' = n_stored c + 1" "n_duplicates c' = n_duplicates c" "n_quarantined c' = n_quarantined c"
    "n_alarms c' = n_alarms c" by simp_all
qed

lemma dedup_frame:
  assumes "dedup env key t c = Inr c'"
  shows "raw_table c' = raw_table c" "quarantine c' = quarantine c" "machines_table c' = machines_table c"
    "runs_table c' = runs_table c" "n_stored c' = n_stored c" "n_quarantined c' = n_quarantined c"
    "n_duplicates c' + n_alarms c' = n_duplicates c + n_alarms c + 1"
  using assms by (auto simp: dedup_def res_inv split: prod.splits if_splits)

text \<open>The four ends of a line that is not blank.\<close>

lemma ingest_line_cases:
  assumes "ingest_line H spec msg line c = Inr c'"
  obtains (blank) "strip line = []" "c' = c"
    | (bad) reason where "strip line \<noteq> []" "\<And>env key. \<not> accepted H spec line env key"
        "c' = quarantine_line (strip line) reason c"
    | (again) env key row c1 where "accepted H spec line env key"
        "note_unknown_vocabulary spec env c = Inr c1" "find (\<lambda>r. raw_key r = key) (raw_table c) = Some row"
        "dedup env key (raw_envelope row) c1 = Inr c'"
    | (fresh) env key c1 where "accepted H spec line env key"
        "note_unknown_vocabulary spec env c = Inr c1" "key \<notin> raw_key ` set (raw_table c)"
        "store_raw H env key c1 = Inr c'"
proof (cases "strip line = []")
  case True
  with assms blank show thesis by (simp add: ingest_line_def)
next
  case ne: False
  show thesis
  proof (cases "\<exists>env. loads (strip line) = Inr (JObj env)")
    case False
    then have "\<exists>reason. c' = quarantine_line (strip line) reason c"
      using assms ne by (auto simp: ingest_line_def Let_def split: sum.splits json.splits)
    with bad ne False show thesis by (auto simp: accepted_def)
  next
    case True
    then obtain env where env: "loads (strip line) = Inr (JObj env)" ..
    show thesis
    proof (cases "validate_envelope H spec env True")
      case (Inl e)
      with assms ne env show thesis by (simp add: ingest_line_def)
    next
      case (Inr errors)
      show thesis
      proof (cases "errors = []")
        case False
        then have "c' = quarantine_line (strip line) (''validate: '' @ hd errors) c"
          using assms ne env Inr by (simp add: ingest_line_def)
        moreover have "\<not> accepted H spec line env' key" for env' key
          using False env Inr by (auto simp: accepted_def)
        ultimately show thesis using bad ne by blast
      next
        case True
        with assms ne env Inr obtain c1 key where c1: "note_unknown_vocabulary spec env c = Inr c1"
          "envelope_key env = Inr key"
          "(case find (\<lambda>r. raw_key r = key) (raw_table c1) of
              Some row \<Rightarrow> dedup env key (raw_envelope row) c1 | None \<Rightarrow> store_raw H env key c1) = Inr c'"
          by (auto simp: ingest_line_def ingest_envelope_def res_inv)
        have raw: "raw_table c1 = raw_table c" using note_unknown_eq [OF c1(1)] by auto
        have acc: "accepted H spec line env key" using ne env Inr True c1(2) by (simp add: accepted_def)
        show thesis
        proof (cases "find (\<lambda>r. raw_key r = key) (raw_table c)")
          case None
          with fresh [OF acc c1(1)] c1(3) raw show thesis by (simp add: find_key_None)
        next
          case (Some row)
          with again [OF acc c1(1) Some] c1(3) raw show thesis by simp
        qed
      qed
    qed
  qed
qed

lemma accepted_unique: "accepted H spec line env key \<Longrightarrow> accepted H spec line env' key' \<Longrightarrow> env' = env \<and> key' = key"
  by (auto simp: accepted_def)

lemma ingest_line_raw:
  assumes "ingest_line H spec msg line c = Inr c'"
  shows "raw_table c' = raw_table c \<and> (\<forall>env key. accepted H spec line env key \<longrightarrow> key \<in> raw_key ` set (raw_table c))
    \<or> (\<exists>env key. accepted H spec line env key \<and> key \<notin> raw_key ` set (raw_table c)
         \<and> raw_table c' = raw_table c @ [row_of env key])"
  using assms
proof (cases rule: ingest_line_cases)
  case blank
  then show ?thesis by (simp add: accepted_def)
next
  case (bad reason)
  then show ?thesis by (simp add: quarantine_line_def)
next
  case (again env key row c1)
  then have "raw_table c' = raw_table c" using note_unknown_eq [OF again(2)] dedup_frame(1) [OF again(4)] by auto
  with again(1,3) find_key_Some [OF again(3)] show ?thesis by (auto dest: accepted_unique)
next
  case (fresh env key c1)
  then have "raw_table c' = raw_table c @ [row_of env key]"
    using note_unknown_eq [OF fresh(2)] store_raw_ok(1) [OF fresh(4)] by (auto simp: accepted_def)
  with fresh show ?thesis by blast
qed

definition total :: "consumer \<Rightarrow> int" where
  "total c = n_stored c + n_duplicates c + n_quarantined c + n_alarms c"

lemma ingest_line_total:
  assumes "ingest_line H spec msg line c = Inr c'"
  shows "total c' = total c + (if strip line = [] then 0 else 1)
    \<and> int (length (raw_table c')) - n_stored c' = int (length (raw_table c)) - n_stored c
    \<and> int (length (quarantine c')) - n_quarantined c' = int (length (quarantine c)) - n_quarantined c"
  using assms
proof (cases rule: ingest_line_cases)
  case (bad reason)
  then show ?thesis by (simp add: quarantine_line_def total_def)
next
  case (again env key row c1)
  then have "strip line \<noteq> []" by (simp add: accepted_def)
  with dedup_frame [OF again(4)] note_unknown_eq [OF again(2)] show ?thesis by (auto simp: total_def)
next
  case (fresh env key c1)
  then have "strip line \<noteq> []" "validate_envelope H spec env True = Inr []" by (simp_all add: accepted_def)
  with store_raw_ok [OF fresh(4) this(2)] note_unknown_eq [OF fresh(2)] show ?thesis by (auto simp: total_def)
qed simp

section \<open>A whole stream\<close>

definition raw_inv :: "consumer \<Rightarrow> bool" where
  "raw_inv c = distinct (map raw_key (raw_table c))"

definition accepted_row :: "(string \<Rightarrow> string) \<Rightarrow> spec \<Rightarrow> string \<Rightarrow> raw_row \<Rightarrow> bool" where
  "accepted_row H spec line r = (\<exists>env key. accepted H spec line env key \<and> r = row_of env key)"

definition accepted_rows :: "(string \<Rightarrow> string) \<Rightarrow> spec \<Rightarrow> string list \<Rightarrow> raw_row set" where
  "accepted_rows H spec lines = {r. \<exists>line \<in> set lines. accepted_row H spec line r}"

lemma accepted_row_iff: "accepted H spec line env key \<Longrightarrow> accepted_row H spec line r \<longleftrightarrow> r = row_of env key"
  unfolding accepted_row_def by (blast dest: accepted_unique)

lemma accepted_rows_Cons:
  "accepted_rows H spec (l # ls) = {r. accepted_row H spec l r} \<union> accepted_rows H spec ls"
  by (auto simp: accepted_rows_def)

lemma accepted_rows_one: "accepted H spec l env key \<Longrightarrow> accepted_rows H spec (l # ls) = insert (row_of env key) (accepted_rows H spec ls)"
  by (simp add: accepted_rows_Cons accepted_row_iff)

text \<open>
  The rows after a stream: those before, some of the accepted lines', one for each key that occurs,
  each key once.
\<close>

lemma ingest_all_raw:
  "ingest_all H spec msg lines c = Inr c' \<Longrightarrow> raw_inv c \<Longrightarrow>
     raw_inv c' \<and> (\<exists>new. raw_table c' = raw_table c @ new \<and> set new \<subseteq> accepted_rows H spec lines)
     \<and> raw_key ` set (raw_table c') = raw_key ` set (raw_table c) \<union> raw_key ` accepted_rows H spec lines"
proof (induction lines arbitrary: c)
  case Nil
  then show ?case by (simp add: accepted_rows_def)
next
  case (Cons l ls)
  then obtain c1 where c1: "ingest_line H spec msg l c = Inr c1" "ingest_all H spec msg ls c1 = Inr c'"
    by (auto simp: res_inv)
  show ?case
  proof (cases "\<exists>env key. accepted H spec l env key \<and> key \<notin> raw_key ` set (raw_table c)")
    case True
    then obtain env key where a: "accepted H spec l env key" "key \<notin> raw_key ` set (raw_table c)" by blast
    have t: "raw_table c1 = raw_table c @ [row_of env key]"
      using ingest_line_raw [OF c1(1)] a(2) accepted_unique [OF a(1)] a(1) by metis
    then have "raw_inv c1" using Cons.prems(2) a(2) by (auto simp: raw_inv_def)
    with Cons.IH [OF c1(2)] obtain new where n: "raw_inv c'" "raw_table c' = raw_table c1 @ new"
      "set new \<subseteq> accepted_rows H spec ls"
      "raw_key ` set (raw_table c') = raw_key ` set (raw_table c1) \<union> raw_key ` accepted_rows H spec ls" by blast
    show ?thesis
      unfolding accepted_rows_one [OF a(1)]
      using n t by (intro conjI exI [of _ "row_of env key # new"]) auto
  next
    case False
    then have t: "raw_table c1 = raw_table c" using ingest_line_raw [OF c1(1)] by blast
    then have "raw_inv c1" using Cons.prems(2) by (simp add: raw_inv_def)
    with Cons.IH [OF c1(2)] obtain new where n: "raw_inv c'" "raw_table c' = raw_table c1 @ new"
      "set new \<subseteq> accepted_rows H spec ls"
      "raw_key ` set (raw_table c') = raw_key ` set (raw_table c1) \<union> raw_key ` accepted_rows H spec ls" by blast
    have "raw_key ` accepted_rows H spec (l # ls) \<subseteq> raw_key ` set (raw_table c) \<union> raw_key ` accepted_rows H spec ls"
    proof
      fix k assume "k \<in> raw_key ` accepted_rows H spec (l # ls)"
      then obtain r where r: "k = raw_key r" "accepted_row H spec l r \<or> r \<in> accepted_rows H spec ls"
        by (auto simp: accepted_rows_Cons)
      then show "k \<in> raw_key ` set (raw_table c) \<union> raw_key ` accepted_rows H spec ls"
      proof (elim disjE)
        assume "accepted_row H spec l r"
        then obtain env key where "accepted H spec l env key" "r = row_of env key" unfolding accepted_row_def by blast
        then have "k \<in> raw_key ` set (raw_table c)" using False r(1) by (metis raw_key_row_of)
        then show ?thesis by blast
      qed (use r(1) in blast)
    qed
    moreover have "accepted_rows H spec ls \<subseteq> accepted_rows H spec (l # ls)" by (auto simp: accepted_rows_Cons)
    ultimately have "raw_key ` set (raw_table c) \<union> raw_key ` accepted_rows H spec (l # ls)
      = raw_key ` set (raw_table c) \<union> raw_key ` accepted_rows H spec ls" by blast
    with n t show ?thesis using \<open>accepted_rows H spec ls \<subseteq> accepted_rows H spec (l # ls)\<close>
      by (intro conjI exI [of _ new]) auto
  qed
qed

section \<open>Gaps\<close>

definition of_machine :: "string \<times> string \<Rightarrow> raw_row list \<Rightarrow> int list" where
  "of_machine k rows = map raw_seq (filter (\<lambda>r. (raw_gateway r, raw_machine r) = k) rows)"

lemma seqs_by_machine_snoc:
  "seqs_by_machine (rows @ [r]) =
     (let d = seqs_by_machine rows; k = (raw_gateway r, raw_machine r) in
      AList.update k ((case map_of d k of None \<Rightarrow> [] | Some qs \<Rightarrow> qs) @ [raw_seq r]) d)"
  by (simp add: seqs_by_machine_def Let_def)

lemma seqs_by_machine_lookup:
  "map_of (seqs_by_machine rows) k = (if of_machine k rows = [] then None else Some (of_machine k rows))
   \<and> distinct (map fst (seqs_by_machine rows))"
proof (induction rows rule: rev_induct)
  case (snoc r rows)
  then show ?case
    by (auto simp: seqs_by_machine_snoc Let_def AList.update_conv' AList.distinct_update of_machine_def)
qed (simp add: seqs_by_machine_def of_machine_def)

definition machine_label :: "string \<times> string \<Rightarrow> string" where
  "machine_label k = fst k @ ''/'' @ snd k"

lemma slash_split:
  "CHR ''/'' \<notin> set g \<Longrightarrow> CHR ''/'' \<notin> set g' \<Longrightarrow> g @ CHR ''/'' # m = g' @ CHR ''/'' # m' \<Longrightarrow> g = g' \<and> m = m'"
proof (induction g arbitrary: g')
  case Nil
  then show ?case by (cases g') auto
next
  case (Cons x g)
  then show ?case by (cases g') auto
qed

lemma machine_label_inject:
  "CHR ''/'' \<notin> set (fst k) \<Longrightarrow> CHR ''/'' \<notin> set (fst k') \<Longrightarrow> machine_label k = machine_label k' \<longleftrightarrow> k = k'"
  using slash_split [of "fst k" "fst k'" "snd k" "snd k'"] by (auto simp: machine_label_def prod_eq_iff)

lemma gaps_fold:
  assumes "distinct (map fst d)" "\<forall>e \<in> set d. CHR ''/'' \<notin> set (fst (fst e))" "CHR ''/'' \<notin> set (fst k)"
  shows "map_of (foldl (\<lambda>out ((g, m), qs). let missing = missing_seqs qs in
           if missing \<noteq> [] then AList.update (g @ ''/'' @ m) missing out else out) [] d) (machine_label k)
    = (case map_of d k of None \<Rightarrow> None | Some qs \<Rightarrow> if missing_seqs qs = [] then None else Some (missing_seqs qs))"
  using assms
proof (induction d rule: rev_induct)
  case (snoc e d)
  obtain g m qs where e: "e = ((g, m), qs)" by (cases e; cases "fst e") auto
  have l: "g @ CHR ''/'' # m = machine_label (g, m)" by (simp add: machine_label_def)
  have inj: "machine_label (g, m) = machine_label k \<longleftrightarrow> (g, m) = k"
    using snoc.prems e by (intro machine_label_inject) auto
  have new: "map_of d (g, m) = None" using snoc.prems(1) e by (auto simp: map_of_eq_None_iff)
  have IH: "map_of (foldl (\<lambda>out ((g, m), qs). let missing = missing_seqs qs in
           if missing \<noteq> [] then AList.update (g @ ''/'' @ m) missing out else out) [] d) (machine_label k)
    = (case map_of d k of None \<Rightarrow> None | Some qs \<Rightarrow> if missing_seqs qs = [] then None else Some (missing_seqs qs))"
    using snoc by simp
  show ?case
  proof (cases "(g, m) = k")
    case True
    with IH new show ?thesis by (auto simp: e Let_def l map_add_def)
  next
    case False
    with IH inj show ?thesis by (auto simp: e Let_def l map_add_def split: option.splits)
  qed
qed simp

lemma of_machine_sorted:
  "set (of_machine k (sort_key f rows)) = set (of_machine k rows)" "of_machine k (sort_key f rows) = [] \<longleftrightarrow> of_machine k rows = []"
proof -
  show s: "set (of_machine k (sort_key f rows)) = set (of_machine k rows)" for rows
    by (auto simp: of_machine_def)
  show "of_machine k (sort_key f rows) = [] \<longleftrightarrow> of_machine k rows = []"
    using s [of rows] by (metis set_empty)
qed

lemma missing_seqs_cong: "set qs = set qs' \<Longrightarrow> missing_seqs qs = missing_seqs qs'"
  by (simp add: missing_seqs_def)

lemma gaps_lookup:
  assumes "\<forall>r \<in> set (raw_table c). CHR ''/'' \<notin> set (raw_gateway r)" "CHR ''/'' \<notin> set g"
  shows "map_of (gaps c) (g @ ''/'' @ m) =
    (let qs = of_machine (g, m) (raw_table c) in
     if qs = [] \<or> missing_seqs qs = [] then None else Some (missing_seqs qs))"
proof -
  let ?rows = "sort_key raw_gateway (sort_key raw_machine (sort_key raw_seq (raw_table c)))"
  have "CHR ''/'' \<notin> set (fst (fst e))" if "e \<in> set (seqs_by_machine ?rows)" for e
  proof -
    obtain k qs where e: "e = (k, qs)" by (cases e)
    have "map_of (seqs_by_machine ?rows) k = Some qs"
      using that seqs_by_machine_lookup [of ?rows k] e by (auto simp: map_of_eq_Some_iff)
    then have "of_machine k ?rows \<noteq> []" using seqs_by_machine_lookup [of ?rows k] by (auto split: if_splits)
    then have "of_machine k (raw_table c) \<noteq> []" by (simp add: of_machine_sorted)
    then show ?thesis using assms(1) e by (auto simp: of_machine_def filter_empty_conv)
  qed
  then have "map_of (gaps c) (machine_label (g, m)) =
    (case map_of (seqs_by_machine ?rows) (g, m) of None \<Rightarrow> None
     | Some qs \<Rightarrow> if missing_seqs qs = [] then None else Some (missing_seqs qs))"
    unfolding gaps_def Let_def
    using seqs_by_machine_lookup [of ?rows "(g, m)"] assms(2)
    by (intro gaps_fold [unfolded Let_def]) auto
  moreover have "missing_seqs (of_machine (g, m) ?rows) = missing_seqs (of_machine (g, m) (raw_table c))"
    by (rule missing_seqs_cong) (simp add: of_machine_sorted)
  ultimately show ?thesis
    using seqs_by_machine_lookup [of ?rows "(g, m)"]
    by (simp add: machine_label_def of_machine_sorted Let_def)
qed

lemma set_missing_seqs: "set (missing_seqs qs) = {i. 1 \<le> i \<and> i \<le> Max (set qs) \<and> i \<notin> set qs}"
  by (auto simp: missing_seqs_def)

lemma sorted_missing_seqs: "sorted (missing_seqs qs)" "distinct (missing_seqs qs)"
proof -
  have "sorted [i..j]" "distinct [i..j]" for i j :: int
    by (simp_all add: sorted_upto)
  then show "sorted (missing_seqs qs)" "distinct (missing_seqs qs)"
    by (simp_all add: missing_seqs_def sorted_wrt_filter)
qed

section \<open>Redelivery and conflict\<close>

lemma find_distinct:
  assumes "distinct (map raw_key rows)" "r \<in> set rows"
  shows "find (\<lambda>x. raw_key x = raw_key r) rows = Some r"
proof -
  obtain r' where r': "find (\<lambda>x. raw_key x = raw_key r) rows = Some r'"
    using assms(2) by (cases "find (\<lambda>x. raw_key x = raw_key r) rows") (auto simp: find_None_iff)
  with find_key_Some [OF r'] assms have "r' = r" by (metis distinct_map inj_on_def)
  with r' show ?thesis by simp
qed

lemma ingest_line_known:
  assumes "accepted H spec line env key" "raw_inv c" "r \<in> set (raw_table c)" "raw_key r = key"
    "ingest_line H spec msg line c = Inr c'"
  obtains c1 n u where "c1 = c\<lparr>n_unknown := n, unknown_types := u\<rparr>" "dedup env key (raw_envelope r) c1 = Inr c'"
  using assms(5)
proof (cases rule: ingest_line_cases)
  case blank
  with assms(1) show thesis by (simp add: accepted_def)
next
  case (bad reason)
  with assms(1) show thesis by blast
next
  case (again env' key' row c1)
  from accepted_unique [OF assms(1) again(1)] have "env' = env" "key' = key" by auto
  with again find_distinct [of "raw_table c" r] assms(2-4) note_unknown_eq [OF again(2)] that show thesis
    by (auto simp: raw_inv_def)
next
  case (fresh env' key' c1)
  from accepted_unique [OF assms(1) fresh(1)] have "key' = key" by auto
  with fresh(3) assms(3,4) show thesis by auto
qed

section \<open>Sample lines\<close>

lemma strip_braces: "strip (CHR ''{'' # s @ ''}'' @ t) = CHR ''{'' # s @ ''}'' @ strip_tail"
  if "list_all is_space t" "strip_tail = []" for t strip_tail
proof -
  have "dropWhile is_space (rev t @ CHR ''}'' # u) = CHR ''}'' # u" for u
    using that(1) dropWhile_append_stop [of "rev t" is_space "CHR ''}'' # u"] by (auto simp: list_all_iff is_space_def)
  then show ?thesis using that(2) by (simp add: strip_def lstrip_def is_space_def)
qed

text \<open>A printed object, alone or as a line, is the same text without its end of line.\<close>

lemma strip_object: "strip (dumps cfg (JObj d)) = dumps cfg (JObj d)"
  "strip (dumps cfg (JObj d) @ [CHR 0x0A]) = dumps cfg (JObj d)"
  using strip_braces [of "[]" "[]"] strip_braces [of "[CHR 0x0A]" "[]"] by (simp_all add: is_space_def)

definition sample_env :: "int \<Rightarrow> int \<Rightarrow> json dict" where
  "sample_env i q = [(''gateway_id'', JStr ''gw1''), (''machine_id'', JStr ''m12''), (''seq'', JInt q),
     (''profile'', JStr ''p/0.1''), (''schema'', JStr ''telemetry''), (''body'', JObj [(''a'', JInt i)]),
     (''checksum'', JStr (dumps canonical_opts (JObj [(''a'', JInt i)])))]"

definition sample_line :: "int \<Rightarrow> int \<Rightarrow> string" where
  "sample_line i q = dumps plain_opts (JObj (sample_env i q)) @ [CHR 0x0A]"

abbreviation sample_ingest :: "string \<Rightarrow> consumer \<Rightarrow> consumer res" where
  "sample_ingest \<equiv> ingest_line (\<lambda>s. s) accept_all (\<lambda>_. [])"

lemma sample_env_get:
  "map_of (sample_env i q) ''gateway_id'' = Some (JStr ''gw1'')" "map_of (sample_env i q) ''machine_id'' = Some (JStr ''m12'')"
  "map_of (sample_env i q) ''seq'' = Some (JInt q)" "map_of (sample_env i q) ''profile'' = Some (JStr ''p/0.1'')"
  "map_of (sample_env i q) ''schema'' = Some (JStr ''telemetry'')" "map_of (sample_env i q) ''body'' = Some (JObj [(''a'', JInt i)])"
  "map_of (sample_env i q) ''checksum'' = Some (JStr (dumps canonical_opts (JObj [(''a'', JInt i)])))"
  by (simp_all add: sample_env_def del: dumps.simps)

lemma sample_checksum_i: "checksum (\<lambda>s. s) [(''a'', JInt i)] = Inr (dumps canonical_opts (JObj [(''a'', JInt i)]))"
  unfolding checksum_ok_iff by simp

lemma sample_accepted:
  assumes "int64 q"
  shows "accepted (\<lambda>s. s) accept_all (sample_line i q) (sample_env i q) (''gw1'', ''m12'', q)"
proof -
  have "wf_json (JObj (sample_env i q))" "floats_ok (JObj (sample_env i q))"
    by (simp_all add: sample_env_def del: dumps.simps)
  then have "loads (strip (sample_line i q)) = Inr (JObj (sample_env i q))"
    unfolding sample_line_def strip_object by (rule loads_dumps_plain)
  moreover have "validate_envelope (\<lambda>s. s) accept_all (sample_env i q) True = Inr []"
    unfolding validate_ok_iff
    by (intro exI [of _ "\<lambda>_. []"] exI [of _ "[(''a'', JInt i)]"] exI [of _ "''telemetry''"]
        exI [of _ "dumps canonical_opts (JObj [(''a'', JInt i)])"])
      (simp add: accept_all_def sample_env_get sample_checksum_i profile_errors_def dict_item_def del: dumps.simps)
  moreover have "strip (sample_line i q) \<noteq> []" by (simp add: sample_line_def strip_object(2) del: dumps.simps) simp
  ultimately show ?thesis
    using assms by (simp add: accepted_def envelope_key_def dict_item_def sample_env_get)
qed

lemma sample_stored:
  assumes "int64 q" "(''gw1'', ''m12'', q) \<notin> raw_key ` set (raw_table c)"
  shows "sample_ingest (sample_line i q) c
    = Inr (c\<lparr>raw_table := raw_table c @ [row_of (sample_env i q) (''gw1'', ''m12'', q)], n_stored := n_stored c + 1\<rparr>)"
proof -
  note acc = sample_accepted [OF assms(1), of i, unfolded accepted_def]
  have "find (\<lambda>r. raw_key r = (''gw1'', ''m12'', q)) (raw_table c) = None" using assms(2) by (simp add: find_key_None)
  then show ?thesis
    using acc unfolding ingest_line_def Let_def
    by (simp add: ingest_envelope_def note_unknown_vocabulary_def dict_item_def sample_env_get store_raw_def
        sample_checksum_i project_def row_of_def del: dumps.simps)
qed

lemma sample_known:
  assumes "int64 q" "find (\<lambda>r. raw_key r = (''gw1'', ''m12'', q)) (raw_table c) = Some row"
  shows "sample_ingest (sample_line i q) c = dedup (sample_env i q) (''gw1'', ''m12'', q) (raw_envelope row) c"
  using sample_accepted [OF assms(1), of i, unfolded accepted_def] assms(2) unfolding ingest_line_def Let_def
  by (simp add: ingest_envelope_def note_unknown_vocabulary_def dict_item_def sample_env_get del: dumps.simps)

lemma show_int_ascii: "c \<in> set (show_int i) \<Longrightarrow> (of_char c :: nat) < 128"
  by (auto simp: show_int_def is_digit_def split: if_splits dest!: show_nat_digits)

lemma sample_reads_back: "loads (dumps default_opts (JObj (sample_env i q))) = Inr (JObj (sample_env i q))"
proof -
  have "utf8_ok (dumps canonical_opts (JObj [(''a'', JInt i)]))"
    by (intro utf8_ok_ascii)
      (auto simp: order_items_def canonical_opts_def quote_def escaped_def escape_char_def is_digit_def
        dest!: show_int_ascii)
  then have "texts_ok default_opts (JObj (sample_env i q))"
    by (simp add: sample_env_def text_ok_def utf8_ok_ascii del: dumps.simps)
  moreover have "wf_json (JObj (sample_env i q))" "floats_ok (JObj (sample_env i q))"
    by (simp_all add: sample_env_def del: dumps.simps)
  ultimately show ?thesis by (rule loads_dumps_default)
qed

section \<open>Properties\<close>

text \<open>Redelivery is idempotent: ingesting a line whose envelope is already stored under its key changes no table;
  it only counts one duplicate.\<close>

theorem redelivery_idempotent:
  assumes "accepted H spec line env key" "raw_inv c" "row_of env key \<in> set (raw_table c)"
    "loads (dumps default_opts (JObj env)) = Inr (JObj env)" "ingest_line H spec msg line c = Inr c'"
  shows "raw_table c' = raw_table c \<and> machines_table c' = machines_table c \<and> runs_table c' = runs_table c
    \<and> alarms c' = alarms c \<and> quarantine c' = quarantine c
    \<and> n_duplicates c' = n_duplicates c + 1 \<and> n_stored c' = n_stored c \<and> n_alarms c' = n_alarms c"
proof -
  obtain c1 n u where c1: "c1 = c\<lparr>n_unknown := n, unknown_types := u\<rparr>"
    "dedup env key (raw_envelope (row_of env key)) c1 = Inr c'"
    by (rule ingest_line_known [OF assms(1-3) raw_key_row_of assms(5)])
  from assms(1) obtain s where "map_of env ''checksum'' = Some (JStr s)"
    by (auto simp: accepted_def validate_ok_iff)
  with c1 assms(4) show ?thesis
    by (auto simp: dedup_def dict_item_def simp del: dumps.simps split: prod.splits)
qed

theorem redelivery_idempotent_witness:
  "\<exists>c c'. sample_ingest (sample_line 5 1) empty_consumer = Inr c \<and> sample_ingest (sample_line 5 1) c = Inr c'
     \<and> raw_table c' = raw_table c \<and> length (raw_table c') = 1 \<and> n_duplicates c' = 1"
proof -
  have b: "int64 1" by (simp add: int64_def)
  obtain c where c: "sample_ingest (sample_line 5 1) empty_consumer = Inr c"
    "raw_table c = [row_of (sample_env 5 1) (''gw1'', ''m12'', 1)]" "n_duplicates c = 0"
    using sample_stored [OF b, of empty_consumer 5] by (simp add: empty_consumer_def)
  have "sample_ingest (sample_line 5 1) c = dedup (sample_env 5 1) (''gw1'', ''m12'', 1) (dumps default_opts (JObj (sample_env 5 1))) c"
    using sample_known [OF b, of c] c(2) by (simp del: dumps.simps)
  then obtain c' where c': "sample_ingest (sample_line 5 1) c = Inr c'"
    by (simp add: dedup_def sample_reads_back dict_item_def sample_env_get del: dumps.simps)
  have "raw_inv c" "row_of (sample_env 5 1) (''gw1'', ''m12'', 1) \<in> set (raw_table c)" using c by (simp_all add: raw_inv_def)
  from redelivery_idempotent [OF sample_accepted [OF b] this sample_reads_back c'] c c' show ?thesis by auto
qed

text \<open>C31: The same key with a different checksum never overwrites: the stored row stays as it is, and exactly one alarm
  is stored, with the text stored first and the text of the conflicting envelope.\<close>

theorem conflict_is_alarm:
  assumes "accepted H spec line env (g, m, q)" "raw_inv c" "r \<in> set (raw_table c)" "raw_key r = (g, m, q)"
    "loads (raw_envelope r) = Inr (JObj prior)" "map_of prior ''checksum'' = Some old"
    "map_of env ''checksum'' \<noteq> Some old" "ingest_line H spec msg line c = Inr c'"
  shows "raw_table c' = raw_table c \<and> machines_table c' = machines_table c \<and> runs_table c' = runs_table c
    \<and> alarms c' = alarms c @ [\<lparr>alarm_gateway = g, alarm_machine = m, alarm_seq = q,
        first_envelope = raw_envelope r, second_envelope = dumps default_opts (JObj env)\<rparr>]
    \<and> n_alarms c' = n_alarms c + 1"
proof -
  obtain c1 n u where c1: "c1 = c\<lparr>n_unknown := n, unknown_types := u\<rparr>"
    "dedup env (g, m, q) (raw_envelope r) c1 = Inr c'"
    by (rule ingest_line_known [OF assms(1-4,8)])
  from assms(1) obtain s where "map_of env ''checksum'' = Some (JStr s)"
    by (auto simp: accepted_def validate_ok_iff)
  with c1 assms(5-7) show ?thesis by (auto simp: dedup_def dict_item_def simp del: dumps.simps)
qed

theorem conflict_is_alarm_witness:
  "\<exists>c c'. sample_ingest (sample_line 5 1) empty_consumer = Inr c \<and> sample_ingest (sample_line 6 1) c = Inr c'
     \<and> raw_table c' = raw_table c \<and> length (alarms c') = 1"
proof -
  have b: "int64 1" by (simp add: int64_def)
  obtain c where c: "sample_ingest (sample_line 5 1) empty_consumer = Inr c"
    "raw_table c = [row_of (sample_env 5 1) (''gw1'', ''m12'', 1)]" "alarms c = []"
    using sample_stored [OF b, of empty_consumer 5] by (simp add: empty_consumer_def)
  have "sample_ingest (sample_line 6 1) c = dedup (sample_env 6 1) (''gw1'', ''m12'', 1) (dumps default_opts (JObj (sample_env 5 1))) c"
    using sample_known [OF b, of c] c(2) by (simp del: dumps.simps)
  then obtain c' where c': "sample_ingest (sample_line 6 1) c = Inr c'"
    by (simp add: dedup_def sample_reads_back dict_item_def sample_env_get del: dumps.simps)
  let ?r = "row_of (sample_env 5 1) (''gw1'', ''m12'', 1)"
  have r: "raw_inv c" "?r \<in> set (raw_table c)" "raw_key ?r = (''gw1'', ''m12'', 1)"
    "loads (raw_envelope ?r) = Inr (JObj (sample_env 5 1))"
    using c by (simp_all add: raw_inv_def sample_reads_back del: dumps.simps)
  have "map_of (sample_env 6 1) ''checksum'' \<noteq> Some (JStr (dumps canonical_opts (JObj [(''a'', JInt 5)])))"
    by (simp add: sample_env_get order_items_def canonical_opts_def)
  from conflict_is_alarm [OF sample_accepted [OF b] r sample_env_get(7) this c'] c c' show ?thesis by auto
qed

text \<open>A stream is stored exactly once: after any stream, with any repetitions, every key has one row, the keys
  stored are those stored before and those of the accepted lines, the rows stored before are all still there in
  place, and every new row is that of an accepted line.\<close>

theorem stream_stored_exactly_once:
  assumes "ingest_all H spec msg lines c = Inr c'" "raw_inv c"
  shows "distinct (map raw_key (raw_table c'))
    \<and> raw_key ` set (raw_table c') = raw_key ` set (raw_table c) \<union> raw_key ` accepted_rows H spec lines
    \<and> (\<exists>new. raw_table c' = raw_table c @ new \<and> set new \<subseteq> accepted_rows H spec lines)"
  using ingest_all_raw [OF assms] by (simp add: raw_inv_def)

theorem stream_stored_exactly_once_witness:
  "\<exists>c. ingest_all (\<lambda>s. s) accept_all (\<lambda>_. []) [sample_line 5 1, sample_line 5 1] empty_consumer = Inr c
     \<and> distinct (map raw_key (raw_table c)) \<and> raw_table c \<noteq> []"
proof -
  have b: "int64 1" by (simp add: int64_def)
  obtain c where c: "sample_ingest (sample_line 5 1) empty_consumer = Inr c"
    "raw_table c = [row_of (sample_env 5 1) (''gw1'', ''m12'', 1)]"
    using sample_stored [OF b, of empty_consumer 5] by (simp add: empty_consumer_def)
  have "sample_ingest (sample_line 5 1) c = dedup (sample_env 5 1) (''gw1'', ''m12'', 1) (dumps default_opts (JObj (sample_env 5 1))) c"
    using sample_known [OF b, of c] c(2) by (simp del: dumps.simps)
  then obtain c' where c': "ingest_all (\<lambda>s. s) accept_all (\<lambda>_. []) [sample_line 5 1, sample_line 5 1] empty_consumer = Inr c'"
    using c(1) by (simp add: dedup_def sample_reads_back dict_item_def sample_env_get del: dumps.simps)
  have "raw_inv empty_consumer" by (simp add: raw_inv_def empty_consumer_def)
  from stream_stored_exactly_once [OF c' this] have "distinct (map raw_key (raw_table c'))"
    "raw_key ` set (raw_table c') = raw_key ` set (raw_table empty_consumer)
       \<union> raw_key ` accepted_rows (\<lambda>s. s) accept_all [sample_line 5 1, sample_line 5 1]" by blast+
  moreover have "row_of (sample_env 5 1) (''gw1'', ''m12'', 1) \<in> accepted_rows (\<lambda>s. s) accept_all [sample_line 5 1, sample_line 5 1]"
    using sample_accepted [OF b, of 5] by (auto simp: accepted_rows_def accepted_row_def)
  ultimately show ?thesis using c' by (intro exI [of _ c']) auto
qed

text \<open>Arrival order and repetition do not matter to the raw store: two streams with the same lines, in which no two
  accepted lines give one key two envelopes, leave the same set of rows in an empty database.\<close>

theorem arrival_order_irrelevant:
  assumes "ingest_all H spec msg lines empty_consumer = Inr c" "ingest_all H spec msg lines' empty_consumer = Inr c'"
    "set lines = set lines'"
    "\<And>r r'. r \<in> accepted_rows H spec lines \<Longrightarrow> r' \<in> accepted_rows H spec lines \<Longrightarrow> raw_key r = raw_key r' \<Longrightarrow> r = r'"
  shows "set (raw_table c) = set (raw_table c')"
proof -
  have inv: "raw_inv empty_consumer" "raw_table empty_consumer = []" by (simp_all add: raw_inv_def empty_consumer_def)
  have same: "accepted_rows H spec lines' = accepted_rows H spec lines" using assms(3) by (simp add: accepted_rows_def)
  have "set (raw_table d) = accepted_rows H spec lines"
    if sub: "set (raw_table d) \<subseteq> accepted_rows H spec lines"
      and keys: "raw_key ` set (raw_table d) = raw_key ` accepted_rows H spec lines" for d :: consumer
  proof
    show "accepted_rows H spec lines \<subseteq> set (raw_table d)"
    proof
      fix r assume r: "r \<in> accepted_rows H spec lines"
      then obtain r' where "r' \<in> set (raw_table d)" "raw_key r' = raw_key r" using keys by (metis imageE imageI)
      with assms(4) [of r' r] r sub show "r \<in> set (raw_table d)" by auto
    qed
  qed (rule sub)
  with ingest_all_raw [OF assms(1) inv(1)] ingest_all_raw [OF assms(2) inv(1)] inv(2) same show ?thesis by auto
qed

theorem arrival_order_irrelevant_witness:
  "\<exists>c c'. ingest_all (\<lambda>s. s) accept_all (\<lambda>_. []) [sample_line 5 1, sample_line 6 2] empty_consumer = Inr c
     \<and> ingest_all (\<lambda>s. s) accept_all (\<lambda>_. []) [sample_line 6 2, sample_line 5 1] empty_consumer = Inr c'
     \<and> set (raw_table c) = set (raw_table c')"
proof -
  let ?r = "\<lambda>i q. row_of (sample_env i q) (''gw1'', ''m12'', q)"
  have b: "int64 1" "int64 2" by (simp_all add: int64_def)
  have two: "\<exists>c. ingest_all (\<lambda>s. s) accept_all (\<lambda>_. []) [sample_line i q, sample_line j p] empty_consumer = Inr c"
    if "int64 q" "int64 p" "p \<noteq> q" for i q j p
    using that sample_stored [OF that(1), of empty_consumer i]
      sample_stored [OF that(2), of "empty_consumer\<lparr>raw_table := [?r i q], n_stored := 1\<rparr>" j]
    by (simp add: empty_consumer_def)
  from two [OF b(1,2), of 5 6] two [OF b(2,1), of 6 5] obtain c c' where
    c: "ingest_all (\<lambda>s. s) accept_all (\<lambda>_. []) [sample_line 5 1, sample_line 6 2] empty_consumer = Inr c"
    and c': "ingest_all (\<lambda>s. s) accept_all (\<lambda>_. []) [sample_line 6 2, sample_line 5 1] empty_consumer = Inr c'"
    by auto
  have acc: "accepted_rows (\<lambda>s. s) accept_all [sample_line 5 1, sample_line 6 2] = {?r 5 1, ?r 6 2}"
    using accepted_row_iff [OF sample_accepted [OF b(1)]] accepted_row_iff [OF sample_accepted [OF b(2)]]
    by (auto simp: accepted_rows_def)
  have "set (raw_table c) = set (raw_table c')"
  proof (rule arrival_order_irrelevant [OF c c'])
    fix r r' assume "r \<in> accepted_rows (\<lambda>s. s) accept_all [sample_line 5 1, sample_line 6 2]"
      "r' \<in> accepted_rows (\<lambda>s. s) accept_all [sample_line 5 1, sample_line 6 2]" "raw_key r = raw_key r'"
    then show "r = r'" unfolding acc by auto
  qed auto
  with c c' show ?thesis by blast
qed

text \<open>Nothing is dropped silently: every line that is not blank is counted exactly once, as stored, duplicate,
  quarantined or alarm; a stored one has a row in the raw table and a quarantined one a row in the quarantine.\<close>

theorem every_line_counted:
  assumes "ingest_line H spec msg line c = Inr c'"
  shows "total c' = total c + (if strip line = [] then 0 else 1)
    \<and> int (length (raw_table c')) - n_stored c' = int (length (raw_table c)) - n_stored c
    \<and> int (length (quarantine c')) - n_quarantined c' = int (length (quarantine c)) - n_quarantined c"
  using assms by (rule ingest_line_total)

theorem every_line_counted_witness:
  "\<exists>c. sample_ingest ''{'' empty_consumer = Inr c \<and> total c = 1 \<and> length (quarantine c) = 1"
proof -
  have "strip ''{'' = ''{''" by (simp add: strip_def lstrip_def is_space_def)
  moreover have "loads ''{'' = Inl JSONDecodeError"
    by (simp add: loads_def skip_ws_def is_ws_def expect_def pkey_def eval_nat_numeral)
  ultimately have c: "sample_ingest ''{'' empty_consumer = Inr (quarantine_line ''{'' ''parse: '' empty_consumer)"
    by (simp add: ingest_line_def)
  from every_line_counted [OF c] \<open>strip ''{'' = ''{''\<close> c show ?thesis
    by (simp add: quarantine_line_def empty_consumer_def total_def)
qed

text \<open>The gap report is exact: under the label of a machine it lists the numbers from 1 to the largest stored one
  that are not stored, in order, and nothing when there is none.\<close>

theorem gaps_exact:
  assumes "\<forall>r \<in> set (raw_table c). CHR ''/'' \<notin> set (raw_gateway r)" "CHR ''/'' \<notin> set g"
  shows "(let qs = of_machine (g, m) (raw_table c) in
    case map_of (gaps c) (g @ ''/'' @ m) of
      None \<Rightarrow> qs = [] \<or> (\<forall>i. 1 \<le> i \<and> i \<le> Max (set qs) \<longrightarrow> i \<in> set qs)
    | Some missing \<Rightarrow> sorted missing \<and> distinct missing
        \<and> set missing = {i. 1 \<le> i \<and> i \<le> Max (set qs) \<and> i \<notin> set qs})"
proof -
  have "missing_seqs qs = [] \<longleftrightarrow> (\<forall>i. 1 \<le> i \<and> i \<le> Max (set qs) \<longrightarrow> i \<in> set qs)" for qs
    using set_missing_seqs [of qs] by (metis (mono_tags, lifting) empty_Collect_eq set_empty)
  then show ?thesis
    using sorted_missing_seqs set_missing_seqs unfolding gaps_lookup [OF assms] Let_def by simp
qed

theorem gaps_exact_witness:
  "map_of (gaps (empty_consumer\<lparr>raw_table := [row_of (sample_env 5 3) (''gw1'', ''m12'', 3)]\<rparr>)) ''gw1/m12'' = Some [1, 2]"
proof -
  let ?c = "empty_consumer\<lparr>raw_table := [row_of (sample_env 5 3) (''gw1'', ''m12'', 3)]\<rparr>"
  have qs: "of_machine (''gw1'', ''m12'') (raw_table ?c) = [3]"
    by (simp add: of_machine_def row_of_def del: dumps.simps)
  have pre: "\<forall>r \<in> set (raw_table ?c). CHR ''/'' \<notin> set (raw_gateway r)" "CHR ''/'' \<notin> set ''gw1''"
    by (simp_all add: row_of_def del: dumps.simps)
  have range: "{i :: int. 1 \<le> i \<and> i \<le> 3 \<and> i \<noteq> 3} = {1, 2}" by auto
  from gaps_exact [OF pre, of "''m12''"] have ex: "case map_of (gaps ?c) ''gw1/m12'' of
      None \<Rightarrow> (\<forall>i. 1 \<le> i \<and> i \<le> 3 \<longrightarrow> i = (3 :: int))
    | Some missing \<Rightarrow> sorted missing \<and> distinct missing \<and> set missing = {1, 2}"
    unfolding qs Let_def by (cases "map_of (gaps ?c) ''gw1/m12''") (simp_all add: range)
  then obtain missing where m: "map_of (gaps ?c) ''gw1/m12'' = Some missing" "sorted missing" "distinct missing" "set missing = {1, 2}"
    by (cases "map_of (gaps ?c) ''gw1/m12''") (auto dest: spec [of _ 1])
  have "missing = [1, 2]"
    by (rule sorted_distinct_set_unique) (use m in auto)
  with m(1) show ?thesis by simp
qed

end
