(* ===== verification/Cli_Tools.thy ===== *)
theory Cli_Tools
  imports Arg_Parse Validate_Main Simulate Sniff Ingest
begin

text \<open>
  \<open>main\<close> of \<open>omp-validate\<close>, \<open>omp-simulate\<close>, \<open>omp-sniff\<close> and of the reference consumer: the parser, the opening of the
  inputs and the call of the modelled program. The exit code of the parser is the exit code of the program.
\<close>

text \<open>What the programs take from their surroundings: the spec for a \<open>--spec-dir\<close> (\<open>load_spec\<close> of \<open>Spec_Load\<close> on the
  host's directories), the text of a file, and the standard input.\<close>

record host =
  spec_at :: "string option \<Rightarrow> spec res"
  text_at :: "string \<Rightarrow> string res"
  standard_input :: string

section \<open>omp-validate\<close>

definition validate_parser :: arg_parser where
  "validate_parser =
     \<lparr>options = [help_option, takes ''--spec-dir'' text_arg Absent, switch ''--quiet'', takes ''--pubkey'' text_arg Absent,
        switch ''--audit'', takes ''--run-id'' text_arg Absent, version_option],
      one_of = [], positional = All_Texts ''files''\<rparr>"

text \<open>\<open>lines\<close>: the lines of the files in turn, and the exception that ended them.\<close>

fun file_lines :: "(string \<Rightarrow> string res) \<Rightarrow> string list \<Rightarrow> string list \<times> pyexn option" where
  "file_lines read [] = ([], None)"
| "file_lines read (f # fs) =
     (case read f of
        Inl e \<Rightarrow> ([], Some e)
      | Inr t \<Rightarrow> (case file_lines read fs of (ls, e) \<Rightarrow> (text_lines t @ ls, e)))"

definition input_lines :: "host \<Rightarrow> string list \<Rightarrow> string list \<times> pyexn option" where
  "input_lines h fs = (if fs \<noteq> [] then file_lines (text_at h) fs else (text_lines (standard_input h), None))"

text \<open>An exception of the input is raised when the lines before it have been dealt with.\<close>

definition validate_input ::
  "(string \<Rightarrow> string) \<Rightarrow> (string \<Rightarrow> string \<Rightarrow> string \<Rightarrow> bool) \<Rightarrow> spec \<Rightarrow> (string \<Rightarrow> string) \<Rightarrow> string option \<Rightarrow> bool
     \<Rightarrow> string list \<times> pyexn option \<Rightarrow> (string list \<times> int) res" where
  "validate_input H ed spec parse_msg pubkey quiet input =
     (case input of (ls, failed) \<Rightarrow>
        res_bind (validate_main H ed spec parse_msg pubkey quiet ls) (\<lambda>r.
          case failed of None \<Rightarrow> Inr r | Some e \<Rightarrow> Inl e))"

definition audit_input ::
  "(string \<Rightarrow> string) \<Rightarrow> (string \<Rightarrow> string \<Rightarrow> string \<Rightarrow> bool) \<Rightarrow> spec \<Rightarrow> (string list \<Rightarrow> string) \<Rightarrow> string option \<Rightarrow> string option
     \<Rightarrow> string list \<times> pyexn option \<Rightarrow> (string list \<times> int) res" where
  "audit_input H ed spec bundle_msg pubkey run_id input =
     (case input of
        (ls, None) \<Rightarrow> res_bind (run_audit H ed spec bundle_msg pubkey run_id ls) (\<lambda>(out, c). Inr ([out], c))
      | (ls, Some e) \<Rightarrow>
          (case parse_bundle 1 ls of
             Inl n \<Rightarrow> Inr ([bundle_parse_msg (bundle_msg ls) n], 1)
           | Inr envs \<Rightarrow> Inl e))"

definition validate_command ::
  "(string \<Rightarrow> string) \<Rightarrow> (string \<Rightarrow> string \<Rightarrow> string \<Rightarrow> bool) \<Rightarrow> host \<Rightarrow> (string \<Rightarrow> string) \<Rightarrow> (string list \<Rightarrow> string)
     \<Rightarrow> string list \<Rightarrow> (string list \<times> int) res" where
  "validate_command H ed h parse_msg bundle_msg argv =
     (case parse_args validate_parser argv of
        Inl c \<Rightarrow> Inr ([], c)
      | Inr ns \<Rightarrow>
          res_bind (spec_at h (text_of (map_of ns ''spec_dir''))) (\<lambda>spec.
            let input = input_lines h (texts_of ns ''files''); pubkey = text_of (map_of ns ''pubkey'') in
            if is_on ns ''audit'' then audit_input H ed spec bundle_msg pubkey (text_of (map_of ns ''run_id'')) input
            else validate_input H ed spec parse_msg pubkey (is_on ns ''quiet'') input))"

section \<open>omp-simulate\<close>

definition duration_arg :: "string \<Rightarrow> arg_value option" where
  "duration_arg s = (case parse_duration s of Inl e \<Rightarrow> None | Inr x \<Rightarrow> Some (Num x))"

definition simulate_parser :: arg_parser where
  "simulate_parser =
     \<lparr>options = [help_option,
        takes ''--profile'' (choice_arg [''generic'', ''textile-sewing'', ''textile-dyeing'']) (Text ''generic''),
        takes ''--machines'' int_arg (Whole 1), takes ''--duration'' duration_arg (the (duration_arg ''10m'')),
        takes ''--seed'' int_arg Absent, takes ''--chaos'' (choice_arg [''corrupt-fields'']) Absent,
        takes ''--chaos-rate'' float_arg (Num (to_double (5 / 100))), takes ''--export'' text_arg Absent,
        takes ''--site'' text_arg (Text ''demo''), takes ''--line'' text_arg (Text ''line1''), version_option],
      one_of = [], positional = No_More\<rparr>"

definition text_in :: "namespace \<Rightarrow> string \<Rightarrow> string" where
  "text_in ns d = (case text_of (map_of ns d) of Some s \<Rightarrow> s | None \<Rightarrow> [])"

fun whole_of :: "arg_value option \<Rightarrow> int" where
  "whole_of (Some (Whole i)) = i"
| "whole_of _ = 0"

fun float_of_arg :: "arg_value option \<Rightarrow> pyfloat" where
  "float_of_arg (Some (Num x)) = x"
| "float_of_arg _ = NaN"

definition sim_args_of :: "namespace \<Rightarrow> sim_args" where
  "sim_args_of ns =
     \<lparr>arg_profile = text_in ns ''profile'', arg_machines = whole_of (map_of ns ''machines''),
      arg_duration = float_of_arg (map_of ns ''duration''),
      arg_chaos = (text_of (map_of ns ''chaos'') = Some ''corrupt-fields''),
      arg_chaos_rate = float_of_arg (map_of ns ''chaos_rate''), arg_export = text_of (map_of ns ''export''),
      arg_site = text_in ns ''site'', arg_line = text_in ns ''line''\<rparr>"

text \<open>The two generators, of the simulator and of the corruption, start from the seed; without one each starts from
  entropy of its own.\<close>

definition simulate_command ::
  "(string \<Rightarrow> string) \<Rightarrow> 'r generator \<Rightarrow> bool \<Rightarrow> (int \<Rightarrow> 'r) \<Rightarrow> 'r \<times> 'r \<Rightarrow> string list \<Rightarrow> (int res \<times> delivery list) option" where
  "simulate_command H g have_mqtt seeded entropy argv =
     (case parse_args simulate_parser argv of
        Inl c \<Rightarrow> Some (Inr c, [])
      | Inr ns \<Rightarrow>
          (case map_of ns ''seed'' of
             Some (Whole s) \<Rightarrow> simulate_main H g have_mqtt (sim_args_of ns) (seeded s) (seeded s)
           | _ \<Rightarrow> simulate_main H g have_mqtt (sim_args_of ns) (fst entropy) (snd entropy)))"

section \<open>omp-sniff\<close>

definition sniff_parser :: arg_parser where
  "sniff_parser =
     \<lparr>options = [help_option, takes ''--serial'' text_arg Absent, switch ''--stdin'', takes ''--decode'' text_arg Absent,
        takes ''--baud'' int_arg (Whole 9600), takes ''--out'' text_arg Absent, version_option],
      one_of = [''serial'', ''stdin'', ''decode''], positional = No_More\<rparr>"

text \<open>Where the output goes: the file of \<open>--out\<close>, or the standard output.\<close>

definition output_file :: "namespace \<Rightarrow> string option" where
  "output_file ns = (case text_of (map_of ns ''out'') of Some f \<Rightarrow> if f = [] then None else Some f | None \<Rightarrow> None)"

text \<open>\<open>port_turns\<close> is what happens on the port of that name and speed until the user interrupts. An empty \<open>--decode\<close> is
  no file, so that the capture starts on no port, which cannot be read.\<close>

definition sniff_command ::
  "host \<Rightarrow> (nat \<Rightarrow> string) \<Rightarrow> bool \<Rightarrow> (string \<Rightarrow> int \<Rightarrow> turn list) \<Rightarrow> string list
     \<Rightarrow> string option \<times> string list \<times> int res" where
  "sniff_command h now have_serial port_turns argv =
     (case parse_args sniff_parser argv of
        Inl c \<Rightarrow> (None, [], Inr c)
      | Inr ns \<Rightarrow>
          (case text_of (map_of ns ''decode'') of
             Some (c # f) \<Rightarrow>
               (case text_at h (c # f) of
                  Inl e \<Rightarrow> (None, [], Inl e)
                | Inr t \<Rightarrow> (case decode_file t of (out, r) \<Rightarrow> (None, out, r)))
           | _ \<Rightarrow>
               if is_on ns ''stdin'' then
                 (case capture_stdin now (standard_input h) of (out, c) \<Rightarrow> (output_file ns, out, Inr c))
               else
                 (case text_of (map_of ns ''serial'') of
                    None \<Rightarrow> (output_file ns, [], if have_serial then Inl (OtherError ''PortNotOpenError'') else Inr 2)
                  | Some port \<Rightarrow>
                      (case capture_serial have_serial port (port_turns port (whole_of (map_of ns ''baud''))) of
                         (out, c) \<Rightarrow> (output_file ns, out, Inr c)))))"

section \<open>The reference consumer\<close>

definition ingest_parser :: arg_parser where
  "ingest_parser =
     \<lparr>options = [help_option, switch ''--report'', takes ''--spec-dir'' text_arg Absent], one_of = [],
      positional = One_Text ''db''\<rparr>"

text \<open>\<open>open_db\<close> is the state a database file holds. The result is the exit code of the parser, or the printed report
  and the state left in the file, with exit code 0.\<close>

definition ingest_command ::
  "(string \<Rightarrow> string) \<Rightarrow> host \<Rightarrow> (string \<Rightarrow> string) \<Rightarrow> (string \<Rightarrow> consumer) \<Rightarrow> string list \<Rightarrow> int + (string \<times> consumer) res" where
  "ingest_command H h parse_msg open_db argv =
     (case parse_args ingest_parser argv of
        Inl c \<Rightarrow> Inl c
      | Inr ns \<Rightarrow> Inr
          (res_bind (spec_at h (text_of (map_of ns ''spec_dir''))) (\<lambda>spec.
           res_bind (if is_on ns ''report'' then Inr (open_db (text_in ns ''db''))
                     else ingest_all H spec parse_msg (text_lines (standard_input h)) (open_db (text_in ns ''db''))) (\<lambda>c.
             Inr (report c, c)))))"

section \<open>Files and options of omp-validate\<close>

lemma parse_gathering:
  "list_all plain_value fs \<Longrightarrow> parse_tokens ones (Gathering d) (classify_all ps (fs @ as)) st
     = parse_tokens ones (Gathering d) (classify_all ps as)
         (if fs = [] then st else gathered d (texts_of (space st) d @ fs) st)"
proof (induction fs arbitrary: st)
  case (Cons f fs)
  then have f: "classify ps f = Argument" "f \<noteq> ''--''" by (auto simp: classify_plain dest: plain_not_dashes)
  have over: "AList.update k v (AList.update k w ns) = AList.update k v ns" for k v w and ns :: namespace
    by (induction ns) auto
  have "gathered d xs (gathered d ys st) = gathered d xs st" for xs ys
    by (simp add: gathered_def over)
  moreover have "texts_of (space (gathered d xs st)) d = xs" for xs
    by (simp add: texts_of_def gathered_def AList.update_conv)
  ultimately show ?case using Cons f by simp
qed simp

text \<open>The files first, then the options spelled out.\<close>

lemma validate_arguments:
  assumes "list_all plain_value fs" "fs \<noteq> []" "list_all (setting_ok (options validate_parser)) ss"
  shows "parse_args validate_parser (fs @ concat (map setting_words ss))
    = Inr (foldl (\<lambda>ns (d, v). AList.update d v ns) (AList.update ''files'' (Texts fs) (defaults (options validate_parser)))
            (map setting_value ss))"
proof -
  let ?ps = "options validate_parser" and ?st = "start validate_parser"
  obtain f gs where fs: "fs = f # gs" using assms(2) by (cases fs) auto
  have f: "classify ?ps f = Argument" "f \<noteq> ''--''" using assms(1) by (auto simp: fs classify_plain dest: plain_not_dashes)
  have over: "AList.update k v (AList.update k w ns) = AList.update k v ns" for k v w and ns :: namespace
    by (induction ns) auto
  have files: "gathered ''files'' (texts_of (space (gathered ''files'' [f] st)) ''files'' @ gs) (gathered ''files'' [f] st)
    = gathered ''files'' fs st" for st
    by (simp add: gathered_def texts_of_def AList.update_conv over fs)
  have "parse_tokens [] (All_Texts ''files'') (classify_all ?ps (fs @ concat (map setting_words ss))) ?st
    = parse_tokens [] (Gathering ''files'') (classify_all ?ps (concat (map setting_words ss))) (gathered ''files'' fs ?st)"
    using f parse_gathering [of gs "[]" "''files''" ?ps "concat (map setting_words ss)" "gathered ''files'' [f] ?st"] assms(1) files [of ?st]
    by (simp add: fs split: if_splits)
  also have "\<dots> = Inr (if ss = [] then Gathering ''files'' else No_More, apply_settings ss (gathered ''files'' fs ?st))"
    using parse_settings [OF assms(3), of "Gathering ''files''" "[]" "gathered ''files'' fs ?st"] by simp
  finally have run: "parse_tokens [] (All_Texts ''files'') (classify_all ?ps (fs @ concat (map setting_words ss))) ?st
    = Inr (if ss = [] then Gathering ''files'' else No_More, apply_settings ss (gathered ''files'' fs ?st))" .
  have "Ambiguous \<notin> fst ` set (classify_all ?ps (gs @ as))"
    if "list_all plain_value gs" "Ambiguous \<notin> fst ` set (classify_all ?ps as)" for gs as
    using that by (induction gs) (auto simp: classify_plain dest: plain_not_dashes)
  note clear = this [OF assms(1) settings_unambiguous [OF assms(3)]]
  have shape: "one_of validate_parser = []" "positional validate_parser = All_Texts ''files''"
    by (simp_all add: validate_parser_def)
  have "\<not> is_required p" if "p \<in> set ?ps" for p
    using that by (auto simp: validate_parser_def is_required_def takes_def switch_def help_option_def version_option_def)
  then have complete: "\<not> incomplete validate_parser (if ss = [] then Gathering ''files'' else No_More) st" for st
    using shape by (auto simp: incomplete_def)
  show ?thesis
    using clear run shape complete
    by (simp add: parse_args_def parse_known_def apply_settings_def gathered_def start_def)
qed

section \<open>The consumer with a database and nothing else\<close>

lemma ingest_command_stream:
  assumes "plain_value db" "spec_at h None = Inr spec"
  shows "ingest_command H h parse_msg open_db [db]
    = Inr (res_bind (ingest_all H spec parse_msg (text_lines (standard_input h)) (open_db db)) (\<lambda>c. Inr (report c, c)))"
proof -
  let ?ns = "AList.update ''db'' (Text db) (defaults (options ingest_parser))"
  have c: "classify (options ingest_parser) db = Argument" "db \<noteq> ''--''"
    using assms(1) by (auto simp: classify_plain dest: plain_not_dashes)
  have "\<not> incomplete ingest_parser Just_Read st" for st
    by (simp add: incomplete_def ingest_parser_def is_required_def takes_def switch_def help_option_def)
  moreover have "positional ingest_parser = One_Text ''db''" by (simp add: ingest_parser_def)
  ultimately have args: "parse_args ingest_parser [db] = Inr ?ns"
    using c by (simp add: parse_args_def parse_known_def start_def)
  have ns: "map_of ?ns ''db'' = Some (Text db)" "map_of ?ns ''report'' = Some (Truth False)" "map_of ?ns ''spec_dir'' = Some Absent"
    by (simp_all add: AList.update_conv defaults_def ingest_parser_def takes_def switch_def help_option_def dest_of_def)
  show ?thesis using assms(2) ns by (simp add: ingest_command_def args is_on_def text_in_def)
qed

section \<open>Properties\<close>

lemma run_audit_code: "run_audit H ed spec msg pubkey run_id ls = Inr (out, c) \<Longrightarrow> c = 0 \<or> c = 1"
  by (auto simp: run_audit_def split: sum.splits list.splits option.splits prod.splits if_splits)

text \<open>C28: The exit code of \<open>omp-validate\<close>, from its command line. It is that of the argument parser, 2 for a usage error
  and 0 only when help or the version was asked for. Otherwise it is 0 or 1, and without
  \<open>--audit\<close> every input was read to its end and it is 0 exactly when every line of every file is blank or a valid (and,
  with a key, verifying) envelope; with \<open>--audit\<close> it is 0 exactly when every input was read to its end, the lines are
  a bundle that parses and is not empty, the audit ran, and no check failed.\<close>

theorem validate_command_exit:
  assumes "validate_command H ed h parse_msg bundle_msg argv = Inr (out, status)"
  shows "case parse_args validate_parser argv of
      Inl c \<Rightarrow> status = c \<and> (c = 2 \<or> c = 0 \<and> (\<exists>t \<in> fst ` set (classify_all (options validate_parser) argv). asks_help t))
    | Inr ns \<Rightarrow>
        (let (ls, failed) = input_lines h (texts_of ns ''files''); pubkey = text_of (map_of ns ''pubkey'') in
         (status = 0 \<or> status = 1) \<and> (\<exists>spec. spec_at h (text_of (map_of ns ''spec_dir'')) = Inr spec
         \<and> (\<not> is_on ns ''audit'' \<longrightarrow> failed = None \<and> (status = 0 \<longleftrightarrow> (\<forall>l \<in> set ls. line_ok H ed spec pubkey l)))
         \<and> (is_on ns ''audit'' \<longrightarrow> (status = 0 \<longleftrightarrow> failed = None
              \<and> (\<exists>envs cs cit. parse_bundle 1 ls = Inr envs \<and> envs \<noteq> []
                   \<and> audit_bundle H ed spec pubkey (text_of (map_of ns ''run_id'')) envs = Inr (cs, cit)
                   \<and> (\<forall>c \<in> set (checks_list cs). passed c \<noteq> Some False))))))"
proof (cases "parse_args validate_parser argv")
  case (Inl c)
  have "parse_known validate_parser argv = Inl c \<or> c = 2"
    using Inl by (auto simp: parse_args_def split: sum.splits if_splits)
  moreover have "status = c" using assms Inl by (simp add: validate_command_def)
  ultimately show ?thesis using Inl parse_known_exit [of validate_parser argv c] by auto
next
  case (Inr ns)
  obtain ls failed where input: "input_lines h (texts_of ns ''files'') = (ls, failed)" by fastforce
  obtain spec where spec: "spec_at h (text_of (map_of ns ''spec_dir'')) = Inr spec"
    using assms Inr by (auto simp: validate_command_def res_inv)
  show ?thesis
  proof (cases "is_on ns ''audit''")
    case True
    then have run: "audit_input H ed spec bundle_msg (text_of (map_of ns ''pubkey'')) (text_of (map_of ns ''run_id'')) (ls, failed) = Inr (out, status)"
      using assms Inr spec input by (simp add: validate_command_def Let_def)
    show ?thesis
    proof (cases failed)
      case None
      with run obtain shown where r: "run_audit H ed spec bundle_msg (text_of (map_of ns ''pubkey'')) (text_of (map_of ns ''run_id'')) ls = Inr (shown, status)"
        by (auto simp: audit_input_def res_inv)
      then have "status = 0 \<longleftrightarrow> (\<exists>out. run_audit H ed spec bundle_msg (text_of (map_of ns ''pubkey'')) (text_of (map_of ns ''run_id'')) ls = Inr (out, 0))"
        by auto
      then show ?thesis using Inr input spec True None run_audit_code [OF r] unfolding audit_exit_code by (simp add: Let_def)
    next
      case (Some e)
      with run have "status = 1" by (auto simp: audit_input_def split: sum.splits)
      then show ?thesis using Inr input spec True Some by (simp add: Let_def)
    qed
  next
    case False
    then have "validate_input H ed spec parse_msg (text_of (map_of ns ''pubkey'')) (is_on ns ''quiet'') (ls, failed) = Inr (out, status)"
      using assms Inr spec input by (simp add: validate_command_def Let_def)
    then have "validate_main H ed spec parse_msg (text_of (map_of ns ''pubkey'')) (is_on ns ''quiet'') ls = Inr (out, status)" "failed = None"
      by (auto simp: validate_input_def res_inv split: option.splits)
    with validate_exit_code show ?thesis using Inr input spec False by (fastforce simp: Let_def)
  qed
qed

theorem validate_command_exit_witness:
  "\<exists>out. validate_command (\<lambda>s. s) (\<lambda>_ _ _. True)
      \<lparr>spec_at = (\<lambda>_. Inr accept_all), text_at = (\<lambda>_. Inr ''{''), standard_input = []\<rparr> (\<lambda>_. []) (\<lambda>_. [])
      [''in.ndjson'', ''--quiet''] = Inr (out, 1)"
proof -
  let ?h = "\<lparr>spec_at = (\<lambda>_. Inr accept_all), text_at = (\<lambda>_. Inr ''{''), standard_input = []\<rparr>" and ?argv = "[''in.ndjson'', ''--quiet'']"
  define ns where "ns = AList.update ''quiet'' (Truth True) (AList.update ''files'' (Texts [''in.ndjson'']) (defaults (options validate_parser)))"
  have "list_all (setting_ok (options validate_parser)) [On (switch ''--quiet'')]"
    by (simp add: named_def validate_parser_def flag_table_def takes_def switch_def help_option_def version_option_def)
  from validate_arguments [OF _ _ this, of "[''in.ndjson'']"] have args: "parse_args validate_parser ?argv = Inr ns"
    by (simp add: plain_value_def ns_def switch_def dest_of_def)
  have ns: "map_of ns ''audit'' = Some (Truth False)" "texts_of ns ''files'' = [''in.ndjson'']" "map_of ns ''pubkey'' = Some Absent"
    by (simp_all add: ns_def texts_of_def AList.update_conv defaults_def validate_parser_def takes_def switch_def help_option_def
        version_option_def dest_of_def)
  have s: "strip ''{'' = ''{''" by (simp add: strip_def lstrip_def is_space_def)
  have l: "loads ''{'' = Inl JSONDecodeError"
    by (simp add: loads_def skip_ws_def is_ws_def expect_def pkey_def eval_nat_numeral)
  have input: "input_lines ?h [''in.ndjson''] = ([''{''], None)"
    by (simp add: input_lines_def text_lines_def)
  have "\<exists>r. validate_command (\<lambda>s. s) (\<lambda>_ _ _. True) ?h (\<lambda>_. []) (\<lambda>_. []) ?argv = Inr r"
    using args ns input
    by (simp add: validate_command_def is_on_def Let_def validate_input_def validate_main_def validate_line_def s l)
  then obtain out status where r: "validate_command (\<lambda>s. s) (\<lambda>_ _ _. True) ?h (\<lambda>_. []) (\<lambda>_. []) ?argv = Inr (out, status)" by auto
  have bad: "\<not> line_ok (\<lambda>s. s) (\<lambda>_ _ _. True) accept_all None ''{''" by (simp add: line_ok_def s l)
  from validate_command_exit [OF r] bad have "(status = 0 \<or> status = 1) \<and> status \<noteq> 0"
    by (auto simp: args ns input is_on_def)
  then have "status = 1" by blast
  with r show ?thesis by blast
qed

end
