(* ===== verification/End_To_End.thy ===== *)
theory End_To_End
  imports Gateway_System Cli_Tools
begin

text \<open>
  The gateway and the consumer together: what the exporters of a gateway hand out, in whatever order and
  however often it arrives, is ingested by the reference consumer without an exception, a rejection or an
  alarm, and stored once for each envelope.

  The consumer's spec is the gateway's. Of its schemas one thing is used, \<open>runs_identified\<close>: the schema of a
  process run requires a text \<open>run_id\<close> and a text \<open>outcome\<close>.
\<close>

section \<open>What a gateway emits\<close>

definition emission :: "engine \<Rightarrow> json dict \<Rightarrow> bool" where
  "emission eng env =
     (\<exists>m b q ts. body_values_ok b \<and> build_envelope eng m b q ts = Inr env
        \<and> validate_envelope (digest eng) (engine_spec eng) env False = Inr [] \<and> 0 < q \<and> q \<le> max_int64)"

lemma finish_emission:
  assumes "body_values_ok b" "0 < q" "q \<le> max_int64" "finish eng clock m b q ts st = (Inr (Some env), st')"
  shows "emission eng env"
  using assms(4)
proof (cases rule: finish_cases)
  case (buffered env')
  with assms(1-3) show ?thesis unfolding emission_def by blast
qed simp_all

lemma reachable_emission:
  "reachable eng xs g \<Longrightarrow> row \<in> set (emitted g) \<Longrightarrow> \<exists>env. snd row = JObj env \<and> emission eng env"
proof (induction arbitrary: row rule: reachable.induct)
  case (reachable_step g g')
  note inv = reachable_delivery_inv [OF reachable_step.hyps(1)]
  from reachable_step.hyps(2) reachable_step.prems reachable_step.IH show ?case
  proof cases
    case (gstep_finish cs c ds clock r st')
    show ?thesis
    proof (cases "row \<in> set (emitted g)")
      case False
      with reachable_step.prems gstep_finish(1) obtain env where env: "r = Inr (Some env)" "snd row = JObj env"
        by (auto simp: added_def split: sum.splits option.splits)
      have c: "c \<in> set (calls g)" using gstep_finish(2) by simp
      have "wf_store (db g)" using delivery_inv_D(1) [OF inv] by (simp add: gateway_inv_def)
      from last_seq_bounds [OF this, of "call_machine c"] call_drawn [OF inv c]
      have "0 < call_seq c" "call_seq c \<le> max_int64" by auto
      from finish_emission [OF delivery_inv_D(2) [OF inv c] this] gstep_finish(3) env show ?thesis by blast
    qed (rule reachable_step.IH)
  qed auto
qed (simp add: init_gateway_def)

text \<open>Every envelope handed to a destination is an emission, and no two of them share machine and number.\<close>

lemma out_emission:
  assumes "reachable eng xs g" "x \<in> set xs" "e \<in> set (out g x)"
  shows "e \<in> snd ` set (emitted g)" "\<exists>env. e = JObj env \<and> emission eng env"
proof -
  note inv = delivery_inv_D [OF reachable_delivery_inv [OF assms(1)]]
  have "set (map snd (emitted g)) = set (map snd (acked g x)) \<union> set (map snd (undelivered x (db g)))"
    unfolding inv(6) [OF assms(2), symmetric] by auto
  moreover have "set (out g x) \<subseteq> set (map snd (acked g x)) \<union> set (map snd (undelivered x (db g)))"
    using inv(9) [OF assms(2)]
  proof (elim disjE exE conjE)
    assume "remdups_adj (out g x) = map snd (acked g x)"
    then show ?thesis by (metis Un_upper1 remdups_adj_set)
  next
    fix i e later
    assume "undelivered x (db g) = (i, e) # later" "remdups_adj (out g x) = map snd (acked g x) @ [e]"
    then have "set (out g x) = set (map snd (acked g x) @ [e])" "e \<in> set (map snd (undelivered x (db g)))"
      by (metis remdups_adj_set, simp)
    then show ?thesis by auto
  qed
  ultimately show e: "e \<in> snd ` set (emitted g)" using assms(3) by auto
  then show "\<exists>env. e = JObj env \<and> emission eng env" using reachable_emission [OF assms(1)] by auto
qed

section \<open>How the consumer reads an emission\<close>

definition the_key :: "json dict \<Rightarrow> string \<times> string \<times> int" where
  "the_key env = (case envelope_key env of Inr k \<Rightarrow> k | Inl _ \<Rightarrow> ([], [], 0))"

definition row_for :: "json dict \<Rightarrow> raw_row" where
  "row_for env = row_of env (the_key env)"

lemma emission_facts:
  assumes "emission eng env"
  obtains m b q ts c where "env = engine_envelope eng m b q ts c" "envelope_key env = Inr (gateway_id eng, m, q)"
    "the_key env = (gateway_id eng, m, q)" "stored_envelope env m q"
proof -
  from assms obtain m b q ts where e: "body_values_ok b" "build_envelope eng m b q ts = Inr env" "0 < q" "q \<le> max_int64"
    unfolding emission_def by blast
  then obtain c where env: "env = engine_envelope eng m b q ts c" by (auto simp: build_envelope_ok_iff)
  have "int64 q" using e(3,4) by (simp add: int64_def max_int64_def)
  then have k: "envelope_key env = Inr (gateway_id eng, m, q)"
    by (simp add: env engine_envelope_def envelope_key_def dict_item_def)
  then have "the_key env = (gateway_id eng, m, q)" by (simp add: the_key_def)
  with that env k engine_envelope_stored [OF e(1)] show thesis by blast
qed

lemma emission_printable: "emission eng env \<Longrightarrow> wf_json (JObj env) \<and> floats_ok (JObj env)"
  using emission_facts by (metis stored_envelope_def)

lemma emission_accepted:
  assumes "emission eng env"
  shows "accepted (digest eng) (engine_spec eng) (stdout_line (JObj env)) env (the_key env)"
proof -
  obtain m b q ts c where f: "envelope_key env = Inr (the_key env)" "stored_envelope env m q"
    using emission_facts [OF assms] by metis
  have v: "validate_envelope (digest eng) (engine_spec eng) env False = Inr []" using assms by (auto simp: emission_def)
  then have "profile_errors (engine_spec eng) env False = Inr []" unfolding validate_ok_iff by blast
  then have "profile_errors (engine_spec eng) env True = Inr []" using profile_errors_forward by fastforce
  with v have v': "validate_envelope (digest eng) (engine_spec eng) env True = Inr []" unfolding validate_ok_iff by blast
  have "loads (strip (stdout_line (JObj env))) = Inr (JObj env)" "strip (stdout_line (JObj env)) \<noteq> []"
    using f(2) loads_dumps_plain [of "JObj env"]
    by (simp_all add: stdout_line_def strip_object stored_envelope_def del: dumps.simps) simp
  with v' f(1) show ?thesis by (simp add: accepted_def)
qed

text \<open>An event the strict check accepted is of a known type, so nothing is noted about its vocabulary.\<close>

lemma event_errors_known:
  assumes "event_errors prof name False b = Inr []"
  shows "hashable (dict_get b ''event_type'' JNull)
    \<and> (dict_get b ''event_type'' JNull \<in> JStr ` set core_event_types
       \<or> lookup_key (p_events prof) (dict_get b ''event_type'' JNull) \<noteq> None)"
proof (rule ccontr)
  assume "\<not> ?thesis"
  then show False using assms by (simp add: event_errors_def Let_def split: if_split_asm)
qed

lemma note_known:
  assumes "validate_envelope H spec env False = Inr []"
  shows "note_unknown_vocabulary spec env c = Inr c"
proof -
  from assms obtain b schema where v: "map_of env ''body'' = Some (JObj b)" "map_of env ''schema'' = Some (JStr schema)"
    "profile_errors spec env False = Inr []"
    unfolding validate_ok_iff by blast
  obtain ref where ref: "map_of env ''profile'' = Some (JStr ref)" by (rule profile_errors_ref [OF v(3)])
  show ?thesis
  proof (cases "schema = ''event''")
    case True
    note note_eq = note_unknown_vocabulary_def dict_item_def v(1,2) ref True Let_def
    show ?thesis
    proof (cases "profiles spec (profile_name ref)")
      case None
      then show ?thesis by (simp add: note_eq)
    next
      case (Some prof)
      let ?et = "dict_get b ''event_type'' JNull"
      have "event_errors prof (profile_name ref) False b = Inr []"
        using v(3) by (simp add: profile_errors_def dict_item_def v(1,2) ref True Some Let_def)
      from event_errors_known [OF this]
      have "hashable ?et" "?et \<in> JStr ` set core_event_types \<or> lookup_key (p_events prof) ?et \<noteq> None" by auto
      then show ?thesis using Some by (simp add: note_eq) (elim disjE exE; simp)
    qed
  qed (simp add: note_unknown_vocabulary_def dict_item_def v)
qed

definition runs_identified :: "spec \<Rightarrow> bool" where
  "runs_identified spec =
     (\<forall>v b. validators spec ''process_run'' = Some v \<longrightarrow> v (JObj b) = [] \<longrightarrow>
        (\<exists>r s. map_of b ''run_id'' = Some (JStr r) \<and> map_of b ''outcome'' = Some (JStr s)))"

lemma store_raw_total:
  assumes "validate_envelope H spec env False = Inr []" "runs_identified spec"
  obtains c' where "store_raw H env key c = Inr c'"
proof -
  obtain g m q where key: "key = (g, m, q)" by (cases key)
  from assms(1) obtain b schema bv s where v: "map_of env ''body'' = Some (JObj b)" "map_of env ''schema'' = Some (JStr schema)"
    "validators spec schema = Some bv" "bv (JObj b) = []" "checksum H b = Inr s" "map_of env ''checksum'' = Some (JStr s)"
    unfolding validate_ok_iff by blast
  have "\<exists>d. project env key c1 = Inr d" for c1
  proof (cases "schema = ''process_run''")
    case True
    then obtain r s where "map_of b ''run_id'' = Some (JStr r)" "map_of b ''outcome'' = Some (JStr s)"
      using assms(2) v(3,4) unfolding runs_identified_def by blast
    with v True show ?thesis by (simp add: project_def dict_item_def key)
  qed (simp add: project_def dict_item_def key v)
  then obtain d where "project env key (c\<lparr>raw_table := raw_table c @
         [\<lparr>raw_gateway = g, raw_machine = m, raw_seq = q, raw_envelope = dumps default_opts (JObj env), raw_valid = 1\<rparr>]\<rparr>) = Inr d"
    by blast
  with that show thesis by (simp add: store_raw_def key v dict_item_def del: dumps.simps)
qed

section \<open>A stream of emissions\<close>

text \<open>The envelopes of a destination: emissions that read back, one for each key.\<close>

definition deliverable :: "engine \<Rightarrow> json dict set \<Rightarrow> bool" where
  "deliverable eng E =
     ((\<forall>env \<in> E. emission eng env \<and> texts_ok default_opts (JObj env)) \<and> inj_on the_key E)"

definition holds_only :: "json dict set \<Rightarrow> consumer \<Rightarrow> bool" where
  "holds_only E c =
     (raw_inv c \<and> set (raw_table c) \<subseteq> row_for ` E \<and> quarantine c = [] \<and> alarms c = []
      \<and> n_stored c = int (length (raw_table c)) \<and> n_quarantined c = 0 \<and> n_alarms c = 0)"

lemma row_for_reads:
  assumes "emission eng env" "texts_ok default_opts (JObj env)"
  shows "loads (raw_envelope (row_for env)) = Inr (JObj env)"
proof -
  obtain m b q ts c where "stored_envelope env m q" using emission_facts [OF assms(1)] by metis
  with assms(2) show ?thesis unfolding row_for_def row_of_envelope stored_envelope_def by (blast intro: loads_dumps_default)
qed

lemma ingest_deliverable_one:
  assumes "deliverable eng E" "env \<in> E" "runs_identified (engine_spec eng)" "holds_only E c"
  obtains c' where "ingest_line (digest eng) (engine_spec eng) msg (stdout_line (JObj env)) c = Inr c'"
    "holds_only E c'" "set (raw_table c') = insert (row_for env) (set (raw_table c))"
    "n_stored c' + n_duplicates c' = n_stored c + n_duplicates c + 1"
proof -
  let ?H = "digest eng" and ?spec = "engine_spec eng" and ?line = "stdout_line (JObj env)"
  have em: "emission eng env" and tx: "texts_ok default_opts (JObj env)" using assms(1,2) by (auto simp: deliverable_def)
  have v: "validate_envelope ?H ?spec env False = Inr []" using em by (auto simp: emission_def)
  note acc = emission_accepted [OF em]
  have run: "ingest_line ?H ?spec msg ?line c =
    (case find (\<lambda>r. raw_key r = the_key env) (raw_table c) of
       Some row \<Rightarrow> dedup env (the_key env) (raw_envelope row) c | None \<Rightarrow> store_raw ?H env (the_key env) c)"
    using acc note_known [OF v] by (simp add: accepted_def ingest_line_def ingest_envelope_def)
  show thesis
  proof (cases "find (\<lambda>r. raw_key r = the_key env) (raw_table c)")
    case None
    obtain c' where st: "store_raw ?H env (the_key env) c = Inr c'" by (rule store_raw_total [OF v assms(3)])
    from acc have "validate_envelope ?H ?spec env True = Inr []" by (simp add: accepted_def)
    note new = store_raw_ok [OF st this]
    have "the_key env \<notin> raw_key ` set (raw_table c)" using None by (simp add: find_key_None)
    with new assms(2,4) have "holds_only E c'" by (auto simp: holds_only_def raw_inv_def row_for_def)
    with that run None st new show thesis by (simp add: row_for_def)
  next
    case (Some row)
    from find_key_Some [OF this] have row: "row \<in> set (raw_table c)" "raw_key row = the_key env" by auto
    with assms(4) obtain env' where env': "env' \<in> E" "row = row_for env'" by (auto simp: holds_only_def)
    with row(2) assms(1,2) have "env' = env" by (auto simp: deliverable_def row_for_def inj_on_def)
    with env' have re: "row = row_for env" by simp
    obtain s where "map_of env ''checksum'' = Some (JStr s)" using v unfolding validate_ok_iff by blast
    then have "dedup env (the_key env) (raw_envelope row) c = Inr (c\<lparr>n_duplicates := n_duplicates c + 1\<rparr>)"
      unfolding re dedup_def by (simp add: row_for_reads [OF em tx] dict_item_def split: prod.splits)
    with that run Some assms(4) row(1) re show thesis by (auto simp: holds_only_def raw_inv_def)
  qed
qed

lemma ingest_deliverable:
  assumes "deliverable eng E" "runs_identified (engine_spec eng)"
  shows "set envs \<subseteq> E \<Longrightarrow> holds_only E c \<Longrightarrow>
     \<exists>c'. ingest_all (digest eng) (engine_spec eng) msg (map (\<lambda>env. stdout_line (JObj env)) envs) c = Inr c'
       \<and> holds_only E c' \<and> set (raw_table c') = row_for ` set envs \<union> set (raw_table c)
       \<and> n_stored c' + n_duplicates c' = n_stored c + n_duplicates c + int (length envs)"
proof (induction envs arbitrary: c)
  case (Cons env envs)
  from Cons.prems have "env \<in> E" by simp
  from ingest_deliverable_one [OF assms(1) this assms(2) Cons.prems(2), of msg] obtain c1 where c1:
    "ingest_line (digest eng) (engine_spec eng) msg (stdout_line (JObj env)) c = Inr c1" "holds_only E c1"
    "set (raw_table c1) = insert (row_for env) (set (raw_table c))"
    "n_stored c1 + n_duplicates c1 = n_stored c + n_duplicates c + 1" by blast
  from Cons.IH [OF _ c1(2)] Cons.prems(1) obtain c2 where
    "ingest_all (digest eng) (engine_spec eng) msg (map (\<lambda>env. stdout_line (JObj env)) envs) c1 = Inr c2"
    "holds_only E c2" "set (raw_table c2) = row_for ` set envs \<union> set (raw_table c1)"
    "n_stored c2 + n_duplicates c2 = n_stored c1 + n_duplicates c1 + int (length envs)" by auto
  with c1 show ?case by auto
qed simp

text \<open>The envelopes a destination received from a reachable gateway are deliverable.\<close>

lemma the_key_env_key:
  assumes "emission eng env"
  shows "env_key (JObj env) = (JStr (fst (snd (the_key env))), JInt (snd (snd (the_key env))))"
    "fst (the_key env) = gateway_id eng"
proof -
  obtain m b q ts c where "env = engine_envelope eng m b q ts c" "the_key env = (gateway_id eng, m, q)"
    using emission_facts [OF assms] by metis
  then show "env_key (JObj env) = (JStr (fst (snd (the_key env))), JInt (snd (snd (the_key env))))"
    "fst (the_key env) = gateway_id eng"
    by (simp_all add: env_key_def dict_get_def engine_envelope_def)
qed

definition received :: "gateway \<Rightarrow> string \<Rightarrow> json dict set" where
  "received g x = {env. JObj env \<in> set (out g x)}"

lemma out_received:
  assumes "reachable eng xs g" "x \<in> set xs"
  shows "JObj ` received g x = set (out g x)"
  using out_emission(2) [OF assms] by (auto simp: received_def)

lemma received_deliverable:
  assumes "reachable eng xs g" "x \<in> set xs" "\<forall>e \<in> set (out g x). texts_ok default_opts e"
  shows "deliverable eng (received g x)"
proof -
  have em: "emission eng env \<and> JObj env \<in> snd ` set (emitted g)" if "env \<in> received g x" for env
    using out_emission [OF assms(1,2), of "JObj env"] that by (auto simp: received_def)
  have "inj_on (env_key \<circ> snd) (set (emitted g))"
    using distinct_emitted [OF reachable_delivery_inv [OF assms(1)]] by (simp add: distinct_map)
  then have "inj_on env_key (snd ` set (emitted g))" by (rule inj_on_imageI)
  then have "inj_on the_key (received g x)"
    using em the_key_env_key(1) by (intro inj_onI) (metis inj_onD json.inject(6))
  with em assms(3) show ?thesis by (auto simp: deliverable_def received_def simp del: texts_ok.simps)
qed

lemma holds_only_length:
  assumes "deliverable eng E" "holds_only E c" "set (raw_table c) = row_for ` E"
  shows "length (raw_table c) = card E"
proof -
  have "distinct (map raw_key (raw_table c))" using assms(2) by (simp add: holds_only_def raw_inv_def)
  then have "length (raw_table c) = card (raw_key ` set (raw_table c))" using distinct_card by fastforce
  also have "raw_key ` set (raw_table c) = the_key ` E" by (simp add: assms(3) image_image row_for_def)
  also have "card (the_key ` E) = card E" using assms(1) by (simp add: deliverable_def card_image)
  finally show ?thesis .
qed

lemma acked_taken:
  assumes "reachable eng xs g" "x \<in> set xs"
  shows "set (map snd (acked g x)) \<subseteq> set (out g x)"
proof -
  note inv = delivery_inv_D [OF reachable_delivery_inv [OF assms(1)]]
  have "\<exists>zs. remdups_adj (out g x) = map snd (acked g x) @ zs" using inv(9) [OF assms(2)] by (elim disjE) auto
  then show ?thesis by (metis remdups_adj_set set_append sup_ge1)
qed

section \<open>Properties\<close>

text \<open>The lines one exporter of a reachable gateway wrote, in any order and repeated at will, ingested into an empty
  consumer.\<close>

lemma delivered_stored_once:
  assumes "reachable eng xs g" "x \<in> set xs" "runs_identified (engine_spec eng)"
    "\<forall>e \<in> set (out g x). texts_ok default_opts e" "set ds = set (out g x)"
  shows "\<exists>c. ingest_all (digest eng) (engine_spec eng) msg (text_lines (concat (map stdout_line ds))) empty_consumer = Inr c
    \<and> distinct (map raw_key (raw_table c))
    \<and> (\<lambda>r. loads (raw_envelope r)) ` set (raw_table c) = Inr ` set (out g x)
    \<and> (\<forall>row \<in> set (acked g x). \<exists>r \<in> set (raw_table c). loads (raw_envelope r) = Inr (snd row))
    \<and> quarantine c = [] \<and> alarms c = []
    \<and> length (raw_table c) = card (set (out g x)) \<and> n_stored c = int (card (set (out g x)))
    \<and> n_stored c + n_duplicates c = int (length ds)"
proof -
  let ?E = "received g x"
  note del = received_deliverable [OF assms(1,2,4)]
  obtain envs where envs: "ds = map JObj envs" "set envs = ?E"
  proof -
    have "set ds \<subseteq> range JObj" unfolding assms(5) out_received [OF assms(1,2), symmetric] by blast
    then have "ds \<in> lists (range JObj)" by (simp add: lists_eq_set)
    then obtain envs where ds: "ds = map JObj envs" unfolding lists_image by auto
    then have "set envs = ?E" using assms(5) by (auto simp: received_def)
    with that ds show thesis by blast
  qed
  have "holds_only ?E empty_consumer" by (simp add: holds_only_def raw_inv_def empty_consumer_def)
  from ingest_deliverable [OF del assms(3) _ this, of envs msg] envs obtain c where
    c: "ingest_all (digest eng) (engine_spec eng) msg (map stdout_line ds) empty_consumer = Inr c"
    "holds_only ?E c" "set (raw_table c) = row_for ` ?E" "n_stored c + n_duplicates c = int (length ds)"
    by (auto simp: o_def empty_consumer_def)
  have "list_all (\<lambda>e. wf_json e \<and> floats_ok e) ds"
    using envs del emission_printable by (auto simp: list_all_iff deliverable_def simp del: wf_json.simps floats_ok.simps)
  then have lines: "text_lines (concat (map stdout_line ds)) = map stdout_line ds"
    by (rule json_line.text_lines_stream [folded stdout_line_def])
  have "(\<lambda>r. loads (raw_envelope r)) ` set (raw_table c) = (\<lambda>env. loads (raw_envelope (row_for env))) ` ?E"
    unfolding c(3) by (rule image_image)
  also have "\<dots> = (\<lambda>env. Inr (JObj env)) ` ?E"
    using del row_for_reads by (intro image_cong refl) (auto simp: deliverable_def simp del: texts_ok.simps)
  also have "\<dots> = Inr ` set (out g x)"
    unfolding out_received [OF assms(1,2), symmetric] by (rule image_image [symmetric])
  finally have all: "(\<lambda>r. loads (raw_envelope r)) ` set (raw_table c) = Inr ` set (out g x)" .
  have "set (map snd (acked g x)) \<subseteq> set (out g x)" by (rule acked_taken [OF assms(1,2)])
  then have "Inr (snd row) \<in> (\<lambda>r. loads (raw_envelope r)) ` set (raw_table c)" if "row \<in> set (acked g x)" for row
    using that unfolding all by auto
  then have "\<forall>row \<in> set (acked g x). \<exists>r \<in> set (raw_table c). loads (raw_envelope r) = Inr (snd row)"
    by (metis imageE)
  moreover have "length (raw_table c) = card (set (out g x))"
    unfolding holds_only_length [OF del c(2,3)] out_received [OF assms(1,2), symmetric]
    by (rule card_image [symmetric]) (simp add: inj_on_def)
  moreover have "distinct (map raw_key (raw_table c))" "quarantine c = []" "alarms c = []"
    "n_stored c = int (length (raw_table c))"
    using c(2) by (simp_all add: holds_only_def raw_inv_def)
  ultimately show ?thesis using c(1,4) all unfolding lines by (intro exI [of _ c] conjI) simp_all
qed

text \<open>The envelope of \<open>demo_reachable\<close>, which the exporter handed out twice, arrives three times.\<close>

lemma iso_text_ascii: "c \<in> set (iso_text t) \<Longrightarrow> (of_char c :: nat) < 128"
  by (auto simp: iso_text_def is_digit_def dest!: pad_digits show_nat_digits)

lemma demo_texts: "texts_ok default_opts (JObj (demo_envelope q m))" if "text_ok default_opts m"
proof -
  have "utf8_ok (now_iso demo_clock)"
    using iso_text_ascii by (auto simp: now_iso_def intro: utf8_ok_ascii)
  moreover have "utf8_ok (dumps canonical_opts (JObj (body_body demo_body)))"
    by (rule utf8_ok_ascii)
      (auto simp: demo_body_def order_items_def canonical_opts_def quote_def escaped_def escape_char_def)
  ultimately show ?thesis using that
    by (simp add: demo_sent_def engine_envelope_def envelope_of_def demo_with_def demo_body_def text_ok_def
        utf8_ok_ascii del: dumps.simps)
qed

lemma delivered_stored_once_example:
  "\<exists>(g :: gateway) c. out g ''mqtt'' = [JObj (demo_envelope 1 ''m-01''), JObj (demo_envelope 1 ''m-01'')]
     \<and> ingest_all (digest demo_engine) (engine_spec demo_engine) (\<lambda>_. [])
         (text_lines (concat (map stdout_line (replicate 3 (JObj (demo_envelope 1 ''m-01'')))))) empty_consumer = Inr c
     \<and> length (raw_table c) = 1 \<and> n_stored c + n_duplicates c = 3 \<and> alarms c = []"
proof -
  let ?e = "JObj (demo_envelope 1 ''m-01'')"
  obtain g i where g: "reachable demo_engine [''mqtt''] g" "out g ''mqtt'' = [?e, ?e]"
    using demo_reachable by blast
  have ids: "runs_identified (engine_spec demo_engine)"
    by (auto simp: runs_identified_def demo_with_def open_spec_def split: option.splits json.splits)
  have "\<forall>e \<in> set (out g ''mqtt''). texts_ok default_opts e"
    unfolding g(2) using demo_texts [of "''m-01''" 1] by (simp add: text_ok_def utf8_ok_ascii del: texts_ok.simps)
  from delivered_stored_once [OF g(1) _ ids this, of "replicate 3 ?e" "\<lambda>_. []"] g(2) obtain c where
    c: "ingest_all (digest demo_engine) (engine_spec demo_engine) (\<lambda>_. [])
      (text_lines (concat (map stdout_line (replicate 3 ?e)))) empty_consumer = Inr c"
    "distinct (map raw_key (raw_table c))" "(\<lambda>r. loads (raw_envelope r)) ` set (raw_table c) = {Inr ?e}"
    "length (raw_table c) = 1" "n_stored c + n_duplicates c = 3" "alarms c = []" by auto
  with g(2) show ?thesis by - (intro exI [of _ g] exI [of _ c], simp)
qed

text \<open>C2: From the adapter to the consumer, as the programs are started: take any reachable gateway and the lines one
  exporter wrote, in any order and repeated at will, as the standard input of the reference consumer, called with a
  database that does not exist yet. It prints its report and exits with 0: every envelope is in the database once under
  its own key, everything the gateway counts as acknowledged among them, the rest counted as duplicates, nothing is
  quarantined and no alarm is raised.\<close>

theorem piped_stored_once:
  assumes "reachable eng xs g" "x \<in> set xs" "runs_identified (engine_spec eng)" "\<forall>e \<in> set (out g x). texts_ok default_opts e"
    and "set ds = set (out g x)" "standard_input h = concat (map stdout_line ds)" "spec_at h None = Inr (engine_spec eng)"
    and "plain_value path" "open_db path = empty_consumer"
  shows "\<exists>c. ingest_command (digest eng) h msg open_db [path] = Inr (Inr (report c, c))
    \<and> distinct (map raw_key (raw_table c))
    \<and> (\<lambda>r. loads (raw_envelope r)) ` set (raw_table c) = Inr ` set (out g x)
    \<and> (\<forall>row \<in> set (acked g x). \<exists>r \<in> set (raw_table c). loads (raw_envelope r) = Inr (snd row))
    \<and> quarantine c = [] \<and> alarms c = [] \<and> n_stored c = int (card (set (out g x)))
    \<and> n_stored c + n_duplicates c = int (length ds)"
proof -
  obtain c where c: "ingest_all (digest eng) (engine_spec eng) msg (text_lines (concat (map stdout_line ds))) empty_consumer = Inr c"
    "distinct (map raw_key (raw_table c))" "(\<lambda>r. loads (raw_envelope r)) ` set (raw_table c) = Inr ` set (out g x)"
    "\<forall>row \<in> set (acked g x). \<exists>r \<in> set (raw_table c). loads (raw_envelope r) = Inr (snd row)"
    "quarantine c = []" "alarms c = []" "n_stored c = int (card (set (out g x)))"
    "n_stored c + n_duplicates c = int (length ds)"
    using delivered_stored_once [OF assms(1-5), of msg] by metis
  have "ingest_command (digest eng) h msg open_db [path] = Inr (Inr (report c, c))"
    using ingest_command_stream [OF assms(8,7), of "digest eng" msg open_db] c(1) assms(6,9) by simp
  with c(2-) show ?thesis by blast
qed

theorem piped_stored_once_witness:
  "\<exists>(g :: gateway) c. out g ''mqtt'' = [JObj (demo_envelope 1 ''m-01''), JObj (demo_envelope 1 ''m-01'')]
     \<and> ingest_command (digest demo_engine)
         \<lparr>spec_at = (\<lambda>_. Inr (engine_spec demo_engine)), text_at = (\<lambda>_. Inr []), standard_input = concat (map stdout_line (out g ''mqtt''))\<rparr>
         (\<lambda>_. []) (\<lambda>_. empty_consumer) [''consumer.db''] = Inr (Inr (report c, c))
     \<and> n_stored c = 1 \<and> n_stored c + n_duplicates c = 2"
proof -
  let ?e = "JObj (demo_envelope 1 ''m-01'')"
  obtain g i where g: "reachable demo_engine [''mqtt''] g" "out g ''mqtt'' = [?e, ?e]"
    using demo_reachable by blast
  let ?h = "\<lparr>spec_at = (\<lambda>_. Inr (engine_spec demo_engine)), text_at = (\<lambda>_. Inr []), standard_input = concat (map stdout_line (out g ''mqtt''))\<rparr>"
  have ids: "runs_identified (engine_spec demo_engine)"
    by (auto simp: runs_identified_def demo_with_def open_spec_def split: option.splits json.splits)
  have tx: "\<forall>e \<in> set (out g ''mqtt''). texts_ok default_opts e"
    unfolding g(2) using demo_texts [of "''m-01''" 1] by (simp add: text_ok_def utf8_ok_ascii del: texts_ok.simps)
  have h: "standard_input ?h = concat (map stdout_line (out g ''mqtt''))" "spec_at ?h None = Inr (engine_spec demo_engine)"
    "plain_value ''consumer.db''" by (simp_all add: plain_value_def)
  obtain c where c: "ingest_command (digest demo_engine) ?h (\<lambda>_. []) (\<lambda>_. empty_consumer) [''consumer.db''] = Inr (Inr (report c, c))"
    "n_stored c = int (card (set (out g ''mqtt'')))" "n_stored c + n_duplicates c = int (length (out g ''mqtt''))"
    using piped_stored_once [OF g(1) _ ids tx refl h(1,2,3), of "\<lambda>_. empty_consumer" "\<lambda>_. []"] by auto
  from c(2,3) have "n_stored c = 1" "n_stored c + n_duplicates c = 2" by (simp_all add: g(2))
  with c(1) g(2) show ?thesis by (intro exI [of _ g] exI [of _ c]) blast
qed

end
