(* ===== verification/Cli_Gateway.thy ===== *)
theory Cli_Gateway
  imports Arg_Parse Commands Json_Lines
begin

text \<open>
  \<open>main\<close> of \<open>gateway/omp/cli.py\<close>: the parser of \<open>omp-gateway\<close> with its seven commands, and the dispatch of the parsed
  arguments to the function of the command. The functions themselves are in \<open>Commands\<close> and \<open>Daemon\<close>.
\<close>

section \<open>The commands and their options\<close>

datatype command = Run_Once | Install_Service | Show_Identity | Run | Reload | Status | Dead_Letters

definition no_positional :: "opt list \<Rightarrow> arg_parser" where
  "no_positional ps = \<lparr>options = help_option # ps, one_of = [], positional = No_More\<rparr>"

definition run_once_parser :: arg_parser where
  "run_once_parser = no_positional
     [requires ''--adapter'' text_arg, requires ''--config'' text_arg, takes ''--duration'' float_arg (Num (Fin 10)),
      takes ''--gateway-id'' text_arg (Text ''gw-dev-01''), takes ''--state-dir'' text_arg Absent,
      takes ''--spec-dir'' text_arg Absent]"

definition install_parser :: arg_parser where
  "install_parser = no_positional
     [takes ''--prefix'' text_arg (Text ''/etc/omp''), takes ''--state-dir'' text_arg (Text ''/var/lib/omp''),
      takes ''--gateway-id'' text_arg Absent]"

definition show_identity_parser :: arg_parser where
  "show_identity_parser = no_positional
     [takes ''--prefix'' text_arg (Text ''/etc/omp''), takes ''--state-dir'' text_arg (Text ''/var/lib/omp'')]"

text \<open>The numeric defaults of \<open>run\<close> are integers, given values of the same options are floats: a default that is not a
  text is not converted.\<close>

definition run_parser :: arg_parser where
  "run_parser = no_positional
     [requires ''--registry'' text_arg, requires ''--state-dir'' text_arg,
      takes ''--adapters-dir'' text_arg (Text ''adapters''), takes ''--gateway-id'' text_arg Absent, switch ''--sign'',
      takes ''--duration'' float_arg Absent, takes ''--spec-dir'' text_arg Absent,
      takes ''--retention-days'' float_arg (Whole 30), takes ''--max-buffer-bytes'' int_arg Absent,
      takes ''--prune-interval'' float_arg (Whole 3600), takes ''--max-crashes'' int_arg (Whole 5),
      takes ''--probe-timeout'' float_arg (Whole 30)]"

definition reload_parser :: arg_parser where
  "reload_parser = no_positional [requires ''--state-dir'' text_arg]"

definition status_parser :: arg_parser where
  "status_parser = no_positional [requires ''--state-dir'' text_arg]"

definition dead_letters_parser :: arg_parser where
  "dead_letters_parser = no_positional [requires ''--state-dir'' text_arg, takes ''--limit'' int_arg (Whole 20)]"

definition gateway_commands :: "(string \<times> command \<times> arg_parser) list" where
  "gateway_commands =
     [(''run-once'', Run_Once, run_once_parser), (''install-service'', Install_Service, install_parser),
      (''show-identity'', Show_Identity, show_identity_parser), (''run'', Run, run_parser),
      (''reload'', Reload, reload_parser), (''status'', Status, status_parser),
      (''dead-letters'', Dead_Letters, dead_letters_parser)]"

definition gateway_parser :: arg_parser where
  "gateway_parser = \<lparr>options = [help_option, version_option], one_of = [], positional = Command ''command''\<rparr>"

text \<open>The exit code of the parser, or what the function of the command does with its arguments.\<close>

definition gateway_main :: "(command \<Rightarrow> namespace \<Rightarrow> 'r) \<Rightarrow> string list \<Rightarrow> int + 'r" where
  "gateway_main func argv =
     (case parse_command gateway_parser (map (\<lambda>(n, c, p). (n, p)) gateway_commands) argv of
        Inl c \<Rightarrow> Inl c
      | Inr (name, ns) \<Rightarrow> Inr (func (fst (the (map_of gateway_commands name))) ns))"

section \<open>What the commands read from the namespace\<close>

fun number_json :: "arg_value option \<Rightarrow> json" where
  "number_json (Some (Whole i)) = JInt i"
| "number_json (Some (Num x)) = JFloat x"
| "number_json _ = JNull"

fun whole_or_none :: "arg_value option \<Rightarrow> int option" where
  "whole_or_none (Some (Whole i)) = Some i"
| "whole_or_none _ = None"

text \<open>The start of \<open>cmd_run_once\<close>: the machine and the adapter's configuration in the dev config.\<close>

definition dev_config :: "json \<Rightarrow> (json \<times> json) res" where
  "dev_config config =
     res_bind (get_or config ''machine_id'' (JStr ''dev-machine-01'')) (\<lambda>m.
     res_bind (get_or config ''config'' (JObj [])) (\<lambda>c. Inr (m, c)))"

text \<open>The limits of \<open>run\<close>; of the values of \<open>--duration\<close> that are no number or negative infinity nothing is said.\<close>

definition limits_of :: "rat \<Rightarrow> (store \<Rightarrow> int) \<Rightarrow> namespace \<Rightarrow> run_limits" where
  "limits_of monotonic db_bytes ns =
     \<lparr>deadline = (case map_of ns ''duration'' of Some (Num (Fin d)) \<Rightarrow> Some (monotonic + d) | _ \<Rightarrow> None),
      retention_days = number_json (map_of ns ''retention_days''),
      max_buffer_bytes = whole_or_none (map_of ns ''max_buffer_bytes''), file_size = db_bytes\<rparr>"

text \<open>
  The start of \<open>cmd_run\<close>, up to the exporters: the registry as loaded, the identity, the key with \<open>--sign\<close>, the spec, the
  engine. \<open>sign_with\<close> is the signing function of a key. The identity and a new key are in the state directory also when
  a later step raises.
\<close>

definition start_gateway ::
  "('pem \<Rightarrow> ('k \<times> bool) res) \<Rightarrow> ('k \<Rightarrow> 'pem) \<Rightarrow> ('k \<Rightarrow> string \<Rightarrow> string) \<Rightarrow> 'k \<Rightarrow> (string \<Rightarrow> string) \<Rightarrow> (string option \<Rightarrow> spec res)
     \<Rightarrow> json dict res \<Rightarrow> namespace \<Rightarrow> 'pem state_dir \<Rightarrow> (engine \<times> json dict \<times> exporter_conf list) res \<times> 'pem state_dir" where
  "start_gateway parse_pem write_pem sign_with fresh H spec_at registry ns sd =
     (case registry of
        Inl e \<Rightarrow> (Inl e, sd)
      | Inr reg \<Rightarrow>
          let g = resolve_identity (text_of (map_of ns ''gateway_id'')) (id_file sd);
              sd = sd\<lparr>id_file := persist_identity g (id_file sd)\<rparr>;
              (key, sd) =
                (if is_on ns ''sign'' then
                   (case load_or_generate parse_pem write_pem ((case text_of (map_of ns ''state_dir'') of Some d \<Rightarrow> d | None \<Rightarrow> [])
                             @ ''/keys/gateway.pem'') fresh (key_file sd) of
                      (k, pem) \<Rightarrow> (res_bind k (\<lambda>k. Inr (Some k)), sd\<lparr>key_file := pem\<rparr>))
                 else (Inr None, sd))
          in (res_bind key (\<lambda>key. res_bind (spec_at (text_of (map_of ns ''spec_dir''))) (\<lambda>spec.
              res_bind (build_exporters reg) (\<lambda>confs.
                Inr (\<lparr>gateway_id = g, engine_spec = spec, signer = map_option sign_with key, digest = H\<rparr>, reg, confs)))), sd))"

section \<open>A command spelled out\<close>

lemma gateway_main_known:
  assumes "map_of gateway_commands name = Some (c, prs)" "hd name \<noteq> CHR ''-''" "name \<noteq> []"
    "Ambiguous \<notin> fst ` set (classify_all (options gateway_parser) args)"
  shows "gateway_main func (name # args) =
    (case parse_args prs args of Inl e \<Rightarrow> Inl e | Inr ns \<Rightarrow> Inr (func c ns))"
proof -
  have "map_of (map (\<lambda>(n, c, p). (n, p)) xs) name = map_option snd (map_of xs name)" for xs :: "(string \<times> command \<times> arg_parser) list"
    by (induction xs) auto
  then have sub: "map_of (map (\<lambda>(n, c, p). (n, p)) gateway_commands) name = Some prs" using assms(1) by simp
  have plain: "classify (options gateway_parser) name = Argument" "name \<noteq> ''--''"
    using assms(2,3) by (auto simp: classify_def)
  have strings: "map snd (classify_all ps as) = as" for ps as
    by (induction as) (auto simp: o_def)
  have "parse_known gateway_parser (name # args) = Inr ((start gateway_parser)\<lparr>space := [(''command'', Text name)], chosen := Some (name, args)\<rparr>)"
    using assms(4) plain strings
    by (simp add: parse_known_def gateway_parser_def start_def defaults_def help_option_def version_option_def incomplete_def
        is_required_def)
  then show ?thesis
    using sub assms(1)
    by (auto simp: gateway_main_def parse_command_def parse_args_def start_def split: sum.splits)
qed

lemma gateway_ambiguous:
  assumes "classify (options gateway_parser) a = Ambiguous"
  shows "fst (split_eq a) = ''--''"
proof -
  have table: "flag_table (options gateway_parser)
    = [(''-h'', help_option), (''--help'', help_option), (''--version'', version_option)]"
    by (simp add: gateway_parser_def flag_table_def help_option_def version_option_def)
  let ?f = "fst (split_eq a)"
  from assms have two: "length (filter (\<lambda>(g, p). prefix ?f g) (flag_table (options gateway_parser))) \<ge> 2"
    and a: "a ! 1 = CHR ''-''" "hd a = CHR ''-''" "length a \<noteq> 1" "a \<noteq> []"
    by (auto simp: classify_def Let_def split: if_splits option.splits prod.splits list.splits)
  from a obtain b where b: "a = ''--'' @ b" by (cases a; cases "tl a") auto
  then have f: "?f = ''--'' @ takeWhile (\<lambda>c. c \<noteq> CHR ''='') b" by (simp add: split_eq_def)
  from two have "prefix ?f ''--help''" "prefix ?f ''--version''"
    unfolding table f by (auto split: if_splits)
  then show ?thesis unfolding f by (cases "takeWhile (\<lambda>c. c \<noteq> CHR ''='') b") auto
qed

lemma settings_unambiguous_at_top:
  assumes "list_all (setting_ok ps) ss" "\<forall>p \<in> snd ` set (flag_table ps). fst (split_eq (hd (flags p))) \<noteq> ''--''"
  shows "Ambiguous \<notin> fst ` set (classify_all (options gateway_parser) (concat (map setting_words ss)))"
proof -
  have one: "classify (options gateway_parser) w \<noteq> Ambiguous \<and> w \<noteq> ''--''"
    if "w \<in> set (setting_words s)" "setting_ok ps s" for w s
  proof -
    have "fst (split_eq (hd (flags p))) \<noteq> ''--''" if "named ps p" for p
      using that assms(2) map_of_SomeD [of "flag_table ps"] by (force simp: named_def)
    with that show ?thesis
      by (cases s) (auto dest: gateway_ambiguous named_not_dashes plain_not_dashes simp: classify_plain)
  qed
  have all: "\<forall>w \<in> set ws. classify qs w \<noteq> Ambiguous \<and> w \<noteq> ''--'' \<Longrightarrow> Ambiguous \<notin> fst ` set (classify_all qs ws)" for qs ws
    by (induction ws) auto
  show ?thesis using assms(1) one by (intro all) (auto simp: list_all_iff)
qed

lemma run_flags_unambiguous:
  "\<forall>p \<in> snd ` set (flag_table (options run_parser)). fst (split_eq (hd (flags p))) \<noteq> ''--''"
  by (simp add: run_parser_def no_positional_def flag_table_def takes_def requires_def switch_def help_option_def split_eq_def)

lemma run_settings:
  assumes "list_all (setting_ok (options run_parser)) ss"
    "''registry'' \<in> fst ` setting_value ` set ss" "''state_dir'' \<in> fst ` setting_value ` set ss"
  shows "gateway_main func (''run'' # concat (map setting_words ss))
    = Inr (func Run (foldl (\<lambda>ns (d, v). AList.update d v ns) (defaults (options run_parser)) (map setting_value ss)))"
proof -
  note top = settings_unambiguous_at_top [OF assms(1) run_flags_unambiguous]
  have known: "map_of gateway_commands ''run'' = Some (Run, run_parser)" by (simp add: gateway_commands_def)
  have req: "dest p \<in> fst ` setting_value ` set ss" if "p \<in> set (options run_parser)" "is_required p" for p
    using that assms(2,3)
    by (auto simp: run_parser_def no_positional_def is_required_def takes_def requires_def switch_def help_option_def dest_of_def)
  have "positional run_parser = No_More" "one_of run_parser = []" by (simp_all add: run_parser_def no_positional_def)
  from parse_args_settings [OF assms(1) this req] show ?thesis
    using gateway_main_known [OF known _ _ top] by simp
qed

text \<open>The unit's command, as the service manager splits it: its words hold only letters, digits and \<open>/._-\<close>.\<close>

definition plain_word :: "string \<Rightarrow> bool" where
  "plain_word w \<longleftrightarrow> w \<noteq> [] \<and> (\<forall>c \<in> set w. is_digit c \<or> lower_char c \<in> set ''abcdefghijklmnopqrstuvwxyz/._-'')"

text \<open>The words of \<open>ExecStart\<close>. The paths are the texts of \<open>pathlib\<close> paths, that is, in the normal form \<open>str\<close> gives them.\<close>

definition unit_words :: "string \<Rightarrow> string \<Rightarrow> string \<Rightarrow> string list" where
  "unit_words exe config_dir state_path =
     [exe, ''run'', ''--registry'', config_dir @ ''/registry.yaml'', ''--state-dir'', state_path, ''--sign'']"

lemma plain_word_append: "plain_word v \<Longrightarrow> plain_word w \<Longrightarrow> plain_word (v @ w)"
  by (auto simp: plain_word_def)

lemma plain_word_literals:
  "plain_word ''run''" "plain_word ''--registry''" "plain_word ''/registry.yaml''" "plain_word ''--state-dir''" "plain_word ''--sign''"
  by (simp_all add: plain_word_def lower_char_def is_digit_def)

lemma unit_command_line:
  assumes "newline \<notin> set exe" "newline \<notin> set config_dir" "newline \<notin> set state_path"
  shows "filter (starts_with ''ExecStart='') (byte_lines (systemd_unit exe config_dir state_path))
    = [''ExecStart='' @ join '' '' (unit_words exe config_dir state_path) @ [newline]]"
proof -
  let ?exec = "''ExecStart='' @ join '' '' (unit_words exe config_dir state_path)"
  let ?before = "[''[Unit]'', ''Description=Open Machine Protocol gateway'', ''After=network-online.target'', [], ''[Service]'', ''User=omp'']"
  let ?after = "[''Restart=on-failure'', ''RestartSec=5'', [], ''[Install]'', ''WantedBy=multi-user.target'']"
  have "systemd_unit exe config_dir state_path
    = concat (map (\<lambda>l. l @ [newline]) ?before) @ (?exec @ newline # concat (map (\<lambda>l. l @ [newline]) ?after))"
    by (simp add: systemd_unit_def unit_words_def)
  moreover have "newline \<notin> set ?exec" using assms by (simp add: unit_words_def newline_def)
  then have "byte_lines (?exec @ newline # concat (map (\<lambda>l. l @ [newline]) ?after))
    = (?exec @ [newline]) # byte_lines (concat (map (\<lambda>l. l @ [newline]) ?after))"
    unfolding newline_def by (rule byte_lines_line)
  moreover have "byte_lines (concat (map (\<lambda>l. l @ [newline]) ls) @ r) = map (\<lambda>l. l @ [newline]) ls @ byte_lines r"
    if "list_all (\<lambda>l. newline \<notin> set l) ls" for ls r
    using that by (induction ls) (simp_all add: byte_lines_line newline_def)
  from this [of ?before] this [of ?after "[]"]
  have "byte_lines (concat (map (\<lambda>l. l @ [newline]) ?before) @ r) = map (\<lambda>l. l @ [newline]) ?before @ byte_lines r"
    "byte_lines (concat (map (\<lambda>l. l @ [newline]) ?after)) = map (\<lambda>l. l @ [newline]) ?after" for r
    by (simp_all add: newline_def del: concat.simps)
  ultimately show ?thesis by simp
qed

lemma map_of_foldl_update:
  "map_of (foldl (\<lambda>ns (d, v). AList.update d v ns) ns kvs) d
    = (case map_of (rev kvs) d of Some v \<Rightarrow> Some v | None \<Rightarrow> map_of ns d)"
  by (induction kvs arbitrary: ns) (auto simp: AList.update_conv map_add_def split: option.splits)

lemma run_option_facts:
  "distinct (map dest (options run_parser))" "positional run_parser = No_More" "one_of run_parser = []"
  by (simp_all add: run_parser_def no_positional_def takes_def requires_def switch_def help_option_def dest_of_def)

lemma plain_value_word: "hd w \<noteq> CHR ''-'' \<Longrightarrow> plain_value w"
  by (simp add: plain_value_def)

abbreviation registry_option :: opt where "registry_option \<equiv> requires ''--registry'' text_arg"
abbreviation state_option :: opt where "state_option \<equiv> requires ''--state-dir'' text_arg"

lemma named_run_options:
  "named (options run_parser) registry_option" "named (options run_parser) state_option"
  "named (options run_parser) (switch ''--sign'')" "named (options run_parser) (takes ''--duration'' float_arg Absent)"
  by (simp_all add: named_def run_parser_def no_positional_def flag_table_def takes_def requires_def switch_def help_option_def)

text \<open>The values of the unit's command line.\<close>

lemma unit_words_run:
  assumes "hd config_dir \<noteq> CHR ''-''" "config_dir \<noteq> []" "hd state_path \<noteq> CHR ''-''"
  obtains ns where "gateway_main func (tl (unit_words exe config_dir state_path)) = Inr (func Run ns)"
    "map_of ns ''registry'' = Some (Text (config_dir @ ''/registry.yaml''))" "map_of ns ''state_dir'' = Some (Text state_path)"
    "map_of ns ''sign'' = Some (Truth True)" "map_of ns ''gateway_id'' = Some Absent" "map_of ns ''duration'' = Some Absent"
    "map_of ns ''retention_days'' = Some (Whole 30)"
proof -
  let ?ss = "[Set registry_option (config_dir @ ''/registry.yaml''), Set state_option state_path, On (switch ''--sign'')]"
  have "list_all (setting_ok (options run_parser)) ?ss"
    using named_run_options assms
    by (simp add: plain_value_word) (simp add: requires_def switch_def text_arg_def)
  moreover have vals: "map setting_value ?ss = [(''registry'', Text (config_dir @ ''/registry.yaml'')),
      (''state_dir'', Text state_path), (''sign'', Truth True)]"
    by (simp add: requires_def switch_def text_arg_def dest_of_def)
  ultimately have run: "gateway_main func (''run'' # concat (map setting_words ?ss))
    = Inr (func Run (foldl (\<lambda>ns (d, v). AList.update d v ns) (defaults (options run_parser)) (map setting_value ?ss)))"
    by (intro run_settings) (simp_all flip: set_map)
  have words: "''run'' # concat (map setting_words ?ss) = tl (unit_words exe config_dir state_path)"
    by (simp add: unit_words_def requires_def switch_def)
  have "map_of (defaults (options run_parser)) ''gateway_id'' = Some Absent"
    "map_of (defaults (options run_parser)) ''duration'' = Some Absent"
    "map_of (defaults (options run_parser)) ''retention_days'' = Some (Whole 30)"
    by (simp_all add: defaults_def run_parser_def no_positional_def takes_def requires_def switch_def help_option_def dest_of_def)
  then show thesis
    by (intro that [OF run [unfolded words vals]]) (simp_all add: map_of_foldl_update del: foldl_Cons)
qed

lemma plain_word_no_newline: "plain_word w \<Longrightarrow> newline \<notin> set w"
  by (auto simp: plain_word_def newline_def lower_char_def is_digit_def)

text \<open>Splitting at spaces.\<close>

fun cut_spaces :: "string \<Rightarrow> string list" where
  "cut_spaces [] = [[]]"
| "cut_spaces (c # s) = (if c = CHR '' '' then [] # cut_spaces s else (c # hd (cut_spaces s)) # tl (cut_spaces s))"

definition split_spaces :: "string \<Rightarrow> string list" where
  "split_spaces s = filter (\<lambda>w. w \<noteq> []) (cut_spaces s)"

lemma cut_spaces_word: "CHR '' '' \<notin> set w \<Longrightarrow> cut_spaces (w @ CHR '' '' # s) = w # cut_spaces s" "CHR '' '' \<notin> set w \<Longrightarrow> cut_spaces w = [w]"
  by (induction w) auto

lemma split_spaces_join: "list_all plain_word ws \<Longrightarrow> split_spaces (join '' '' ws) = ws"
proof (induction ws rule: induct_list012)
  case (2 w)
  then have "CHR '' '' \<notin> set w" "w \<noteq> []" by (auto simp: plain_word_def lower_char_def is_digit_def)
  then show ?case by (simp add: split_spaces_def cut_spaces_word)
next
  case (3 v w ws)
  then have "CHR '' '' \<notin> set v" "v \<noteq> []" by (auto simp: plain_word_def lower_char_def is_digit_def)
  with 3 show ?case by (simp add: split_spaces_def cut_spaces_word)
qed (simp add: split_spaces_def)

lemma cmd_install_ok:
  assumes "cmd_install parse_pem write_pem public fresh exe host config_dir state_path wanted registry sd = (Inr r, registry', sd')"
  obtains g where "last (out_lines r) = systemd_unit exe config_dir state_path" "hd (out_lines r) = ''gateway_id: '' @ g"
    "id_file sd' = Some (g @ [newline])" "registry' \<noteq> None"
  using assms by (auto simp: cmd_install_def Let_def res_inv split: prod.splits option.splits)

lemma gateway_commands_shape:
  "list_all (\<lambda>(n, c, prs). distinct (map dest (options prs)) \<and> positional prs = No_More) gateway_commands"
  by (simp add: gateway_commands_def run_once_parser_def install_parser_def show_identity_parser_def run_parser_def
      reload_parser_def status_parser_def dead_letters_parser_def no_positional_def takes_def requires_def switch_def
      help_option_def dest_of_def)

text \<open>The command that is called is a word of the command line.\<close>

lemma parse_tokens_chosen:
  "parse_tokens ones pos ts st = Inr (pos', st') \<Longrightarrow> chosen st = None \<Longrightarrow> chosen st' = Some (name, rest) \<Longrightarrow> name \<in> snd ` set ts"
proof (induction ones pos ts st rule: parse_tokens.induct)
  case (5 ones pos p v s ts st)
  have give: "chosen st1 = chosen st" if "give ones p conv x st = Inr st1" for conv x st1
    using that by (auto simp: give_def enter_def split: option.splits if_splits)
  have enter: "chosen st1 = chosen st" if "enter ones (dest p) w st = Inr st1" for w st1
    using that by (auto simp: enter_def split: if_splits)
  show ?case
    using 5 give enter
    by (auto split: action.splits option.splits sum.splits list.splits prod.splits token.splits if_splits)
next
  case (6 ones pos s ts st)
  then show ?case by (cases pos) (auto simp: gathered_def)
next
  case (7 ones pos s ts st)
  then show ?case by (cases pos) (auto simp: gathered_def split: if_splits)
qed auto

lemma gateway_main_Inr:
  assumes "gateway_main Pair argv = Inr (c, ns)"
  obtains name prs args st where "(name, c, prs) \<in> set gateway_commands" "parse_known prs args = Inr st" "ns = space st"
    "name \<in> set argv"
proof -
  have sub: "map_of (map (\<lambda>(n, c, p). (n, p)) xs) name = map_option snd (map_of xs name)" for xs :: "(string \<times> command \<times> arg_parser) list" and name
    by (induction xs) auto
  from assms obtain name args prs st st0 where r: "map_of (map (\<lambda>(n, c, p). (n, p)) gateway_commands) name = Some prs"
    "parse_known prs args = Inr st" "ns = space st" "c = fst (the (map_of gateway_commands name))"
    and outer: "parse_known gateway_parser argv = Inr st0" "chosen st0 = Some (name, args)"
    by (auto simp: gateway_main_def parse_command_def split: sum.splits option.splits if_splits prod.splits)
  have "map snd (classify_all ps as) = as" for ps as
    by (induction as) (auto simp: o_def)
  then have "snd ` set (classify_all ps as) = set as" for ps as by (metis set_map)
  moreover have "name \<in> snd ` set (classify_all (options gateway_parser) argv)"
    using outer by (auto simp: parse_known_def Let_def start_def gathered_def intro!: parse_tokens_chosen [of _ _ _ _ _ _ name args]
      split: if_splits sum.splits prod.splits positional.splits)
  ultimately have word: "name \<in> set argv" by simp
  from r(1) sub obtain z where "map_of gateway_commands name = Some z" "prs = snd z" by auto
  with r(4) have "(name, c, prs) \<in> set gateway_commands" using map_of_SomeD by fastforce
  with r word that show thesis by blast
qed

text \<open>A gateway started with \<open>--sign\<close> signs with the key whose public part \<open>show-identity\<close> prints, under the identity it
  prints.\<close>

lemma started_identity:
  assumes "start_gateway parse_pem write_pem sign_with fresh H spec_at registry ns sd = (Inr (eng, reg, confs), sd')"
    "is_on ns ''sign''" "\<And>k. parse_pem (write_pem k) = Inr (k, True)"
  obtains k where "signer eng = Some (sign_with k)" "digest eng = H" "spec_at (text_of (map_of ns ''spec_dir'')) = Inr (engine_spec eng)"
    "cmd_show_identity parse_pem public p sd' =
      Inr \<lparr>code = 0, out_lines = [''gateway_id: '' @ strip (gateway_id eng), ''pubkey: ed25519:'' @ public_key_b64 (public k)], err_lines = []\<rparr>"
proof -
  let ?path = "(case text_of (map_of ns ''state_dir'') of Some d \<Rightarrow> d | None \<Rightarrow> []) @ ''/keys/gateway.pem''"
  let ?g = "resolve_identity (text_of (map_of ns ''gateway_id'')) (id_file sd)"
  obtain k pem where load: "load_or_generate parse_pem write_pem ?path fresh (key_file sd) = (Inr k, pem)"
    and eng: "gateway_id eng = ?g" "signer eng = Some (sign_with k)" "digest eng = H" "spec_at (text_of (map_of ns ''spec_dir'')) = Inr (engine_spec eng)"
    and sd': "sd' = sd\<lparr>id_file := persist_identity ?g (id_file sd), key_file := pem\<rparr>"
    using assms(1,2) by (auto simp: start_gateway_def Let_def res_inv split: sum.splits prod.splits)
  have "cmd_show_identity parse_pem public p sd' =
      Inr \<lparr>code = 0, out_lines = [''gateway_id: '' @ strip ?g, ''pubkey: ed25519:'' @ public_key_b64 (public k)], err_lines = []\<rparr>"
    using identity_persists [OF assms(3) load refl sd'] by simp
  with eng show thesis by (intro that [of k]) simp_all
qed

section \<open>Properties\<close>

text \<open>C32: The unit \<open>install-service\<close> prints has one \<open>ExecStart\<close> line, and started by it, with its words split at the
  spaces, the program runs the daemon on the registry the installation created, in the state directory it prepared,
  signing, under the identity it printed, less white space around it. This is for paths of letters, digits and \<open>/._-\<close> that do
  not begin with \<open>-\<close>; the printed unit quotes nothing, and with a space in a path it is refused
  (\<open>unit_path_with_space\<close>).\<close>

theorem installed_unit_runs:
  assumes "cmd_install parse_pem write_pem public fresh exe host config_dir state_path wanted registry sd = (Inr r, registry', sd')"
    and "plain_word exe" "plain_word config_dir" "plain_word state_path" "hd config_dir \<noteq> CHR ''-''" "hd state_path \<noteq> CHR ''-''"
    and "\<And>ws. list_all plain_word ws \<Longrightarrow> exec_split (join '' '' ws) = ws"
  shows "\<exists>command argv ns g. filter (starts_with ''ExecStart='') (byte_lines (last (out_lines r))) = [''ExecStart='' @ command @ [newline]]
    \<and> exec_split command = exe # argv \<and> gateway_main Pair argv = Inr (Run, ns)
    \<and> map_of ns ''registry'' = Some (Text (config_dir @ ''/registry.yaml'')) \<and> registry' \<noteq> None
    \<and> map_of ns ''state_dir'' = Some (Text state_path) \<and> map_of ns ''sign'' = Some (Truth True)
    \<and> hd (out_lines r) = ''gateway_id: '' @ g
    \<and> resolve_identity (text_of (map_of ns ''gateway_id'')) (id_file sd') = strip g"
proof -
  obtain g where inst: "last (out_lines r) = systemd_unit exe config_dir state_path" "hd (out_lines r) = ''gateway_id: '' @ g"
    "id_file sd' = Some (g @ [newline])" "registry' \<noteq> None" by (rule cmd_install_ok [OF assms(1)])
  have "list_all plain_word (unit_words exe config_dir state_path)"
    using assms(2-4) plain_word_literals by (simp add: unit_words_def plain_word_append)
  from assms(7) [OF this] have split: "exec_split (join '' '' (unit_words exe config_dir state_path))
    = exe # tl (unit_words exe config_dir state_path)" by (simp add: unit_words_def)
  have "config_dir \<noteq> []" using assms(3) by (auto simp: plain_word_def)
  from unit_words_run [OF assms(5) this assms(6), of Pair] obtain ns where ns:
    "gateway_main Pair (tl (unit_words exe config_dir state_path)) = Inr (Run, ns)"
    "map_of ns ''registry'' = Some (Text (config_dir @ ''/registry.yaml''))" "map_of ns ''state_dir'' = Some (Text state_path)"
    "map_of ns ''sign'' = Some (Truth True)" "map_of ns ''gateway_id'' = Some Absent" by metis
  have "resolve_identity (text_of (map_of ns ''gateway_id'')) (id_file sd') = strip g"
    using ns(5) inst(3) by (simp add: resolve_identity_def strip_newline)
  with unit_command_line [of exe config_dir state_path] split ns inst assms(2-4) show ?thesis
    by (auto simp: plain_word_no_newline)
qed

theorem installed_unit_runs_witness:
  "\<exists>r registry' sd' command argv ns. cmd_install (\<lambda>pem. Inr (pem, True)) (\<lambda>k. k) (\<lambda>k. k) ''seed'' ''/usr/bin/omp-gateway'' ''floor''
        ''/etc/omp'' ''/var/lib/omp'' (Some ''gw-07'') None \<lparr>id_file = None, key_file = None\<rparr> = (Inr r, registry', sd')
    \<and> split_spaces command = ''/usr/bin/omp-gateway'' # argv \<and> gateway_main Pair argv = Inr (Run, ns)
    \<and> map_of ns ''registry'' = Some (Text ''/etc/omp/registry.yaml'') \<and> map_of ns ''sign'' = Some (Truth True)"
proof -
  have "\<exists>r registry' sd'. cmd_install (\<lambda>pem. Inr (pem, True)) (\<lambda>k. k) (\<lambda>k. k) ''seed'' ''/usr/bin/omp-gateway'' ''floor''
        ''/etc/omp'' ''/var/lib/omp'' (Some ''gw-07'') None \<lparr>id_file = None, key_file = None\<rparr> = (Inr r, registry', sd')"
    by (simp add: cmd_install_def load_or_generate_def generate_key_def Let_def)
  then obtain r registry' sd' where c: "cmd_install (\<lambda>pem. Inr (pem, True)) (\<lambda>k. k) (\<lambda>k. k) ''seed'' ''/usr/bin/omp-gateway'' ''floor''
        ''/etc/omp'' ''/var/lib/omp'' (Some ''gw-07'') None \<lparr>id_file = None, key_file = None\<rparr> = (Inr r, registry', sd')" by blast
  have w: "plain_word ''/usr/bin/omp-gateway''" "plain_word ''/etc/omp''" "plain_word ''/var/lib/omp''"
    by (simp_all add: plain_word_def lower_char_def is_digit_def)
  from installed_unit_runs [OF c w, of split_spaces] split_spaces_join obtain command argv ns where
    "split_spaces command = ''/usr/bin/omp-gateway'' # argv" "gateway_main Pair argv = Inr (Run, ns)"
    "map_of ns ''registry'' = Some (Text (''/etc/omp'' @ ''/registry.yaml''))" "map_of ns ''sign'' = Some (Truth True)" by auto
  with c show ?thesis by auto
qed

text \<open>What the functions of the commands rely on, in words of their own: \<open>args.registry\<close> is a path, the number of
  crashes is compared with an integer, and so on. A float with an integer default is the integer when it is not given.\<close>

definition is_text :: "arg_value option \<Rightarrow> bool" where
  "is_text v = (\<exists>s. v = Some (Text s))"

definition text_or_absent :: "arg_value option \<Rightarrow> bool" where
  "text_or_absent v = (is_text v \<or> v = Some Absent)"

definition is_whole :: "arg_value option \<Rightarrow> bool" where
  "is_whole v = (\<exists>i. v = Some (Whole i))"

definition float_or :: "arg_value \<Rightarrow> arg_value option \<Rightarrow> bool" where
  "float_or d v = ((\<exists>x. v = Some (Num x)) \<or> v = Some d)"

definition is_truth :: "arg_value option \<Rightarrow> bool" where
  "is_truth v = (\<exists>b. v = Some (Truth b))"

fun arguments_ok :: "command \<Rightarrow> namespace \<Rightarrow> bool" where
  "arguments_ok Run_Once ns =
     (is_text (map_of ns ''adapter'') \<and> is_text (map_of ns ''config'') \<and> float_or (Num (Fin 10)) (map_of ns ''duration'')
      \<and> is_text (map_of ns ''gateway_id'') \<and> text_or_absent (map_of ns ''state_dir'') \<and> text_or_absent (map_of ns ''spec_dir''))"
| "arguments_ok Install_Service ns =
     (is_text (map_of ns ''prefix'') \<and> is_text (map_of ns ''state_dir'') \<and> text_or_absent (map_of ns ''gateway_id''))"
| "arguments_ok Show_Identity ns = (is_text (map_of ns ''prefix'') \<and> is_text (map_of ns ''state_dir''))"
| "arguments_ok Run ns =
     (is_text (map_of ns ''registry'') \<and> is_text (map_of ns ''state_dir'') \<and> is_text (map_of ns ''adapters_dir'')
      \<and> text_or_absent (map_of ns ''gateway_id'') \<and> is_truth (map_of ns ''sign'') \<and> float_or Absent (map_of ns ''duration'')
      \<and> text_or_absent (map_of ns ''spec_dir'') \<and> float_or (Whole 30) (map_of ns ''retention_days'')
      \<and> (is_whole (map_of ns ''max_buffer_bytes'') \<or> map_of ns ''max_buffer_bytes'' = Some Absent)
      \<and> float_or (Whole 3600) (map_of ns ''prune_interval'') \<and> is_whole (map_of ns ''max_crashes'')
      \<and> float_or (Whole 30) (map_of ns ''probe_timeout''))"
| "arguments_ok Reload ns = is_text (map_of ns ''state_dir'')"
| "arguments_ok Status ns = is_text (map_of ns ''state_dir'')"
| "arguments_ok Dead_Letters ns = (is_text (map_of ns ''state_dir'') \<and> is_whole (map_of ns ''limit''))"

fun command_word :: "command \<Rightarrow> string" where
  "command_word Run_Once = ''run-once''"
| "command_word Install_Service = ''install-service''"
| "command_word Show_Identity = ''show-identity''"
| "command_word Run = ''run''"
| "command_word Reload = ''reload''"
| "command_word Status = ''status''"
| "command_word Dead_Letters = ''dead-letters''"

text \<open>The shortest command lines, and the arguments the documentation promises for them.\<close>

fun bare_line :: "command \<Rightarrow> string \<Rightarrow> string \<Rightarrow> string list" where
  "bare_line Run_Once a b = [''run-once'', ''--adapter'', a, ''--config'', b]"
| "bare_line Install_Service a b = [''install-service'']"
| "bare_line Show_Identity a b = [''show-identity'']"
| "bare_line Run a b = [''run'', ''--registry'', a, ''--state-dir'', b]"
| "bare_line Reload a b = [''reload'', ''--state-dir'', a]"
| "bare_line Status a b = [''status'', ''--state-dir'', a]"
| "bare_line Dead_Letters a b = [''dead-letters'', ''--state-dir'', a]"

fun bare_arguments :: "command \<Rightarrow> string \<Rightarrow> string \<Rightarrow> namespace" where
  "bare_arguments Run_Once a b =
     [(''adapter'', Text a), (''config'', Text b), (''duration'', Num (Fin 10)), (''gateway_id'', Text ''gw-dev-01''),
      (''state_dir'', Absent), (''spec_dir'', Absent)]"
| "bare_arguments Install_Service a b =
     [(''prefix'', Text ''/etc/omp''), (''state_dir'', Text ''/var/lib/omp''), (''gateway_id'', Absent)]"
| "bare_arguments Show_Identity a b = [(''prefix'', Text ''/etc/omp''), (''state_dir'', Text ''/var/lib/omp'')]"
| "bare_arguments Run a b =
     [(''registry'', Text a), (''state_dir'', Text b), (''adapters_dir'', Text ''adapters''), (''gateway_id'', Absent),
      (''sign'', Truth False), (''duration'', Absent), (''spec_dir'', Absent), (''retention_days'', Whole 30),
      (''max_buffer_bytes'', Absent), (''prune_interval'', Whole 3600), (''max_crashes'', Whole 5), (''probe_timeout'', Whole 30)]"
| "bare_arguments Reload a b = [(''state_dir'', Text a)]"
| "bare_arguments Status a b = [(''state_dir'', Text a)]"
| "bare_arguments Dead_Letters a b = [(''state_dir'', Text a), (''limit'', Whole 20)]"

lemmas parser_tables = run_once_parser_def install_parser_def show_identity_parser_def run_parser_def
  reload_parser_def status_parser_def dead_letters_parser_def no_positional_def takes_def requires_def switch_def
  help_option_def dest_of_def

text \<open>A parsed option has a value of its conversion or, where it is not required, its default.\<close>

definition option_value :: "namespace \<Rightarrow> opt \<Rightarrow> bool" where
  "option_value ns p =
     (case action p of
        Takes conv d required \<Rightarrow> \<exists>v. map_of ns (dest p) = Some v \<and> ((\<exists>s. conv s = Some v) \<or> \<not> required \<and> v = d)
      | Switch \<Rightarrow> \<exists>b. map_of ns (dest p) = Some (Truth b)
      | _ \<Rightarrow> True)"

lemma parsed_option_value:
  assumes "(name, c, prs) \<in> set gateway_commands" "parse_known prs args = Inr st" "p \<in> set (options prs)"
  shows "option_value (space st) p"
proof -
  have shape: "distinct (map dest (options prs))" "positional prs = No_More"
    using gateway_commands_shape assms(1) by (auto simp: list_all_iff)
  from parse_args_typed [OF assms(2) shape(2,1) assms(3)] show ?thesis
    by (auto simp: option_value_def is_required_def split: action.splits if_splits)
qed

lemma conversions:
  "text_arg s = Some v \<longleftrightarrow> v = Text s" "int_arg s = Some v \<Longrightarrow> \<exists>i. v = Whole i" "float_arg s = Some v \<Longrightarrow> \<exists>x. v = Num x"
  by (auto simp: text_arg_def int_arg_def float_arg_def split: sum.splits)

lemma option_values:
  "option_value ns (requires f text_arg) \<Longrightarrow> is_text (map_of ns (dest_of f))"
  "option_value ns (takes f text_arg (Text s)) \<Longrightarrow> is_text (map_of ns (dest_of f))"
  "option_value ns (takes f text_arg Absent) \<Longrightarrow> text_or_absent (map_of ns (dest_of f))"
  "option_value ns (takes f int_arg (Whole i)) \<Longrightarrow> is_whole (map_of ns (dest_of f))"
  "option_value ns (takes f int_arg Absent) \<Longrightarrow> is_whole (map_of ns (dest_of f)) \<or> map_of ns (dest_of f) = Some Absent"
  "option_value ns (takes f float_arg d) \<Longrightarrow> float_or d (map_of ns (dest_of f))"
  "option_value ns (switch f) \<Longrightarrow> is_truth (map_of ns (dest_of f))"
  by (auto simp: option_value_def requires_def takes_def switch_def is_text_def text_or_absent_def is_whole_def float_or_def
      is_truth_def conversions(1) dest: conversions(2,3))

lemma option_values_ok:
  assumes "(name, c, prs) \<in> set gateway_commands" "\<forall>p \<in> set (options prs). option_value ns p"
  shows "arguments_ok c ns \<and> name = command_word c"
proof -
  have cases: "name = command_word c" "(c, prs) \<in> {(Run_Once, run_once_parser), (Install_Service, install_parser),
      (Show_Identity, show_identity_parser), (Run, run_parser), (Reload, reload_parser), (Status, status_parser),
      (Dead_Letters, dead_letters_parser)}"
    using assms(1) by (auto simp: gateway_commands_def)
  from cases(2) assms(2) show ?thesis
    unfolding cases(1)
    by (elim insertE emptyE; simp add: run_once_parser_def install_parser_def show_identity_parser_def run_parser_def
        reload_parser_def status_parser_def dead_letters_parser_def no_positional_def)
      (auto dest!: option_values simp: dest_of_def)
qed

text \<open>Any command spelled out.\<close>

lemma gateway_flags_unambiguous:
  "list_all (\<lambda>(n, c, prs). (\<forall>p \<in> snd ` set (flag_table (options prs)). fst (split_eq (hd (flags p))) \<noteq> ''--'')
     \<and> one_of prs = [] \<and> n \<noteq> [] \<and> hd n \<noteq> CHR ''-'' \<and> map_of gateway_commands n = Some (c, prs)) gateway_commands"
  by (simp add: gateway_commands_def parser_tables flag_table_def split_eq_def)

lemma command_settings:
  assumes "(name, c, prs) \<in> set gateway_commands" "list_all (setting_ok (options prs)) ss"
    and "\<And>p. p \<in> set (options prs) \<Longrightarrow> is_required p \<Longrightarrow> dest p \<in> fst ` setting_value ` set ss"
  shows "gateway_main func (name # concat (map setting_words ss))
    = Inr (func c (foldl (\<lambda>ns (d, v). AList.update d v ns) (defaults (options prs)) (map setting_value ss)))"
proof -
  have known: "map_of gateway_commands name = Some (c, prs)" "name \<noteq> []" "hd name \<noteq> CHR ''-''" "one_of prs = []" "positional prs = No_More"
    and flags: "\<forall>p \<in> snd ` set (flag_table (options prs)). fst (split_eq (hd (flags p))) \<noteq> ''--''"
    using assms(1) gateway_flags_unambiguous gateway_commands_shape by (auto simp: list_all_iff)
  note top = settings_unambiguous_at_top [OF assms(2) flags]
  from parse_args_settings [OF assms(2) known(5,4) assms(3)] show ?thesis
    using gateway_main_known [OF known(1,3,2) top] by simp
qed

fun command_parser :: "command \<Rightarrow> arg_parser" where
  "command_parser Run_Once = run_once_parser"
| "command_parser Install_Service = install_parser"
| "command_parser Show_Identity = show_identity_parser"
| "command_parser Run = run_parser"
| "command_parser Reload = reload_parser"
| "command_parser Status = status_parser"
| "command_parser Dead_Letters = dead_letters_parser"

fun bare_settings :: "command \<Rightarrow> string \<Rightarrow> string \<Rightarrow> setting list" where
  "bare_settings Run_Once a b = [Set (requires ''--adapter'' text_arg) a, Set (requires ''--config'' text_arg) b]"
| "bare_settings Install_Service a b = []"
| "bare_settings Show_Identity a b = []"
| "bare_settings Run a b = [Set registry_option a, Set state_option b]"
| "bare_settings _ a b = [Set state_option a]"

lemma bare_command:
  "(command_word c, c, command_parser c) \<in> set gateway_commands"
  "bare_line c a b = command_word c # concat (map setting_words (bare_settings c a b))"
  by (cases c; simp add: gateway_commands_def requires_def)+

lemma bare_settings_ok:
  assumes "plain_value a" "plain_value b"
  shows "list_all (setting_ok (options (command_parser c))) (bare_settings c a b)"
  using assms by (cases c) (simp_all add: named_def flag_table_def parser_tables text_arg_def)

lemma bare_settings_complete:
  "p \<in> set (options (command_parser c)) \<Longrightarrow> is_required p \<Longrightarrow> dest p \<in> fst ` setting_value ` set (bare_settings c a b)"
  by (cases c) (auto simp: parser_tables text_arg_def is_required_def)

lemma bare_settings_value:
  "map_of (foldl (\<lambda>ns (d, v). AList.update d v ns) (defaults (options (command_parser c))) (map setting_value (bare_settings c a b)))
    = map_of (bare_arguments c a b)"
  by (cases c) (simp_all add: parser_tables text_arg_def defaults_def)

text \<open>C33: The arguments the commands of \<open>omp-gateway\<close> are called with. Whatever the command line, a function is called only
  if its command is a word of it, and then with arguments of the types it relies on: the registry and the state directory
  of \<open>run\<close> are given texts, its limits are numbers or absent, and so on. And a command that is given nothing but
  its required options is called, with exactly the defaults of the documentation: retention for 30 days, a pass every hour, five
  crashes, a probe of 30 seconds, no limit of time or size, no signing; \<open>/etc/omp\<close> and \<open>/var/lib/omp\<close>; 20 dead letters.\<close>

theorem gateway_arguments_typed:
  assumes "plain_value a" "plain_value b"
  shows "(\<forall>argv c ns. gateway_main Pair argv = Inr (c, ns) \<longrightarrow> command_word c \<in> set argv \<and> arguments_ok c ns)
    \<and> (\<forall>c. \<exists>ns. gateway_main Pair (bare_line c a b) = Inr (c, ns) \<and> map_of ns = map_of (bare_arguments c a b))"
proof (intro conjI allI impI)
  fix argv c ns
  assume "gateway_main Pair argv = Inr (c, ns)"
  from gateway_main_Inr [OF this] obtain name prs args st where
    r: "(name, c, prs) \<in> set gateway_commands" "parse_known prs args = Inr st" "ns = space st" "name \<in> set argv" by metis
  have "\<forall>p \<in> set (options prs). option_value ns p" using parsed_option_value [OF r(1,2)] r(3) by blast
  from option_values_ok [OF r(1) this] r(4) show "command_word c \<in> set argv" "arguments_ok c ns" by auto
next
  fix c
  from command_settings [OF bare_command(1) bare_settings_ok [OF assms] bare_settings_complete, of c Pair]
  show "\<exists>ns. gateway_main Pair (bare_line c a b) = Inr (c, ns) \<and> map_of ns = map_of (bare_arguments c a b)"
    unfolding bare_command(2) by (auto simp: bare_settings_value)
qed

theorem gateway_arguments_typed_witness:
  "\<exists>ns. gateway_main Pair [''run'', ''--registry'', ''floor.yaml'', ''--state-dir'', ''/var/lib/omp''] = Inr (Run, ns)
     \<and> map_of ns ''retention_days'' = Some (Whole 30) \<and> map_of ns ''max_crashes'' = Some (Whole 5)"
proof -
  have "plain_value ''floor.yaml''" "plain_value ''/var/lib/omp''" by (simp_all add: plain_value_def)
  from gateway_arguments_typed [OF this, THEN conjunct2, rule_format, of Run] show ?thesis by auto
qed

text \<open>A command line of \<open>run\<close> that spells its options out, in any order and with repetitions, calls the daemon with
  each option at the last value given for it, or else at its default; \<open>--registry\<close> and \<open>--state-dir\<close> among them.\<close>

theorem run_spelled_out:
  assumes "list_all (setting_ok (options run_parser)) ss"
    and "''registry'' \<in> fst ` setting_value ` set ss" "''state_dir'' \<in> fst ` setting_value ` set ss"
  shows "\<exists>ns. gateway_main Pair (''run'' # concat (map setting_words ss)) = Inr (Run, ns)
    \<and> (\<forall>d. map_of ns d = (case map_of (rev (map setting_value ss)) d of
              Some v \<Rightarrow> Some v | None \<Rightarrow> map_of (defaults (options run_parser)) d))"
  by (intro exI conjI allI, rule run_settings [OF assms, of Pair], rule map_of_foldl_update)

theorem run_spelled_out_witness:
  "\<exists>ns. gateway_main Pair [''run'', ''--state-dir'', ''s'', ''--registry'', ''old'', ''--sign'', ''--registry'', ''new''] = Inr (Run, ns)
     \<and> map_of ns ''registry'' = Some (Text ''new'') \<and> map_of ns ''max_crashes'' = Some (Whole 5)"
proof -
  let ?ss = "[Set state_option ''s'', Set registry_option ''old'', On (switch ''--sign''), Set registry_option ''new'']"
  have ok: "list_all (setting_ok (options run_parser)) ?ss"
    using named_run_options by (simp add: plain_value_def) (simp add: requires_def switch_def text_arg_def)
  have vals: "map setting_value ?ss = [(''state_dir'', Text ''s''), (''registry'', Text ''old''), (''sign'', Truth True), (''registry'', Text ''new'')]"
    by (simp add: requires_def switch_def text_arg_def dest_of_def)
  have words: "concat (map setting_words ?ss) = [''--state-dir'', ''s'', ''--registry'', ''old'', ''--sign'', ''--registry'', ''new'']"
    by (simp add: requires_def switch_def)
  have "fst ` setting_value ` set ?ss = fst ` set (map setting_value ?ss)" by (simp only: set_map)
  then have given: "''registry'' \<in> fst ` setting_value ` set ?ss" "''state_dir'' \<in> fst ` setting_value ` set ?ss"
    unfolding vals by simp_all
  from run_spelled_out [OF ok given, unfolded words vals] obtain ns where
    "gateway_main Pair [''run'', ''--state-dir'', ''s'', ''--registry'', ''old'', ''--sign'', ''--registry'', ''new''] = Inr (Run, ns)"
    "map_of ns ''registry'' = Some (Text ''new'')" "map_of ns ''max_crashes'' = map_of (defaults (options run_parser)) ''max_crashes''"
    by auto
  moreover have "map_of (defaults (options run_parser)) ''max_crashes'' = Some (Whole 5)"
    by (simp add: defaults_def run_parser_def no_positional_def takes_def requires_def switch_def help_option_def dest_of_def)
  ultimately show ?thesis by auto
qed

text \<open>The paths of the unit are not quoted: with a space in the configuration directory the command of the unit does not
  start the daemon but is refused as a usage error.\<close>

lemma unit_path_with_space:
  assumes "plain_word exe" "plain_word u" "plain_word v" "plain_word state_path"
    "hd u \<noteq> CHR ''-''" "hd v \<noteq> CHR ''-''" "hd state_path \<noteq> CHR ''-''"
  shows "split_spaces (join '' '' (unit_words exe (u @ '' '' @ v) state_path))
      = exe # [''run'', ''--registry'', u, v @ ''/registry.yaml'', ''--state-dir'', state_path, ''--sign'']
    \<and> gateway_main Pair [''run'', ''--registry'', u, v @ ''/registry.yaml'', ''--state-dir'', state_path, ''--sign''] = Inl 2"
proof -
  have "v \<noteq> []" using assms(3) by (auto simp: plain_word_def)
  let ?ws = "[exe, ''run'', ''--registry'', u, v @ ''/registry.yaml'', ''--state-dir'', state_path, ''--sign'']"
  have "join '' '' (unit_words exe (u @ '' '' @ v) state_path) = join '' '' ?ws" by (simp add: unit_words_def)
  moreover have "list_all plain_word ?ws" using assms plain_word_literals by (simp add: plain_word_append)
  ultimately have "split_spaces (join '' '' (unit_words exe (u @ '' '' @ v) state_path)) = ?ws" using split_spaces_join by metis
  moreover have "gateway_main Pair (tl ?ws) = Inl 2"
  proof -
    let ?s1 = "[Set registry_option u]" and ?s2 = "[Set state_option state_path, On (switch ''--sign'')]"
    have ok: "list_all (setting_ok (options run_parser)) ?s1" "list_all (setting_ok (options run_parser)) ?s2"
      using named_run_options assms(5,7) by (simp_all add: plain_value_word) (simp_all add: requires_def switch_def text_arg_def)
    have w: "plain_value (v @ ''/registry.yaml'')" using assms(6) \<open>v \<noteq> []\<close> by (simp add: plain_value_word)
    have words: "concat (map setting_words ?s1) @ (v @ ''/registry.yaml'') # concat (map setting_words ?s2) = tl (tl ?ws)"
      by (simp add: requires_def switch_def)
    have refused: "parse_args run_parser (tl (tl ?ws)) = Inl 2"
      using stray_word_refused [OF ok w run_option_facts(2,3)] by (simp only: words)
    have flags_ok: "\<forall>p \<in> snd ` set (flag_table (options run_parser)). fst (split_eq (hd (flags p))) \<noteq> ''--''"
      by (rule run_flags_unambiguous)
    have "Ambiguous \<notin> fst ` set (classify_all (options gateway_parser) (concat (map setting_words ?s1) @ (v @ ''/registry.yaml'') # concat (map setting_words ?s2)))"
      using settings_unambiguous_at_top [OF ok(1) flags_ok] settings_unambiguous_at_top [OF ok(2) flags_ok] w
      by (auto simp: requires_def switch_def classify_plain split: if_splits dest: plain_not_dashes)
    note top = this [unfolded words]
    have known: "map_of gateway_commands ''run'' = Some (Run, run_parser)" by (simp add: gateway_commands_def)
    from gateway_main_known [OF known _ _ top, of Pair] refused show ?thesis by simp
  qed
  ultimately show ?thesis by simp
qed

end
