(* ===== verification/Signed_Delivery.thy ===== *)
theory Signed_Delivery
  imports End_To_End Cli_Gateway
begin

text \<open>
  A signing gateway and the validator: what the exporters of a gateway that signs hand out is accepted by
  \<open>omp-validate --pubkey\<close> with the gateway's public key.
\<close>

section \<open>A signed emission verifies\<close>

lemma emission_verifies:
  assumes "emission eng env" "signer eng = Some ed_sign" "\<And>msg. ed pub (ed_sign msg) msg"
  shows "map_of env ''sig'' \<noteq> None \<and> verify_envelope_sig ed env (public_key_b64 pub)"
proof -
  obtain m b q ts c where "env = engine_envelope eng m b q ts c" using emission_facts [OF assms(1)] by metis
  with assms(2,3) show ?thesis
    by (simp add: engine_envelope_def envelope_of_def verify_envelope_sig_def verify_signature_def sign_def public_key_b64_def)
qed

lemma emission_line_ok:
  assumes "emission eng env" "is_given pubkey \<longrightarrow> map_of env ''sig'' \<noteq> None \<and> verify_envelope_sig ed env (the pubkey)"
  shows "line_ok (digest eng) ed (engine_spec eng) pubkey (stdout_line (JObj env))" "strip (stdout_line (JObj env)) \<noteq> []"
proof -
  have "validate_envelope (digest eng) (engine_spec eng) env False = Inr []" using assms(1) by (auto simp: emission_def)
  moreover have "loads (strip (stdout_line (JObj env))) = Inr (JObj env)" "strip (stdout_line (JObj env)) \<noteq> []"
    using emission_accepted [OF assms(1)] by (simp_all add: accepted_def)
  ultimately show "line_ok (digest eng) ed (engine_spec eng) pubkey (stdout_line (JObj env))" "strip (stdout_line (JObj env)) \<noteq> []"
    using assms(2) by (auto simp: line_ok_def)
qed

section \<open>The validator returns on lines that are in order\<close>

lemma validate_line_returns:
  assumes "line_ok H ed spec pubkey line"
  shows "\<exists>t'. validate_line H ed spec msg pubkey quiet n line t = Inr t'"
proof (cases "strip line = []")
  case False
  with assms obtain env where env: "loads (strip line) = Inr (JObj env)" "validate_envelope H spec env False = Inr []"
    "is_given pubkey \<longrightarrow> map_of env ''sig'' \<noteq> None \<and> verify_envelope_sig ed env (the pubkey)"
    by (auto simp: line_ok_def)
  then have "value_errors H ed spec pubkey (JObj env) = Inr []" by (simp add: value_errors_Nil)
  moreover from env(2) obtain s where "map_of env ''schema'' = Some s" unfolding validate_ok_iff by blast
  ultimately show ?thesis using False env(1) by (simp add: validate_line_def dict_item_def)
qed (simp add: validate_line_def)

lemma validate_lines_return:
  "list_all (line_ok H ed spec pubkey) ls \<Longrightarrow> \<exists>t'. validate_lines H ed spec msg pubkey quiet n ls t = Inr t'"
proof (induction ls arbitrary: n t)
  case (Cons l ls)
  then obtain t1 where "validate_line H ed spec msg pubkey quiet n l t = Inr t1" using validate_line_returns by fastforce
  with Cons show ?case by simp
qed simp

lemma validate_main_accepts:
  assumes "list_all (line_ok H ed spec pubkey) ls"
  shows "\<exists>out s. validate_main H ed spec msg pubkey quiet ls = Inr (out, 0)
    \<and> last out = check_mark @ '' '' @ show_nat (length (filter (\<lambda>l. strip l \<noteq> []) ls)) @ '' messages valid'' @ s"
proof -
  obtain t where "validate_lines H ed spec msg pubkey quiet 1 ls no_tallies = Inr t" using validate_lines_return [OF assms] by blast
  then have "\<exists>r. validate_main H ed spec msg pubkey quiet ls = Inr r" by (simp add: validate_main_def)
  then obtain out status where r: "validate_main H ed spec msg pubkey quiet ls = Inr (out, status)" by auto
  from validate_exit_code [OF r] assms show ?thesis using r by (auto simp: list_all_iff)
qed

text \<open>\<open>omp-validate\<close> on its standard input, options spelled out.\<close>

lemma validate_options:
  assumes "list_all (setting_ok (options validate_parser)) ss"
  shows "parse_args validate_parser (concat (map setting_words ss))
    = Inr (AList.update ''files'' (Texts [])
        (foldl (\<lambda>ns (d, v). AList.update d v ns) (defaults (options validate_parser)) (map setting_value ss)))"
proof -
  let ?ps = "options validate_parser"
  have "parse_tokens [] (All_Texts ''files'') (classify_all ?ps (concat (map setting_words ss))) (start validate_parser)
      = Inr (All_Texts ''files'', apply_settings ss (start validate_parser))"
    using parse_settings [OF assms, of "All_Texts ''files''" "[]"] by simp
  moreover have "\<not> incomplete validate_parser (All_Texts ''files'') st" for st
    by (auto simp: incomplete_def validate_parser_def is_required_def takes_def switch_def help_option_def version_option_def)
  moreover have "one_of validate_parser = []" "positional validate_parser = All_Texts ''files''" by (simp_all add: validate_parser_def)
  ultimately show ?thesis
    using settings_unambiguous [OF assms] by (simp add: parse_args_def parse_known_def gathered_def apply_settings_def start_def)
qed

abbreviation pubkey_option :: opt where "pubkey_option \<equiv> takes ''--pubkey'' text_arg Absent"

lemma validate_pubkey_arguments:
  assumes "plain_value key"
  obtains ns where "parse_args validate_parser [''--pubkey'', key] = Inr ns" "map_of ns ''pubkey'' = Some (Text key)"
    "map_of ns ''audit'' = Some (Truth False)" "map_of ns ''spec_dir'' = Some Absent" "texts_of ns ''files'' = []"
proof -
  have "list_all (setting_ok (options validate_parser)) [Set pubkey_option key]"
    using assms by (simp add: named_def validate_parser_def flag_table_def takes_def switch_def help_option_def version_option_def text_arg_def)
  note args = validate_options [OF this]
  have words: "concat (map setting_words [Set pubkey_option key]) = [''--pubkey'', key]" by (simp add: takes_def)
  have vals: "map setting_value [Set pubkey_option key] = [(''pubkey'', Text key)]" by (simp add: takes_def text_arg_def dest_of_def)
  show thesis
    by (rule that [OF args [unfolded words vals]])
      (simp_all add: AList.update_conv texts_of_def defaults_def validate_parser_def takes_def switch_def help_option_def
        version_option_def dest_of_def)
qed

lemma b64encode_plain: "plain_value (b64encode s)"
proof -
  have "b64_char n \<noteq> CHR ''-''" if "n < 64" for n
  proof
    assume "b64_char n = CHR ''-''"
    with b64_val_char [OF that] show False by (simp add: b64_val_def)
  qed
  moreover have "hd (b64encode (a # s)) = b64_char (of_char a div 4)" for a s
    by (cases "(a # s)" rule: b64encode.cases) (simp_all add: Let_def)
  moreover have "(of_char a :: nat) div 4 < 64" for a :: char using char_bound [of a] less_mult_imp_div_less [of "of_char a :: nat" 64 4] by simp
  ultimately show ?thesis by (cases s) (auto simp: plain_value_def)
qed

section \<open>The stream of a signing gateway\<close>

lemma exporter_lines:
  assumes "reachable eng xs g" "x \<in> set xs"
  shows "text_lines (concat (map stdout_line (out g x))) = map stdout_line (out g x)"
proof (rule json_line.text_lines_stream [folded stdout_line_def])
  have "wf_json e \<and> floats_ok e" if "e \<in> set (out g x)" for e
    using out_emission(2) [OF assms that] emission_printable by blast
  then show "list_all (\<lambda>e. wf_json e \<and> floats_ok e) (out g x)" by (simp add: list_all_iff)
qed

lemma signed_stream_validates:
  assumes "reachable eng xs g" "x \<in> set xs" "signer eng = Some ed_sign"
    and "\<And>msg. ed public_key (ed_sign msg) msg"
    and "standard_input h = concat (map stdout_line (out g x))" "spec_at h None = Inr (engine_spec eng)"
  shows "\<exists>printed_lines s. validate_command (digest eng) ed h parse_msg bundle_msg [''--pubkey'', public_key_b64 public_key]
      = Inr (printed_lines, 0)
    \<and> last printed_lines = check_mark @ '' '' @ show_nat (length (out g x)) @ '' messages valid'' @ s"
proof -
  let ?key = "public_key_b64 public_key"
  have "plain_value ?key" by (simp add: public_key_b64_def b64encode_plain)
  from validate_pubkey_arguments [OF this] obtain ns where ns: "parse_args validate_parser [''--pubkey'', ?key] = Inr ns"
    "map_of ns ''pubkey'' = Some (Text ?key)" "map_of ns ''audit'' = Some (Truth False)" "map_of ns ''spec_dir'' = Some Absent"
    "texts_of ns ''files'' = []" by blast
  have ok: "line_ok (digest eng) ed (engine_spec eng) (Some ?key) (stdout_line e) \<and> strip (stdout_line e) \<noteq> []"
    if e: "e \<in> set (out g x)" for e
  proof -
    obtain env where env: "e = JObj env" "emission eng env" using out_emission(2) [OF assms(1,2) e] by blast
    have "map_of env ''sig'' \<noteq> None \<and> verify_envelope_sig ed env ?key"
      by (rule emission_verifies [where ed_sign = ed_sign, OF env(2) assms(3)]) (rule assms(4))
    with emission_line_ok [OF env(2), of "Some ?key" ed] env(1) show ?thesis by simp
  qed
  then have "filter (\<lambda>l. strip l \<noteq> []) (map stdout_line (out g x)) = map stdout_line (out g x)"
    by (auto intro: filter_True)
  moreover have "list_all (line_ok (digest eng) ed (engine_spec eng) (Some ?key)) (map stdout_line (out g x))"
    using ok by (simp add: list_all_iff)
  ultimately obtain printed_lines s where r:
    "validate_main (digest eng) ed (engine_spec eng) parse_msg (Some ?key) (is_on ns ''quiet'') (map stdout_line (out g x)) = Inr (printed_lines, 0)"
    "last printed_lines = check_mark @ '' '' @ show_nat (length (out g x)) @ '' messages valid'' @ s"
    using validate_main_accepts [of "digest eng" ed "engine_spec eng" "Some ?key" "map stdout_line (out g x)" parse_msg "is_on ns ''quiet''"]
    by (metis length_map)
  have "input_lines h [] = (map stdout_line (out g x), None)"
    by (simp add: input_lines_def assms(5) exporter_lines [OF assms(1,2)])
  with r ns assms(6) show ?thesis by (simp add: validate_command_def is_on_def Let_def validate_input_def)
qed

section \<open>Properties\<close>

text \<open>C11: What a signing gateway exports passes the validator with the key \<open>show-identity\<close> prints: when \<open>run --sign\<close> has
  started on a state directory with no buffer of an earlier run in it, \<open>show-identity\<close> prints the gateway's identity (less
  white space around it) and a public key, and whatever that
  gateway does from then on, crashes and restarts with this key included, the lines any of its exporters wrote, as the standard
  input of \<open>omp-validate --pubkey\<close>
  with that key, make it exit with 0 and count every line as a valid message. Of the keys two things are used: the file
  of a key gives it back, and what is signed with a key verifies under its public key. (Rows that an earlier, unsigned run
  left undelivered would be exported as they are, and refused.)\<close>

theorem printed_key_validates:
  assumes "start_gateway parse_pem write_pem sign_with fresh H load registry ns sd = (Inr (eng, reg, confs), sd')" "is_on ns ''sign''"
    and "\<And>k. parse_pem (write_pem k) = Inr (k, True)" "\<And>k msg. ed (public k) (sign_with k msg) msg"
    and "reachable eng xs g" "x \<in> set xs"
    and "standard_input h = concat (map stdout_line (out g x))" "spec_at h None = Inr (engine_spec eng)"
  shows "\<exists>key printed_lines s.
    cmd_show_identity parse_pem public path sd' =
      Inr \<lparr>code = 0, out_lines = [''gateway_id: '' @ strip (gateway_id eng), ''pubkey: ed25519:'' @ key], err_lines = []\<rparr>
    \<and> validate_command H ed h parse_msg bundle_msg [''--pubkey'', key] = Inr (printed_lines, 0)
    \<and> last printed_lines = check_mark @ '' '' @ show_nat (length (out g x)) @ '' messages valid'' @ s"
proof -
  obtain k where k: "signer eng = Some (sign_with k)" "digest eng = H"
    "cmd_show_identity parse_pem public path sd' =
      Inr \<lparr>code = 0, out_lines = [''gateway_id: '' @ strip (gateway_id eng), ''pubkey: ed25519:'' @ public_key_b64 (public k)], err_lines = []\<rparr>"
    by (rule started_identity [OF assms(1-3), of public path])
  from signed_stream_validates [where ed = ed, OF assms(5,6) k(1) assms(4,7,8), of parse_msg bundle_msg] k(2,3) show ?thesis by blast
qed

theorem printed_key_validates_witness:
  "\<exists>eng sd' (g :: gateway) key printed_lines s. length (out g ''mqtt'') = 2
     \<and> start_gateway (\<lambda>pem. Inr (pem, True)) (\<lambda>k. k) (\<lambda>k msg. k @ msg) ''seed'' (\<lambda>s. s) (\<lambda>_. Inr open_spec) (Inr [])
         [(''sign'', Truth True), (''gateway_id'', Text ''gw-01'')] \<lparr>id_file = None, key_file = None\<rparr> = (Inr (eng, [], [Stdout_Exporter]), sd')
     \<and> cmd_show_identity (\<lambda>pem. Inr (pem, True)) (\<lambda>k. k) ''/var/lib/omp'' sd' =
         Inr \<lparr>code = 0, out_lines = [''gateway_id: '' @ strip (gateway_id eng), ''pubkey: ed25519:'' @ key], err_lines = []\<rparr>
     \<and> validate_command (\<lambda>s. s) (\<lambda>pub sig msg. sig = pub @ msg)
         \<lparr>spec_at = (\<lambda>_. Inr open_spec), text_at = (\<lambda>_. Inr []), standard_input = concat (map stdout_line (out g ''mqtt''))\<rparr>
         (\<lambda>_. []) (\<lambda>_. []) [''--pubkey'', key] = Inr (printed_lines, 0)"
proof -
  let ?eng = "demo_with (Some (\<lambda>msg. ''seed'' @ msg))" and ?sd = "\<lparr>id_file = Some (''gw-01'' @ [newline]), key_file = Some ''seed''\<rparr>"
  have begun: "start_gateway (\<lambda>pem. Inr (pem, True)) (\<lambda>k. k) (\<lambda>k msg. k @ msg) ''seed'' (\<lambda>s. s) (\<lambda>_. Inr open_spec) (Inr [])
      [(''sign'', Truth True), (''gateway_id'', Text ''gw-01'')] \<lparr>id_file = None, key_file = None\<rparr> = (Inr (?eng, [], [Stdout_Exporter]), ?sd)"
    by (simp add: start_gateway_def is_on_def resolve_identity_def persist_identity_def load_or_generate_def generate_key_def
        build_exporters_def dict_get_def demo_with_def fun_eq_iff)
  obtain g :: gateway where g: "reachable ?eng [''mqtt''] g" "length (out g ''mqtt'') = 2"
    using demo_reachable [of "Some (\<lambda>msg. ''seed'' @ msg)"] by auto
  let ?h = "\<lparr>spec_at = (\<lambda>_. Inr open_spec), text_at = (\<lambda>_. Inr []), standard_input = concat (map stdout_line (out g ''mqtt''))\<rparr>"
  have eng: "engine_spec ?eng = open_spec" "strip (gateway_id ?eng) = gateway_id ?eng"
    by (simp_all add: demo_with_def strip_def lstrip_def is_space_def)
  have spec: "spec_at ?h None = Inr (engine_spec ?eng)" by (simp add: demo_with_def)
  have on: "is_on [(''sign'', Truth True), (''gateway_id'', Text ''gw-01'')] ''sign''" by (simp add: is_on_def)
  note validates = printed_key_validates [where ed = "\<lambda>pub sig msg. sig = pub @ msg" and public = "\<lambda>k. k" and path = "''/var/lib/omp''"
      and x = "''mqtt''" and h = ?h and parse_msg = "\<lambda>_. []" and bundle_msg = "\<lambda>_. []", OF begun on]
  from validates [OF _ _ g(1) _ _ spec]
  obtain key printed_lines s where
    "cmd_show_identity (\<lambda>pem. Inr (pem, True)) (\<lambda>k. k) ''/var/lib/omp'' ?sd =
      Inr \<lparr>code = 0, out_lines = [''gateway_id: '' @ strip (gateway_id ?eng), ''pubkey: ed25519:'' @ key], err_lines = []\<rparr>"
    "validate_command (\<lambda>s. s) (\<lambda>pub sig msg. sig = pub @ msg) ?h (\<lambda>_. []) (\<lambda>_. []) [''--pubkey'', key] = Inr (printed_lines, 0)" by auto
  with begun g(2) show ?thesis by blast
qed

end
