(* ===== verification/Spec_Load.thy ===== *)
theory Spec_Load
  imports Py_Values
begin

text \<open>
  The reading of a spec directory, \<open>Spec.__init__\<close> and \<open>load_spec\<close> of \<open>tools/omp_tools/specload.py\<close>. The file
  system is a value: the entries of \<open>schemas/core\<close> and of \<open>profiles\<close>, the text of a file being a result because
  reading may raise. Of the jsonschema library there are two parameters: \<open>check\<close>, which raises for a schema that
  is not one, and \<open>compile\<close>, which builds a validator.
\<close>

section \<open>The files\<close>

type_synonym text_file = "string res"

record profile_dir =
  events_file :: "text_file option"
  phases_file :: "text_file option"

text \<open>An entry of \<open>profiles\<close> that is not a directory is \<open>None\<close>; so is a missing \<open>profiles\<close>.\<close>

record spec_tree =
  core_files :: "(string \<times> text_file) list"
  profile_entries :: "(string \<times> profile_dir option) list option"

text \<open>\<open>glob("*.json")\<close> and \<open>f.stem\<close> of a name it matches\<close>

definition is_json_name :: "string \<Rightarrow> bool" where
  "is_json_name n = (5 \<le> length n \<and> drop (length n - 5) n = ''.json'')"

definition stem :: "string \<Rightarrow> string" where
  "stem n = (if n = ''.json'' then n else take (length n - 5) n)"

definition by_name :: "(string \<times> 'a) list \<Rightarrow> (string \<times> 'a) list" where
  "by_name xs = sort_key fst xs"

section \<open>Loading\<close>

definition read_json :: "text_file \<Rightarrow> json res" where
  "read_json f = res_bind f loads"

definition load_core_file :: "(json \<Rightarrow> unit res) \<Rightarrow> (json \<Rightarrow> validator) \<Rightarrow> text_file \<Rightarrow> validator res" where
  "load_core_file check compile f =
     res_bind (read_json f) (\<lambda>schema. res_bind (check schema) (\<lambda>_. Inr (compile schema)))"

text \<open>
  The two loops assign to a dict, so that a later entry replaces an earlier one of the same name; an entry may be
  skipped.
\<close>

fun load_entries :: "('a \<Rightarrow> 'b option res) \<Rightarrow> (string \<times> 'a) list \<Rightarrow> (string \<rightharpoonup> 'b) \<Rightarrow> (string \<rightharpoonup> 'b) res" where
  "load_entries load [] m = Inr m"
| "load_entries load ((n, x) # xs) m =
     res_bind (load x) (\<lambda>y. load_entries load xs (case y of None \<Rightarrow> m | Some v \<Rightarrow> m(n \<mapsto> v)))"

definition load_core ::
  "(json \<Rightarrow> unit res) \<Rightarrow> (json \<Rightarrow> validator) \<Rightarrow> (string \<times> text_file) list \<Rightarrow> (string \<rightharpoonup> validator) res" where
  "load_core check compile files =
     load_entries (\<lambda>f. res_bind (load_core_file check compile f) (\<lambda>v. Inr (Some v)))
       (map (\<lambda>(n, f). (stem n, f)) (by_name (filter (\<lambda>(n, _). is_json_name n) files))) (\<lambda>_. None)"

text \<open>\<open>{name: Draft202012Validator(spec_[key]) for name, spec_ in v.items()}\<close>\<close>

definition schema_table :: "(json \<Rightarrow> validator) \<Rightarrow> string \<Rightarrow> json \<Rightarrow> (string \<rightharpoonup> validator) res" where
  "schema_table compile key v =
     (case v of
        JObj d \<Rightarrow>
          res_bind (res_map (\<lambda>(n, s). res_bind (get_item s key) (\<lambda>x. Inr (n, compile x))) d) (\<lambda>ps. Inr (map_of ps))
      | _ \<Rightarrow> Inl (OtherError ''AttributeError''))"

definition load_profile :: "(json \<Rightarrow> validator) \<Rightarrow> text_file \<Rightarrow> text_file option \<Rightarrow> profile res" where
  "load_profile compile events_f phases_f =
     res_bind (read_json events_f) (\<lambda>ej. res_bind (get_item ej ''events'') (\<lambda>events.
     res_bind (case phases_f of
                 None \<Rightarrow> Inr (JObj [])
               | Some f \<Rightarrow> res_bind (read_json f) (\<lambda>pj. get_item pj ''phases'')) (\<lambda>phases.
     res_bind (schema_table compile ''payload'' events) (\<lambda>es.
     res_bind (schema_table compile ''params'' phases) (\<lambda>ps.
       Inr \<lparr>p_events = es, p_phases = ps\<rparr>)))))"

definition load_profile_entry :: "(json \<Rightarrow> validator) \<Rightarrow> string \<times> profile_dir option \<Rightarrow> profile option res" where
  "load_profile_entry compile entry =
     (case entry of
        (n, None) \<Rightarrow> Inr None
      | (n, Some d) \<Rightarrow>
          if take 1 n = ''_'' then Inr None
          else (case events_file d of
                  None \<Rightarrow> Inr None
                | Some f \<Rightarrow> res_bind (load_profile compile f (phases_file d)) (\<lambda>p. Inr (Some p))))"

definition load_profiles ::
  "(json \<Rightarrow> validator) \<Rightarrow> (string \<times> profile_dir option) list option \<Rightarrow> (string \<rightharpoonup> profile) res" where
  "load_profiles compile entries =
     (case entries of
        None \<Rightarrow> Inr (\<lambda>_. None)
      | Some es \<Rightarrow> load_entries (load_profile_entry compile) (map (\<lambda>e. (fst e, e)) (by_name es)) (\<lambda>_. None))"

definition read_spec :: "(json \<Rightarrow> unit res) \<Rightarrow> (json \<Rightarrow> validator) \<Rightarrow> spec_tree \<Rightarrow> spec res" where
  "read_spec check compile t =
     res_bind (load_core check compile (core_files t)) (\<lambda>vs.
     res_bind (load_profiles compile (profile_entries t)) (\<lambda>ps.
       Inr \<lparr>validators = vs, profiles = ps\<rparr>))"

text \<open>\<open>load_spec\<close>; the cache of \<open>_load\<close> makes a second call return the value of the first.\<close>

definition load_spec ::
  "(string \<Rightarrow> bool) \<Rightarrow> (json \<Rightarrow> unit res) \<Rightarrow> (json \<Rightarrow> validator) \<Rightarrow> (string \<Rightarrow> spec_tree)
     \<Rightarrow> string option \<Rightarrow> string option \<Rightarrow> string \<Rightarrow> string \<Rightarrow> spec res" where
  "load_spec is_file check compile tree spec_dir env pkg_root cwd =
     res_bind (find_spec_dir is_file spec_dir env pkg_root cwd) (\<lambda>d. read_spec check compile (tree d))"

section \<open>What is in a loaded spec\<close>

text \<open>The last entry of a name that is not skipped decides.\<close>

lemma load_entries_lookup:
  "load_entries load xs m = Inr m' \<Longrightarrow> distinct (map fst xs) \<Longrightarrow>
     m' n = (case map_of xs n of None \<Rightarrow> m n | Some x \<Rightarrow> (case load x of Inr (Some v) \<Rightarrow> Some v | _ \<Rightarrow> m n))
     \<and> (\<forall>x \<in> snd ` set xs. \<exists>y. load x = Inr y)"
proof (induction xs arbitrary: m)
  case (Cons a xs)
  obtain k x where a: "a = (k, x)" by (cases a)
  with Cons.prems(1) obtain y where y: "load x = Inr y" "load_entries load xs (case y of None \<Rightarrow> m | Some v \<Rightarrow> m(k \<mapsto> v)) = Inr m'"
    by (auto simp: res_inv)
  have "map_of xs k = None" using Cons.prems(2) a by (simp add: map_of_eq_None_iff)
  with Cons.IH [OF y(2)] Cons.prems(2) a y(1) show ?case by (cases y; cases "n = k") (auto split: option.splits)
qed simp

lemma map_of_by_name: "distinct (map fst xs) \<Longrightarrow> map_of (by_name xs) = map_of xs"
  by (subst map_of_inject_set) (simp_all add: by_name_def distinct_map)

lemma stem_suffix: "is_json_name n \<Longrightarrow> n \<noteq> ''.json'' \<Longrightarrow> stem n @ ''.json'' = n"
  by (metis append_take_drop_id is_json_name_def stem_def)

lemma is_json_name_suffix: "is_json_name (n @ ''.json'')"
  by (simp add: is_json_name_def)

text \<open>The table of the core files, by stem.\<close>

lemma core_table:
  assumes "distinct (map fst files)" "''.json'' \<notin> fst ` set files"
  defines "xs \<equiv> map (\<lambda>(n, f). (stem n, f)) (by_name (filter (\<lambda>(n, _). is_json_name n) files))"
  shows "distinct (map fst xs)" "map_of xs n = map_of files (n @ ''.json'')"
proof -
  let ?js = "by_name (filter (\<lambda>(n, _). is_json_name n) files)"
  have js: "distinct (map fst ?js)" "set ?js = {(n, f). (n, f) \<in> set files \<and> is_json_name n}"
    using assms(1) by (auto simp: by_name_def distinct_map inj_on_def)
  have st: "stem k @ ''.json'' = k" if "k \<in> fst ` set ?js" for k
  proof (rule stem_suffix)
    from that obtain f where f: "(k, f) \<in> set files" "is_json_name k" unfolding js(2) by auto
    then show "is_json_name k" by simp
    from f(1) have "k \<in> fst ` set files" by force
    with assms(2) show "k \<noteq> ''.json''" by blast
  qed
  have "map fst xs = map stem (map fst ?js)" by (simp add: xs_def split_beta)
  moreover have "inj_on stem (fst ` set ?js)"
  proof (rule inj_onI)
    fix k k' assume "k \<in> fst ` set ?js" "k' \<in> fst ` set ?js" "stem k = stem k'"
    then show "k = k'" using st by metis
  qed
  then have "distinct (map stem (map fst ?js))" using js(1) unfolding distinct_map [of stem] by simp
  ultimately show d: "distinct (map fst xs)" by (simp only:)
  have "(n, f) \<in> set xs \<longleftrightarrow> (n @ ''.json'', f) \<in> set files" for f
  proof
    assume "(n, f) \<in> set xs"
    then obtain k where k: "(k, f) \<in> set ?js" "n = stem k" by (auto simp: xs_def)
    then have "k \<in> fst ` set ?js" by force
    from st [OF this] k js(2) show "(n @ ''.json'', f) \<in> set files" by simp
  next
    assume a: "(n @ ''.json'', f) \<in> set files"
    then have j: "(n @ ''.json'', f) \<in> set ?js" using js(2) is_json_name_suffix [of n] by simp
    then have "n @ ''.json'' \<in> fst ` set ?js" by force
    from st [OF this] have "stem (n @ ''.json'') = n" by (simp only: append_same_eq)
    moreover from j have "(stem (n @ ''.json''), f) \<in> set xs" unfolding xs_def by force
    ultimately show "(n, f) \<in> set xs" by (simp only:)
  qed
  then have "map_of xs n = Some f \<longleftrightarrow> map_of files (n @ ''.json'') = Some f" for f
    unfolding map_of_eq_Some_iff [OF d] map_of_eq_Some_iff [OF assms(1)] .
  then show "map_of xs n = map_of files (n @ ''.json'')" by (metis not_Some_eq)
qed

lemma loaded_core:
  assumes "load_core check compile files = Inr vs" "distinct (map fst files)" "''.json'' \<notin> fst ` set files"
  shows "vs n = (case map_of files (n @ ''.json'') of None \<Rightarrow> None
    | Some f \<Rightarrow> (case load_core_file check compile f of Inr v \<Rightarrow> Some v | Inl _ \<Rightarrow> None))"
    "map_of files (n @ ''.json'') = Some f \<Longrightarrow> \<exists>v. load_core_file check compile f = Inr v"
proof -
  note tab = core_table [OF assms(2,3)]
  note look = load_entries_lookup [OF assms(1) [unfolded load_core_def] tab(1), of n]
  show "vs n = (case map_of files (n @ ''.json'') of None \<Rightarrow> None
    | Some f \<Rightarrow> (case load_core_file check compile f of Inr v \<Rightarrow> Some v | Inl _ \<Rightarrow> None))"
    using conjunct1 [OF look] unfolding tab(2) by (auto simp: res_bind_def split: option.splits sum.splits)
  assume "map_of files (n @ ''.json'') = Some f"
  then have "f \<in> snd ` set (map (\<lambda>(n, f). (stem n, f)) (by_name (filter (\<lambda>(n, _). is_json_name n) files)))"
    unfolding tab(2) [symmetric] by (metis map_of_SomeD image_eqI snd_conv)
  with conjunct2 [OF look] show "\<exists>v. load_core_file check compile f = Inr v" by (auto simp: res_inv)
qed

definition is_profile :: "spec_tree \<Rightarrow> string \<Rightarrow> bool" where
  "is_profile t n =
     (case profile_entries t of
        None \<Rightarrow> False
      | Some es \<Rightarrow> (case map_of es n of
          Some (Some d) \<Rightarrow> take 1 n \<noteq> ''_'' \<and> events_file d \<noteq> None | _ \<Rightarrow> False))"

lemma loaded_profiles:
  assumes "load_profiles compile (profile_entries t) = Inr ps"
    "\<And>es. profile_entries t = Some es \<Longrightarrow> distinct (map fst es)"
  shows "ps n \<noteq> None \<longleftrightarrow> is_profile t n"
proof (cases "profile_entries t")
  case None
  with assms(1) show ?thesis by (auto simp: load_profiles_def is_profile_def)
next
  case (Some es)
  let ?xs = "map (\<lambda>e. (fst e, e)) (by_name es)"
  have d: "distinct (map fst es)" by (rule assms(2) [OF Some])
  have "distinct (map fst ?xs)" using d by (simp add: o_def by_name_def distinct_map)
  note look = load_entries_lookup [OF assms(1) [unfolded load_profiles_def Some option.case] this, of n]
  have m: "map_of ?xs n = map_option (\<lambda>x. (n, x)) (map_of es n)"
  proof -
    have "map_of (map (\<lambda>e. (fst e, e)) ys) n = map_option (\<lambda>x. (n, x)) (map_of ys n)" for ys :: "(string \<times> profile_dir option) list"
      by (induction ys) auto
    then show ?thesis by (simp add: map_of_by_name [OF d])
  qed
  show ?thesis
  proof (cases "map_of es n")
    case None
    with look m Some show ?thesis by (simp add: is_profile_def)
  next
    case entry: (Some x)
    then have "(n, (n, x)) \<in> set ?xs" using m by (auto dest: map_of_SomeD)
    then have "(n, x) \<in> snd ` set ?xs" by force
    with conjunct2 [OF look] obtain y where y: "load_profile_entry compile (n, x) = Inr y" by blast
    with look m entry Some show ?thesis
      by (auto simp: is_profile_def load_profile_entry_def res_inv split: option.splits if_splits)
  qed
qed

section \<open>Properties\<close>

text \<open>C29: A spec that loads holds exactly what its directory holds: a validator under the stem of each JSON file of the
  core schemas, built from that file, and a profile for each directory that does not begin with an underscore and
  has an \<open>events.json\<close>. One core file that does not parse or is not a schema makes the whole load fail.\<close>

theorem loaded_spec_exact:
  assumes "read_spec check compile t = Inr spec" "distinct (map fst (core_files t))" "''.json'' \<notin> fst ` set (core_files t)"
    "\<forall>es. profile_entries t = Some es \<longrightarrow> distinct (map fst es)"
  shows "validators spec n = (case map_of (core_files t) (n @ ''.json'') of None \<Rightarrow> None
      | Some f \<Rightarrow> (case load_core_file check compile f of Inr v \<Rightarrow> Some v | Inl _ \<Rightarrow> None))
    \<and> (\<forall>f. map_of (core_files t) (n @ ''.json'') = Some f \<longrightarrow> (\<exists>v. load_core_file check compile f = Inr v))
    \<and> (profiles spec n \<noteq> None \<longleftrightarrow> is_profile t n)"
proof -
  from assms(1) obtain vs ps where r: "load_core check compile (core_files t) = Inr vs"
    "load_profiles compile (profile_entries t) = Inr ps" "spec = \<lparr>validators = vs, profiles = ps\<rparr>"
    by (auto simp: read_spec_def res_inv)
  from loaded_profiles [OF r(2)] assms(4) have "ps n \<noteq> None \<longleftrightarrow> is_profile t n" by blast
  with loaded_core [OF r(1) assms(2,3), of n] show ?thesis by (simp add: r(3))
qed

text \<open>A directory with the envelope schema, a profile, and a directory that is left out.\<close>

definition sample_tree :: spec_tree where
  "sample_tree = \<lparr>core_files = [(''envelope.json'', Inr ''{}''), (''README.md'', Inr ''text'')],
     profile_entries = Some
       [(''generic'', Some \<lparr>events_file = Some (Inr (dumps plain_opts (JObj [(''events'', JObj [])]))), phases_file = None\<rparr>),
        (''_template'', Some \<lparr>events_file = Some (Inr ''{}''), phases_file = None\<rparr>)]\<rparr>"

lemma sample_reads: "loads ''{}'' = Inr (JObj [])"
  "loads (dumps plain_opts (JObj [(''events'', JObj [])])) = Inr (JObj [(''events'', JObj [])])"
  using loads_dumps_plain [of "JObj []"] loads_dumps_plain [of "JObj [(''events'', JObj [])]"]
  by (simp_all add: order_items_def plain_opts_def)

lemma sample_loads:
  obtains spec where "read_spec (\<lambda>_. Inr ()) (\<lambda>_ _. []) sample_tree = Inr spec"
  by (simp add: read_spec_def sample_tree_def load_core_def load_profiles_def by_name_def is_json_name_def
      load_core_file_def read_json_def sample_reads load_profile_entry_def load_profile_def dict_item_def schema_table_def
      del: dumps.simps)

theorem loaded_spec_exact_witness:
  "\<exists>spec v. read_spec (\<lambda>_. Inr ()) (\<lambda>_ _. []) sample_tree = Inr spec \<and> validators spec ''envelope'' = Some v
     \<and> validators spec ''README'' = None \<and> profiles spec ''generic'' \<noteq> None \<and> profiles spec ''_template'' = None"
proof -
  obtain spec where spec: "read_spec (\<lambda>_. Inr ()) (\<lambda>_ _. []) sample_tree = Inr spec" by (rule sample_loads)
  have "distinct (map fst (core_files sample_tree))" "''.json'' \<notin> fst ` set (core_files sample_tree)"
    "\<forall>es. profile_entries sample_tree = Some es \<longrightarrow> distinct (map fst es)"
    by (simp_all add: sample_tree_def del: dumps.simps)
  note ex = loaded_spec_exact [OF spec this]
  from ex [of "''envelope''"] ex [of "''README''"] ex [of "''generic''"] ex [of "''_template''"] spec show ?thesis
    by (auto simp: sample_tree_def is_profile_def load_core_file_def read_json_def sample_reads simp del: dumps.simps)
qed

text \<open>Whatever directory \<open>load_spec\<close> chooses, the spec it returns has the envelope schema, so that the first stage of
  \<open>validate_envelope\<close> never fails for want of it.\<close>

theorem load_spec_has_envelope:
  assumes "load_spec is_file check compile tree spec_dir env pkg_root cwd = Inr spec"
    "\<forall>d. is_file (d @ ''/schemas/core/envelope.json'') \<longrightarrow> ''envelope.json'' \<in> fst ` set (core_files (tree d))"
    "\<forall>d. distinct (map fst (core_files (tree d))) \<and> ''.json'' \<notin> fst ` set (core_files (tree d))"
  shows "\<exists>v. spec_validator spec ''envelope'' = Inr v"
proof -
  from assms(1) obtain d where d: "find_spec_dir is_file spec_dir env pkg_root cwd = Inr d" "read_spec check compile (tree d) = Inr spec"
    by (auto simp: load_spec_def res_inv)
  obtain ds where "filter (\<lambda>c. is_file (c @ ''/schemas/core/envelope.json'')) (spec_candidates spec_dir env pkg_root cwd) = d # ds"
    using d(1) by (auto simp: find_spec_dir_def split: list.splits)
  then have "d \<in> set (filter (\<lambda>c. is_file (c @ ''/schemas/core/envelope.json'')) (spec_candidates spec_dir env pkg_root cwd))"
    by (simp only: list.set_intros(1))
  then have "is_file (d @ ''/schemas/core/envelope.json'')" by simp
  with assms(2) have "''envelope.json'' \<in> fst ` set (core_files (tree d))" by blast
  then obtain f where f: "map_of (core_files (tree d)) (''envelope'' @ ''.json'') = Some f"
    by (cases "map_of (core_files (tree d)) ''envelope.json''") (auto simp: map_of_eq_None_iff)
  from d(2) obtain vs ps where r: "load_core check compile (core_files (tree d)) = Inr vs" "validators spec = vs"
    by (auto simp: read_spec_def res_inv)
  note core = loaded_core [OF r(1), of "''envelope''"]
  obtain v where "load_core_file check compile f = Inr v" using core(2) f assms(3) by blast
  with core(1) f assms(3) r(2) have "validators spec ''envelope'' = Some v" by simp
  then show ?thesis by (simp add: spec_validator_def)
qed

theorem load_spec_has_envelope_witness:
  "\<exists>spec v. load_spec (\<lambda>f. f = ''/spec/schemas/core/envelope.json'') (\<lambda>_. Inr ()) (\<lambda>_ _. [])
       (\<lambda>_. sample_tree) (Some ''/spec'') None [] ''/'' = Inr spec \<and> spec_validator spec ''envelope'' = Inr v"
proof -
  obtain spec where "read_spec (\<lambda>_. Inr ()) (\<lambda>_ _. []) sample_tree = Inr spec" by (rule sample_loads)
  then have l: "load_spec (\<lambda>f. f = ''/spec/schemas/core/envelope.json'') (\<lambda>_. Inr ()) (\<lambda>_ _. [])
       (\<lambda>_. sample_tree) (Some ''/spec'') None [] ''/'' = Inr spec"
    by (simp add: load_spec_def find_spec_dir_def spec_candidates_def)
  have "\<exists>v. spec_validator spec ''envelope'' = Inr v"
    by (rule load_spec_has_envelope [OF l]) (simp_all add: sample_tree_def)
  with l show ?thesis by blast
qed

end
