(* ===== verification/Stats.thy ===== *)
theory Stats
  imports Py_Values "HOL-Library.Sublist"
begin

text \<open>
  The window aggregators of the two polling adapters, \<open>StatsAggregator\<close> of
  \<open>adapters/generic-serial/protocol.py\<close> and \<open>_Stats\<close> of \<open>adapters/generic-modbus/adapter.py\<close>. Both keep
  one accumulator for each channel and emit a telemetry body when its window is over. What they
  share is a contract, the locale \<open>window_aggregator\<close>, and what follows from it is proved once.
\<close>

section \<open>Operations on samples\<close>

text \<open>\<open>v < w\<close>, \<open>min(a, b)\<close>, \<open>max(a, b)\<close> and \<open>a + b\<close>, on numbers and on strings\<close>

definition py_less :: "json \<Rightarrow> json \<Rightarrow> bool res" where
  "py_less v w = (case (v, w) of (JStr s, JStr t) \<Rightarrow> Inr (s < t) | _ \<Rightarrow> num_less v w)"

definition py_min :: "json \<Rightarrow> json \<Rightarrow> json res" where
  "py_min a b = res_bind (py_less b a) (\<lambda>l. Inr (if l then b else a))"

definition py_max :: "json \<Rightarrow> json \<Rightarrow> json res" where
  "py_max a b = res_bind (py_less a b) (\<lambda>l. Inr (if l then b else a))"

definition py_plus :: "json \<Rightarrow> json \<Rightarrow> json res" where
  "py_plus v w = (case (v, w) of (JStr s, JStr t) \<Rightarrow> Inr (JStr (s @ t)) | _ \<Rightarrow> num_add v w)"

text \<open>\<open>int(v)\<close> of a float\<close>

fun int_of :: "json \<Rightarrow> int res" where
  "int_of (JFloat x) = float_to_int x"
| "int_of v = as_int v"

lemma int_ops [simp]:
  "py_min (JInt i) (JInt j) = Inr (JInt (min i j))" "py_max (JInt i) (JInt j) = Inr (JInt (max i j))"
  "py_plus (JInt i) (JInt j) = Inr (JInt (i + j))"
  by (auto simp: py_min_def py_max_def py_less_def py_plus_def num_less_def num_add_def arith_def min_def max_def)

section \<open>Accumulators\<close>

record acc =
  acc_unit :: json
  acc_start :: string
  acc_mono :: json
  acc_min :: json
  acc_max :: json
  acc_sum :: json
  acc_count :: int

definition first_acc :: "json \<Rightarrow> json \<Rightarrow> string \<Rightarrow> json \<Rightarrow> acc" where
  "first_acc u v ts now =
     \<lparr>acc_unit = u, acc_start = ts, acc_mono = now, acc_min = v, acc_max = v, acc_sum = v, acc_count = 1\<rparr>"

text \<open>The body of a finished window.\<close>

definition stats_body :: "json \<Rightarrow> json \<Rightarrow> string \<Rightarrow> string \<Rightarrow> json \<Rightarrow> json \<Rightarrow> int \<Rightarrow> int \<Rightarrow> json dict" where
  "stats_body channel u start_ts end_ts mn mx avg n =
     [(''channel'', channel), (''unit'', u), (''mode'', JStr ''stats''),
      (''stats'', JObj [(''start_ts'', JStr start_ts), (''end_ts'', JStr end_ts), (''min'', mn), (''max'', mx),
         (''avg'', JInt avg), (''count'', JInt n)])]"

definition close_acc :: "json \<Rightarrow> string \<Rightarrow> acc \<Rightarrow> json dict res" where
  "close_acc channel end_ts a =
     res_bind (num_div (acc_sum a) (JInt (acc_count a))) (\<lambda>q. res_bind (int_of q) (\<lambda>avg.
       Inr (stats_body channel (acc_unit a) (acc_start a) end_ts (acc_min a) (acc_max a) avg (acc_count a))))"

definition jpop :: "json \<Rightarrow> 'v jdict \<Rightarrow> 'v jdict" where
  "jpop k d = filter (\<lambda>p. \<not> (k = fst p \<or> same k (fst p))) d"

type_synonym accs = "acc jdict"

section \<open>The Modbus aggregator\<close>

definition mb_close :: "json \<Rightarrow> string \<Rightarrow> accs \<Rightarrow> json dict res \<times> accs" where
  "mb_close channel end_ts s =
     (case jget s channel of
        None \<Rightarrow> (Inl (KeyError (str_json channel)), s)
      | Some a \<Rightarrow> (close_acc channel end_ts a, jpop channel s))"

text \<open>All four values are computed before the accumulator is updated.\<close>

definition mb_add ::
  "json \<Rightarrow> json \<Rightarrow> json \<Rightarrow> json \<Rightarrow> string \<Rightarrow> json \<Rightarrow> accs \<Rightarrow> json dict option res \<times> accs" where
  "mb_add window_s channel u v ts now s =
     (case jget s channel of
        None \<Rightarrow> (Inr None, jset channel (first_acc u v ts now) s)
      | Some a \<Rightarrow>
          (case res_bind (py_min (acc_min a) v) (\<lambda>mn. res_bind (py_max (acc_max a) v) (\<lambda>mx.
                res_bind (py_plus (acc_sum a) v) (\<lambda>sm.
                  Inr (a\<lparr>acc_min := mn, acc_max := mx, acc_sum := sm, acc_count := acc_count a + 1\<rparr>)))) of
             Inl e \<Rightarrow> (Inl e, s)
           | Inr a' \<Rightarrow>
               let s' = jset channel a' s in
               (case res_bind (num_sub now (acc_mono a')) (num_le window_s) of
                  Inl e \<Rightarrow> (Inl e, s')
                | Inr True \<Rightarrow> (case mb_close channel ts s' of (Inl e, s'') \<Rightarrow> (Inl e, s'') | (Inr b, s'') \<Rightarrow> (Inr (Some b), s''))
                | Inr False \<Rightarrow> (Inr None, s'))))"

fun mb_close_all :: "json list \<Rightarrow> string \<Rightarrow> accs \<Rightarrow> json dict list res \<times> accs" where
  "mb_close_all [] end_ts s = (Inr [], s)"
| "mb_close_all (c # cs) end_ts s =
     (case mb_close c end_ts s of
        (Inl e, s') \<Rightarrow> (Inl e, s')
      | (Inr b, s') \<Rightarrow> (case mb_close_all cs end_ts s' of (Inl e, s'') \<Rightarrow> (Inl e, s'') | (Inr bs, s'') \<Rightarrow> (Inr (b # bs), s'')))"

definition mb_flush :: "string \<Rightarrow> accs \<Rightarrow> json dict list res \<times> accs" where
  "mb_flush end_ts s = mb_close_all (map fst s) end_ts s"

section \<open>The serial aggregator\<close>

text \<open>The fields are updated one after the other; an exception leaves the ones before it updated.\<close>

definition agg_close :: "json \<Rightarrow> string \<Rightarrow> accs \<Rightarrow> json dict res \<times> accs" where
  "agg_close channel end_ts s =
     (case jget s channel of
        None \<Rightarrow> (Inl (KeyError (str_json channel)), s)
      | Some a \<Rightarrow> (close_acc channel end_ts a, jpop channel s))"

definition agg_add ::
  "json \<Rightarrow> json \<Rightarrow> json \<Rightarrow> json \<Rightarrow> string \<Rightarrow> json \<Rightarrow> accs \<Rightarrow> json dict option res \<times> accs" where
  "agg_add window_s channel u v ts now s =
     (case jget s channel of
        None \<Rightarrow> (Inr None, jset channel (first_acc u v ts now) s)
      | Some a \<Rightarrow>
          (case py_min (acc_min a) v of
             Inl e \<Rightarrow> (Inl e, s)
           | Inr mn \<Rightarrow>
               let a1 = a\<lparr>acc_min := mn\<rparr> in
               (case py_max (acc_max a1) v of
                  Inl e \<Rightarrow> (Inl e, jset channel a1 s)
                | Inr mx \<Rightarrow>
                    let a2 = a1\<lparr>acc_max := mx\<rparr> in
                    (case py_plus (acc_sum a2) v of
                       Inl e \<Rightarrow> (Inl e, jset channel a2 s)
                     | Inr sm \<Rightarrow>
                         let a3 = a2\<lparr>acc_sum := sm, acc_count := acc_count a2 + 1\<rparr>; s' = jset channel a3 s in
                         (case res_bind (num_sub now (acc_mono a3)) (num_le window_s) of
                            Inl e \<Rightarrow> (Inl e, s')
                          | Inr True \<Rightarrow> (case agg_close channel ts s' of (Inl e, s'') \<Rightarrow> (Inl e, s'') | (Inr b, s'') \<Rightarrow> (Inr (Some b), s''))
                          | Inr False \<Rightarrow> (Inr None, s'))))))"

fun agg_close_all :: "json list \<Rightarrow> string \<Rightarrow> accs \<Rightarrow> json dict list res \<times> accs" where
  "agg_close_all [] end_ts s = (Inr [], s)"
| "agg_close_all (c # cs) end_ts s =
     (case agg_close c end_ts s of
        (Inl e, s') \<Rightarrow> (Inl e, s')
      | (Inr b, s') \<Rightarrow> (case agg_close_all cs end_ts s' of (Inl e, s'') \<Rightarrow> (Inl e, s'') | (Inr bs, s'') \<Rightarrow> (Inr (b # bs), s'')))"

definition agg_flush :: "string \<Rightarrow> accs \<Rightarrow> json dict list res \<times> accs" where
  "agg_flush end_ts s = agg_close_all (map fst s) end_ts s"

section \<open>What a window reports\<close>

text \<open>A sample is a number, a time stamp and a monotonic time.\<close>

type_synonym sample = "json \<times> string \<times> pyfloat"

definition sample_val :: "sample \<Rightarrow> json" where "sample_val x = fst x"
definition sample_ts :: "sample \<Rightarrow> string" where "sample_ts x = fst (snd x)"
definition sample_mono :: "sample \<Rightarrow> json" where "sample_mono x = JFloat (snd (snd x))"

text \<open>An integer or a finite float, and what it is.\<close>

definition number :: "json \<Rightarrow> bool" where
  "number v = (\<exists>x. num_val v = Some x \<and> is_finite x)"

definition value_of :: "json \<Rightarrow> rat" where
  "value_of v = (case num_val v of Some x \<Rightarrow> fval x | None \<Rightarrow> 0)"

lemma float_less_finite: "is_finite x \<Longrightarrow> is_finite y \<Longrightarrow> float_less x y = (fval x < fval y)"
  by (cases x; cases y) simp_all

lemma number_order:
  assumes "number v" "number w"
  shows "py_less v w = Inr (value_of v < value_of w)"
    "py_min v w = Inr (if value_of w < value_of v then w else v)"
    "py_max v w = Inr (if value_of v < value_of w then w else v)"
proof -
  have less: "py_less v w = Inr (value_of v < value_of w)" if "number v" "number w" for v w
  proof -
    from that obtain x y where "num_val v = Some x" "num_val w = Some y" "is_finite x" "is_finite y" by (auto simp: number_def)
    then have "num_less v w = Inr (value_of v < value_of w)" by (simp add: num_less_def value_of_def float_less_finite)
    moreover have "\<not> (\<exists>s t. v = JStr s \<and> w = JStr t)" using that by (auto simp: number_def)
    ultimately show ?thesis by (auto simp: py_less_def split: json.splits)
  qed
  from less [OF assms] less [OF assms(2,1)] assms show "py_less v w = Inr (value_of v < value_of w)"
    "py_min v w = Inr (if value_of w < value_of v then w else v)"
    "py_max v w = Inr (if value_of v < value_of w then w else v)"
    by (simp_all add: py_min_def py_max_def)
qed

text \<open>The running sum from the left and the average of a group, as Python computes them: in integers as long as only
  integers have come, in doubles from the first float on.\<close>

fun running_sum :: "json \<Rightarrow> json list \<Rightarrow> json res" where
  "running_sum s [] = Inr s"
| "running_sum s (v # vs) = res_bind (py_plus s v) (\<lambda>s. running_sum s vs)"

definition average :: "sample list \<Rightarrow> int res" where
  "average g =
     res_bind (running_sum (sample_val (hd g)) (map sample_val (tl g))) (\<lambda>s.
     res_bind (num_div s (JInt (int (length g)))) int_of)"

lemma running_sum_snoc: "running_sum s (vs @ [v]) = res_bind (running_sum s vs) (\<lambda>s. py_plus s v)"
proof (induction vs arbitrary: s)
  case Nil
  show ?case by (cases "py_plus s v") simp_all
next
  case (Cons w vs)
  then show ?case by (cases "py_plus s w") simp_all
qed

text \<open>The accumulator belongs to the samples: least and greatest value, running sum, number.\<close>

definition acc_of :: "json \<Rightarrow> sample list \<Rightarrow> acc \<Rightarrow> bool" where
  "acc_of u xs a =
     (xs \<noteq> [] \<and> acc_unit a = u \<and> acc_start a = sample_ts (hd xs) \<and> acc_mono a = sample_mono (hd xs)
      \<and> acc_min a \<in> sample_val ` set xs \<and> acc_max a \<in> sample_val ` set xs
      \<and> (\<forall>x \<in> set xs. number (sample_val x) \<and> value_of (acc_min a) \<le> value_of (sample_val x)
            \<and> value_of (sample_val x) \<le> value_of (acc_max a))
      \<and> running_sum (sample_val (hd xs)) (map sample_val (tl xs)) = Inr (acc_sum a) \<and> acc_count a = int (length xs))"

definition trunc_div :: "int \<Rightarrow> int \<Rightarrow> int" where
  "trunc_div a b = sgn a * (\<bar>a\<bar> div b)"

text \<open>Integer samples whose magnitudes sum up to less than 2^53.\<close>

fun int_val :: "json \<Rightarrow> int" where
  "int_val (JInt i) = i"
| "int_val v = 0"

definition small_ints :: "sample list \<Rightarrow> bool" where
  "small_ints g = ((\<forall>x \<in> set g. \<exists>i. sample_val x = JInt i)
     \<and> sum_list (map (\<lambda>x. \<bar>int_val (sample_val x)\<bar>) g) < 2 ^ 53 \<and> int (length g) < 2 ^ 53)"

lemma running_sum_ints: "running_sum (JInt i) (map JInt js) = Inr (JInt (i + sum_list js))"
  by (induction js arbitrary: i) (simp_all add: add.assoc)

lemma small_ints_average:
  assumes "g \<noteq> []" "small_ints g"
  shows "average g = Inr (trunc_div (sum_list (map (int_val \<circ> sample_val) g)) (int (length g)))"
proof -
  let ?is = "map (int_val \<circ> sample_val) g" and ?n = "int (length g)"
  have vals: "map sample_val g = map JInt ?is" using assms(2) by (auto simp: small_ints_def)
  obtain i js where g: "?is = i # js" using assms(1) by (cases g) auto
  with vals have "sample_val (hd g) = JInt i" "map sample_val (tl g) = map JInt js" using assms(1) by (cases g; simp)+
  then have s: "running_sum (sample_val (hd g)) (map sample_val (tl g)) = Inr (JInt (sum_list ?is))"
    by (simp add: running_sum_ints g)
  have "\<bar>sum_list ?is\<bar> \<le> sum_list (map (\<lambda>x. \<bar>int_val (sample_val x)\<bar>) g)" by (induction g) auto
  then have "res_bind (int_truediv (sum_list ?is) ?n) float_to_int = Inr (trunc_div (sum_list ?is) ?n)"
    unfolding trunc_div_def by (intro int_of_truediv) (use assms in \<open>auto simp: small_ints_def\<close>)
  then have "res_bind (num_div (JInt (sum_list ?is)) (JInt ?n)) int_of = Inr (trunc_div (sum_list ?is) ?n)"
    by (auto simp: num_div_def arith_def res_inv)
  then show ?thesis by (simp add: average_def s)
qed

text \<open>What the body of a group says.\<close>

definition reports :: "json \<Rightarrow> json \<Rightarrow> string \<Rightarrow> sample list \<Rightarrow> json dict \<Rightarrow> bool" where
  "reports channel u end_ts g b =
     (\<exists>mn mx avg. b = stats_body channel u (sample_ts (hd g)) end_ts mn mx avg (int (length g))
        \<and> mn \<in> sample_val ` set g \<and> mx \<in> sample_val ` set g
        \<and> (\<forall>x \<in> set g. value_of mn \<le> value_of (sample_val x) \<and> value_of (sample_val x) \<le> value_of mx)
        \<and> average g = Inr avg
        \<and> (small_ints g \<longrightarrow> avg = trunc_div (sum_list (map (int_val \<circ> sample_val) g)) (int (length g))))"

lemma close_acc_of:
  assumes "acc_of u g a" "average g = Inr avg"
  shows "\<exists>b. close_acc channel end_ts a = Inr b \<and> reports channel u end_ts g b"
proof -
  have "res_bind (num_div (acc_sum a) (JInt (acc_count a))) int_of = Inr avg"
    using assms by (simp add: acc_of_def average_def)
  then have "close_acc channel end_ts a
      = Inr (stats_body channel u (sample_ts (hd g)) end_ts (acc_min a) (acc_max a) avg (int (length g)))"
    using assms(1) by (auto simp: close_acc_def acc_of_def res_inv)
  moreover have "small_ints g \<longrightarrow> avg = trunc_div (sum_list (map (int_val \<circ> sample_val) g)) (int (length g))"
    using assms small_ints_average [of g] by (auto simp: acc_of_def)
  ultimately show ?thesis using assms by (auto simp: reports_def acc_of_def)
qed

text \<open>One more sample.\<close>

definition merge_acc :: "json \<Rightarrow> acc \<Rightarrow> acc res" where
  "merge_acc v a =
     res_bind (py_min (acc_min a) v) (\<lambda>mn. res_bind (py_max (acc_max a) v) (\<lambda>mx.
     res_bind (py_plus (acc_sum a) v) (\<lambda>sm.
       Inr (a\<lparr>acc_min := mn, acc_max := mx, acc_sum := sm, acc_count := acc_count a + 1\<rparr>))))"

lemma first_acc_of: "number (sample_val x) \<Longrightarrow> acc_of u [x] (first_acc u (sample_val x) (sample_ts x) (sample_mono x))"
  by (simp add: acc_of_def first_acc_def)

lemma merge_acc_of:
  assumes "acc_of u xs a" "number (sample_val x)" "average (xs @ [x]) = Inr avg"
  obtains a' where "merge_acc (sample_val x) a = Inr a'" "acc_of u (xs @ [x]) a'"
proof -
  have ne: "xs \<noteq> []" and sum: "running_sum (sample_val (hd xs)) (map sample_val (tl xs)) = Inr (acc_sum a)"
    using assms(1) by (simp_all add: acc_of_def)
  have all: "running_sum (sample_val (hd (xs @ [x]))) (map sample_val (tl (xs @ [x]))) = py_plus (acc_sum a) (sample_val x)"
    using ne sum by (simp add: running_sum_snoc)
  with assms(3) obtain sm where sm: "py_plus (acc_sum a) (sample_val x) = Inr sm" by (auto simp: average_def res_inv)
  have nums: "number (acc_min a)" "number (acc_max a)" using assms(1) by (auto simp: acc_of_def)
  let ?mn = "if value_of (sample_val x) < value_of (acc_min a) then sample_val x else acc_min a"
    and ?mx = "if value_of (acc_max a) < value_of (sample_val x) then sample_val x else acc_max a"
  let ?a = "a\<lparr>acc_min := ?mn, acc_max := ?mx, acc_sum := sm, acc_count := acc_count a + 1\<rparr>"
  have "merge_acc (sample_val x) a = Inr ?a"
    using sm by (simp add: merge_acc_def number_order nums assms(2))
  moreover have "acc_of u (xs @ [x]) ?a"
    using assms(1,2) all sm ne unfolding acc_of_def by (auto intro: order_trans less_imp_le)
  ultimately show thesis using that by blast
qed

section \<open>The contract\<close>

text \<open>The bodies emitted for the samples of one channel.\<close>

fun feed ::
  "(json \<Rightarrow> json \<Rightarrow> json \<Rightarrow> json \<Rightarrow> string \<Rightarrow> json \<Rightarrow> 's \<Rightarrow> json dict option res \<times> 's)
     \<Rightarrow> json \<Rightarrow> json \<Rightarrow> json \<Rightarrow> sample list \<Rightarrow> 's \<Rightarrow> json dict list res \<times> 's" where
  "feed add w c u [] s = (Inr [], s)"
| "feed add w c u (x # xs) s =
     (case add w c u (sample_val x) (sample_ts x) (sample_mono x) s of
        (Inl e, s') \<Rightarrow> (Inl e, s')
      | (Inr emitted, s') \<Rightarrow>
          (case feed add w c u xs s' of
             (Inl e, s'') \<Rightarrow> (Inl e, s'')
           | (Inr bs, s'') \<Rightarrow> (Inr (case emitted of None \<Rightarrow> bs | Some b \<Rightarrow> b # bs), s'')))"

text \<open>The window of a group is over: a sample after the first one came when its time had passed.\<close>

definition is_over :: "json \<Rightarrow> sample list \<Rightarrow> bool" where
  "is_over w g = (2 \<le> length g \<and> res_bind (num_sub (sample_mono (last g)) (sample_mono (hd g))) (num_le w) = Inr True)"

text \<open>A group was cut as soon as its window was over; a group is still open.\<close>

definition still_open :: "json \<Rightarrow> sample list \<Rightarrow> bool" where
  "still_open w g = (\<forall>p. prefix p g \<longrightarrow> \<not> is_over w p)"

definition just_over :: "json \<Rightarrow> sample list \<Rightarrow> bool" where
  "just_over w g = (is_over w g \<and> (\<forall>p. strict_prefix p g \<longrightarrow> \<not> is_over w p))"

lemma still_open_snoc: "still_open w g \<Longrightarrow> \<not> is_over w (g @ [x]) \<Longrightarrow> still_open w (g @ [x])"
  by (auto simp: still_open_def)

lemma just_over_snoc: "still_open w g \<Longrightarrow> is_over w (g @ [x]) \<Longrightarrow> just_over w (g @ [x])"
  by (auto simp: still_open_def just_over_def strict_prefix_def)

text \<open>The samples are numbers, and every group of successive ones has an average.\<close>

definition averageable :: "sample list \<Rightarrow> bool" where
  "averageable xs = ((\<forall>x \<in> set xs. number (sample_val x)) \<and> (\<forall>g. sublist g xs \<and> g \<noteq> [] \<longrightarrow> (\<exists>avg. average g = Inr avg)))"

lemma averageable_sublist: "averageable xs \<Longrightarrow> sublist ys xs \<Longrightarrow> averageable ys"
  unfolding averageable_def by (metis set_mono_sublist sublist_order.order.trans subsetD)

locale window_aggregator =
  fixes add :: "json \<Rightarrow> json \<Rightarrow> json \<Rightarrow> json \<Rightarrow> string \<Rightarrow> json \<Rightarrow> 's \<Rightarrow> json dict option res \<times> 's"
    and close :: "json \<Rightarrow> string \<Rightarrow> 's \<Rightarrow> json dict res \<times> 's"
    and lookup :: "'s \<Rightarrow> json \<Rightarrow> acc option"
  assumes add_first: "lookup s c = None \<Longrightarrow>
      \<exists>s'. add w c u v ts now s = (Inr None, s') \<and> lookup s' c = Some (first_acc u v ts now)"
    and add_next: "lookup s c = Some a \<Longrightarrow> merge_acc v a = Inr a' \<Longrightarrow>
      res_bind (num_sub now (acc_mono a)) (num_le w) = Inr elapsed \<Longrightarrow> close_acc c ts a' = Inr b \<Longrightarrow>
      \<exists>s'. add w c u v ts now s = (Inr (if elapsed then Some b else None), s')
        \<and> lookup s' c = (if elapsed then None else Some a')"
    and close_open: "lookup s c = Some a \<Longrightarrow> \<exists>s'. close c ts s = (close_acc c ts a, s') \<and> lookup s' c = None"
begin

text \<open>The samples since the last window, and the accumulator that holds them.\<close>

definition holds :: "'s \<Rightarrow> json \<Rightarrow> json \<Rightarrow> sample list \<Rightarrow> bool" where
  "holds s c u cur = (case lookup s c of None \<Rightarrow> cur = [] | Some a \<Rightarrow> acc_of u cur a)"

lemma elapsed_total:
  assumes "num_val w \<noteq> None"
  shows "\<exists>b. res_bind (num_sub (sample_mono x) (sample_mono y)) (num_le w) = Inr b"
  using assms by (auto simp: sample_mono_def num_sub_def arith_def num_le_def)

lemma one_sample:
  assumes "num_val w \<noteq> None" "holds s c u cur" "averageable (cur @ [x])"
  obtains (cut) s1 b where "add w c u (sample_val x) (sample_ts x) (sample_mono x) s = (Inr (Some b), s1)"
      "reports c u (sample_ts x) (cur @ [x]) b" "is_over w (cur @ [x])" "holds s1 c u []"
  | (kept) s1 where "add w c u (sample_val x) (sample_ts x) (sample_mono x) s = (Inr None, s1)"
      "\<not> is_over w (cur @ [x])" "holds s1 c u (cur @ [x])"
proof (cases "lookup s c")
  case None
  with assms(2) have "cur = []" by (simp add: holds_def)
  moreover from None obtain s1 where "add w c u (sample_val x) (sample_ts x) (sample_mono x) s = (Inr None, s1)"
    "lookup s1 c = Some (first_acc u (sample_val x) (sample_ts x) (sample_mono x))" using add_first by metis
  ultimately show thesis using kept first_acc_of [of x u] assms(3) by (simp add: holds_def is_over_def averageable_def)
next
  case (Some a)
  then have a: "acc_of u cur a" using assms(2) by (simp add: holds_def)
  have num: "number (sample_val x)" and "\<exists>avg. average (cur @ [x]) = Inr avg" using assms(3) by (auto simp: averageable_def)
  then obtain avg where avg: "average (cur @ [x]) = Inr avg" by blast
  obtain a' where a': "merge_acc (sample_val x) a = Inr a'" "acc_of u (cur @ [x]) a'"
    by (rule merge_acc_of [OF a num avg])
  obtain b where b: "close_acc c (sample_ts x) a' = Inr b" "reports c u (sample_ts x) (cur @ [x]) b"
    using close_acc_of [OF a'(2) avg] by blast
  obtain el where el: "res_bind (num_sub (sample_mono x) (acc_mono a)) (num_le w) = Inr el"
    using elapsed_total [OF assms(1)] a unfolding acc_of_def by metis
  then have over: "is_over w (cur @ [x]) \<longleftrightarrow> el" using a by (cases cur) (simp_all add: is_over_def acc_of_def)
  obtain s1 where s1: "add w c u (sample_val x) (sample_ts x) (sample_mono x) s = (Inr (if el then Some b else None), s1)"
    "lookup s1 c = (if el then None else Some a')"
    using add_next [OF Some a'(1) el b(1)] by blast
  show thesis
  proof (cases el)
    case True
    with s1(2) have "holds s1 c u []" by (simp add: holds_def)
    with s1(1) True b(2) over show ?thesis by (intro cut) simp_all
  next
    case False
    with s1(2) a'(2) have "holds s1 c u (cur @ [x])" by (simp add: holds_def)
    with s1(1) False over show ?thesis by (intro kept) simp_all
  qed
qed

lemma feed_windows:
  assumes "num_val w \<noteq> None" "holds s c u cur" "averageable (cur @ xs)" "still_open w cur"
  shows "\<exists>gs rest bs s'. cur @ xs = concat gs @ rest \<and> (\<forall>g \<in> set gs. just_over w g) \<and> still_open w rest
    \<and> feed add w c u xs s = (Inr bs, s') \<and> list_all2 (\<lambda>g. reports c u (sample_ts (last g)) g) gs bs
    \<and> holds s' c u rest"
  using assms(2-4)
proof (induction xs arbitrary: s cur)
  case Nil
  show ?case by (intro exI [of _ "[]"] exI [of _ cur] exI [of _ s]) (use Nil in simp)
next
  case (Cons x xs)
  let ?cur = "cur @ [x]"
  have here: "averageable ?cur" and later: "averageable xs" and all: "averageable (?cur @ xs)"
    using Cons.prems(2) averageable_sublist [of "cur @ x # xs" ?cur] averageable_sublist [of "cur @ x # xs" xs]
      sublist_appendI [of ?cur "[]" xs] sublist_appendI [of xs ?cur "[]"] by simp_all
  from assms(1) Cons.prems(1) here show ?case
  proof (cases rule: one_sample)
    case (cut s1 b)
    have "still_open w []" by (simp add: still_open_def is_over_def)
    from Cons.IH [OF cut(4) _ this] later obtain gs rest bs s' where IH: "xs = concat gs @ rest" "\<forall>g \<in> set gs. just_over w g"
      "still_open w rest" "feed add w c u xs s1 = (Inr bs, s')" "list_all2 (\<lambda>g. reports c u (sample_ts (last g)) g) gs bs"
      "holds s' c u rest" by auto
    show ?thesis
      by (intro exI [of _ "?cur # gs"] exI [of _ rest] exI [of _ "b # bs"] exI [of _ s'])
        (use IH cut just_over_snoc [OF Cons.prems(3) cut(3)] in auto)
  next
    case (kept s1)
    from Cons.IH [OF kept(3) all still_open_snoc [OF Cons.prems(3) kept(2)]] obtain gs rest bs s' where
      IH: "?cur @ xs = concat gs @ rest" "\<forall>g \<in> set gs. just_over w g" "still_open w rest" "feed add w c u xs s1 = (Inr bs, s')"
      "list_all2 (\<lambda>g. reports c u (sample_ts (last g)) g) gs bs" "holds s' c u rest" by blast
    show ?thesis
      by (intro exI [of _ gs] exI [of _ rest] exI [of _ bs] exI [of _ s']) (use IH kept(1) in simp)
  qed
qed

lemma feed_close_windows:
  assumes "num_val w \<noteq> None" "lookup s c = None" "averageable xs"
  shows "\<exists>gs rest bs s'. xs = concat gs @ rest \<and> (\<forall>g \<in> set gs. just_over w g) \<and> still_open w rest
    \<and> feed add w c u xs s = (Inr bs, s') \<and> list_all2 (\<lambda>g. reports c u (sample_ts (last g)) g) gs bs
    \<and> (rest \<noteq> [] \<longrightarrow> (\<exists>b. fst (close c end_ts s') = Inr b \<and> reports c u end_ts rest b))"
proof -
  have "holds s c u []" "averageable ([] @ xs)" "still_open w []"
    using assms by (simp_all add: holds_def still_open_def is_over_def)
  from feed_windows [OF assms(1) this] obtain gs rest bs s' where
    g: "xs = concat gs @ rest" "\<forall>g \<in> set gs. just_over w g" "still_open w rest"
      "feed add w c u xs s = (Inr bs, s')" "list_all2 (\<lambda>g. reports c u (sample_ts (last g)) g) gs bs" "holds s' c u rest"
    by auto
  have "\<exists>b. fst (close c end_ts s') = Inr b \<and> reports c u end_ts rest b" if ne: "rest \<noteq> []"
  proof -
    obtain a where a: "lookup s' c = Some a" "acc_of u rest a" using ne g(6) by (auto simp: holds_def split: option.splits)
    have "sublist rest xs" using g(1) by auto
    with ne assms(3) obtain avg where "average rest = Inr avg" by (auto simp: averageable_def)
    from close_acc_of [OF a(2) this, of c end_ts] close_open [OF a(1), of end_ts] show ?thesis by fastforce
  qed
  with g show ?thesis by blast
qed

end

section \<open>Both aggregators keep the contract\<close>

lemma jget_jset [simp]: "jget (jset k v d) k = Some v"
  by (induction k v d rule: jset.induct) auto

lemma jget_jpop [simp]: "jget (jpop k d) k = None"
  unfolding jpop_def by (induction d) auto

lemma merge_acc_mono: "merge_acc v a = Inr a' \<Longrightarrow> acc_mono a' = acc_mono a"
  by (auto simp: merge_acc_def res_inv)

interpretation mb: window_aggregator mb_add mb_close jget
proof
  fix s :: accs and c u v ts now w
  assume "jget s c = None"
  then show "\<exists>s'. mb_add w c u v ts now s = (Inr None, s') \<and> jget s' c = Some (first_acc u v ts now)"
    by (simp add: mb_add_def)
next
  fix s :: accs and c a a' v now w elapsed ts b u
  assume "jget s c = Some a" "merge_acc v a = Inr a'" "res_bind (num_sub now (acc_mono a)) (num_le w) = Inr elapsed"
    "close_acc c ts a' = Inr b"
  then show "\<exists>s'. mb_add w c u v ts now s = (Inr (if elapsed then Some b else None), s')
      \<and> jget s' c = (if elapsed then None else Some a')"
    using merge_acc_mono [of v a a'] by (simp add: mb_add_def mb_close_def Let_def flip: merge_acc_def)
next
  fix s :: accs and c a ts
  assume "jget s c = Some a"
  then show "\<exists>s'. mb_close c ts s = (close_acc c ts a, s') \<and> jget s' c = None"
    by (simp add: mb_close_def)
qed

lemma agg_add_merged:
  assumes "jget s c = Some a" "merge_acc v a = Inr a'"
  shows "agg_add w c u v ts now s =
    (let s' = jset c a' s in
     (case res_bind (num_sub now (acc_mono a)) (num_le w) of
        Inl e \<Rightarrow> (Inl e, s')
      | Inr True \<Rightarrow> (case agg_close c ts s' of (Inl e, s'') \<Rightarrow> (Inl e, s'') | (Inr b, s'') \<Rightarrow> (Inr (Some b), s''))
      | Inr False \<Rightarrow> (Inr None, s')))"
proof -
  from assms(2) obtain mn mx sm where a: "py_min (acc_min a) v = Inr mn" "py_max (acc_max a) v = Inr mx" "py_plus (acc_sum a) v = Inr sm"
    "a' = a\<lparr>acc_min := mn, acc_max := mx, acc_sum := sm, acc_count := acc_count a + 1\<rparr>" by (auto simp: merge_acc_def res_inv)
  show ?thesis unfolding a(4) by (simp add: agg_add_def assms(1) a(1-3) Let_def)
qed

interpretation agg: window_aggregator agg_add agg_close jget
proof
  fix s :: accs and c u v ts now w
  assume "jget s c = None"
  then show "\<exists>s'. agg_add w c u v ts now s = (Inr None, s') \<and> jget s' c = Some (first_acc u v ts now)"
    by (simp add: agg_add_def)
next
  fix s :: accs and c a a' v now w elapsed ts b u
  assume "jget s c = Some a" "merge_acc v a = Inr a'" "res_bind (num_sub now (acc_mono a)) (num_le w) = Inr elapsed"
    "close_acc c ts a' = Inr b"
  then show "\<exists>s'. agg_add w c u v ts now s = (Inr (if elapsed then Some b else None), s')
      \<and> jget s' c = (if elapsed then None else Some a')"
    by (simp add: agg_add_merged agg_close_def Let_def)
next
  fix s :: accs and c a ts
  assume "jget s c = Some a"
  then show "\<exists>s'. agg_close c ts s = (close_acc c ts a, s') \<and> jget s' c = None"
    by (simp add: agg_close_def)
qed

section \<open>Properties\<close>

text \<open>C19: Both aggregators cut the samples of a channel into windows, for any integers and finite floats whose averages can
  be computed: the bodies emitted are those of consecutive groups of the samples, in order and without loss or overlap, each
  cut at the first sample that comes when the time of the window has passed, and closing the channel reports the rest. A body
  gives the first time stamp of its group, the least and the greatest sample and their number; its average is \<open>int\<close> of
  the running sum over the number, which for integers whose magnitudes sum up to less than 2^53 is the exact mean
  truncated towards zero. (For floats that average may be below the minimum: \<open>float_average_below_minimum\<close>.)\<close>

theorem windows_partition_samples:
  assumes "(add, close) = (mb_add, mb_close) \<or> (add, close) = (agg_add, agg_close)"
    and "num_val w \<noteq> None" "jget s c = None" "averageable xs"
  shows "\<exists>gs rest bs s'. xs = concat gs @ rest \<and> (\<forall>g \<in> set gs. just_over w g) \<and> still_open w rest
    \<and> feed add w c u xs s = (Inr bs, s') \<and> list_all2 (\<lambda>g. reports c u (sample_ts (last g)) g) gs bs
    \<and> (rest \<noteq> [] \<longrightarrow> (\<exists>b. fst (close c end_ts s') = Inr b \<and> reports c u end_ts rest b))"
  using assms(1)
proof
  assume "(add, close) = (mb_add, mb_close)"
  with mb.feed_close_windows [OF assms(2-4)] show ?thesis by simp
next
  assume "(add, close) = (agg_add, agg_close)"
  with agg.feed_close_windows [OF assms(2-4)] show ?thesis by simp
qed

text \<open>Integer samples that are not too large always have an average.\<close>

lemma small_ints_sublist: "small_ints xs \<Longrightarrow> sublist g xs \<Longrightarrow> small_ints g"
proof -
  assume s: "small_ints xs" and "sublist g xs"
  then obtain l r where xs: "xs = l @ g @ r" by (auto simp: sublist_def)
  have "0 \<le> sum_list (map (\<lambda>x. \<bar>int_val (sample_val x)\<bar>) zs)" for zs by (induction zs) auto
  from s this [of l] this [of r] show "small_ints g" by (auto simp: small_ints_def xs)
qed

lemma small_ints_averageable: "small_ints xs \<Longrightarrow> averageable xs"
proof -
  assume s: "small_ints xs"
  then have "number (sample_val x)" if "x \<in> set xs" for x using that by (force simp: small_ints_def number_def)
  with small_ints_average [OF _ small_ints_sublist [OF s]] show ?thesis unfolding averageable_def by blast
qed

definition sample_readings :: "sample list" where
  "sample_readings = [(JInt 7, ''t0'', Fin 0), (JInt 10, ''t1'', Fin 1), (JInt 8, ''t2'', Fin 2)]"

theorem windows_partition_samples_witness:
  "\<exists>gs rest bs s'. sample_readings = concat gs @ rest \<and> still_open (JInt 60) rest
    \<and> feed mb_add (JInt 60) (JStr ''temp'') (JStr ''Cel'') sample_readings [] = (Inr bs, s')
    \<and> list_all2 (\<lambda>g. reports (JStr ''temp'') (JStr ''Cel'') (sample_ts (last g)) g) gs bs"
proof -
  have "small_ints sample_readings"
    by (simp add: small_ints_def sample_readings_def sample_val_def)
  from small_ints_averageable [OF this] show ?thesis
    using windows_partition_samples [of mb_add mb_close "JInt 60" "[]" "JStr ''temp''" sample_readings "JStr ''Cel''"]
    by (simp, blast)
qed

text \<open>The average of a window lies between its minimum and its maximum.\<close>

lemma value_of_int: "value_of (JInt i) = of_int i"
  by (simp add: value_of_def)

lemma sum_list_bounds:
  assumes "\<forall>x \<in> set xs. lo \<le> x \<and> x \<le> (hi :: int)"
  shows "lo * int (length xs) \<le> sum_list xs \<and> sum_list xs \<le> hi * int (length xs)"
  using assms by (induction xs) (auto simp: algebra_simps)

lemma trunc_div_bounds:
  assumes "lo * n \<le> a" "a \<le> hi * n" "0 < n"
  shows "lo \<le> trunc_div a n \<and> trunc_div a n \<le> hi"
proof (cases "0 \<le> a")
  case True
  then have "trunc_div a n = a div n" by (cases "a = 0") (simp_all add: trunc_div_def)
  moreover have "lo \<le> a div n" using assms(1,3) zdiv_mono1 [of "lo * n" a n] by simp
  moreover have "a div n \<le> hi" using assms(2,3) zdiv_mono1 [of a "hi * n" n] by simp
  ultimately show ?thesis by simp
next
  case False
  then have "trunc_div a n = - ((- a) div n)" by (simp add: trunc_div_def)
  moreover have "(- a) div n \<le> (- lo * n) div n" "(- hi * n) div n \<le> (- a) div n"
    using assms by (simp_all add: zdiv_mono1)
  moreover have "(- lo * n) div n = - lo" "(- hi * n) div n = - hi"
    using assms(3) by (simp_all only: nonzero_mult_div_cancel_right)
  ultimately show ?thesis by simp
qed

text \<open>For integers the average a window reports lies between its minimum and its maximum, and all three are integers, so that
  the body always has a canonical form.\<close>

lemma window_bounds:
  assumes "reports c u end_ts g b" "g \<noteq> []" "small_ints g"
  shows "\<exists>mn mx avg. b = stats_body c u (sample_ts (hd g)) end_ts (JInt mn) (JInt mx) avg (int (length g)) \<and> mn \<le> avg \<and> avg \<le> mx"
proof -
  let ?is = "map (int_val \<circ> sample_val) g"
  obtain mn mx avg where b: "b = stats_body c u (sample_ts (hd g)) end_ts mn mx avg (int (length g))"
    "mn \<in> sample_val ` set g" "mx \<in> sample_val ` set g"
    "\<forall>x \<in> set g. value_of mn \<le> value_of (sample_val x) \<and> value_of (sample_val x) \<le> value_of mx"
    "avg = trunc_div (sum_list ?is) (int (length g))"
    using assms(1,3) by (auto simp: reports_def)
  have int: "sample_val x = JInt (int_val (sample_val x))" if "x \<in> set g" for x using assms(3) that by (auto simp: small_ints_def)
  from b(2,3) int have m: "mn = JInt (int_val mn)" "mx = JInt (int_val mx)" by auto
  have "\<forall>i \<in> set ?is. int_val mn \<le> i \<and> i \<le> int_val mx"
  proof
    fix i assume "i \<in> set ?is"
    then obtain x where x: "x \<in> set g" "i = int_val (sample_val x)" by auto
    with int have v: "value_of (sample_val x) = of_int i" by (metis value_of_int)
    have "value_of mn = of_int (int_val mn)" "value_of mx = of_int (int_val mx)" using m by (metis value_of_int)+
    with b(4) x(1) v show "int_val mn \<le> i \<and> i \<le> int_val mx" by auto
  qed
  from sum_list_bounds [OF this] have "int_val mn \<le> avg \<and> avg \<le> int_val mx"
    unfolding b(5) by (intro trunc_div_bounds) (use assms(2) in simp_all)
  with b(1) m show ?thesis by metis
qed

text \<open>With floats, as a register with a fractional \<open>scale\<close> gives them, neither holds: of the samples 0.5 and 0.75 the average is
  reported as 0, and a body with such a minimum has no canonical form, so that the engine keeps it as a dead letter.\<close>

lemma float_average_below_minimum:
  "average [(JFloat (Fin (1 / 2)), ''t0'', Fin 0), (JFloat (Fin (3 / 4)), ''t1'', Fin 60)] = Inr 0"
proof -
  have exact: "to_double q = Fin q" if "pow2 e \<le> q" "q < pow2 (e + 1)" "0 < q" "q < 2" "- 1 \<le> e" "q = of_int m * pow2 (e - 52)" for q e m
  proof -
    have "floor_log2 q = e" by (rule floor_log2_unique) (use that in auto)
    then have "round_pos q = q" using that by (intro round_pos_exact [where m = m]) (simp_all add: ulp_exp_def)
    moreover have "(2 :: rat) < pow2 1024" by (metis pow2_1 pow2_less_iff one_less_numeral_iff semiring_norm(76))
    ultimately show ?thesis using that(3,4) by (simp add: to_double_def Let_def)
  qed
  have "to_double (5 / 4) = Fin (5 / 4)" by (rule exact [where e = 0 and m = "5 * 2 ^ 50"]) (simp_all add: pow2_def)
  moreover have "to_double (5 / 8) = Fin (5 / 8)" by (rule exact [where e = "- 1" and m = "5 * 2 ^ 50"]) (simp_all add: pow2_def)
  moreover have "to_double 2 = Fin 2" using to_double_int [of 2] by simp
  moreover have "trunc_rat (5 / 8) = 0" by (simp add: trunc_rat_def floor_eq_iff)
  ultimately show ?thesis
    by (simp add: average_def sample_val_def py_plus_def num_add_def num_div_def arith_def float_add_def float_div_def is_nan_def)
qed

lemma float_window_has_no_canonical_form:
  assumes "is_finite x" "\<not> is_integral x"
  shows "\<exists>m. canonicalize (stats_body c u ts end_ts (JFloat x) mx avg n) = Inl (ValueError m)"
proof -
  have "\<not> integral_floats (JObj (stats_body c u ts end_ts (JFloat x) mx avg n))"
    using assms by (simp add: stats_body_def)
  then obtain e where e: "canonicalize (stats_body c u ts end_ts (JFloat x) mx avg n) = Inl e"
    using canonicalize_ok_iff by (cases "canonicalize (stats_body c u ts end_ts (JFloat x) mx avg n)") blast+
  with canonicalize_error [OF e] show ?thesis by simp
qed

end
