(* ===== verification/Modbus_Protocol.thy ===== *)
theory Modbus_Protocol
  imports Stats "HOL-Library.Word"
begin

text \<open>
  \<open>adapters/generic-modbus/protocol.py\<close>: register addresses, request frames and response frames over
  TCP and RTU, the CRC, and the values of registers. A byte string is a list of 8-bit words; the
  integers Python computes with are integers here, and where a 16-bit register is meant the
  correspondence with 16-bit words is proved.
\<close>

unbundle bit_operations_syntax

type_synonym byte = "8 word"

definition read_holding :: int where "read_holding = 3"
definition read_input :: int where "read_input = 4"

section \<open>Addresses\<close>

fun find_base :: "(int \<times> int) list \<Rightarrow> int \<Rightarrow> (int \<times> int) option" where
  "find_base [] address = None"
| "find_base ((base, func) # bs) address =
     (if base \<le> address \<and> address < base + 9999 then Some (func, address - base) else find_base bs address)"

definition resolve_address :: "int \<Rightarrow> (int \<times> int) res" where
  "resolve_address address =
     (case find_base [(400001, read_holding), (40001, read_holding), (300001, read_input), (30001, read_input)] address of
        Some r \<Rightarrow> Inr r
      | None \<Rightarrow>
          if 0 \<le> address \<and> address < 10000 then Inr (read_holding, address)
          else Inl (ModbusError (''unsupported register address '' @ show_int address)))"

section \<open>Packing\<close>

text \<open>\<open>struct.pack\<close> of one field; out of range is \<open>struct.error\<close>.\<close>

definition pack_B :: "int \<Rightarrow> byte list res" where
  "pack_B v = (if 0 \<le> v \<and> v < 256 then Inr [word_of_int v] else Inl StructError)"

definition pack_H :: "int \<Rightarrow> byte list res" where
  "pack_H v = (if 0 \<le> v \<and> v < 65536 then Inr [word_of_int (v div 256), word_of_int (v mod 256)] else Inl StructError)"

text \<open>\<open>struct.unpack(">H", ...)\<close> and \<open>struct.unpack("<H", ...)\<close>\<close>

definition be16 :: "byte \<Rightarrow> byte \<Rightarrow> int" where
  "be16 a b = 256 * uint a + uint b"

definition le16 :: "byte \<Rightarrow> byte \<Rightarrow> int" where
  "le16 a b = be16 b a"

fun pack_all :: "byte list res list \<Rightarrow> byte list res" where
  "pack_all [] = Inr []"
| "pack_all (f # fs) = res_bind f (\<lambda>bs. res_bind (pack_all fs) (\<lambda>cs. Inr (bs @ cs)))"

section \<open>Requests\<close>

definition build_read_tcp :: "int \<Rightarrow> int \<Rightarrow> int \<Rightarrow> int \<Rightarrow> int \<Rightarrow> byte list res" where
  "build_read_tcp tid unit_id func offset count =
     res_bind (pack_all [pack_B func, pack_H offset, pack_H count]) (\<lambda>pdu.
     res_bind (pack_all [pack_H tid, pack_H 0, pack_H (int (length pdu) + 1), pack_B unit_id]) (\<lambda>header.
       Inr (header @ pdu)))"

text \<open>The CRC: the shift register as a Python int.\<close>

definition crc_shift :: "int \<Rightarrow> int" where
  "crc_shift crc = (if crc AND 1 \<noteq> 0 then drop_bit 1 crc XOR 0xA001 else drop_bit 1 crc)"

definition crc_byte :: "int \<Rightarrow> byte \<Rightarrow> int" where
  "crc_byte crc b = (crc_shift ^^ 8) (crc XOR uint b)"

definition crc16 :: "byte list \<Rightarrow> int" where
  "crc16 bs = foldl crc_byte 0xFFFF bs"

definition pack_le_H :: "int \<Rightarrow> byte list res" where
  "pack_le_H v = res_bind (pack_H v) (\<lambda>bs. Inr (rev bs))"

definition build_read_rtu :: "int \<Rightarrow> int \<Rightarrow> int \<Rightarrow> int \<Rightarrow> byte list res" where
  "build_read_rtu unit_id func offset count =
     res_bind (pack_all [pack_B unit_id, pack_B func, pack_H offset, pack_H count]) (\<lambda>b.
     res_bind (pack_le_H (crc16 b)) (\<lambda>c. Inr (b @ c)))"

section \<open>Responses\<close>

text \<open>\<open>xs[i]\<close> of a byte string\<close>

definition byte_at :: "byte list \<Rightarrow> nat \<Rightarrow> int res" where
  "byte_at bs i = (if i < length bs then Inr (uint (bs ! i)) else Inl IndexError)"

fun registers :: "byte list \<Rightarrow> int list" where
  "registers (a # b # bs) = be16 a b # registers bs"
| "registers _ = []"

definition parse_pdu :: "byte list \<Rightarrow> int \<Rightarrow> int list res" where
  "parse_pdu pdu expect_func =
     res_bind (byte_at pdu 0) (\<lambda>func.
     if func = expect_func OR 0x80 then
       res_bind (byte_at pdu 1) (\<lambda>code. Inl (ModbusError (''device exception code '' @ show_int code)))
     else if func \<noteq> expect_func then
       Inl (ModbusError (''function mismatch '' @ show_int func @ '' != '' @ show_int expect_func))
     else
       res_bind (byte_at pdu 1) (\<lambda>byte_count.
         let payload = take (nat byte_count) (drop 2 pdu) in
         if int (length payload) \<noteq> byte_count \<or> byte_count mod 2 \<noteq> 0 then Inl (ModbusError ''byte count mismatch'')
         else Inr (registers payload)))"

text \<open>The slice \<open>frame[7:7 + length - 1]\<close> is empty for the length 0.\<close>

definition parse_read_tcp :: "byte list \<Rightarrow> int \<Rightarrow> int \<Rightarrow> int list res" where
  "parse_read_tcp frame expect_tid expect_func =
     (if length frame < 9 then Inl (ModbusError ''short TCP frame'')
      else
        let tid = be16 (frame ! 0) (frame ! 1); proto = be16 (frame ! 2) (frame ! 3);
            len = be16 (frame ! 4) (frame ! 5)
        in if tid \<noteq> expect_tid then
             Inl (ModbusError (''transaction id mismatch '' @ show_int tid @ '' != '' @ show_int expect_tid))
           else if proto \<noteq> 0 then Inl (ModbusError ''bad protocol id'')
           else parse_pdu (take (nat (len - 1)) (drop 7 frame)) expect_func)"

definition parse_read_rtu :: "byte list \<Rightarrow> int \<Rightarrow> int \<Rightarrow> int list res" where
  "parse_read_rtu frame expect_unit expect_func =
     (if length frame < 5 then Inl (ModbusError ''short RTU frame'')
      else
        let n = length frame - 2; b = take n frame; crc = le16 (frame ! n) (frame ! Suc n)
        in if crc16 b \<noteq> crc then Inl (ModbusError ''CRC mismatch'')
           else if uint (hd b) \<noteq> expect_unit then
             Inl (ModbusError (''unit id mismatch '' @ show_int (uint (hd b)) @ '' != '' @ show_int expect_unit))
           else parse_pdu (tl b) expect_func)"

section \<open>Values\<close>

definition reg_at :: "int list \<Rightarrow> nat \<Rightarrow> int res" where
  "reg_at regs i = (if i < length regs then Inr (regs ! i) else Inl IndexError)"

text \<open>The two's complement reading of 16 bits, with the range check of \<open>struct.pack\<close>.\<close>

definition as_s16 :: "int \<Rightarrow> int res" where
  "as_s16 v = (if 0 \<le> v \<and> v < 65536 then Inr (sint (word_of_int v :: 16 word)) else Inl StructError)"

definition raw_value :: "int list \<Rightarrow> string \<Rightarrow> int res" where
  "raw_value regs reg_type =
     (if reg_type = ''u16'' then reg_at regs 0
      else if reg_type = ''s16'' then res_bind (reg_at regs 0) as_s16
      else if reg_type = ''u32'' then
        res_bind (reg_at regs 0) (\<lambda>a. res_bind (reg_at regs 1) (\<lambda>b. Inr (push_bit 16 a OR b)))
      else if reg_type = ''u32_swapped'' then
        res_bind (reg_at regs 1) (\<lambda>a. res_bind (reg_at regs 0) (\<lambda>b. Inr (push_bit 16 a OR b)))
      else Inl (ModbusError (''unsupported register type '' @ repr_str reg_type)))"

definition decode_value :: "int list \<Rightarrow> string \<Rightarrow> json \<Rightarrow> json res" where
  "decode_value regs reg_type scale =
     res_bind (raw_value regs reg_type) (\<lambda>raw.
     res_bind (num_mul (JInt raw) scale) (\<lambda>v.
     res_bind (to_float v) (\<lambda>x.
     res_bind (int_of v) (\<lambda>i.
       Inr (if equals_int (JFloat x) i then JInt i else v)))))"

definition reg_count :: "string \<Rightarrow> int" where
  "reg_count reg_type = (if take 3 reg_type = ''u32'' then 2 else 1)"

section \<open>The CRC on 16-bit words\<close>

definition crc_shift_w :: "16 word \<Rightarrow> 16 word" where
  "crc_shift_w c = (if bit c 0 then drop_bit 1 c XOR 0xA001 else drop_bit 1 c)"

definition crc_byte_w :: "16 word \<Rightarrow> byte \<Rightarrow> 16 word" where
  "crc_byte_w c b = (crc_shift_w ^^ 8) (c XOR ucast b)"

definition crc16_w :: "byte list \<Rightarrow> 16 word" where
  "crc16_w bs = foldl crc_byte_w 0xFFFF bs"

lemma crc_shift_uint: "crc_shift (uint c) = uint (crc_shift_w c)"
proof -
  have "uint c AND 1 \<noteq> 0 \<longleftrightarrow> bit c 0"
    by (simp add: and_one_eq odd_iff_mod_2_eq_one [symmetric] flip: bit_0 bit_uint_iff)
      (simp add: bit_uint_iff)
  moreover have "uint (drop_bit 1 c) = drop_bit 1 (uint c)"
  proof -
    have "take_bit 16 (uint c) = uint c" by (rule take_bit_int_eq_self) (use uint_lt2p [of c] in auto)
    then show ?thesis by (simp add: unsigned_drop_bit_eq)
  qed
  ultimately show ?thesis
    by (simp add: crc_shift_def crc_shift_w_def unsigned_xor_eq)
qed

lemma uint_ucast_byte: "uint (ucast b :: 16 word) = uint (b :: byte)"
proof -
  have "uint b < 2 ^ 16" using uint_lt2p [of b] by simp
  then have "take_bit 16 (uint b) = uint b" by (intro take_bit_int_eq_self) simp_all
  then show ?thesis by (simp add: unsigned_ucast_eq)
qed

lemma crc_byte_uint: "crc_byte (uint c) b = uint (crc_byte_w c b)"
proof -
  have "(crc_shift ^^ n) (uint d) = uint ((crc_shift_w ^^ n) d)" for n d
    by (induction n) (simp_all add: crc_shift_uint)
  moreover have "uint c XOR uint b = uint (c XOR ucast b)"
    by (simp only: unsigned_xor_eq uint_ucast_byte)
  ultimately show ?thesis by (simp only: crc_byte_def crc_byte_w_def)
qed

lemma crc16_uint: "crc16 bs = uint (crc16_w bs)"
proof -
  have "foldl crc_byte (uint c) bs = uint (foldl crc_byte_w c bs)" for c
    by (induction bs arbitrary: c) (simp_all add: crc_byte_uint)
  from this [of "0xFFFF"] show ?thesis by (simp add: crc16_def crc16_w_def)
qed

lemma xor_cancel: "c XOR x = d XOR x \<longleftrightarrow> c = (d :: 'a::len word)"
  by (metis xor.assoc xor_self_eq xor.right_neutral)

lemma crc_shift_inj: "crc_shift_w c = crc_shift_w d \<Longrightarrow> c = d"
proof -
  assume eq: "crc_shift_w c = crc_shift_w d"
  have top: "bit (crc_shift_w x) 15 \<longleftrightarrow> bit x 0" for x
  proof -
    have "\<not> bit x 16" by (auto dest: bit_imp_le_length)
    then show ?thesis by (simp add: crc_shift_w_def bit_xor_iff bit_drop_bit_eq)
  qed
  then have lsb: "bit c 0 \<longleftrightarrow> bit d 0" using eq by metis
  have "drop_bit 1 c = drop_bit 1 d"
  proof (cases "bit c 0")
    case True
    with lsb eq have "drop_bit 1 c XOR 0xA001 = drop_bit 1 d XOR (0xA001 :: 16 word)"
      unfolding crc_shift_w_def by presburger
    then show ?thesis by (simp only: xor_cancel)
  next
    case False
    with lsb eq show ?thesis by (simp add: crc_shift_w_def)
  qed
  then have step: "bit c (Suc n) \<longleftrightarrow> bit d (Suc n)" for n
    by (metis bit_drop_bit_eq plus_1_eq_Suc comp_def)
  show "c = d"
  proof (rule bit_word_eqI)
    fix n show "bit c n \<longleftrightarrow> bit d n" using lsb step by (cases n) auto
  qed
qed

lemma crc_byte_inj: "crc_byte_w c b = crc_byte_w d b' \<Longrightarrow> c XOR ucast b = d XOR ucast b'"
proof -
  have "(crc_shift_w ^^ n) x = (crc_shift_w ^^ n) y \<Longrightarrow> x = y" for n x y
    by (induction n arbitrary: x y) (auto dest: crc_shift_inj)
  then show "crc_byte_w c b = crc_byte_w d b' \<Longrightarrow> c XOR ucast b = d XOR ucast b'"
    unfolding crc_byte_w_def by blast
qed

lemma crc_state_inj: "foldl crc_byte_w c bs = foldl crc_byte_w d bs \<Longrightarrow> c = d"
proof (induction bs arbitrary: c d)
  case (Cons a bs)
  then have "crc_byte_w c a = crc_byte_w d a" by simp
  from crc_byte_inj [OF this] show ?case by (simp only: xor_cancel)
qed simp

text \<open>Changing one byte changes the CRC.\<close>

lemma crc16_one_byte:
  assumes "crc16 (xs @ b # ys) = crc16 (xs @ b' # ys)"
  shows "b = b'"
proof -
  from assms have "crc16_w (xs @ b # ys) = crc16_w (xs @ b' # ys)"
    by (simp only: crc16_uint word_uint_eq_iff)
  then have "crc_byte_w (foldl crc_byte_w 0xFFFF xs) b = crc_byte_w (foldl crc_byte_w 0xFFFF xs) b'"
    by (auto simp: crc16_w_def dest: crc_state_inj)
  from crc_byte_inj [OF this] have "ucast b = (ucast b' :: 16 word)"
    by (simp only: xor_cancel xor.commute [of "foldl crc_byte_w 0xFFFF xs"])
  then have "uint (ucast b :: 16 word) = uint (ucast b' :: 16 word)" by (simp only:)
  then show "b = b'" by (simp only: uint_ucast_byte word_uint_eq_iff)
qed

lemma digits_256:
  fixes a b c d :: int
  assumes "256 * a + b = 256 * c + d" "0 \<le> b" "b < 256" "0 \<le> d" "d < 256"
  shows "a = c \<and> b = d"
proof -
  have "(256 * a + b) div 256 = a" "(256 * a + b) mod 256 = b" "(256 * c + d) div 256 = c" "(256 * c + d) mod 256 = d"
    using assms(2-5) by simp_all
  with assms(1) show ?thesis by metis
qed

lemma byte_range: "0 \<le> uint (b :: byte)" "uint (b :: byte) < 256"
  using uint_lt2p [of b] by simp_all

lemma be16_inject: "be16 a b = be16 c d \<longleftrightarrow> a = c \<and> b = d"
proof
  assume "be16 a b = be16 c d"
  from digits_256 [OF this [unfolded be16_def] byte_range [of b] byte_range [of d]]
  show "a = c \<and> b = d" by (simp only: word_uint_eq_iff)
next
  assume "a = c \<and> b = d"
  then show "be16 a b = be16 c d" by (simp only:)
qed

lemma be16_range: "0 \<le> be16 a b" "be16 a b < 65536"
proof -
  have "256 * uint a \<le> 256 * 255" using byte_range(2) [of a] by (intro mult_left_mono) simp_all
  then have "256 * uint a + uint b \<le> 256 * 255 + 255" using byte_range(2) [of b] by (intro add_mono) simp_all
  then show "be16 a b < 65536" by (simp add: be16_def)
  show "0 \<le> be16 a b" by (simp add: be16_def)
qed

section \<open>What a device answers\<close>

text \<open>The frames of a normal response, built from the register values.\<close>

definition reg_bytes :: "int \<Rightarrow> byte list" where
  "reg_bytes v = [word_of_int (v div 256), word_of_int (v mod 256)]"

definition response_pdu :: "int \<Rightarrow> int list \<Rightarrow> byte list" where
  "response_pdu func regs =
     [word_of_int func, word_of_int (2 * int (length regs))] @ concat (map reg_bytes regs)"

definition response_rtu :: "int \<Rightarrow> int \<Rightarrow> int list \<Rightarrow> byte list" where
  "response_rtu unit_id func regs =
     (let b = word_of_int unit_id # response_pdu func regs in b @ rev (reg_bytes (crc16 b)))"

definition response_tcp :: "int \<Rightarrow> int \<Rightarrow> int \<Rightarrow> int list \<Rightarrow> byte list" where
  "response_tcp tid unit_id func regs =
     (let pdu = response_pdu func regs in
      reg_bytes tid @ reg_bytes 0 @ reg_bytes (int (length pdu) + 1) @ [word_of_int unit_id] @ pdu)"

definition u16 :: "int \<Rightarrow> bool" where "u16 v = (0 \<le> v \<and> v < 65536)"

lemma uint_byte [simp]: "0 \<le> v \<Longrightarrow> v < 256 \<Longrightarrow> uint (word_of_int v :: byte) = v"
  by (simp add: unsigned_of_int take_bit_int_eq_self)

lemma u16_bytes: "u16 v \<Longrightarrow> 0 \<le> v div 256 \<and> v div 256 < 256 \<and> 0 \<le> v mod 256 \<and> v mod 256 < 256"
  unfolding u16_def using zdiv_mono1 [of v 65535 256] by (auto simp: pos_imp_zdiv_nonneg_iff)

lemma be16_reg_bytes: "u16 v \<Longrightarrow> be16 (word_of_int (v div 256)) (word_of_int (v mod 256)) = v"
  using u16_bytes [of v] by (simp add: be16_def)

lemma pack_H_ok: "u16 v \<Longrightarrow> pack_H v = Inr (reg_bytes v)"
  by (simp add: u16_def pack_H_def reg_bytes_def)

lemma length_reg_bytes [simp]: "length (concat (map reg_bytes regs)) = 2 * length regs"
  by (induction regs) (simp_all add: reg_bytes_def)

lemma registers_reg_bytes: "list_all u16 regs \<Longrightarrow> registers (concat (map reg_bytes regs)) = regs"
  by (induction regs) (simp_all add: be16_reg_bytes, simp add: reg_bytes_def be16_reg_bytes)

lemma length_response_pdu [simp]: "length (response_pdu func regs) = 2 + 2 * length regs"
  by (simp add: response_pdu_def)

lemma parse_response_pdu:
  assumes "func = 3 \<or> func = 4" "list_all u16 regs" "length regs \<le> 127"
  shows "parse_pdu (response_pdu func regs) func = Inr regs"
proof -
  have n: "uint (word_of_int (2 * int (length regs)) :: byte) = 2 * int (length regs)"
    by (rule uint_byte) (use assms(3) in simp_all)
  have f: "uint (word_of_int func :: byte) = func" "func \<noteq> func OR 128" using assms(1) by auto
  have "byte_at (response_pdu func regs) 0 = Inr func" "byte_at (response_pdu func regs) 1 = Inr (2 * int (length regs))"
    using n f by (simp_all add: byte_at_def response_pdu_def)
  moreover have "take (nat (2 * int (length regs))) (drop 2 (response_pdu func regs)) = concat (map reg_bytes regs)"
    by (simp add: response_pdu_def nat_mult_distrib)
  ultimately show ?thesis using f(2) registers_reg_bytes [OF assms(2)] by (simp add: parse_pdu_def Let_def)
qed

lemma parse_tcp_cons:
  assumes "2 \<le> length pdu"
  shows "parse_read_tcp (a0 # a1 # a2 # a3 # a4 # a5 # u # pdu) tid func =
    (if be16 a0 a1 \<noteq> tid then Inl (ModbusError (''transaction id mismatch '' @ show_int (be16 a0 a1) @ '' != '' @ show_int tid))
     else if be16 a2 a3 \<noteq> 0 then Inl (ModbusError ''bad protocol id'')
     else parse_pdu (take (nat (be16 a4 a5 - 1)) pdu) func)"
proof -
  let ?f = "a0 # a1 # a2 # a3 # a4 # a5 # u # pdu"
  have "?f ! 0 = a0" "?f ! 1 = a1" "?f ! 2 = a2" "?f ! 3 = a3" "?f ! 4 = a4" "?f ! 5 = a5" "drop 7 ?f = pdu"
    by (simp_all add: eval_nat_numeral)
  then show ?thesis using assms unfolding parse_read_tcp_def Let_def by simp
qed

lemma parse_rtu_snoc:
  assumes "2 \<le> length pdu"
  shows "parse_read_rtu ((u # pdu) @ [lo, hi]) unit_id func =
    (if crc16 (u # pdu) \<noteq> be16 hi lo then Inl (ModbusError ''CRC mismatch'')
     else if uint u \<noteq> unit_id then
       Inl (ModbusError (''unit id mismatch '' @ show_int (uint u) @ '' != '' @ show_int unit_id))
     else parse_pdu pdu func)"
proof -
  let ?f = "(u # pdu) @ [lo, hi]"
  have "length ?f - 2 = length (u # pdu)" "take (length (u # pdu)) ?f = u # pdu"
    "?f ! length (u # pdu) = lo" "?f ! Suc (length (u # pdu)) = hi"
    by (simp_all add: nth_append)
  moreover have "\<not> length ?f < 5" using assms by simp
  ultimately show ?thesis unfolding parse_read_rtu_def Let_def le16_def by (simp only: if_False list.sel)
qed

text \<open>C16: Reading inverts the device: the registers of a normal response, at most 127 of them and each of 16 bits, are
  read back from its TCP frame and from its RTU frame.\<close>

theorem response_roundtrip:
  assumes "func = 3 \<or> func = 4" "list_all u16 regs" "length regs \<le> 127" "u16 tid" "0 \<le> unit_id" "unit_id < 256"
  shows "parse_read_tcp (response_tcp tid unit_id func regs) tid func = Inr regs
    \<and> parse_read_rtu (response_rtu unit_id func regs) unit_id func = Inr regs"
proof
  let ?p = "response_pdu func regs"
  have two: "2 \<le> length ?p" by simp
  have u: "u16 (int (length ?p) + 1)" "u16 0" using assms(3) by (simp_all add: u16_def)
  have "parse_pdu (take (nat (int (length ?p) + 1 - 1)) ?p) func = Inr regs"
    using parse_response_pdu [OF assms(1-3)] by (simp del: length_response_pdu)
  then show "parse_read_tcp (response_tcp tid unit_id func regs) tid func = Inr regs"
    unfolding response_tcp_def Let_def reg_bytes_def append_Cons append_Nil
    by (simp only: parse_tcp_cons [OF two] be16_reg_bytes [OF assms(4)] be16_reg_bytes [OF u(1)] be16_reg_bytes [OF u(2)]
        not_True_eq_False if_False simp_thms)
  let ?b = "word_of_int unit_id # ?p"
  have crc: "u16 (crc16 ?b)" using uint_lt2p [of "crc16_w ?b"] by (simp add: u16_def crc16_uint)
  have frame: "response_rtu unit_id func regs = ?b @ [word_of_int (crc16 ?b mod 256), word_of_int (crc16 ?b div 256)]"
    by (simp add: response_rtu_def Let_def reg_bytes_def)
  show "parse_read_rtu (response_rtu unit_id func regs) unit_id func = Inr regs"
    unfolding frame parse_rtu_snoc [OF two] be16_reg_bytes [OF crc] uint_byte [OF assms(5,6)]
    using parse_response_pdu [OF assms(1-3)] by simp
qed

theorem response_roundtrip_witness:
  "parse_read_rtu (response_rtu 17 3 [513, 65535]) 17 3 = Inr [513, 65535]"
  using response_roundtrip [of 3 "[513, 65535]" 1 17] by (simp add: u16_def)

text \<open>C15: No single byte error goes unnoticed on the serial line: when a frame is accepted, replacing any one of its
  bytes by another makes the frame fail with a CRC mismatch.\<close>

theorem single_byte_error_detected:
  assumes "parse_read_rtu frame unit_id func = Inr regs" "i < length frame" "b \<noteq> frame ! i"
  shows "parse_read_rtu (frame[i := b]) unit_id' func' = Inl (ModbusError ''CRC mismatch'')"
proof -
  let ?n = "length frame - 2" and ?f = "frame[i := b]"
  have len: "5 \<le> length frame" and ok: "crc16 (take ?n frame) = le16 (frame ! ?n) (frame ! Suc ?n)"
    using assms(1) by (auto simp: parse_read_rtu_def Let_def split: if_splits)
  have "crc16 (take ?n ?f) \<noteq> le16 (?f ! ?n) (?f ! Suc ?n)"
  proof (cases "i < ?n")
    case True
    let ?xs = "take i frame" and ?ys = "drop (Suc i) (take ?n frame)"
    have "take ?n frame = take i (take ?n frame) @ take ?n frame ! i # drop (Suc i) (take ?n frame)"
      by (rule id_take_nth_drop) (use True assms(2) in simp)
    also have "\<dots> = ?xs @ frame ! i # ?ys" using True by (simp add: min_def)
    finally have t1: "take ?n frame = ?xs @ frame ! i # ?ys" .
    have "take ?n ?f = (take ?n frame)[i := b]" by (rule take_update_swap)
    also have "\<dots> = take i (take ?n frame) @ b # drop (Suc i) (take ?n frame)"
      by (rule upd_conv_take_nth_drop) (use True assms(2) in simp)
    also have "\<dots> = ?xs @ b # ?ys" using True by (simp add: min_def)
    finally have t2: "take ?n ?f = ?xs @ b # ?ys" .
    have "crc16 (take ?n ?f) \<noteq> crc16 (take ?n frame)"
      using crc16_one_byte [of ?xs b ?ys "frame ! i"] assms(3) t1 t2 by metis
    moreover have "?f ! ?n = frame ! ?n" "?f ! Suc ?n = frame ! Suc ?n" using True by simp_all
    ultimately show ?thesis using ok by simp
  next
    case False
    then have "take ?n ?f = take ?n frame" by simp
    moreover have "le16 (?f ! ?n) (?f ! Suc ?n) \<noteq> le16 (frame ! ?n) (frame ! Suc ?n)"
    proof -
      have "i = ?n \<or> i = Suc ?n" using False assms(2) len by linarith
      then show ?thesis using assms(2,3) len by (auto simp: le16_def be16_inject nth_list_update)
    qed
    ultimately show ?thesis using ok by metis
  qed
  then show ?thesis using len by (simp add: parse_read_rtu_def Let_def)
qed

theorem single_byte_error_detected_witness:
  "parse_read_rtu ((response_rtu 17 3 [513])[4 := 0]) 17 3 = Inl (ModbusError ''CRC mismatch'')"
proof (rule single_byte_error_detected)
  show "parse_read_rtu (response_rtu 17 3 [513]) 17 3 = Inr [513]"
    using response_roundtrip [of 3 "[513]" 1 17] by (simp add: u16_def)
  show "4 < length (response_rtu 17 3 [513])"
    by (simp add: response_rtu_def response_pdu_def reg_bytes_def Let_def)
  show "0 \<noteq> response_rtu 17 3 [513] ! 4"
    by (simp add: response_rtu_def response_pdu_def reg_bytes_def Let_def)
qed

lemma parse_pdu_errors:
  "parse_pdu pdu func = Inl e \<Longrightarrow> (\<exists>m. e = ModbusError m) \<or> e = IndexError"
  by (auto simp: parse_pdu_def byte_at_def Let_def split: if_splits)

lemma parse_pdu_index_error:
  "parse_pdu pdu func = Inl IndexError \<longleftrightarrow>
     pdu = [] \<or> length pdu = 1 \<and> (uint (hd pdu) = func \<or> uint (hd pdu) = func OR 0x80)"
proof (cases pdu)
  case (Cons a as)
  then show ?thesis by (cases as) (auto simp: parse_pdu_def byte_at_def Let_def)
qed (simp add: parse_pdu_def byte_at_def)



lemma push_or_16:
  fixes a b :: int
  assumes "0 \<le> b" "b < 65536"
  shows "push_bit 16 a OR b = 65536 * a + b"
proof -
  have "push_bit 16 a AND b = 0"
  proof (rule bit_eqI)
    fix n show "bit (push_bit 16 a AND b) n \<longleftrightarrow> bit (0 :: int) n"
    proof (cases "n < 16")
      case False
      have "b = take_bit 16 b" using assms by (simp add: take_bit_int_eq_self)
      then have "\<not> bit b n" using False by (metis bit_take_bit_iff)
      then show ?thesis by (simp add: bit_and_iff)
    qed (simp add: bit_and_iff bit_push_bit_iff)
  qed
  then have "push_bit 16 a OR b = push_bit 16 a + b" by (simp add: disjunctive_add_eq_or)
  then show ?thesis by (simp add: push_bit_eq_mult)
qed

text \<open>Register values are read at their width: an unsigned 16-bit register is its value, a signed one its two's
  complement reading between -2^15 and 2^15 - 1, and a pair of registers the 32-bit number with the first register,
  or for the swapped type the second, as its upper half.\<close>

theorem register_values:
  assumes "u16 a" "u16 b"
  shows "raw_value [a] ''u16'' = Inr a
    \<and> raw_value [a] ''s16'' = Inr (if a < 2 ^ 15 then a else a - 2 ^ 16)
    \<and> raw_value [a, b] ''u32'' = Inr (65536 * a + b)
    \<and> raw_value [a, b] ''u32_swapped'' = Inr (65536 * b + a)
    \<and> raw_value [a] ''u32'' = Inl IndexError"
proof -
  have ab: "0 \<le> a" "a < 65536" "0 \<le> b" "b < 65536" using assms by (simp_all add: u16_def)
  have "sint (word_of_int a :: 16 word) = (if a < 2 ^ 15 then a else a - 2 ^ 16)"
  proof -
    have "sint (word_of_int a :: 16 word) = signed_take_bit 15 a" by (simp add: signed_of_int)
    also have "\<dots> = (if a < 2 ^ 15 then a else a - 2 ^ 16)"
    proof (cases "a < 2 ^ 15")
      case True
      then show ?thesis using ab by (simp add: signed_take_bit_int_eq_self)
    next
      case False
      have "signed_take_bit 15 a = signed_take_bit 15 (a - 2 ^ 16)"
        by (simp add: signed_take_bit_eq_iff_take_bit_eq take_bit_eq_mod)
      also have "\<dots> = a - 2 ^ 16" using ab False by (intro signed_take_bit_int_eq_self) simp_all
      finally show ?thesis using False by simp
    qed
    finally show ?thesis .
  qed
  then show ?thesis using ab push_or_16 [of b a] push_or_16 [of a b]
    by (simp add: raw_value_def reg_at_def as_s16_def)
qed

theorem register_values_witness:
  "raw_value [65535] ''s16'' = Inr (- 1) \<and> raw_value [1, 2] ''u32'' = Inr 65538"
  using register_values [of 65535 0] register_values [of 1 2] by (simp add: u16_def)

end
