(* ===== verification/Modbus_Adapter.thy ===== *)
theory Modbus_Adapter
  imports Modbus_Protocol Adapter_Base
begin

text \<open>
  \<open>adapters/generic-modbus/adapter.py\<close>: reading the registers of the mapping file, turning values
  into bodies, and the polling loop. The mapping file is given parsed, as records; a key the code
  subscripts and the file lacks is \<open>None\<close>. The transport is a function from requests to responses,
  the callback \<open>emit\<close> a function on the state \<open>'g\<close> of whoever receives the bodies; both may raise.
  Locks are not modelled: one thread marks the health.
\<close>

section \<open>The mapping\<close>

record emit_conf =
  conf_mode :: "string option"
  conf_schema :: "string option"
  conf_channel :: "json option"
  conf_unit :: "json option"
  conf_event_type :: "json option"
  conf_payload_field :: "string option"
  conf_enum :: "json jdict"

record register =
  reg_name :: "string option"
  reg_address :: "int option"
  reg_type :: "string option"
  reg_scale :: "json option"
  reg_emit :: "emit_conf option"

record mapping =
  map_profile :: string
  map_machine_class :: string
  map_registers :: "register list"

definition need :: "string \<Rightarrow> 'a option \<Rightarrow> 'a res" where
  "need key v = (case v of None \<Rightarrow> Inl (KeyError key) | Some x \<Rightarrow> Inr x)"

definition or_default :: "'a \<Rightarrow> 'a option \<Rightarrow> 'a" where
  "or_default d v = (case v of None \<Rightarrow> d | Some x \<Rightarrow> x)"

lemma need_simps [simp]: "need k (Some x) = Inr x" "need k None = Inl (KeyError k)"
  by (simp_all add: need_def)

text \<open>\<open>probe\<close>: what the mapping says about the machine.\<close>

definition capability_of :: "register \<Rightarrow> string res" where
  "capability_of reg =
     res_bind (need ''emit'' (reg_emit reg)) (\<lambda>c. res_bind (need ''schema'' (conf_schema c)) (\<lambda>s.
       Inr (if s = ''telemetry'' then ''telemetry'' else ''event'')))"

definition modbus_probe :: "mapping \<Rightarrow> machine_info res" where
  "modbus_probe m =
     res_bind (res_map capability_of (map_registers m)) (\<lambda>cs.
       Inr \<lparr>machine_class = map_machine_class m, info_make = None, info_model = None, info_serial = JNull,
            capabilities = sort (remdups cs), data_source = ''native''\<rparr>)"

section \<open>The link\<close>

text \<open>
  Which transport \<open>_transport\<close> builds and which framing \<open>_read\<close> uses are decided separately. A callable in the
  configuration is no JSON value, so whether there is one is an argument; \<open>/ 1000\<close> of the timeout is left to the
  library that takes it, in milliseconds.
\<close>

datatype link_kind =
    Injected
  | Tcp json json json
  | Rtu json json json

definition choose_link :: "bool \<Rightarrow> json dict \<Rightarrow> link_kind res" where
  "choose_link has_callable config =
     (let timeout_ms = dict_get config ''timeout_ms'' (JInt 2000) in
      if has_callable then Inr Injected
      else (case map_of config ''host'' of
              Some host \<Rightarrow> Inr (Tcp host (dict_get config ''tcp_port'' (JInt 502)) timeout_ms)
            | None \<Rightarrow>
                res_bind (dict_item config ''port'') (\<lambda>port.
                  Inr (Rtu port (dict_get config ''baud'' (JInt 9600)) timeout_ms))))"

definition uses_tcp_framing :: "json dict \<Rightarrow> bool" where
  "uses_tcp_framing config =
     (map_of config ''host'' \<noteq> None \<or> dict_get config ''framing'' JNull = JStr ''tcp'')"

text \<open>A socket always gets TCP frames. A serial port gets them too when the configuration says so.\<close>

lemma link_framing:
  "choose_link c config = Inr (Tcp h p t) \<Longrightarrow> uses_tcp_framing config"
  "choose_link c config = Inr (Rtu p b t) \<Longrightarrow>
     uses_tcp_framing config \<longleftrightarrow> dict_get config ''framing'' JNull = JStr ''tcp''"
  by (auto simp: choose_link_def uses_tcp_framing_def Let_def res_inv split: if_splits option.splits)

section \<open>Reading a register\<close>

text \<open>The request that is sent, if one is, and the value.\<close>

type_synonym transport = "byte list \<Rightarrow> byte list res"

definition read_request :: "bool \<Rightarrow> int \<Rightarrow> int \<Rightarrow> register \<Rightarrow> (int \<times> byte list) res" where
  "read_request is_tcp tid unit_id reg =
     res_bind (need ''address'' (reg_address reg)) (\<lambda>address.
     res_bind (resolve_address address) (\<lambda>(func, offset).
       let count = reg_count (or_default ''u16'' (reg_type reg)) in
       res_bind (if is_tcp then build_read_tcp tid unit_id func offset count
                 else build_read_rtu unit_id func offset count) (\<lambda>request. Inr (func, request))))"

definition modbus_read :: "bool \<Rightarrow> transport \<Rightarrow> int \<Rightarrow> int \<Rightarrow> register \<Rightarrow> json res" where
  "modbus_read is_tcp tr tid unit_id reg =
     res_bind (read_request is_tcp tid unit_id reg) (\<lambda>(func, request).
     res_bind (tr request) (\<lambda>response.
     res_bind (if is_tcp then parse_read_tcp response tid func else parse_read_rtu response unit_id func) (\<lambda>regs.
       decode_value regs (or_default ''u16'' (reg_type reg)) (or_default (JInt 1) (reg_scale reg)))))"

section \<open>Emitting a value\<close>

type_synonym 'g emitter = "body \<Rightarrow> 'g \<Rightarrow> unit res \<times> 'g"

text \<open>The state of \<open>start\<close> between two registers.\<close>

record 'g poller =
  poll_tid :: int
  linked :: bool
  last_values :: "(string \<times> json) list"
  stats :: accs
  own :: adapter_state
  polls :: int
  sink :: 'g

definition emit_body ::
  "'g emitter \<Rightarrow> string \<Rightarrow> string \<Rightarrow> json dict \<Rightarrow> 'g poller \<Rightarrow> unit res \<times> 'g poller" where
  "emit_body emit schema profile_ref b p =
     (case emit (adapter_body schema profile_ref b None) (sink p) of (r, g) \<Rightarrow> (r, p\<lparr>sink := g\<rparr>))"

definition enum_text :: "json jdict \<Rightarrow> json \<Rightarrow> string" where
  "enum_text enum v = str_json (case jget enum v of None \<Rightarrow> v | Some w \<Rightarrow> w)"

definition emit_stats ::
  "'g emitter \<Rightarrow> string \<Rightarrow> json \<Rightarrow> string \<Rightarrow> json \<Rightarrow> emit_conf \<Rightarrow> json \<Rightarrow> 'g poller \<Rightarrow> unit res \<times> 'g poller" where
  "emit_stats emit profile_ref window_s now mono_now conf value p =
     (case res_bind (need ''channel'' (conf_channel conf)) (\<lambda>c. res_bind (need ''unit'' (conf_unit conf)) (\<lambda>u. Inr (c, u))) of
        Inl e \<Rightarrow> (Inl e, p)
      | Inr (c, u) \<Rightarrow>
          (case mb_add window_s c u value now mono_now (stats p) of
             (Inl e, s) \<Rightarrow> (Inl e, p\<lparr>stats := s\<rparr>)
           | (Inr None, s) \<Rightarrow> (Inr (), p\<lparr>stats := s\<rparr>)
           | (Inr (Some done), s) \<Rightarrow> emit_body emit ''telemetry'' profile_ref done (p\<lparr>stats := s\<rparr>)))"

definition increment_body :: "emit_conf \<Rightarrow> string \<Rightarrow> json \<Rightarrow> json dict res" where
  "increment_body conf name value =
     res_bind (need ''event_type'' (conf_event_type conf)) (\<lambda>t.
       Inr [(''event_type'', t), (''payload'', JObj [(or_default name (conf_payload_field conf), value)])])"

definition change_body :: "emit_conf \<Rightarrow> json \<Rightarrow> json \<Rightarrow> json dict" where
  "change_body conf prev value =
     [(''event_type'', or_default (JStr ''state_change'') (conf_event_type conf)),
      (''payload'', JObj [(''from_state'', JStr (enum_text (conf_enum conf) prev)),
                          (''to_state'', JStr (enum_text (conf_enum conf) value))])]"

definition emit_value ::
  "'g emitter \<Rightarrow> string \<Rightarrow> json \<Rightarrow> string \<Rightarrow> json \<Rightarrow> register \<Rightarrow> json \<Rightarrow> 'g poller \<Rightarrow> unit res \<times> 'g poller" where
  "emit_value emit profile_ref window_s now mono_now reg value p =
     (case res_bind (need ''emit'' (reg_emit reg)) (\<lambda>c. res_bind (need ''mode'' (conf_mode c)) (\<lambda>m.
            res_bind (need ''name'' (reg_name reg)) (\<lambda>n. Inr (c, m, n)))) of
        Inl e \<Rightarrow> (Inl e, p)
      | Inr (conf, mode, name) \<Rightarrow>
          if mode = ''stats'' then emit_stats emit profile_ref window_s now mono_now conf value p
          else
            let prev = map_of (last_values p) name; p = p\<lparr>last_values := AList.update name value (last_values p)\<rparr> in
            (case prev of
               None \<Rightarrow> (Inr (), p)
             | Some prev \<Rightarrow>
                 if mode = ''on_increment'' then
                   (case num_less prev value of
                      Inl e \<Rightarrow> (Inl e, p)
                    | Inr False \<Rightarrow> (Inr (), p)
                    | Inr True \<Rightarrow>
                        (case increment_body conf name value of
                           Inl e \<Rightarrow> (Inl e, p)
                         | Inr b \<Rightarrow> emit_body emit ''event'' profile_ref b p))
                 else if mode = ''on_change'' \<and> \<not> py_eq value prev then
                   emit_body emit ''event'' profile_ref (change_body conf prev value) p
                 else (Inr (), p)))"

section \<open>The polling loop\<close>

text \<open>
  One pass offers: whether the stop event is set, what connecting does, the transport of the link,
  the clock readings for each register, and whether the text of an exception is known. \<open>exc_str\<close> is
  \<open>str\<close> of an exception.
\<close>

record pass_env =
  halt :: bool
  connect :: "unit res"
  link :: transport
  connect_ts :: string
  data_ts :: "nat \<Rightarrow> string"
  sample_clock :: "nat \<Rightarrow> string \<times> json"

record modbus_conf =
  mapping_of :: mapping
  over_tcp :: bool
  unit_no :: int
  window_len :: json
  max_polls :: "int option"

definition next_tid :: "int \<Rightarrow> int" where
  "next_tid t = (t + 1) AND 0xFFFF"

fun poll_registers ::
  "modbus_conf \<Rightarrow> 'g emitter \<Rightarrow> pass_env \<Rightarrow> nat \<Rightarrow> register list \<Rightarrow> 'g poller \<Rightarrow> unit res \<times> 'g poller" where
  "poll_registers cfg emit env i [] p = (Inr (), p)"
| "poll_registers cfg emit env i (reg # regs) p =
     (let p = p\<lparr>poll_tid := next_tid (poll_tid p)\<rparr> in
      (case modbus_read (over_tcp cfg) (link env) (poll_tid p) (unit_no cfg) reg of
         Inl e \<Rightarrow> (Inl e, p)
       | Inr value \<Rightarrow>
           let p = p\<lparr>own := mark_data (data_ts env i) (own p)\<rparr> in
           (case emit_value emit (map_profile (mapping_of cfg)) (window_len cfg) (fst (sample_clock env i))
                   (snd (sample_clock env i)) reg value p of
              (Inl e, p) \<Rightarrow> (Inl e, p)
            | (Inr _, p) \<Rightarrow> poll_registers cfg emit env (Suc i) regs p)))"

definition drop_link :: "string \<Rightarrow> 'g poller \<Rightarrow> 'g poller" where
  "drop_link what p = p\<lparr>own := snd (backoff (mark_disconnected what (own p))), linked := False\<rparr>"

definition polls_used_up :: "modbus_conf \<Rightarrow> 'g poller \<Rightarrow> bool" where
  "polls_used_up cfg p = (case max_polls cfg of None \<Rightarrow> False | Some n \<Rightarrow> n \<noteq> 0 \<and> polls p \<ge> n)"

text \<open>The body of the loop; the flag says whether it goes on.\<close>

definition modbus_pass ::
  "(pyexn \<Rightarrow> string) \<Rightarrow> modbus_conf \<Rightarrow> 'g emitter \<Rightarrow> pass_env \<Rightarrow> 'g poller \<Rightarrow> bool \<times> 'g poller" where
  "modbus_pass exc_str cfg emit env p =
     (case (if linked p then Inr () else connect env) of
        Inl e \<Rightarrow> (True, drop_link (''connect: '' @ exc_str e) p)
      | Inr _ \<Rightarrow>
          let p = (if linked p then p else p\<lparr>linked := True, own := mark_connected (connect_ts env) (own p)\<rparr>) in
          (case poll_registers cfg emit env 0 (map_registers (mapping_of cfg)) p of
             (Inl (ModbusError m), p) \<Rightarrow>
               let p = p\<lparr>own := mark_degraded m (own p), polls := polls p + 1\<rparr> in (\<not> polls_used_up cfg p, p)
           | (Inl e, p) \<Rightarrow> (True, drop_link (exc_str e) p)
           | (Inr _, p) \<Rightarrow>
               let p = p\<lparr>polls := polls p + 1\<rparr> in (\<not> polls_used_up cfg p, p)))"

fun modbus_loop ::
  "(pyexn \<Rightarrow> string) \<Rightarrow> modbus_conf \<Rightarrow> 'g emitter \<Rightarrow> pass_env list \<Rightarrow> 'g poller \<Rightarrow> 'g poller" where
  "modbus_loop exc_str cfg emit [] p = p"
| "modbus_loop exc_str cfg emit (env # envs) p =
     (if halt env then p
      else (case modbus_pass exc_str cfg emit env p of
              (True, p) \<Rightarrow> modbus_loop exc_str cfg emit envs p
            | (False, p) \<Rightarrow> p))"

fun emit_all :: "'g emitter \<Rightarrow> string \<Rightarrow> json dict list \<Rightarrow> 'g poller \<Rightarrow> unit res \<times> 'g poller" where
  "emit_all emit profile_ref [] p = (Inr (), p)"
| "emit_all emit profile_ref (b # bs) p =
     (case emit_body emit ''telemetry'' profile_ref b p of
        (Inl e, p) \<Rightarrow> (Inl e, p)
      | (Inr _, p) \<Rightarrow> emit_all emit profile_ref bs p)"

definition new_poller :: "adapter_state \<Rightarrow> 'g \<Rightarrow> 'g poller" where
  "new_poller a g = \<lparr>poll_tid = 0, linked = False, last_values = [], stats = [], own = a, polls = 0, sink = g\<rparr>"

definition modbus_start ::
  "(pyexn \<Rightarrow> string) \<Rightarrow> modbus_conf \<Rightarrow> 'g emitter \<Rightarrow> string \<Rightarrow> pass_env list \<Rightarrow> adapter_state \<Rightarrow> 'g \<Rightarrow> unit res \<times> 'g poller" where
  "modbus_start exc_str cfg emit end_ts envs a g =
     (let p = modbus_loop exc_str cfg emit envs (new_poller a g) in
      (case mb_flush end_ts (stats p) of
         (Inl e, s) \<Rightarrow> (Inl e, p\<lparr>stats := s\<rparr>)
       | (Inr bs, s) \<Rightarrow> emit_all emit (map_profile (mapping_of cfg)) bs (p\<lparr>stats := s\<rparr>)))"

section \<open>Read-only\<close>

lemma resolve_address_range:
  assumes "resolve_address address = Inr (func, offset)"
  shows "(func = 3 \<or> func = 4) \<and> 0 \<le> offset \<and> offset < 10000"
  using assms by (auto simp: resolve_address_def read_holding_def read_input_def split: if_splits)

lemma pack_Inr:
  "pack_H v = Inr bs \<longleftrightarrow> u16 v \<and> bs = reg_bytes v"
  "pack_B v = Inr bs \<longleftrightarrow> 0 \<le> v \<and> v < 256 \<and> bs = [word_of_int v]"
  by (auto simp: pack_H_def pack_B_def u16_def reg_bytes_def)

lemma tcp_request:
  assumes "build_read_tcp tid unit_id func offset count = Inr request" "0 \<le> func" "func < 256"
  shows "length request = 12 \<and> uint (request ! 7) = func"
proof -
  from assms(1) have "request = (reg_bytes tid @ reg_bytes 0 @ reg_bytes 6 @ [word_of_int unit_id])
      @ [word_of_int func] @ reg_bytes offset @ reg_bytes count"
    by (auto simp: build_read_tcp_def res_inv pack_Inr) (simp add: reg_bytes_def)
  then show ?thesis using uint_byte [OF assms(2,3)] by (simp add: reg_bytes_def eval_nat_numeral)
qed

lemma rtu_request:
  assumes "build_read_rtu unit_id func offset count = Inr request" "0 \<le> func" "func < 256"
  shows "length request = 8 \<and> uint (request ! 1) = func"
proof -
  from assms(1) obtain c where "request = ([word_of_int unit_id] @ [word_of_int func] @ reg_bytes offset @ reg_bytes count) @ rev (reg_bytes c)"
    by (auto simp: build_read_rtu_def res_inv pack_Inr pack_le_H_def)
  then show ?thesis using uint_byte [OF assms(2,3)] by (simp add: reg_bytes_def)
qed

text \<open>C17: The edge is read-only: whatever the mapping file says, every request the adapter builds is a frame whose
  function code is 3 (read holding registers) or 4 (read input registers); no mapping makes it write.\<close>

theorem requests_only_read:
  assumes "read_request is_tcp tid unit_id reg = Inr (func, request)"
  shows "(func = 3 \<or> func = 4)
    \<and> (if is_tcp then length request = 12 \<and> uint (request ! 7) = func else length request = 8 \<and> uint (request ! 1) = func)"
proof -
  from assms obtain address offset count where
    a: "resolve_address address = Inr (func, offset)"
    and b: "(if is_tcp then build_read_tcp tid unit_id func offset count else build_read_rtu unit_id func offset count) = Inr request"
    by (cases is_tcp) (auto simp: read_request_def res_inv Let_def split: prod.splits)
  note f = resolve_address_range [OF a]
  show ?thesis
    using f b tcp_request [of tid unit_id func offset count request] rtu_request [of unit_id func offset count request]
    by (cases is_tcp) auto
qed

definition speed_register :: register where
  "speed_register = \<lparr>reg_name = Some ''speed'', reg_address = Some 30005, reg_type = None, reg_scale = None, reg_emit = None\<rparr>"

theorem requests_only_read_witness:
  "\<exists>request. read_request True 1 17 speed_register = Inr (4, request) \<and> uint (request ! 7) = 4"
proof -
  have "\<exists>request. read_request True 1 17 speed_register = Inr (4, request)"
    by (simp add: read_request_def speed_register_def resolve_address_def read_holding_def read_input_def or_default_def
        reg_count_def build_read_tcp_def pack_B_def pack_H_def)
  then obtain request where r: "read_request True 1 17 speed_register = Inr (4, request)" ..
  from requests_only_read [OF this] r show ?thesis by auto
qed

section \<open>Events of a register\<close>

text \<open>
  The bodies a list of integer readings of one register leads to, with a sink that collects them. The readings are given to
  \<open>emit_value\<close> one after the other, as \<open>poll_registers\<close> gives those of successive polls.
\<close>

definition collect :: "body list emitter" where
  "collect b bs = (Inr (), bs @ [b])"

fun emit_readings :: "string \<Rightarrow> register \<Rightarrow> int list \<Rightarrow> body list poller \<Rightarrow> unit res \<times> body list poller" where
  "emit_readings profile_ref reg [] p = (Inr (), p)"
| "emit_readings profile_ref reg (v # vs) p =
     (case emit_value collect profile_ref (JInt 60) [] (JInt 0) reg (JInt v) p of
        (Inl e, p) \<Rightarrow> (Inl e, p)
      | (Inr _, p) \<Rightarrow> emit_readings profile_ref reg vs p)"

text \<open>The readings that are greater than the one before.\<close>

fun increments :: "int \<Rightarrow> int list \<Rightarrow> int list" where
  "increments prev [] = []"
| "increments prev (v # vs) = (if prev < v then v # increments v vs else increments v vs)"

fun changes :: "int \<Rightarrow> int list \<Rightarrow> (int \<times> int) list" where
  "changes prev [] = []"
| "changes prev (v # vs) = (if prev \<noteq> v then (prev, v) # changes v vs else changes v vs)"

definition counter_register :: "string \<Rightarrow> string \<Rightarrow> json \<Rightarrow> json jdict \<Rightarrow> register" where
  "counter_register name mode event_type enum =
     \<lparr>reg_name = Some name, reg_address = Some 40001, reg_type = None, reg_scale = None,
      reg_emit = Some \<lparr>conf_mode = Some mode, conf_schema = Some ''event'', conf_channel = None, conf_unit = None,
        conf_event_type = Some event_type, conf_payload_field = None, conf_enum = enum\<rparr>\<rparr>"

definition increment_event :: "string \<Rightarrow> string \<Rightarrow> json \<Rightarrow> int \<Rightarrow> body" where
  "increment_event profile_ref name event_type v =
     adapter_body ''event'' profile_ref [(''event_type'', event_type), (''payload'', JObj [(name, JInt v)])] None"

definition change_event :: "string \<Rightarrow> json \<Rightarrow> json jdict \<Rightarrow> int \<times> int \<Rightarrow> body" where
  "change_event profile_ref event_type enum pv =
     adapter_body ''event'' profile_ref
       [(''event_type'', event_type),
        (''payload'', JObj [(''from_state'', JStr (enum_text enum (JInt (fst pv)))),
                            (''to_state'', JStr (enum_text enum (JInt (snd pv))))])] None"

lemma num_less_int [simp]: "num_less (JInt i) (JInt j) = Inr (i < j)"
  by (simp add: num_less_def)

lemma py_eq_int [simp]: "py_eq (JInt i) (JInt j) \<longleftrightarrow> i = j"
  by (simp add: py_eq_def num_same_def)

lemma increment_step:
  assumes "map_of (last_values p) name = Some (JInt prev)"
  shows "\<exists>p'. emit_value collect pr w now t (counter_register name ''on_increment'' et enum) (JInt v) p = (Inr (), p')
    \<and> map_of (last_values p') name = Some (JInt v)
    \<and> sink p' = sink p @ (if prev < v then [increment_event pr name et v] else [])"
  using assms by (simp add: emit_value_def counter_register_def Let_def increment_body_def emit_body_def collect_def
      or_default_def increment_event_def)

lemma change_step:
  assumes "map_of (last_values p) name = Some (JInt prev)"
  shows "\<exists>p'. emit_value collect pr w now t (counter_register name ''on_change'' et enum) (JInt v) p = (Inr (), p')
    \<and> map_of (last_values p') name = Some (JInt v)
    \<and> sink p' = sink p @ (if prev \<noteq> v then [change_event pr et enum (prev, v)] else [])"
  using assms by (auto simp: emit_value_def counter_register_def Let_def change_body_def emit_body_def collect_def
      or_default_def change_event_def)

lemma first_reading:
  assumes "map_of (last_values p) name = None" "mode \<noteq> ''stats''"
  shows "\<exists>p'. emit_value collect pr w now t (counter_register name mode et enum) (JInt v) p = (Inr (), p')
    \<and> map_of (last_values p') name = Some (JInt v) \<and> sink p' = sink p"
  using assms by (simp add: emit_value_def counter_register_def Let_def)

lemma increment_run:
  "map_of (last_values p) name = Some (JInt prev) \<Longrightarrow>
     \<exists>p'. emit_readings pr (counter_register name ''on_increment'' et enum) vs p = (Inr (), p')
       \<and> sink p' = sink p @ map (increment_event pr name et) (increments prev vs)"
proof (induction vs arbitrary: p prev)
  case (Cons v vs)
  from increment_step [OF Cons.prems] obtain p1 where
    p1: "emit_value collect pr (JInt 60) [] (JInt 0) (counter_register name ''on_increment'' et enum) (JInt v) p = (Inr (), p1)"
      "map_of (last_values p1) name = Some (JInt v)"
      "sink p1 = sink p @ (if prev < v then [increment_event pr name et v] else [])" by blast
  from Cons.IH [OF p1(2)] p1 show ?case by auto
qed simp

lemma change_run:
  "map_of (last_values p) name = Some (JInt prev) \<Longrightarrow>
     \<exists>p'. emit_readings pr (counter_register name ''on_change'' et enum) vs p = (Inr (), p')
       \<and> sink p' = sink p @ map (change_event pr et enum) (changes prev vs)"
proof (induction vs arbitrary: p prev)
  case (Cons v vs)
  from change_step [OF Cons.prems] obtain p1 where
    p1: "emit_value collect pr (JInt 60) [] (JInt 0) (counter_register name ''on_change'' et enum) (JInt v) p = (Inr (), p1)"
      "map_of (last_values p1) name = Some (JInt v)"
      "sink p1 = sink p @ (if prev \<noteq> v then [change_event pr et enum (prev, v)] else [])" by blast
  from Cons.IH [OF p1(2)] p1 show ?case by auto
qed simp


section \<open>The loop and the health of the link\<close>

lemma mark_data_state [simp]: "state (health_of (mark_data ts a)) = state (health_of a)"
  by (simp add: mark_data_def)

definition same_health :: "'g poller \<Rightarrow> 'g poller \<Rightarrow> bool" where
  "same_health p q = (own q = own p \<and> linked q = linked p \<and> polls q = polls p)"

lemma emit_body_own: "emit_body emit s pr b p = (r, p') \<Longrightarrow> same_health p p'"
  by (auto simp: emit_body_def same_health_def split: prod.splits)

lemma emit_stats_own:
  assumes "emit_stats emit pr w now t conf v p = (r, p')"
  shows "same_health p p'"
proof -
  have "same_health p p" "same_health p (p\<lparr>stats := s\<rparr>)" for s by (simp_all add: same_health_def)
  moreover have "same_health (p\<lparr>stats := s\<rparr>) p' \<Longrightarrow> same_health p p'" for s by (simp add: same_health_def)
  ultimately show ?thesis
    using assms unfolding emit_stats_def
    by (auto split: sum.splits prod.splits option.splits dest!: emit_body_own)
qed

lemma emit_value_own:
  assumes "emit_value emit pr w now t reg v p = (r, p')"
  shows "same_health p p'"
proof -
  have same: "same_health p p" "\<And>l. same_health p (p\<lparr>last_values := l\<rparr>)"
    "\<And>l. same_health (p\<lparr>last_values := l\<rparr>) p' \<Longrightarrow> same_health p p'" by (simp_all add: same_health_def)
  show ?thesis
  proof (cases "res_bind (need ''emit'' (reg_emit reg)) (\<lambda>c. res_bind (need ''mode'' (conf_mode c)) (\<lambda>m.
            res_bind (need ''name'' (reg_name reg)) (\<lambda>n. Inr (c, m, n))))")
    case (Inl e)
    with assms same show ?thesis by (simp add: emit_value_def)
  next
    case (Inr cmn)
    obtain conf mode name where cmn: "cmn = (conf, mode, name)" by (cases cmn)
    show ?thesis
    proof (cases "mode = ''stats'' \<or> map_of (last_values p) name = None")
      case True
      with assms Inr same show ?thesis
        by (auto simp: emit_value_def cmn Let_def dest!: emit_stats_own split: if_splits)
    next
      case False
      then obtain prev where "mode \<noteq> ''stats''" "map_of (last_values p) name = Some prev" by auto
      with assms Inr same show ?thesis
        by (cases "num_less prev v"; cases "increment_body conf name v")
          (auto simp: emit_value_def cmn Let_def dest!: emit_body_own split: if_splits bool.splits)
    qed
  qed
qed

lemma poll_registers_state:
  "poll_registers cfg emit env i regs p = (r, p') \<Longrightarrow>
     state (health_of (own p')) = state (health_of (own p)) \<and> linked p' = linked p \<and> polls p' = polls p"
proof (induction regs arbitrary: i p)
  case (Cons reg regs)
  let ?p = "p\<lparr>poll_tid := next_tid (poll_tid p)\<rparr>"
  show ?case
  proof (cases "modbus_read (over_tcp cfg) (link env) (poll_tid ?p) (unit_no cfg) reg")
    case (Inl e)
    with Cons.prems show ?thesis by (auto simp: Let_def)
  next
    case (Inr v)
    obtain r1 p1 where e: "emit_value emit (map_profile (mapping_of cfg)) (window_len cfg) (fst (sample_clock env i))
        (snd (sample_clock env i)) reg v (?p\<lparr>own := mark_data (data_ts env i) (own ?p)\<rparr>) = (r1, p1)"
      by (meson surj_pair)
    note o = emit_value_own [OF e, unfolded same_health_def]
    show ?thesis
    proof (cases r1)
      case (Inl x)
      with Cons.prems Inr e o show ?thesis by (auto simp: Let_def)
    next
      case r1: (Inr u)
      with Cons.prems Inr e have "poll_registers cfg emit env (Suc i) regs p1 = (r, p')" by (auto simp: Let_def)
      from Cons.IH [OF this] o show ?thesis by auto
    qed
  qed
qed simp

definition health_honest :: "'g poller \<Rightarrow> bool" where
  "health_honest p = (linked p \<longleftrightarrow> state (health_of (own p)) \<in> {''ok'', ''degraded''})"

lemma drop_link_honest [simp]: "health_honest (drop_link what p)"
  by (simp add: health_honest_def drop_link_def backoff_def mark_disconnected_def mark_error_def)

lemma modbus_pass_honest:
  assumes "health_honest p" "modbus_pass exc_str cfg emit env p = (goes_on, p')"
  shows "health_honest p'"
proof (cases "if linked p then Inr () else connect env")
  case (Inl e)
  with assms show ?thesis by (auto simp: modbus_pass_def)
next
  case (Inr u)
  define q where "q = (if linked p then p else p\<lparr>linked := True, own := mark_connected (connect_ts env) (own p)\<rparr>)"
  have q: "linked q" "state (health_of (own q)) \<in> {''ok'', ''degraded''}"
    using assms(1) by (auto simp: q_def health_honest_def mark_connected_def Let_def)
  obtain r p1 where p1: "poll_registers cfg emit env 0 (map_registers (mapping_of cfg)) q = (r, p1)" by (meson surj_pair)
  from poll_registers_state [OF p1] q have h: "linked p1" "state (health_of (own p1)) \<in> {''ok'', ''degraded''}" by auto
  have m: "modbus_pass exc_str cfg emit env p =
    (case (r, p1) of
             (Inl (ModbusError m), p) \<Rightarrow>
               let p = p\<lparr>own := mark_degraded m (own p), polls := polls p + 1\<rparr> in (\<not> polls_used_up cfg p, p)
           | (Inl e, p) \<Rightarrow> (True, drop_link (exc_str e) p)
           | (Inr _, p) \<Rightarrow>
               let p = p\<lparr>polls := polls p + 1\<rparr> in (\<not> polls_used_up cfg p, p))"
    using Inr p1 unfolding modbus_pass_def Let_def q_def by simp
  show ?thesis
  proof (cases r)
    case e: (Inl e)
    show ?thesis
    proof (cases "\<exists>m. e = ModbusError m")
      case True
      with e assms(2) m h show ?thesis
        by (auto simp: Let_def health_honest_def mark_degraded_def mark_error_def)
    next
      case False
      with e assms(2) m have "p' = drop_link (exc_str e) p1" by (cases e) auto
      then show ?thesis by simp
    qed
  next
    case (Inr u)
    with assms(2) m h show ?thesis by (auto simp: Let_def health_honest_def)
  qed
qed

text \<open>The reported health follows the link: whatever the connection, the device, the mapping and the sink do, after
  any number of passes of the polling loop the state is ok or degraded exactly when the link is up, for an adapter
  that does not start out in one of these states.\<close>

theorem modbus_health_honest:
  assumes "state (health_of a) \<notin> {''ok'', ''degraded''}" "p = modbus_loop exc_str cfg emit envs (new_poller a g)"
  shows "linked p \<longleftrightarrow> state (health_of (own p)) \<in> {''ok'', ''degraded''}"
proof -
  have "health_honest q \<Longrightarrow> health_honest (modbus_loop exc_str cfg emit envs q)" for q
  proof (induction envs arbitrary: q)
    case (Cons env envs)
    obtain goes_on q' where q': "modbus_pass exc_str cfg emit env q = (goes_on, q')" by (meson surj_pair)
    from modbus_pass_honest [OF Cons.prems q'] Cons.IH [of q'] Cons.prems q' show ?case
      by (cases goes_on) auto
  qed simp
  moreover have "health_honest (new_poller a g)" using assms(1) by (simp add: health_honest_def new_poller_def)
  ultimately show ?thesis unfolding assms(2) health_honest_def by blast
qed

definition silent_env :: pass_env where
  "silent_env = \<lparr>halt = False, connect = Inl (OtherError ''timeout''), link = (\<lambda>_. Inr []), connect_ts = [],
     data_ts = (\<lambda>_. []), sample_clock = (\<lambda>_. ([], JInt 0))\<rparr>"

theorem modbus_health_honest_witness:
  "\<not> linked (modbus_loop exn_text \<lparr>mapping_of = \<lparr>map_profile = [], map_machine_class = [], map_registers = []\<rparr>,
       over_tcp = True, unit_no = 1, window_len = JInt 60, max_polls = None\<rparr> collect [silent_env] (new_poller new_adapter []))"
  using modbus_health_honest [of new_adapter _ exn_text "\<lparr>mapping_of = \<lparr>map_profile = [], map_machine_class = [], map_registers = []\<rparr>,
       over_tcp = True, unit_no = 1, window_len = JInt 60, max_polls = None\<rparr>" collect "[silent_env]" "[]", OF _ refl]
  by (simp add: new_adapter_def initial_health_def silent_env_def modbus_pass_def drop_link_def new_poller_def backoff_def
      mark_disconnected_def mark_error_def)

end
