(* ===== verification/Serial.thy ===== *)
theory Serial
  imports Stats Adapter_Base Py_Text
begin

text \<open>
  \<open>adapters/generic-serial/protocol.py\<close> and \<open>adapter.py\<close>: lines of a legacy controller, matched against
  the patterns of a line profile, become events and samples. The regular expressions are a library:
  a compiled pattern is a function from a line to the named groups of its match at the start, \<open>None\<close>
  for a group that did not take part. The line profile is the parsed YAML, a value of type \<open>json\<close>.
\<close>

section \<open>Line profiles\<close>

type_synonym groups = "(string \<times> string option) list"
type_synonym matcher = "string \<Rightarrow> groups option"

record line_profile =
  lp_profile :: string
  lp_machine_class :: string
  lp_patterns :: "json list"
  lp_compiled :: "(matcher \<times> json) list"

definition line_profile_of :: "(string \<Rightarrow> matcher res) \<Rightarrow> json \<Rightarrow> line_profile res" where
  "line_profile_of compile data =
     res_bind (get_item data ''profile'') (\<lambda>p. res_bind (as_str p) (\<lambda>pr.
     res_bind (get_item data ''machine_class'') (\<lambda>c. res_bind (as_str c) (\<lambda>cls.
     res_bind (get_or data ''patterns'' (JList [])) (\<lambda>ps. res_bind (as_list ps) (\<lambda>patterns.
     res_bind (res_map (\<lambda>p. res_bind (get_item p ''match'') (\<lambda>m. res_bind (as_str m) (\<lambda>m.
                 res_bind (compile m) (\<lambda>rx. res_bind (get_item p ''emit'') (\<lambda>e. Inr (rx, e)))))) patterns) (\<lambda>compiled.
       Inr \<lparr>lp_profile = pr, lp_machine_class = cls, lp_patterns = patterns, lp_compiled = compiled\<rparr>)))))))"

section \<open>One line\<close>

definition num_of :: "string option \<Rightarrow> json res" where
  "num_of raw =
     (case raw of
        None \<Rightarrow> Inl TypeError
      | Some s \<Rightarrow>
          (case parse_float s of
             None \<Rightarrow> Inr (JStr s)
           | Some f \<Rightarrow>
               res_bind (float_to_int f) (\<lambda>i. Inr (if equals_int (JFloat f) i then JInt i else JFloat f))))"

datatype emission = Telemetry json json json | Event "json dict"

definition group_json :: "string option \<Rightarrow> json" where
  "group_json g = (case g of None \<Rightarrow> JNull | Some s \<Rightarrow> JStr s)"

text \<open>\<open>groups[v]\<close>\<close>

definition group_of :: "groups \<Rightarrow> json \<Rightarrow> string option res" where
  "group_of gs v =
     (if \<not> hashable v then Inl TypeError
      else (case lookup_key (map_of gs) v of None \<Rightarrow> Inl (KeyError (str_json v)) | Some g \<Rightarrow> Inr g))"

text \<open>
  The value of a payload field: a string that names a group is replaced by what the group captured,
  any other value is taken as it is.
\<close>

definition payload_value :: "groups \<Rightarrow> json \<Rightarrow> json" where
  "payload_value gs ref =
     (case ref of
        JStr s \<Rightarrow> (case map_of gs s of None \<Rightarrow> ref | Some g \<Rightarrow> group_json g)
      | _ \<Rightarrow> ref)"

definition event_emission :: "groups \<Rightarrow> json \<Rightarrow> emission res" where
  "event_emission gs emit =
     res_bind (get_or emit ''payload'' JNull) (\<lambda>p.
     res_bind (if \<not> truthy p then Inr [] else (case p of JObj d \<Rightarrow> Inr d | _ \<Rightarrow> Inl (OtherError ''AttributeError''))) (\<lambda>fields.
     let payload = foldl (\<lambda>d kv. AList.update (fst kv) (payload_value gs (snd kv)) d) [] fields in
     res_bind (get_item emit ''event_type'') (\<lambda>t.
       Inr (Event ([(''event_type'', t)] @ (if payload \<noteq> [] then [(''payload'', JObj payload)] else []))))))"

definition telemetry_emission :: "groups \<Rightarrow> json \<Rightarrow> emission res" where
  "telemetry_emission gs emit =
     res_bind (get_item emit ''value'') (\<lambda>v. res_bind (group_of gs v) (\<lambda>raw.
     res_bind (get_item emit ''channel'') (\<lambda>c. res_bind (get_item emit ''unit'') (\<lambda>u.
     res_bind (num_of raw) (\<lambda>x. Inr (Telemetry c u x))))))"

definition emission_of :: "groups \<Rightarrow> json \<Rightarrow> emission res" where
  "emission_of gs emit =
     res_bind (get_item emit ''schema'') (\<lambda>s.
     if s = JStr ''telemetry'' then telemetry_emission gs emit
     else if s = JStr ''event'' then event_emission gs emit
     else Inl (ValueError (''line profile emit schema '' @ repr_json s @ '' unsupported'')))"

fun first_match :: "(matcher \<times> json) list \<Rightarrow> string \<Rightarrow> emission option res" where
  "first_match [] line = Inr None"
| "first_match ((rx, emit) # ps) line =
     (case rx line of
        None \<Rightarrow> first_match ps line
      | Some gs \<Rightarrow> res_bind (emission_of gs emit) (\<lambda>e. Inr (Some e)))"

definition parse_line :: "line_profile \<Rightarrow> string \<Rightarrow> emission option res" where
  "parse_line lp line =
     (let l = strip line in if l = [] then Inr None else first_match (lp_compiled lp) l)"

section \<open>The adapter\<close>

text \<open>The capabilities \<open>probe\<close> reports; the probe line of real hardware is not modelled.\<close>

definition serial_capabilities :: "line_profile \<Rightarrow> string list res" where
  "serial_capabilities lp =
     res_bind (res_map (\<lambda>p. res_bind (get_item p ''emit'') (\<lambda>e. res_bind (get_item e ''schema'') (\<lambda>s.
                 Inr (if s = JStr ''telemetry'' then ''telemetry'' else ''event'')))) (lp_patterns lp)) (\<lambda>cs.
       Inr (sort (remdups cs)))"

record 'g serial_run =
  run_stats :: accs
  run_own :: adapter_state
  run_sink :: 'g

text \<open>The clock readings while a line is handled: the mark, the sample's time stamp and monotonic time.\<close>

record line_clock =
  mark_ts :: string
  line_ts :: string
  line_mono :: json

definition send ::
  "(body \<Rightarrow> 'g \<Rightarrow> unit res \<times> 'g) \<Rightarrow> string \<Rightarrow> string \<Rightarrow> json dict \<Rightarrow> 'g serial_run \<Rightarrow> unit res \<times> 'g serial_run" where
  "send emit schema profile_ref b r =
     (case emit (adapter_body schema profile_ref b None) (run_sink r) of (x, g) \<Rightarrow> (x, r\<lparr>run_sink := g\<rparr>))"

definition handle_line ::
  "(pyexn \<Rightarrow> string) \<Rightarrow> (body \<Rightarrow> 'g \<Rightarrow> unit res \<times> 'g) \<Rightarrow> line_profile \<Rightarrow> json \<Rightarrow> line_clock \<Rightarrow> string
     \<Rightarrow> 'g serial_run \<Rightarrow> unit res \<times> 'g serial_run" where
  "handle_line exc_str emit lp window_s clock line r =
     (case parse_line lp line of
        Inl e \<Rightarrow>
          if is_value_error e then (Inr (), r\<lparr>run_own := mark_degraded (exc_str e) (run_own r)\<rparr>) else (Inl e, r)
      | Inr None \<Rightarrow> (Inr (), r)
      | Inr (Some em) \<Rightarrow>
          let r = r\<lparr>run_own := mark_data (mark_ts clock) (run_own r)\<rparr> in
          (case em of
             Event b \<Rightarrow> send emit ''event'' (lp_profile lp) b r
           | Telemetry c u v \<Rightarrow>
               (case agg_add window_s c u v (line_ts clock) (line_mono clock) (run_stats r) of
                  (Inl e, s) \<Rightarrow> (Inl e, r\<lparr>run_stats := s\<rparr>)
                | (Inr None, s) \<Rightarrow> (Inr (), r\<lparr>run_stats := s\<rparr>)
                | (Inr (Some done), s) \<Rightarrow> send emit ''telemetry'' (lp_profile lp) done (r\<lparr>run_stats := s\<rparr>))))"

text \<open>The replayed lines; each with whether the stop event is set before it.\<close>

fun handle_lines ::
  "(pyexn \<Rightarrow> string) \<Rightarrow> (body \<Rightarrow> 'g \<Rightarrow> unit res \<times> 'g) \<Rightarrow> line_profile \<Rightarrow> json
     \<Rightarrow> (bool \<times> line_clock \<times> string) list \<Rightarrow> 'g serial_run \<Rightarrow> unit res \<times> 'g serial_run" where
  "handle_lines exc_str emit lp window_s [] r = (Inr (), r)"
| "handle_lines exc_str emit lp window_s ((stop, clock, line) # ls) r =
     (if stop then (Inr (), r)
      else (case handle_line exc_str emit lp window_s clock line r of
              (Inl e, r) \<Rightarrow> (Inl e, r)
            | (Inr _, r) \<Rightarrow> handle_lines exc_str emit lp window_s ls r))"

definition run_lines ::
  "(pyexn \<Rightarrow> string) \<Rightarrow> (body \<Rightarrow> 'g \<Rightarrow> unit res \<times> 'g) \<Rightarrow> line_profile \<Rightarrow> json \<Rightarrow> string
     \<Rightarrow> (bool \<times> line_clock \<times> string) list \<Rightarrow> 'g serial_run \<Rightarrow> unit res \<times> 'g serial_run" where
  "run_lines exc_str emit lp window_s now ls r =
     handle_lines exc_str emit lp window_s ls (r\<lparr>run_own := mark_connected now (run_own r)\<rparr>)"

fun send_all ::
  "(body \<Rightarrow> 'g \<Rightarrow> unit res \<times> 'g) \<Rightarrow> string \<Rightarrow> json dict list \<Rightarrow> 'g serial_run \<Rightarrow> unit res \<times> 'g serial_run" where
  "send_all emit profile_ref [] r = (Inr (), r)"
| "send_all emit profile_ref (b # bs) r =
     (case send emit ''telemetry'' profile_ref b r of
        (Inl e, r) \<Rightarrow> (Inl e, r)
      | (Inr _, r) \<Rightarrow> send_all emit profile_ref bs r)"

definition serial_flush ::
  "(body \<Rightarrow> 'g \<Rightarrow> unit res \<times> 'g) \<Rightarrow> line_profile \<Rightarrow> string \<Rightarrow> 'g serial_run \<Rightarrow> unit res \<times> 'g serial_run" where
  "serial_flush emit lp end_ts r =
     (case agg_flush end_ts (run_stats r) of
        (Inl e, s) \<Rightarrow> (Inl e, r\<lparr>run_stats := s\<rparr>)
      | (Inr bs, s) \<Rightarrow> send_all emit (lp_profile lp) bs (r\<lparr>run_stats := s\<rparr>))"

text \<open>\<open>start\<close> in replay mode.\<close>

definition serial_replay ::
  "(pyexn \<Rightarrow> string) \<Rightarrow> (body \<Rightarrow> 'g \<Rightarrow> unit res \<times> 'g) \<Rightarrow> (string \<Rightarrow> matcher res) \<Rightarrow> json \<Rightarrow> json \<Rightarrow> string
     \<Rightarrow> (bool \<times> line_clock \<times> string) list \<Rightarrow> string \<Rightarrow> adapter_state \<Rightarrow> 'g \<Rightarrow> unit res \<times> 'g serial_run" where
  "serial_replay exc_str emit compile data window_s now ls end_ts a g =
     (let r = \<lparr>run_stats = [], run_own = a, run_sink = g\<rparr> in
      case line_profile_of compile data of
        Inl e \<Rightarrow> (Inl e, r)
      | Inr lp \<Rightarrow>
          (case run_lines exc_str emit lp window_s now ls r of
             (Inl e, r) \<Rightarrow> (Inl e, r)
           | (Inr _, r) \<Rightarrow> serial_flush emit lp end_ts r))"

section \<open>Numbers on the line\<close>

text \<open>A reading that is the decimal text of an integer of at most 2^53 in magnitude is taken as that very integer, so
  that the body it ends up in has a canonical form.\<close>

theorem integer_reading_exact:
  assumes "\<bar>i\<bar> \<le> 2 ^ 53"
  shows "num_of (Some (show_int i)) = Inr (JInt i)"
proof (cases "i < 0")
  case True
  then have "neg_float (Fin (of_nat (nat \<bar>i\<bar>))) = Fin (of_int i)" by (simp add: neg_float_def)
  with True parse_float_show_int [OF assms] show ?thesis by (simp add: num_of_def equals_int_def)
next
  case False
  then have "Fin (of_nat (nat \<bar>i\<bar>)) = Fin (of_int i)" by simp
  with False parse_float_show_int [OF assms] show ?thesis by (simp add: num_of_def equals_int_def)
qed

theorem integer_reading_exact_witness:
  "num_of (Some (show_int (- 40))) = Inr (JInt (- 40))"
  by (rule integer_reading_exact) simp

text \<open>A reading of infinity ends the adapter: a line whose captured value is a spelling of infinity raises
  \<open>OverflowError\<close>, which the handler does not catch, so the exception leaves \<open>start\<close>; a spelling of NaN raises
  \<open>ValueError\<close> and only degrades the health.\<close>

definition temp_emit :: json where
  "temp_emit = JObj [(''schema'', JStr ''telemetry''), (''value'', JStr ''t''), (''channel'', JStr ''temp''), (''unit'', JStr ''Cel'')]"

definition temp_profile :: "line_profile" where
  "temp_profile = \<lparr>lp_profile = ''generic/0.1'', lp_machine_class = ''oven'', lp_patterns = [],
     lp_compiled = [(\<lambda>line. Some [(''t'', Some line)], temp_emit)]\<rparr>"

lemma temp_line: "strip line \<noteq> [] \<Longrightarrow> parse_line temp_profile line =
    res_bind (num_of (Some (strip line))) (\<lambda>x. Inr (Some (Telemetry (JStr ''temp'') (JStr ''Cel'') x)))"
  by (cases "num_of (Some (strip line))")
    (simp_all add: parse_line_def temp_profile_def emission_of_def temp_emit_def telemetry_emission_def dict_item_def group_of_def Let_def)

theorem infinite_reading_escapes:
  assumes "strip line \<in> {''inf'', ''-inf'', ''infinity''}"
  shows "handle_line exc_str emit temp_profile w clock line r = (Inl OverflowError, r)
    \<and> fst (handle_line exc_str emit temp_profile w clock ''nan'' r) = Inr ()"
proof
  have f: "parse_float s \<in> {Some PosInf, Some NegInf}" if "s \<in> {''inf'', ''-inf'', ''infinity''}" for s
    using that
    by (auto simp: parse_float_def exp_sign_def strip_def lstrip_def is_space_def lower_char_def Let_def)
  from f [OF assms] have "num_of (Some (strip line)) = Inl OverflowError" by (auto simp: num_of_def)
  with assms show "handle_line exc_str emit temp_profile w clock line r = (Inl OverflowError, r)"
    by (auto simp: handle_line_def temp_line)
  have "strip ''nan'' = ''nan''" by (simp add: strip_def lstrip_def is_space_def)
  moreover have "num_of (Some ''nan'') = Inl (ValueError ''cannot convert float NaN to integer'')"
    by (simp add: num_of_def parse_float_def exp_sign_def strip_def lstrip_def is_space_def lower_char_def Let_def)
  ultimately show "fst (handle_line exc_str emit temp_profile w clock ''nan'' r) = Inr ()"
    by (simp add: handle_line_def temp_line)
qed

theorem infinite_reading_escapes_witness:
  "fst (handle_line exn_text (\<lambda>b g. (Inr (), g)) temp_profile (JInt 60) \<lparr>mark_ts = [], line_ts = [], line_mono = JInt 0\<rparr> ''inf''
     \<lparr>run_stats = [], run_own = new_adapter, run_sink = ()\<rparr>) = Inl OverflowError"
proof -
  have "strip ''inf'' \<in> {''inf'', ''-inf'', ''infinity''}" by (simp add: strip_def lstrip_def is_space_def)
  note escapes = infinite_reading_escapes [OF this, THEN conjunct1]
  show ?thesis by (simp only: escapes fst_conv)
qed

text \<open>Event fields stay text: a payload field that names a group receives exactly the text the group captured, even
  when that text is a number.\<close>

theorem event_fields_stay_text:
  assumes "parse_line lp line = Inr (Some (Event b))"
  shows "\<exists>rx emit gs. (rx, emit) \<in> set (lp_compiled lp) \<and> rx (strip line) = Some gs
    \<and> map_of b ''event_type'' = map_of (case emit of JObj d \<Rightarrow> d | _ \<Rightarrow> []) ''event_type''
    \<and> (\<forall>d fields k s. emit = JObj d \<and> map_of d ''payload'' = Some (JObj fields) \<and> distinct (map fst fields)
         \<and> (k, JStr s) \<in> set fields \<and> map_of gs s = Some (Some captured)
         \<longrightarrow> (\<exists>p. map_of b ''payload'' = Some (JObj p) \<and> map_of p k = Some (JStr captured)))"
proof -
  have sub: "first_match ps l = Inr (Some em) \<Longrightarrow> \<exists>rx emit gs. (rx, emit) \<in> set ps \<and> rx l = Some gs \<and> emission_of gs emit = Inr em"
    for ps l em
    by (induction ps l rule: first_match.induct) (auto simp: res_inv split: option.splits)
  from assms have "first_match (lp_compiled lp) (strip line) = Inr (Some (Event b))"
    by (simp add: parse_line_def Let_def split: if_splits)
  from sub [OF this] obtain rx emit gs where m: "(rx, emit) \<in> set (lp_compiled lp)" "rx (strip line) = Some gs"
    "emission_of gs emit = Inr (Event b)"
    by (elim exE conjE)
  from m(3) have ev: "event_emission gs emit = Inr (Event b)"
    by (auto simp: emission_of_def telemetry_emission_def res_inv split: if_splits)
  then obtain d p fields t where e: "emit = JObj d" "p = dict_get d ''payload'' JNull"
      "(if \<not> truthy p then Inr [] else (case p of JObj d \<Rightarrow> Inr d | _ \<Rightarrow> Inl (OtherError ''AttributeError''))) = Inr fields"
      "map_of d ''event_type'' = Some t"
      "b = [(''event_type'', t)] @ (let payload = foldl (\<lambda>d kv. AList.update (fst kv) (payload_value gs (snd kv)) d) [] fields in
            if payload \<noteq> [] then [(''payload'', JObj payload)] else [])"
    unfolding event_emission_def Let_def by (auto simp: res_bind_eq_Inr get_or_Inr get_item_Inr)
  have upd: "map_of (foldl (\<lambda>d kv. AList.update (fst kv) (payload_value gs (snd kv)) d) acc fs) k = Some v"
    if "(k, x) \<in> set fs" "distinct (map fst fs)" "v = payload_value gs x" for k x v acc fs
    using that
  proof (induction fs arbitrary: acc)
    case (Cons kv fs)
    have keep: "k \<notin> fst ` set fs \<Longrightarrow> map_of (foldl (\<lambda>d kv. AList.update (fst kv) (payload_value gs (snd kv)) d) a fs) k = map_of a k" for a
      by (induction fs arbitrary: a) auto
    from Cons show ?case by (cases "(k, x) = kv") (auto simp: keep rev_image_eqI)
  qed simp
  have "\<exists>p'. map_of b ''payload'' = Some (JObj p') \<and> map_of p' k = Some (JStr captured)"
    if "map_of d ''payload'' = Some (JObj fs)" "distinct (map fst fs)" "(k, JStr s) \<in> set fs" "map_of gs s = Some (Some captured)"
    for fs k s
  proof -
    have "fs \<noteq> []" using that(3) by auto
    then have "fields = fs" using e(2,3) that(1) by (simp add: dict_get_def)
    with upd [OF that(3,2) refl] that(4)
    have "map_of (foldl (\<lambda>d kv. AList.update (fst kv) (payload_value gs (snd kv)) d) [] fields) k = Some (JStr captured)"
      by (simp add: payload_value_def group_json_def)
    then show ?thesis using e(5) by (auto simp: Let_def)
  qed
  then show ?thesis using m(1,2) e(1,4,5)
    by (intro exI [of _ rx] exI [of _ emit] exI [of _ gs]) auto
qed

definition count_profile :: line_profile where
  "count_profile = \<lparr>lp_profile = ''generic/0.1'', lp_machine_class = ''press'', lp_patterns = [],
     lp_compiled = [(\<lambda>line. Some [(''n'', Some line)],
       JObj [(''schema'', JStr ''event''), (''event_type'', JStr ''cycle_complete''),
             (''payload'', JObj [(''cycle_count'', JStr ''n'')])])]\<rparr>"

theorem event_fields_stay_text_witness:
  "\<exists>b p. parse_line count_profile ''7'' = Inr (Some (Event b)) \<and> map_of b ''payload'' = Some (JObj p)
     \<and> map_of p ''cycle_count'' = Some (JStr ''7'')"
proof -
  have s: "strip ''7'' = ''7''" by (simp add: strip_def lstrip_def is_space_def)
  obtain b where b: "parse_line count_profile ''7'' = Inr (Some (Event b))"
    by (simp add: parse_line_def s count_profile_def emission_of_def event_emission_def dict_access)
  from event_fields_stay_text [OF b, of "''7''"] obtain rx emit gs where
    "(rx, emit) \<in> set (lp_compiled count_profile)" "rx (strip ''7'') = Some gs"
    and f: "\<forall>d fields k s. emit = JObj d \<and> map_of d ''payload'' = Some (JObj fields) \<and> distinct (map fst fields)
         \<and> (k, JStr s) \<in> set fields \<and> map_of gs s = Some (Some ''7'')
         \<longrightarrow> (\<exists>p. map_of b ''payload'' = Some (JObj p) \<and> map_of p k = Some (JStr ''7''))"
    by (elim exE conjE)
  then have "gs = [(''n'', Some ''7'')]" "emit = JObj [(''schema'', JStr ''event''), (''event_type'', JStr ''cycle_complete''),
             (''payload'', JObj [(''cycle_count'', JStr ''n'')])]"
    by (auto simp: count_profile_def s)
  with f have "\<exists>p. map_of b ''payload'' = Some (JObj p) \<and> map_of p ''cycle_count'' = Some (JStr ''7'')" by simp
  with b show ?thesis by blast
qed

end
