(* ===== verification/Serial_Port.thy ===== *)
theory Serial_Port
  imports Serial Py_Utf8
begin

text \<open>
  \<open>_run_serial\<close> of \<open>adapters/generic-serial/adapter.py\<close>: the loop over a real port. The port is a library
  (pyserial): what happens on it is a list of sessions, each a refused opening or what \<open>readline\<close> returned until
  it raised \<open>SerialException\<close> or the stop flag was seen. \<open>readline\<close> returns after its timeout what has
  arrived by then, which is nothing or the beginning of a line. A wait of the backoff is what it was asked for.
\<close>

section \<open>The loop\<close>

datatype session =
    Refused string
  | Session string "(line_clock \<times> string) list" "string option"

text \<open>The inner loop; an empty read is a timeout.\<close>

fun handle_reads ::
  "(pyexn \<Rightarrow> string) \<Rightarrow> (body \<Rightarrow> 'g \<Rightarrow> unit res \<times> 'g) \<Rightarrow> line_profile \<Rightarrow> json
     \<Rightarrow> (line_clock \<times> string) list \<Rightarrow> 'g serial_run \<Rightarrow> unit res \<times> 'g serial_run" where
  "handle_reads exc_str emit lp window_s [] r = (Inr (), r)"
| "handle_reads exc_str emit lp window_s ((clock, raw) # rs) r =
     (if raw = [] then handle_reads exc_str emit lp window_s rs r
      else (case handle_line exc_str emit lp window_s clock (utf8_decode raw) r of
              (Inl e, r) \<Rightarrow> (Inl e, r)
            | (Inr _, r) \<Rightarrow> handle_reads exc_str emit lp window_s rs r))"

text \<open>The handler of \<open>SerialException\<close>: the mark, and the time to wait.\<close>

definition lose_port :: "string \<Rightarrow> 'g serial_run \<Rightarrow> int \<times> 'g serial_run" where
  "lose_port what r =
     (case backoff (mark_disconnected what (run_own r)) of (wait, a) \<Rightarrow> (wait, r\<lparr>run_own := a\<rparr>))"

text \<open>The outer loop; the list of sessions ends where the stop flag is seen. The second result is what was waited.\<close>

fun run_sessions ::
  "(pyexn \<Rightarrow> string) \<Rightarrow> (body \<Rightarrow> 'g \<Rightarrow> unit res \<times> 'g) \<Rightarrow> line_profile \<Rightarrow> json
     \<Rightarrow> session list \<Rightarrow> 'g serial_run \<Rightarrow> (unit res \<times> 'g serial_run) \<times> int list" where
  "run_sessions exc_str emit lp window_s [] r = ((Inr (), r), [])"
| "run_sessions exc_str emit lp window_s (Refused what # ss) r =
     (case lose_port what r of (wait, r) \<Rightarrow>
        (case run_sessions exc_str emit lp window_s ss r of (out, ws) \<Rightarrow> (out, wait # ws)))"
| "run_sessions exc_str emit lp window_s (Session now reads ending # ss) r =
     (case handle_reads exc_str emit lp window_s reads (r\<lparr>run_own := mark_connected now (run_own r)\<rparr>) of
        (Inl e, r) \<Rightarrow> ((Inl e, r), [])
      | (Inr _, r) \<Rightarrow>
          (case ending of
             None \<Rightarrow> ((Inr (), r), [])
           | Some what \<Rightarrow>
               (case lose_port what r of (wait, r) \<Rightarrow>
                  (case run_sessions exc_str emit lp window_s ss r of (out, ws) \<Rightarrow> (out, wait # ws)))))"

definition run_serial ::
  "(pyexn \<Rightarrow> string) \<Rightarrow> (body \<Rightarrow> 'g \<Rightarrow> unit res \<times> 'g) \<Rightarrow> line_profile \<Rightarrow> json
     \<Rightarrow> session list \<Rightarrow> string \<Rightarrow> 'g serial_run \<Rightarrow> (unit res \<times> 'g serial_run) \<times> int list" where
  "run_serial exc_str emit lp window_s sessions end_ts r =
     (case run_sessions exc_str emit lp window_s sessions r of
        ((Inl e, r), ws) \<Rightarrow> ((Inl e, r), ws)
      | ((Inr _, r), ws) \<Rightarrow> (serial_flush emit lp end_ts r, ws))"

text \<open>\<open>start\<close> without a replay file.\<close>

definition serial_start ::
  "(pyexn \<Rightarrow> string) \<Rightarrow> (body \<Rightarrow> 'g \<Rightarrow> unit res \<times> 'g) \<Rightarrow> (string \<Rightarrow> matcher res) \<Rightarrow> json \<Rightarrow> json
     \<Rightarrow> session list \<Rightarrow> string \<Rightarrow> adapter_state \<Rightarrow> 'g \<Rightarrow> (unit res \<times> 'g serial_run) \<times> int list" where
  "serial_start exc_str emit compile data window_s sessions end_ts a g =
     (let r = \<lparr>run_stats = [], run_own = a, run_sink = g\<rparr> in
      case line_profile_of compile data of
        Inl e \<Rightarrow> ((Inl e, r), [])
      | Inr lp \<Rightarrow> run_serial exc_str emit lp window_s sessions end_ts r)"

text \<open>
  \<open>start\<close>: the replay file when the configuration names one, and the port otherwise. \<open>stop i\<close> and \<open>clock i\<close> are the
  stop flag and the clock at the \<open>i\<close>-th line of the file.
\<close>

definition serial_adapter_start ::
  "(pyexn \<Rightarrow> string) \<Rightarrow> (body \<Rightarrow> 'g \<Rightarrow> unit res \<times> 'g) \<Rightarrow> (string \<Rightarrow> matcher res) \<Rightarrow> json \<Rightarrow> json
     \<Rightarrow> string res option \<Rightarrow> (nat \<Rightarrow> bool) \<Rightarrow> (nat \<Rightarrow> line_clock) \<Rightarrow> session list \<Rightarrow> string \<Rightarrow> string
     \<Rightarrow> adapter_state \<Rightarrow> 'g \<Rightarrow> unit res \<times> 'g serial_run" where
  "serial_adapter_start exc_str emit compile data window_s replay stop clock sessions now end_ts a g =
     (case replay of
        None \<Rightarrow> fst (serial_start exc_str emit compile data window_s sessions end_ts a g)
      | Some (Inl e) \<Rightarrow>
          (case line_profile_of compile data of Inl e' \<Rightarrow> Inl e' | Inr _ \<Rightarrow> Inl e, \<lparr>run_stats = [], run_own = a, run_sink = g\<rparr>)
      | Some (Inr text) \<Rightarrow>
          serial_replay exc_str emit compile data window_s now
            (map (\<lambda>(i, l). (stop i, clock i, l)) (enumerate 0 (splitlines text))) end_ts a g)"

text \<open>\<open>probe\<close> with a port: the port is opened and one line awaited, whatever it is.\<close>

definition serial_probe ::
  "(string \<Rightarrow> matcher res) \<Rightarrow> json \<Rightarrow> bool \<Rightarrow> unit res \<Rightarrow> machine_info res" where
  "serial_probe compile data replay device =
     res_bind (line_profile_of compile data) (\<lambda>lp.
     res_bind (serial_capabilities lp) (\<lambda>cs.
     res_bind (if replay then Inr () else device) (\<lambda>_.
       Inr \<lparr>machine_class = lp_machine_class lp, info_make = None, info_model = None, info_serial = JNull,
            capabilities = cs, data_source = ''native''\<rparr>)))"

section \<open>A lost connection loses no sample\<close>

text \<open>What the lines do to the accumulators and to the receiver does not depend on the health.\<close>

text \<open>The reads of the sessions up to the one in which the stop flag was seen.\<close>

fun reads_of :: "session list \<Rightarrow> (line_clock \<times> string) list" where
  "reads_of [] = []"
| "reads_of (Refused what # ss) = reads_of ss"
| "reads_of (Session now reads None # ss) = reads"
| "reads_of (Session now reads (Some what) # ss) = reads @ reads_of ss"

definition same_data :: "unit res \<times> 'g serial_run \<Rightarrow> unit res \<times> 'g serial_run \<Rightarrow> bool" where
  "same_data x y =
     (fst x = fst y \<and> run_stats (snd x) = run_stats (snd y) \<and> run_sink (snd x) = run_sink (snd y))"

lemma same_data_refl [simp]: "same_data x x"
  by (simp add: same_data_def)

lemma same_data_trans: "same_data x y \<Longrightarrow> same_data y z \<Longrightarrow> same_data x z"
  by (simp add: same_data_def)

lemma send_same: "same_data (x, r) (x, r') \<Longrightarrow> same_data (send emit schema ref b r) (send emit schema ref b r')"
  by (simp add: same_data_def send_def split: prod.splits)

lemma handle_line_same:
  assumes "same_data (x, r) (x, r')"
  shows "same_data (handle_line exc_str emit lp w clock line r) (handle_line exc_str emit lp w clock line r')"
proof (cases "parse_line lp line")
  case (Inl e)
  with assms show ?thesis by (simp add: handle_line_def same_data_def)
next
  case (Inr em)
  show ?thesis
  proof (cases em)
    case None
    with Inr assms show ?thesis by (simp add: handle_line_def same_data_def)
  next
    case (Some t)
    show ?thesis
    proof (cases t)
      case (Event b)
      have "same_data (x, r\<lparr>run_own := a\<rparr>) (x, r'\<lparr>run_own := a'\<rparr>)" for a a' using assms by (simp add: same_data_def)
      from send_same [OF this] Inr Some Event show ?thesis by (simp add: handle_line_def)
    next
      case (Telemetry c u v)
      have st: "run_stats r = run_stats r'" using assms by (simp add: same_data_def)
      obtain y s where ag: "agg_add w c u v (line_ts clock) (line_mono clock) (run_stats r') = (y, s)"
        by (cases "agg_add w c u v (line_ts clock) (line_mono clock) (run_stats r')")
      have sd: "same_data (x, r\<lparr>run_own := a, run_stats := s\<rparr>) (x, r'\<lparr>run_own := a', run_stats := s\<rparr>)" for a a'
        using assms by (simp add: same_data_def)
      show ?thesis
      proof (cases y)
        case (Inl e)
        with assms Some Telemetry ag st \<open>parse_line lp line = Inr em\<close> show ?thesis by (simp add: handle_line_def same_data_def)
      next
        case inr: (Inr out)
        show ?thesis
        proof (cases out)
          case None
          with assms inr Some Telemetry ag st Inr show ?thesis by (simp add: handle_line_def same_data_def)
        next
          case (Some body)
          with inr \<open>em = Some t\<close> Telemetry ag st Inr send_same [OF sd] show ?thesis by (simp add: handle_line_def)
        qed
      qed
    qed
  qed
qed

lemma handle_reads_same:
  "same_data (Inr (), r) (Inr (), r') \<Longrightarrow>
     same_data (handle_reads exc_str emit lp w rs r) (handle_reads exc_str emit lp w rs r')"
proof (induction rs arbitrary: r r')
  case (Cons cr rs)
  obtain clock raw where cr: "cr = (clock, raw)" by (cases cr)
  obtain x q y q' where h: "handle_line exc_str emit lp w clock (utf8_decode raw) r = (x, q)"
    "handle_line exc_str emit lp w clock (utf8_decode raw) r' = (y, q')" by (metis surj_pair)
  from handle_line_same [OF Cons.prems, of exc_str emit lp w clock "utf8_decode raw"] h
  have "same_data (x, q) (y, q')" by simp
  then have "y = x" by (simp add: same_data_def)
  note h' = h [unfolded this] and sd = \<open>same_data (x, q) (y, q')\<close> [unfolded this]
  show ?case
  proof (cases "raw = []")
    case True
    with Cons cr show ?thesis by simp
  next
    case False
    show ?thesis
    proof (cases x)
      case (Inl e)
      with False h' cr sd show ?thesis by simp
    next
      case (Inr u)
      with sd have "same_data (Inr (), q) (Inr (), q')" by simp
      from Cons.IH [OF this] show ?thesis using False h' cr Inr by simp
    qed
  qed
qed (simp add: same_data_def)

lemma handle_reads_append:
  "handle_reads exc_str emit lp w (xs @ ys) r =
     (case handle_reads exc_str emit lp w xs r of
        (Inl e, r) \<Rightarrow> (Inl e, r) | (Inr _, r) \<Rightarrow> handle_reads exc_str emit lp w ys r)"
  by (induction xs arbitrary: r) (auto split: prod.splits sum.splits)

lemma lose_port_data: "lose_port what r = (wait, q) \<Longrightarrow> run_stats q = run_stats r \<and> run_sink q = run_sink r"
  by (auto simp: lose_port_def split: prod.splits)

lemma run_sessions_data:
  "same_data (Inr (), r) (Inr (), r') \<Longrightarrow>
     same_data (fst (run_sessions exc_str emit lp w ss r)) (handle_reads exc_str emit lp w (reads_of ss) r')"
proof (induction ss arbitrary: r r')
  case (Cons x ss)
  show ?case
  proof (cases x)
    case (Refused what)
    obtain wait q where q: "lose_port what r = (wait, q)" by (cases "lose_port what r")
    with lose_port_data [OF q] Cons.prems have "same_data (Inr (), q) (Inr (), r')" by (simp add: same_data_def)
    from Cons.IH [OF this] q Refused show ?thesis by (simp add: split_beta)
  next
    case (Session now reads ending)
    let ?r = "r\<lparr>run_own := mark_connected now (run_own r)\<rparr>"
    obtain y q z q' where h: "handle_reads exc_str emit lp w reads ?r = (y, q)" "handle_reads exc_str emit lp w reads r' = (z, q')"
      by (metis surj_pair)
    have "same_data (Inr (), ?r) (Inr (), r')" using Cons.prems by (simp add: same_data_def)
    from handle_reads_same [OF this, of exc_str emit lp w reads] h have sd: "same_data (y, q) (z, q')" by simp
    show ?thesis
    proof (cases ending)
      case None
      with sd h Session show ?thesis by (auto simp: same_data_def split: sum.splits)
    next
      case (Some what)
      obtain wait q1 where q1: "lose_port what q = (wait, q1)" by (cases "lose_port what q")
      have "same_data (Inr (), q1) (Inr (), q')" using sd lose_port_data [OF q1] by (simp add: same_data_def)
      from Cons.IH [OF this] sd h Session Some q1 show ?thesis
        by (auto simp: handle_reads_append same_data_def split_beta split: sum.splits)
    qed
  qed
qed (simp add: same_data_def)

section \<open>The waits between the attempts\<close>

lemma handle_line_backoff: "backoff_s (run_own (snd (handle_line exc_str emit lp w clock line r))) = backoff_s (run_own r)"
proof -
  have m: "backoff_s (mark_degraded d a) = backoff_s a" "backoff_s (mark_data now a) = backoff_s a" for d now a
    by (simp_all add: mark_degraded_def mark_error_def mark_data_def)
  have s: "run_own (snd (send emit schema ref b q)) = run_own q" for schema ref b q
    by (simp add: send_def split: prod.splits)
  show ?thesis
  proof (cases "parse_line lp line")
    case (Inl e)
    then show ?thesis by (simp add: handle_line_def m)
  next
    case (Inr em)
    show ?thesis
    proof (cases em)
      case None
      with Inr show ?thesis by (simp add: handle_line_def)
    next
      case (Some t)
      show ?thesis
      proof (cases t)
        case (Event b)
        with Inr Some show ?thesis by (simp add: handle_line_def s m)
      next
        case (Telemetry c u v)
        obtain y st where ag: "agg_add w c u v (line_ts clock) (line_mono clock) (run_stats r) = (y, st)"
          by (metis surj_pair)
        show ?thesis
        proof (cases y)
          case (Inl e)
          with \<open>parse_line lp line = Inr em\<close> Some Telemetry ag show ?thesis by (simp add: handle_line_def m)
        next
          case y: (Inr out)
          with Inr Some Telemetry ag show ?thesis by (cases out) (simp_all add: handle_line_def s m)
        qed
      qed
    qed
  qed
qed

lemma handle_reads_backoff: "backoff_s (run_own (snd (handle_reads exc_str emit lp w rs r))) = backoff_s (run_own r)"
proof (induction rs arbitrary: r)
  case (Cons cr rs)
  obtain clock raw where cr: "cr = (clock, raw)" by (cases cr)
  obtain x q where h: "handle_line exc_str emit lp w clock (utf8_decode raw) r = (x, q)" by (metis surj_pair)
  with handle_line_backoff [of exc_str emit lp w clock "utf8_decode raw" r] Cons.IH cr show ?case by (cases x) simp_all
qed simp

lemma delays_cong: "backoff_s a = backoff_s a' \<Longrightarrow> delays n a = delays n a'"
proof (induction n arbitrary: a a')
  case (Suc n)
  then have "backoff_s (snd (backoff a)) = backoff_s (snd (backoff a'))" by (simp add: backoff_def)
  from Suc.IH [OF this] Suc.prems show ?case by (simp add: backoff_def)
qed simp

lemma lose_port_waits:
  "lose_port what r = (backoff_s (run_own r), snd (lose_port what r))"
  "backoff_s (run_own (snd (lose_port what r))) = min (backoff_s (run_own r) * 2) 300"
  by (simp_all add: lose_port_def backoff_def mark_disconnected_def mark_error_def)

lemma refused_waits:
  "snd (run_sessions exc_str emit lp w (map Refused whats) r) = delays (length whats) (run_own r)"
proof (induction whats arbitrary: r)
  case (Cons what whats)
  let ?q = "snd (lose_port what r)"
  have "snd (run_sessions exc_str emit lp w (map Refused (what # whats)) r)
    = backoff_s (run_own r) # snd (run_sessions exc_str emit lp w (map Refused whats) ?q)"
    by (subst list.map, subst run_sessions.simps, subst lose_port_waits(1)) (simp add: split_beta)
  also have "\<dots> = backoff_s (run_own r) # delays (length whats) (run_own ?q)" by (simp only: Cons.IH)
  also have "delays (length whats) (run_own ?q) = delays (length whats) (snd (backoff (run_own r)))"
    by (rule delays_cong) (simp add: lose_port_waits(2), simp add: backoff_def)
  finally show ?case by (simp add: backoff_def)
qed simp

section \<open>A concrete profile\<close>

lemma decoded_one: "utf8_decode ''1'' = ''1''"
  by (rule utf8_decode_valid, rule utf8_ok_ascii, simp)

lemma decoded_rest: "utf8_decode ([CHR ''2'', CHR ''3'', CHR 0x0A]) = [CHR ''2'', CHR ''3'', CHR 0x0A]"
  by (rule utf8_decode_valid, rule utf8_ok_ascii, simp)

lemma parsed_one: "parse_line temp_profile ''1'' = Inr (Some (Telemetry (JStr ''temp'') (JStr ''Cel'') (JInt 1)))"
proof -
  have "strip ''1'' = ''1''" by (simp add: strip_def lstrip_def is_space_def)
  moreover have "show_int 1 = ''1''" by code_simp
  ultimately show ?thesis using temp_line [of "''1''"] integer_reading_exact [of 1] by simp
qed

lemma parsed_rest: "parse_line temp_profile ([CHR ''2'', CHR ''3'', CHR 0x0A]) = Inr (Some (Telemetry (JStr ''temp'') (JStr ''Cel'') (JInt 23)))"
proof -
  have "strip ([CHR ''2'', CHR ''3'', CHR 0x0A]) = ''23''" by (simp add: strip_def lstrip_def is_space_def)
  moreover have "show_int 23 = ''23''" by code_simp
  ultimately show ?thesis using temp_line [of "[CHR ''2'', CHR ''3'', CHR 0x0A]"] integer_reading_exact [of 23] by simp
qed

section \<open>Properties\<close>

text \<open>C30: A lost connection loses no sample and invents none: however often the port is refused or lost, what the
  adapter emits, the windows it has open and the exception it ends with, if any, are those of handling the reads of
  all sessions in one.\<close>

theorem reconnect_transparent:
  "same_data (fst (run_sessions exc_str emit lp window_s ss r))
     (handle_reads exc_str emit lp window_s (reads_of ss) r)"
  by (rule run_sessions_data) (simp add: same_data_def)

text \<open>The waits between the attempts: after a connection is lost, the first attempt comes after 1 s and each wait
  doubles, up to 300 s, as long as the port is refused.\<close>

theorem reconnect_waits:
  assumes "handle_reads exc_str emit lp w reads (r\<lparr>run_own := mark_connected now (run_own r)\<rparr>) = (Inr (), q)"
  shows "snd (run_sessions exc_str emit lp w (Session now reads (Some what) # map Refused whats) r)
    = map (\<lambda>i. min (2 ^ i) 300) [0..<Suc (length whats)]"
proof -
  have b: "backoff_s (run_own q) = 1"
    using handle_reads_backoff [of exc_str emit lp w reads "r\<lparr>run_own := mark_connected now (run_own r)\<rparr>"] assms
    by (simp add: mark_connected_def Let_def)
  have "snd (run_sessions exc_str emit lp w (Session now reads (Some what) # map Refused whats) r)
    = snd (run_sessions exc_str emit lp w (map Refused (what # whats)) q)"
    by (simp add: assms split_beta)
  also have "\<dots> = delays (Suc (length whats)) (run_own q)" by (simp only: refused_waits list.size add_Suc_right add_0_right)
  also have "\<dots> = map (\<lambda>i. min (2 ^ i) 300) [0..<Suc (length whats)]"
    using delays_double [of "run_own q"] b by (intro nth_equalityI) (simp_all del: delays.simps upt_Suc)
  finally show ?thesis .
qed

text \<open>A line that is still coming in when \<open>readline\<close> times out is handled as two lines: a controller that reports
  123 with a pause after the first digit is recorded as having reported 1 and 23.\<close>

theorem split_line_two_samples:
  "run_stats (snd (handle_reads exc_str emit temp_profile (JInt 60)
      [(\<lparr>mark_ts = t, line_ts = t, line_mono = JInt 0\<rparr>, ''1''), (\<lparr>mark_ts = t, line_ts = t, line_mono = JInt 1\<rparr>, [CHR ''2'', CHR ''3'', CHR 0x0A])]
      \<lparr>run_stats = [], run_own = a, run_sink = g\<rparr>))
   = [(JStr ''temp'', \<lparr>acc_unit = JStr ''Cel'', acc_start = t, acc_mono = JInt 0, acc_min = JInt 1, acc_max = JInt 23,
        acc_sum = JInt 24, acc_count = 2\<rparr>)]"
  by (simp add: parsed_one parsed_rest decoded_one decoded_rest handle_line_def agg_add_def first_acc_def
      num_sub_def arith_def Let_def del: utf8_decode.simps)

text \<open>The port is lost after a line, refused twice and opened again.\<close>

theorem reconnect_waits_witness:
  "snd (run_sessions exn_text (\<lambda>b g. (Inr (), g)) temp_profile (JInt 60)
      (Session t [(\<lparr>mark_ts = t, line_ts = t, line_mono = JInt 0\<rparr>, ''1'')] (Some ''gone'') # map Refused [''no'', ''no''])
      \<lparr>run_stats = [], run_own = new_adapter, run_sink = ()\<rparr>) = [1, 2, 4]"
proof -
  let ?clock = "\<lparr>mark_ts = t, line_ts = t, line_mono = JInt 0\<rparr>" and ?emit = "\<lambda>b (g :: unit). (Inr (), g)"
  let ?r = "\<lparr>run_stats = [], run_own = new_adapter, run_sink = ()\<rparr>"
  have "handle_line exn_text ?emit temp_profile (JInt 60) ?clock ''1'' (?r\<lparr>run_own := a\<rparr>)
    = (Inr (), ?r\<lparr>run_own := mark_data t a, run_stats := [(JStr ''temp'', first_acc (JStr ''Cel'') (JInt 1) t (JInt 0))]\<rparr>)" for a
    by (simp add: parsed_one handle_line_def agg_add_def)
  then obtain q where "handle_reads exn_text ?emit temp_profile (JInt 60) [(?clock, ''1'')]
      (?r\<lparr>run_own := mark_connected t (run_own ?r)\<rparr>) = (Inr (), q)"
    by (simp add: decoded_one del: utf8_decode.simps)
  from reconnect_waits [OF this, of "''gone''" "[''no'', ''no'']"] show ?thesis by (simp add: upt_rec)
qed

end
