(* ===== verification/Esp32.thy ===== *)
theory Esp32
  imports Adapter_Base Py_Text Py_Utf8
begin

text \<open>
  \<open>adapters/retrofit-esp32/adapter.py\<close>: the JSON messages of a retrofit node become bodies. The queue
  between the source and the loop is the list of what the loop takes out of it, \<open>None\<close> for a wait
  that timed out; the MQTT client that fills it in the field is a library, and what it receives is an argument. The clock
  readings are arguments.
\<close>

section \<open>Probing\<close>

definition kit_class :: "string dict" where
  "kit_class = [(''ct_clamp'', ''unclassified''), (''vibration'', ''unclassified''), (''optical_counter'', ''unclassified'')]"

definition esp_probe :: "json dict \<Rightarrow> machine_info res" where
  "esp_probe config =
     (let kit = dict_get config ''kit'' (JStr ''ct_clamp'');
          caps = (if kit = JStr ''ct_clamp'' then [''energy'', ''event''] else [''event''])
      in if \<not> hashable kit then Inl TypeError
         else Inr \<lparr>machine_class = (case lookup_key (map_of kit_class) kit of None \<Rightarrow> ''unclassified'' | Some c \<Rightarrow> c),
                   info_make = Some ''OMP retrofit'', info_model = Some (''esp32-'' @ str_json kit),
                   info_serial = dict_get config ''node_id'' JNull, capabilities = caps,
                   data_source = ''retrofit''\<rparr>)"

section \<open>One message\<close>

record 'g node_run =
  node_own :: adapter_state
  node_sink :: 'g

text \<open>The readings of the clock while a message is handled: for the mark, and for an energy report.\<close>

record node_clock =
  mark_now :: string
  energy_now :: datetime

definition generic_event :: "json dict \<Rightarrow> body" where
  "generic_event b = adapter_body ''event'' ''generic/0.1'' b None"

definition dropped_body :: "json dict \<Rightarrow> body option res" where
  "dropped_body msg =
     (let d = dict_get msg ''dropped_while_offline'' JNull in
      if \<not> truthy d then Inr None
      else res_bind (py_int d) (\<lambda>n.
        Inr (Some (generic_event
          [(''event_type'', JStr ''maintenance_flag''),
           (''payload'', JObj [(''flag'', JStr ''node_dropped_messages''), (''count'', JInt n)])]))))"

definition load_body :: "json \<Rightarrow> body" where
  "load_body event =
     generic_event [(''event_type'', event), (''payload'', JObj [(''reason'', JStr ''load_threshold'')])]"

definition energy_body :: "datetime \<Rightarrow> json dict \<Rightarrow> body res" where
  "energy_body ending msg =
     res_bind (dict_item msg ''interval_s'') (\<lambda>s. res_bind (py_int s) (\<lambda>n.
     res_bind (timedelta_seconds n) (\<lambda>d. res_bind (of_instant (int (instant ending) - d)) (\<lambda>start.
     res_bind (dict_item msg ''wh'') (\<lambda>w. res_bind (py_int w) (\<lambda>wh.
       Inr (adapter_body ''energy'' ''generic/0.1''
         [(''metric'', JStr ''wh''), (''value'', JInt wh),
          (''interval'', JObj [(''start_ts'', JStr (iso_text start)), (''end_ts'', JStr (iso_text ending))]),
          (''source'', JStr ''ct_clamp'')]
         (Some (iso_text ending)))))))))"

text \<open>What a message asks for: a body, nothing, or an unknown type.\<close>

datatype reaction = Send body | Nothing | Unknown json

definition reaction_to :: "datetime \<Rightarrow> json dict \<Rightarrow> json \<Rightarrow> reaction res" where
  "reaction_to ending msg mtype =
     (if mtype = JStr ''hello'' then
        res_bind (dropped_body msg) (\<lambda>b. Inr (case b of None \<Rightarrow> Nothing | Some b \<Rightarrow> Send b))
      else if mtype = JStr ''event'' \<and> dict_get msg ''event'' JNull \<in> {JStr ''start'', JStr ''stop''} then
        Inr (Send (load_body (dict_get msg ''event'' JNull)))
      else if mtype = JStr ''energy'' then res_bind (energy_body ending msg) (\<lambda>b. Inr (Send b))
      else Inr (Unknown mtype))"

text \<open>\<open>except (ValueError, KeyError)\<close>\<close>

fun caught_at_parse :: "pyexn \<Rightarrow> bool" where
  "caught_at_parse (KeyError k) = True"
| "caught_at_parse e = is_value_error e"

text \<open>\<open>json.loads(raw)\<close>; anything but text is a \<open>TypeError\<close>.\<close>

fun loads_any :: "json \<Rightarrow> json res" where
  "loads_any (JStr s) = loads s"
| "loads_any _ = Inl TypeError"

definition esp_handle ::
  "(pyexn \<Rightarrow> string) \<Rightarrow> (body \<Rightarrow> 'g \<Rightarrow> unit res \<times> 'g) \<Rightarrow> node_clock \<Rightarrow> json \<Rightarrow> 'g node_run \<Rightarrow> unit res \<times> 'g node_run" where
  "esp_handle exc_str emit clock raw r =
     (case res_bind (loads_any raw) (\<lambda>m. res_bind (get_item m ''type'') (\<lambda>t. res_bind (as_dict m) (\<lambda>d. Inr (d, t)))) of
        Inl e \<Rightarrow>
          if caught_at_parse e
          then (Inr (), r\<lparr>node_own := mark_degraded (''bad node message: '' @ exc_str e) (node_own r)\<rparr>)
          else (Inl e, r)
      | Inr (msg, mtype) \<Rightarrow>
          let r = r\<lparr>node_own := mark_data (mark_now clock) (node_own r)\<rparr> in
          (case reaction_to (energy_now clock) msg mtype of
             Inl e \<Rightarrow> (Inl e, r)
           | Inr Nothing \<Rightarrow> (Inr (), r)
           | Inr (Send b) \<Rightarrow> (case emit b (node_sink r) of (x, g) \<Rightarrow> (x, r\<lparr>node_sink := g\<rparr>))
           | Inr (Unknown t) \<Rightarrow>
               (Inr (), r\<lparr>node_own := mark_degraded (''unknown node message type '' @ repr_json t) (node_own r)\<rparr>)))"

section \<open>The loop\<close>

text \<open>What the configured source puts into the queue; a final null ends the loop.\<close>

definition queued_message :: "json \<Rightarrow> json" where
  "queued_message m = (case m of JObj d \<Rightarrow> JStr (dumps default_opts m) | v \<Rightarrow> v)"

definition queue_messages :: "json list \<Rightarrow> json list" where
  "queue_messages ms = map queued_message ms @ [JNull]"

definition queue_lines :: "string list \<Rightarrow> json list" where
  "queue_lines ls = map JStr (filter (\<lambda>l. strip l \<noteq> []) ls) @ [JNull]"

text \<open>
  What the broker delivers: the client is connected to the host and subscribed to the topic, and each message it
  receives is decoded and queued.
\<close>

datatype source =
    Queued "json list"
  | Broker json json string

definition queue_payloads :: "string list \<Rightarrow> json list" where
  "queue_payloads payloads = map (JStr \<circ> utf8_decode) payloads"

definition broker_source :: "json dict \<Rightarrow> source res" where
  "broker_source config =
     res_bind (dict_item config ''node_id'') (\<lambda>node.
       Inr (Broker (dict_get config ''broker_host'' (JStr ''localhost'')) (dict_get config ''broker_port'' (JInt 1883))
             (''omp-node/'' @ str_json node)))"

text \<open>\<open>_start_source\<close>: the messages of the configuration, a file of lines, or the broker.\<close>

definition start_source :: "(json \<Rightarrow> string res) \<Rightarrow> json dict \<Rightarrow> source res" where
  "start_source read_text config =
     (case map_of config ''messages'' of
        Some ms \<Rightarrow> res_bind (as_list ms) (\<lambda>ms. Inr (Queued (queue_messages ms)))
      | None \<Rightarrow>
          (case map_of config ''replay_file'' of
             Some path \<Rightarrow> res_bind (read_text path) (\<lambda>text. Inr (Queued (queue_lines (splitlines text))))
           | None \<Rightarrow> broker_source config))"

text \<open>One turn of the loop: whether the stop event is set, the clock, and what the queue gives.\<close>

fun esp_loop ::
  "(pyexn \<Rightarrow> string) \<Rightarrow> (body \<Rightarrow> 'g \<Rightarrow> unit res \<times> 'g) \<Rightarrow> (bool \<times> node_clock \<times> json option) list
     \<Rightarrow> 'g node_run \<Rightarrow> unit res \<times> 'g node_run" where
  "esp_loop exc_str emit [] r = (Inr (), r)"
| "esp_loop exc_str emit ((stop, clock, got) # turns) r =
     (if stop then (Inr (), r)
      else (case got of
              None \<Rightarrow> esp_loop exc_str emit turns r
            | Some JNull \<Rightarrow> (Inr (), r)
            | Some raw \<Rightarrow>
                (case esp_handle exc_str emit clock raw r of
                   (Inl e, r) \<Rightarrow> (Inl e, r)
                 | (Inr _, r) \<Rightarrow> esp_loop exc_str emit turns r)))"

definition esp_start ::
  "(pyexn \<Rightarrow> string) \<Rightarrow> (body \<Rightarrow> 'g \<Rightarrow> unit res \<times> 'g) \<Rightarrow> string \<Rightarrow> (bool \<times> node_clock \<times> json option) list
     \<Rightarrow> adapter_state \<Rightarrow> 'g \<Rightarrow> unit res \<times> 'g node_run" where
  "esp_start exc_str emit now turns a g =
     esp_loop exc_str emit turns \<lparr>node_own = mark_connected now a, node_sink = g\<rparr>"

section \<open>What a node reports is what is emitted\<close>

text \<open>
  The messages of the firmware (\<open>retrofit/esp32-ct-clamp/firmware/src/main.cpp\<close>) with all their fields, and what each of
  them says: \<open>Hello version dropped\<close>, \<open>Load running uptime\<close>, \<open>Energy wh interval uptime\<close>.
\<close>

datatype node_message = Hello string int | Load bool int | Energy int int int

fun message_type :: "node_message \<Rightarrow> string" where
  "message_type (Hello fw dropped) = ''hello''"
| "message_type (Load running uptime) = ''event''"
| "message_type (Energy wh interval uptime) = ''energy''"

fun message_fields :: "node_message \<Rightarrow> json dict" where
  "message_fields (Hello fw dropped) =
     [(''kit'', JStr ''ct_clamp''), (''fw'', JStr fw), (''dropped_while_offline'', JInt dropped)]"
| "message_fields (Load running uptime) =
     [(''event'', JStr (if running then ''start'' else ''stop'')), (''uptime_ms'', JInt uptime)]"
| "message_fields (Energy wh interval uptime) =
     [(''wh'', JInt wh), (''interval_s'', JInt interval), (''uptime_ms'', JInt uptime)]"

definition message_dict :: "string \<Rightarrow> string \<Rightarrow> node_message \<Rightarrow> json dict" where
  "message_dict node machine m =
     [(''type'', JStr (message_type m)), (''node_id'', JStr node), (''machine_id'', JStr machine)] @ message_fields m"

definition message_json :: "string \<Rightarrow> string \<Rightarrow> node_message \<Rightarrow> json" where
  "message_json node machine m = JObj (message_dict node machine m)"

text \<open>The node prints without spaces; the messages of a test configuration are printed by \<open>json.dumps\<close>.\<close>

definition node_opts :: dump_opts where
  "node_opts = \<lparr>sort_keys = False, item_sep = '','', key_sep = '':'', ensure_ascii = False\<rparr>"

definition interval_report :: "datetime \<Rightarrow> datetime \<Rightarrow> int \<Rightarrow> body" where
  "interval_report start ending wh =
     adapter_body ''energy'' ''generic/0.1''
       [(''metric'', JStr ''wh''), (''value'', JInt wh),
        (''interval'', JObj [(''start_ts'', JStr (iso_text start)), (''end_ts'', JStr (iso_text ending))]),
        (''source'', JStr ''ct_clamp'')]
       (Some (iso_text ending))"

fun meaning :: "datetime \<Rightarrow> node_message \<Rightarrow> body list" where
  "meaning ending (Hello fw dropped) =
     (if dropped = 0 then []
      else [generic_event [(''event_type'', JStr ''maintenance_flag''),
              (''payload'', JObj [(''flag'', JStr ''node_dropped_messages''), (''count'', JInt dropped)])]])"
| "meaning ending (Load running uptime) = [load_body (JStr (if running then ''start'' else ''stop''))]"
| "meaning ending (Energy wh interval uptime) =
     (case of_instant (int (instant ending) - interval * 1000000) of
        Inl e \<Rightarrow> []
      | Inr start \<Rightarrow> [interval_report start ending wh])"

text \<open>The interval of a report fits in the calendar.\<close>

fun sensible :: "datetime \<Rightarrow> node_message \<Rightarrow> bool" where
  "sensible ending (Energy wh interval uptime) =
     (valid_datetime ending \<and> 0 \<le> interval \<and> int day_us + interval * 1000000 \<le> int (instant ending))"
| "sensible ending m = True"

definition record_body :: "body \<Rightarrow> body list \<Rightarrow> unit res \<times> body list" where
  "record_body b bs = (Inr (), bs @ [b])"

lemma instant_bound:
  assumes "valid_datetime t"
  shows "int (instant t) < 3652060 * int day_us"
proof -
  have "to_ordinal t \<le> days_before_year (Suc (dt_year t))" by (rule valid_date(2) [OF assms])
  also have "\<dots> \<le> days_before_year 10000"
    using assms by (intro days_before_year_mono) (auto simp: valid_datetime_def)
  finally have "to_ordinal t \<le> 3652059" by (simp add: days_before_year_def)
  moreover have "us_of_day t < day_us"
  proof -
    have "dt_hour t \<le> 23" "dt_minute t \<le> 59" "dt_second t \<le> 59" "dt_us t \<le> 999999"
      using assms by (auto simp: valid_datetime_def)
    then show ?thesis by (simp add: us_of_day_def day_us_def add_mult_distrib)
  qed
  ultimately have "instant t < 3652060 * day_us" by (simp add: instant_def day_us_def)
  then have "int (instant t) < int (3652060 * day_us)" by (simp only: of_nat_less_iff)
  then show ?thesis by simp
qed

lemma reaction_sensible:
  assumes "sensible ending m"
  shows "reaction_to ending (message_dict node machine m) (JStr (message_type m))
     = Inr (case meaning ending m of [] \<Rightarrow> Nothing | b # _ \<Rightarrow> Send b)"
  using assms
proof (cases m)
  case (Hello fw d)
  then show ?thesis by (simp add: reaction_to_def dropped_body_def dict_get_def message_dict_def)
next
  case (Load x up)
  then show ?thesis by (simp add: reaction_to_def dict_get_def message_dict_def)
next
  case (Energy wh n up)
  with assms have v: "valid_datetime ending" "0 \<le> n" "int day_us + n * 1000000 \<le> int (instant ending)" by simp_all
  obtain s where s: "of_instant (int (instant ending) - n * 1000000) = Inr s"
    by (rule of_instant_total [OF v(1), of "int (instant ending) - n * 1000000"]) (use v(2,3) in auto)
  have "\<not> 999999999 < \<bar>n div 86400\<bar>"
    using v(2,3) instant_bound [OF v(1)] by (simp add: day_us_def)
  with Energy s show ?thesis
    by (simp add: reaction_to_def energy_body_def dict_item_def timedelta_seconds_eq interval_report_def message_dict_def)
qed

text \<open>Both printed forms of a message are read back.\<close>

lemma message_reads_back:
  "loads (dumps node_opts (message_json node machine m)) = Inr (message_json node machine m)"
  "utf8_ok node \<Longrightarrow> utf8_ok machine \<Longrightarrow> (\<And>fw d. m = Hello fw d \<Longrightarrow> utf8_ok fw) \<Longrightarrow>
     loads (dumps default_opts (message_json node machine m)) = Inr (message_json node machine m)"
proof -
  have wf: "wf_json (message_json node machine m)" "floats_ok (message_json node machine m)"
    by (cases m; simp add: message_json_def message_dict_def)+
  have "ok_opts node_opts" by (simp add: ok_opts_def node_opts_def)
  from loads_dumps [OF this _ wf] show "loads (dumps node_opts (message_json node machine m)) = Inr (message_json node machine m)"
    by (simp add: texts_ok_plain ordered_plain node_opts_def)
  have ascii: "utf8_ok s" if "\<forall>c \<in> set s. (of_char c :: nat) < 128" for s using that by (rule utf8_ok_ascii)
  assume "utf8_ok node" "utf8_ok machine" "\<And>fw d. m = Hello fw d \<Longrightarrow> utf8_ok fw"
  then have "texts_ok default_opts (message_json node machine m)"
    using ascii by (cases m) (simp_all add: message_json_def message_dict_def text_ok_def)
  then show "loads (dumps default_opts (message_json node machine m)) = Inr (message_json node machine m)"
    by (rule loads_dumps_default [OF _ wf])
qed

lemma handle_message:
  assumes "loads raw = Inr (message_json node machine m)" "sensible (energy_now clock) m"
  shows "esp_handle exc_str record_body clock (JStr raw) r =
    (Inr (), r\<lparr>node_own := mark_data (mark_now clock) (node_own r),
               node_sink := node_sink r @ meaning (energy_now clock) m\<rparr>)"
proof -
  have "get_item (message_json node machine m) ''type'' = Inr (JStr (message_type m))"
    by (simp add: message_json_def message_dict_def dict_item_def)
  moreover have "length (meaning (energy_now clock) m) \<le> 1" by (cases m) (auto split: sum.splits)
  ultimately show ?thesis
    using assms(1) reaction_sensible [OF assms(2), of node machine]
    by (cases "meaning (energy_now clock) m") (auto simp: esp_handle_def message_json_def record_body_def)
qed

text \<open>
  What the loop takes out of the queue: nothing before the time out, or the text of a message, with the message it is the
  text of. The loop is then told to stop.
\<close>

type_synonym node_turn = "node_clock \<times> (string \<times> node_message) option"

definition turns_of :: "node_turn list \<Rightarrow> node_clock \<Rightarrow> (bool \<times> node_clock \<times> json option) list" where
  "turns_of cms c_end = map (\<lambda>(c, got). (False, c, map_option (JStr \<circ> fst) got)) cms @ [(True, c_end, None)]"

definition turn_ok :: "string \<Rightarrow> string \<Rightarrow> node_turn \<Rightarrow> bool" where
  "turn_ok node machine cm =
     (case cm of (c, None) \<Rightarrow> True
      | (c, Some (raw, m)) \<Rightarrow> loads raw = Inr (message_json node machine m) \<and> sensible (energy_now c) m)"

definition turn_meaning :: "node_turn \<Rightarrow> body list" where
  "turn_meaning cm = (case cm of (c, None) \<Rightarrow> [] | (c, Some (raw, m)) \<Rightarrow> meaning (energy_now c) m)"

definition turn_mark :: "node_turn \<Rightarrow> adapter_state \<Rightarrow> adapter_state" where
  "turn_mark cm a = (case cm of (c, None) \<Rightarrow> a | (c, Some _) \<Rightarrow> mark_data (mark_now c) a)"

lemma loop_messages:
  assumes "\<forall>cm \<in> set cms. turn_ok node machine cm"
  shows "esp_loop exc_str record_body (turns_of cms c_end) r =
    (Inr (), r\<lparr>node_own := foldl (\<lambda>a cm. turn_mark cm a) (node_own r) cms,
               node_sink := node_sink r @ concat (map turn_meaning cms)\<rparr>)"
  using assms
proof (induction cms arbitrary: r)
  case Nil
  then show ?case by (simp add: turns_of_def)
next
  case (Cons cm cms)
  obtain c got where cm: "cm = (c, got)" by (cases cm)
  show ?case
  proof (cases got)
    case None
    with Cons cm show ?thesis by (simp add: turns_of_def turn_mark_def turn_meaning_def)
  next
    case (Some rm)
    obtain raw m where rm: "rm = (raw, m)" by (cases rm)
    with Cons.prems cm Some have "loads raw = Inr (message_json node machine m)" "sensible (energy_now c) m"
      by (simp_all add: turn_ok_def)
    from handle_message [OF this, of exc_str r] Cons cm Some rm show ?thesis
      by (simp add: turns_of_def turn_mark_def turn_meaning_def)
  qed
qed

text \<open>C20: What a retrofit node reports is exactly what the adapter emits: over any sequence of texts of the firmware's
  messages, however they are printed and with any pauses between them, one body for each start, stop and energy report and
  for each hello that counts dropped messages, in order, with the counts unchanged; no error is counted and the adapter
  stays connected. The interval of an energy report must not begin before the calendar does.\<close>

theorem node_reports_emitted:
  assumes "\<forall>cm \<in> set cms. turn_ok node machine cm"
  shows "\<exists>r. esp_start exc_str record_body now (turns_of cms c_end) a bs = (Inr (), r)
    \<and> node_sink r = bs @ concat (map turn_meaning cms)
    \<and> state (health_of (node_own r)) = ''ok''
    \<and> error_count (health_of (node_own r)) = error_count (health_of a)"
proof -
  have "state (health_of (foldl (\<lambda>a cm. turn_mark cm a) a cms)) = state (health_of a)
    \<and> error_count (health_of (foldl (\<lambda>a cm. turn_mark cm a) a cms)) = error_count (health_of a)" for a
    by (induction cms arbitrary: a) (auto simp: turn_mark_def mark_data_def split: prod.splits option.splits)
  then show ?thesis
    unfolding esp_start_def loop_messages [OF assms] by (simp add: mark_connected_def Let_def)
qed

definition node_time :: "nat \<Rightarrow> node_clock" where
  "node_time s = \<lparr>mark_now = ''2026-07-24T02:00:00.000Z'',
     energy_now = \<lparr>dt_year = 2026, dt_month = 7, dt_day = 24, dt_hour = 2, dt_minute = 0, dt_second = s, dt_us = 0\<rparr>\<rparr>"

theorem node_reports_emitted_witness:
  "\<exists>r. esp_start exn_text record_body ''2026-07-24T02:00:00.000Z''
      (turns_of [(node_time 1, Some (dumps node_opts (message_json ''n1'' ''m1'' (Load True 900)), Load True 900)), (node_time 1, None),
         (node_time 2, Some (dumps node_opts (message_json ''n1'' ''m1'' (Energy 42 60 61000)), Energy 42 60 61000))] (node_time 3))
      new_adapter [] = (Inr (), r)
    \<and> length (node_sink r) = 2"
proof -
  have v: "valid_datetime (energy_now (node_time 2))"
    by (simp add: node_time_def valid_datetime_def days_in_month_def)
  have i: "int day_us + 60 * 1000000 \<le> int (instant (energy_now (node_time 2)))"
    by (simp add: node_time_def instant_def to_ordinal_def day_us_def)
  let ?cms = "[(node_time 1, Some (dumps node_opts (message_json ''n1'' ''m1'' (Load True 900)), Load True 900)), (node_time 1, None),
     (node_time 2, Some (dumps node_opts (message_json ''n1'' ''m1'' (Energy 42 60 61000)), Energy 42 60 61000))]"
  have s: "\<forall>cm \<in> set ?cms. turn_ok ''n1'' ''m1'' cm"
    using v i by (simp add: turn_ok_def message_reads_back(1) del: dumps.simps)
  obtain st where "of_instant (int (instant (energy_now (node_time 2))) - 60000000) = Inr st"
    by (rule of_instant_total [OF v, of "int (instant (energy_now (node_time 2))) - 60000000"]) (use i in auto)
  with node_reports_emitted [OF s, of exn_text "''2026-07-24T02:00:00.000Z''" "node_time 3" new_adapter "[]"]
  show ?thesis by (auto simp: turn_meaning_def simp del: dumps.simps)
qed

text \<open>An energy report of \<open>n\<close> seconds is emitted with an interval of exactly \<open>n\<close> seconds, to the microsecond of the
  clock, that ends when the gateway handles the message: the node's own time plays no part, so a report the node
  kept while offline is dated at its arrival, and two reports handled at one reading of the clock have overlapping
  intervals.\<close>

theorem energy_interval_ends_at_arrival:
  assumes "energy_body ending msg = Inr b"
  shows "\<exists>n start wh. valid_datetime start
    \<and> res_bind (dict_item msg ''interval_s'') py_int = Inr n \<and> res_bind (dict_item msg ''wh'') py_int = Inr wh
    \<and> int (instant ending) - int (instant start) = n * 1000000
    \<and> b = interval_report start ending wh"
proof -
  from assms obtain s n d start w wh where
    "dict_item msg ''interval_s'' = Inr s" "py_int s = Inr n" "timedelta_seconds n = Inr d"
    "of_instant (int (instant ending) - d) = Inr start" "dict_item msg ''wh'' = Inr w" "py_int w = Inr wh"
    "b = interval_report start ending wh"
    unfolding energy_body_def interval_report_def by (auto simp: res_bind_eq_Inr)
  moreover from this have "d = n * 1000000" by (simp add: timedelta_seconds_eq split: if_splits)
  ultimately show ?thesis using of_instant_ok [of "int (instant ending) - d" start]
    by (intro exI [of _ n] exI [of _ start] exI [of _ wh]) simp
qed

theorem energy_interval_ends_at_arrival_witness:
  "\<exists>n start wh. valid_datetime start
    \<and> res_bind (dict_item (message_dict ''n1'' ''m1'' (Energy 42 60 61000)) ''interval_s'') py_int = Inr n
    \<and> res_bind (dict_item (message_dict ''n1'' ''m1'' (Energy 42 60 61000)) ''wh'') py_int = Inr wh
    \<and> int (instant (energy_now (node_time 2))) - int (instant start) = n * 1000000
    \<and> energy_body (energy_now (node_time 2)) (message_dict ''n1'' ''m1'' (Energy 42 60 61000)) = Inr (interval_report start (energy_now (node_time 2)) wh)"
proof -
  have v: "valid_datetime (energy_now (node_time 2))"
    by (simp add: node_time_def valid_datetime_def days_in_month_def)
  have "sensible (energy_now (node_time 2)) (Energy 42 60 61000)"
    using v by (simp add: node_time_def instant_def to_ordinal_def day_us_def)
  from reaction_sensible [OF this, of "''n1''" "''m1''"]
  obtain b where b: "energy_body (energy_now (node_time 2)) (message_dict ''n1'' ''m1'' (Energy 42 60 61000)) = Inr b"
    by (cases "energy_body (energy_now (node_time 2)) (message_dict ''n1'' ''m1'' (Energy 42 60 61000))") (simp_all add: reaction_to_def)
  show ?thesis using energy_interval_ends_at_arrival [OF b] b by metis
qed

text \<open>A malformed message: text that is not JSON and an object without a type are counted and the adapter goes on
  with nothing emitted; a JSON value that is not an object and an energy report without its fields are not caught,
  the exception leaves the handler.\<close>

theorem malformed_node_message:
  "case loads text_in of
     Inl e \<Rightarrow> esp_handle exc_str emit clock (JStr text_in) r =
       (Inr (), r\<lparr>node_own := mark_degraded (''bad node message: '' @ exc_str e) (node_own r)\<rparr>)
   | Inr (JObj d) \<Rightarrow>
       (map_of d ''type'' = None \<longrightarrow> esp_handle exc_str emit clock (JStr text_in) r =
          (Inr (), r\<lparr>node_own := mark_degraded (''bad node message: '' @ exc_str (KeyError ''type'')) (node_own r)\<rparr>))
       \<and> (map_of d ''type'' = Some (JStr ''energy'') \<and> map_of d ''interval_s'' = None \<longrightarrow>
          fst (esp_handle exc_str emit clock (JStr text_in) r) = Inl (KeyError ''interval_s''))
   | Inr v \<Rightarrow> fst (esp_handle exc_str emit clock (JStr text_in) r) = Inl TypeError"
proof (cases "loads text_in")
  case (Inl e)
  then have "caught_at_parse e" by (auto simp: loads_def split: option.splits prod.splits if_splits)
  with Inl show ?thesis by (simp add: esp_handle_def)
next
  case (Inr v)
  then show ?thesis
    by (cases v) (auto simp: esp_handle_def dict_item_def reaction_to_def energy_body_def)
qed

theorem malformed_node_message_witness:
  "fst (esp_handle exn_text record_body (node_time 0) (JStr (dumps default_opts (JObj [(''type'', JStr ''energy'')])))
     \<lparr>node_own = new_adapter, node_sink = []\<rparr>) = Inl (KeyError ''interval_s'')"
proof -
  have "utf8_ok ''type''" "utf8_ok ''energy''" by (rule utf8_ok_ascii, simp)+
  then have "loads (dumps default_opts (JObj [(''type'', JStr ''energy'')])) = Inr (JObj [(''type'', JStr ''energy'')])"
    by (intro loads_dumps_default) (simp_all add: text_ok_def)
  with malformed_node_message [where text_in = "dumps default_opts (JObj [(''type'', JStr ''energy'')])" and exc_str = exn_text
      and emit = record_body and clock = "node_time 0" and r = "\<lparr>node_own = new_adapter, node_sink = []\<rparr>"]
  show ?thesis by simp
qed

end
