(* ===== verification/Loader.thy ===== *)
theory Loader
  imports Engine
begin

text \<open>
  \<open>load_adapter_class\<close> of \<open>gateway/omp/cli.py\<close>: an adapter is imported from its directory while the
  directory is on the module path, and the sibling modules it brought in are evicted afterwards. The
  file system and the execution of the module are parameters.
\<close>

section \<open>Modules\<close>

text \<open>\<open>sys.path\<close> and \<open>sys.modules\<close> with the \<open>__file__\<close> of each module.\<close>

record interpreter =
  sys_path :: "string list"
  sys_modules :: "string option dict"

text \<open>
  \<open>resolved\<close> is \<open>Path.resolve\<close>; \<open>exec_module\<close> runs the source and gives its attribute \<open>Adapter\<close>;
  \<open>adapter_subclass\<close> is \<open>issubclass(cls, AdapterBase)\<close>.
\<close>

record 'c import_env =
  resolved :: "string \<Rightarrow> string"
  is_file :: "string \<Rightarrow> bool"
  exec_module :: "string \<Rightarrow> interpreter \<Rightarrow> 'c option res \<times> interpreter"
  adapter_subclass :: "'c \<Rightarrow> bool res"

definition dir_name :: "string \<Rightarrow> string" where
  "dir_name p = rev (drop 1 (dropWhile (\<lambda>c. c \<noteq> CHR ''/'') (rev p)))"

definition candidates :: "string \<Rightarrow> string list" where
  "candidates p = [p @ ''/adapter.py'', p @ ''/__init__.py'', p]"

text \<open>The new modules whose file is under the directory, as a prefix of the path, are removed.\<close>

definition evict :: "string \<Rightarrow> string set \<Rightarrow> string option dict \<Rightarrow> string option dict" where
  "evict parent before ms =
     filter (\<lambda>(name, file). name \<in> before
       \<or> \<not> starts_with parent (case file of None \<Rightarrow> [] | Some f \<Rightarrow> f)) ms"

definition restore_path :: "string \<Rightarrow> string set \<Rightarrow> interpreter \<Rightarrow> unit res \<times> interpreter" where
  "restore_path parent before s =
     (if parent \<notin> set (sys_path s) then (Inl (ValueError ''list.remove(x): x not in list''), s)
      else (Inr (), s\<lparr>sys_path := remove1 parent (sys_path s), sys_modules := evict parent before (sys_modules s)\<rparr>))"

definition load_adapter_class :: "'c import_env \<Rightarrow> string \<Rightarrow> interpreter \<Rightarrow> 'c res \<times> interpreter" where
  "load_adapter_class env adapter_path s =
     (case find (is_file env) (candidates (resolved env adapter_path)) of
        None \<Rightarrow> (Inl (SystemExit (''no adapter module found under '' @ adapter_path)), s)
      | Some src \<Rightarrow>
          let parent = dir_name src;
              (loaded, s2) = exec_module env src (s\<lparr>sys_path := parent # sys_path s\<rparr>);
              (restored, s3) = restore_path parent (set (map fst (sys_modules s))) s2;
              refuse = Inl (SystemExit (src @ '' does not define an Adapter(AdapterBase) class''))
          in (res_bind restored (\<lambda>_. res_bind loaded (\<lambda>cls.
                case cls of None \<Rightarrow> refuse
                | Some c \<Rightarrow> res_bind (adapter_subclass env c) (\<lambda>b. if b then Inr c else refuse))), s3))"

section \<open>Adapters do not share modules\<close>

text \<open>A module body that leaves the path as it found it and only adds modules.\<close>

definition adds_modules :: "'c import_env \<Rightarrow> bool" where
  "adds_modules env =
     (\<forall>src s r s'. exec_module env src s = (r, s') \<longrightarrow>
        sys_path s' = sys_path s \<and> (\<exists>new. sys_modules s' = sys_modules s @ new))"

lemma starts_with_dir: "starts_with p s \<longleftrightarrow> (\<exists>r. s = p @ r)"
  by (induction p s rule: starts_with.induct) auto

text \<open>Loading an adapter leaves no trace that another adapter could pick up: however it ends, the module path is the
  one before, every module that was loaded before is still there unchanged, and no new module comes from the
  directory of the adapter.\<close>

theorem load_leaves_no_siblings:
  assumes "adds_modules env" "load_adapter_class env adapter_path s = (r, s')"
    and "find (is_file env) (candidates (resolved env adapter_path)) = Some src"
  shows "sys_path s' = sys_path s
    \<and> (\<exists>kept. sys_modules s' = sys_modules s @ kept
         \<and> (\<forall>(name, file) \<in> set kept. name \<in> fst ` set (sys_modules s)
              \<or> (\<forall>rest. file \<noteq> Some (dir_name src @ rest))))"
proof -
  obtain loaded s2 where x: "exec_module env src (s\<lparr>sys_path := dir_name src # sys_path s\<rparr>) = (loaded, s2)"
    by (cases "exec_module env src (s\<lparr>sys_path := dir_name src # sys_path s\<rparr>)")
  from assms(1) x have p: "sys_path s2 = dir_name src # sys_path s"
    unfolding adds_modules_def by fastforce
  from assms(1) x obtain new where n: "sys_modules s2 = sys_modules s @ new"
    unfolding adds_modules_def by fastforce
  let ?kept = "evict (dir_name src) (fst ` set (sys_modules s)) new"
  have s': "s' = s2\<lparr>sys_path := sys_path s, sys_modules := sys_modules s @ ?kept\<rparr>"
  proof -
    have "filter (\<lambda>(name, file). name \<in> fst ` set (sys_modules s) \<or> P name file) (sys_modules s) = sys_modules s" for P
      by (rule filter_True) (auto simp: rev_image_eqI)
    then show ?thesis
      using assms(2,3) x p n by (simp add: load_adapter_class_def restore_path_def evict_def Let_def split: prod.splits)
  qed
  have "\<forall>(name, file) \<in> set ?kept. name \<in> fst ` set (sys_modules s) \<or> (\<forall>rest. file \<noteq> Some (dir_name src @ rest))"
    by (auto simp: evict_def starts_with_dir)
  with s' show ?thesis by auto
qed

definition demo_import :: "unit import_env" where
  "demo_import = \<lparr>resolved = (\<lambda>p. p), is_file = (\<lambda>p. p = ''/a/serial/adapter.py''),
     exec_module = (\<lambda>src s. (Inr (Some ()), s\<lparr>sys_modules := sys_modules s
        @ [(''protocol'', Some ''/a/serial/protocol.py''), (''serial'', Some ''/lib/serial.py'')]\<rparr>)),
     adapter_subclass = (\<lambda>_. Inr True)\<rparr>"

theorem load_leaves_no_siblings_witness:
  "sys_path (snd (load_adapter_class demo_import ''/a/serial'' \<lparr>sys_path = [''/lib''], sys_modules = []\<rparr>)) = [''/lib'']"
proof -
  have a: "adds_modules demo_import" by (auto simp: adds_modules_def demo_import_def)
  have f: "find (is_file demo_import) (candidates (resolved demo_import ''/a/serial'')) = Some ''/a/serial/adapter.py''"
    by (simp add: demo_import_def candidates_def)
  obtain r s' where l: "load_adapter_class demo_import ''/a/serial'' \<lparr>sys_path = [''/lib''], sys_modules = []\<rparr> = (r, s')"
    by (cases "load_adapter_class demo_import ''/a/serial'' \<lparr>sys_path = [''/lib''], sys_modules = []\<rparr>")
  from load_leaves_no_siblings [OF a l f] l show ?thesis by simp
qed

end
