(* ===== verification/Supervision.thy ===== *)
theory Supervision
  imports Adapter_Base
begin

text \<open>
  The thread of one adapter as the threads around it see it: \<open>_supervise\<close> of \<open>gateway/omp/cli.py\<close>, the stop
  flag each adapter creates at the beginning of \<open>start\<close>, and the two ways to be stopped: the event of
  the gateway and \<open>stop_machine\<close>, interleaved in any order. What \<open>start\<close> does in between is free: it may return or crash at
  any time, and it need not end at all. The adapters of the repository leave \<open>start\<close> on their own flag only, never on the
  event of the gateway; which steps a thread is bound to make is \<open>bound_step\<close> below.
\<close>

section \<open>Steps\<close>

datatype phase = Top | Entering | In_Start | Backing_Off | Gone

text \<open>
  The test of the event of the gateway, the call of \<open>start\<close> and the creation of the flag in it are separate steps: a thread
  that is \<open>Entering\<close> has passed the test and not yet made its flag.
  \<open>own_stop\<close> is the flag of the adapter, \<open>None\<close> before the first start; \<open>begun\<close> counts the starts;
  \<open>asked\<close> records that the adapter's \<open>stop\<close> set the flag, \<open>stop_failed\<close> that a call of it raised an \<open>AttributeError\<close> (in
  the thread that called it), for there was no flag to set.
\<close>

record supervised =
  phase_of :: phase
  own_stop :: "bool option"
  gateway_stop :: bool
  crash_count :: int
  begun :: int
  asked :: bool
  stop_failed :: bool

definition new_thread :: supervised where
  "new_thread = \<lparr>phase_of = Top, own_stop = None, gateway_stop = False, crash_count = 0, begun = 0, asked = False,
     stop_failed = False\<rparr>"

definition begin_start :: "supervised \<Rightarrow> supervised" where
  "begin_start s = s\<lparr>phase_of := Entering, begun := begun s + 1\<rparr>"

definition make_flag :: "supervised \<Rightarrow> supervised" where
  "make_flag s = s\<lparr>phase_of := In_Start, own_stop := Some False\<rparr>"

definition call_stop :: "supervised \<Rightarrow> supervised" where
  "call_stop s = (if own_stop s = None then s\<lparr>stop_failed := True\<rparr> else s\<lparr>own_stop := Some True, asked := True\<rparr>)"

definition crash :: "int \<Rightarrow> supervised \<Rightarrow> supervised" where
  "crash max_crashes s =
     s\<lparr>crash_count := crash_count s + 1, phase_of := (if crash_count s + 1 \<ge> max_crashes then Gone else Backing_Off)\<rparr>"

inductive sup_step :: "int \<Rightarrow> supervised \<Rightarrow> supervised \<Rightarrow> bool" for max_crashes where
  sup_leave: "phase_of s = Top \<Longrightarrow> gateway_stop s \<Longrightarrow> sup_step max_crashes s (s\<lparr>phase_of := Gone\<rparr>)"
| sup_begin: "phase_of s = Top \<Longrightarrow> \<not> gateway_stop s \<Longrightarrow> sup_step max_crashes s (begin_start s)"
| sup_flag: "phase_of s = Entering \<Longrightarrow> sup_step max_crashes s (make_flag s)"
| sup_return: "phase_of s = In_Start \<Longrightarrow> sup_step max_crashes s (s\<lparr>phase_of := Gone\<rparr>)"
| sup_crash: "phase_of s = In_Start \<Longrightarrow> sup_step max_crashes s (crash max_crashes s)"
| sup_waited: "phase_of s = Backing_Off \<Longrightarrow> \<not> gateway_stop s \<Longrightarrow> sup_step max_crashes s (s\<lparr>phase_of := Top\<rparr>)"
| sup_wait_cut: "phase_of s = Backing_Off \<Longrightarrow> gateway_stop s \<Longrightarrow> sup_step max_crashes s (s\<lparr>phase_of := Gone\<rparr>)"
| sup_stop: "sup_step max_crashes s (call_stop s)"
| sup_gateway_stop: "sup_step max_crashes s (s\<lparr>gateway_stop := True\<rparr>)"

inductive_cases sup_step_E: "sup_step max_crashes s s'"

lemmas step_effects = begin_start_def make_flag_def call_stop_def crash_def

abbreviation sup_run :: "int \<Rightarrow> supervised \<Rightarrow> supervised \<Rightarrow> bool" where
  "sup_run max_crashes \<equiv> (sup_step max_crashes)\<^sup>*\<^sup>*"

section \<open>Stopping\<close>

lemma gateway_stop_step: "sup_step max_crashes s s' \<Longrightarrow> gateway_stop s \<Longrightarrow> gateway_stop s' \<and> begun s' = begun s"
  by (erule sup_step_E) (simp_all add: step_effects)

lemma gateway_stop_run: "sup_run max_crashes s s' \<Longrightarrow> gateway_stop s \<Longrightarrow> gateway_stop s' \<and> begun s' = begun s"
  by (induction rule: rtranclp_induct) (auto dest: gateway_stop_step)

definition starts_bounded :: "int \<Rightarrow> supervised \<Rightarrow> bool" where
  "starts_bounded max_crashes s =
     (0 \<le> crash_count s
      \<and> begun s = crash_count s + (if phase_of s = Entering \<or> phase_of s = In_Start \<or> (phase_of s = Gone \<and> begun s > crash_count s) then 1 else 0)
      \<and> (phase_of s \<noteq> Gone \<longrightarrow> crash_count s < max 1 max_crashes)
      \<and> begun s \<le> max 1 max_crashes)"

lemma starts_bounded_step: "sup_step max_crashes s s' \<Longrightarrow> starts_bounded max_crashes s \<Longrightarrow> starts_bounded max_crashes s'"
  by (erule sup_step_E) (simp_all add: starts_bounded_def step_effects max_def split: if_splits)

lemma starts_bounded_run: "sup_run max_crashes new_thread s \<Longrightarrow> starts_bounded max_crashes s"
  by (induction rule: rtranclp_induct) (auto simp: starts_bounded_def new_thread_def dest: starts_bounded_step)

text \<open>Stopping the gateway stops every adapter for good: once its event is set no adapter is started again, in any
  interleaving, and in every run an adapter is started at most \<open>max_crashes\<close> times (once if that is less than one).\<close>

theorem gateway_stop_is_final:
  assumes "sup_run max_crashes new_thread s" "gateway_stop s" "sup_run max_crashes s s'"
  shows "begun s' = begun s \<and> begun s' \<le> max 1 max_crashes"
  using gateway_stop_run [OF assms(3,2)] starts_bounded_run [OF assms(1)] by (simp add: starts_bounded_def)

theorem gateway_stop_is_final_witness:
  "begun (new_thread\<lparr>gateway_stop := True, phase_of := Gone\<rparr>) \<le> max 1 5"
proof -
  have r1: "sup_run 5 new_thread (new_thread\<lparr>gateway_stop := True\<rparr>)" by (intro r_into_rtranclp sup_gateway_stop)
  have r2: "sup_run 5 (new_thread\<lparr>gateway_stop := True\<rparr>) (new_thread\<lparr>gateway_stop := True, phase_of := Gone\<rparr>)"
    using sup_leave [of "new_thread\<lparr>gateway_stop := True\<rparr>" 5] by (intro r_into_rtranclp) (simp add: new_thread_def)
  show ?thesis using gateway_stop_is_final [OF r1 _ r2] by simp
qed

section \<open>The thread's own steps\<close>

text \<open>The steps of the thread itself, as opposed to those of the threads around it.\<close>

definition own_step :: "int \<Rightarrow> supervised \<Rightarrow> supervised \<Rightarrow> bool" where
  "own_step max_crashes s s' = (sup_step max_crashes s s' \<and> phase_of s' \<noteq> phase_of s)"

lemma phase_after:
  "phase_of (begin_start s) = Entering" "phase_of (make_flag s) = In_Start" "phase_of (crash max_crashes s) \<noteq> In_Start"
  by (simp_all add: step_effects)

lemma own_step_iff:
  "own_step max_crashes s s' \<longleftrightarrow>
     (case phase_of s of
        Top \<Rightarrow> s' = (if gateway_stop s then s\<lparr>phase_of := Gone\<rparr> else begin_start s)
      | Entering \<Rightarrow> s' = make_flag s
      | In_Start \<Rightarrow> s' = s\<lparr>phase_of := Gone\<rparr> \<or> s' = crash max_crashes s
      | Backing_Off \<Rightarrow> s' = s\<lparr>phase_of := (if gateway_stop s then Gone else Top)\<rparr>
      | Gone \<Rightarrow> False)"
proof
  assume "own_step max_crashes s s'"
  then have "sup_step max_crashes s s'" "phase_of s' \<noteq> phase_of s" by (simp_all add: own_step_def)
  then show "case phase_of s of
        Top \<Rightarrow> s' = (if gateway_stop s then s\<lparr>phase_of := Gone\<rparr> else begin_start s)
      | Entering \<Rightarrow> s' = make_flag s
      | In_Start \<Rightarrow> s' = s\<lparr>phase_of := Gone\<rparr> \<or> s' = crash max_crashes s
      | Backing_Off \<Rightarrow> s' = s\<lparr>phase_of := (if gateway_stop s then Gone else Top)\<rparr>
      | Gone \<Rightarrow> False"
    by (elim sup_step_E) (simp_all add: call_stop_def split: if_splits)
qed (auto simp: own_step_def phase_after split: phase.splits if_splits
       intro: sup_leave sup_begin sup_flag sup_return sup_crash sup_waited sup_wait_cut)

text \<open>Whether \<open>stop\<close> was asked for is only a record: no step depends on it.\<close>

lemma own_step_asked:
  "own_step max_crashes (s\<lparr>asked := a\<rparr>) t \<longleftrightarrow> (\<exists>u. own_step max_crashes s u \<and> t = u\<lparr>asked := a\<rparr>)"
proof -
  have "begin_start (s\<lparr>asked := a\<rparr>) = (begin_start s)\<lparr>asked := a\<rparr>" "make_flag (s\<lparr>asked := a\<rparr>) = (make_flag s)\<lparr>asked := a\<rparr>"
    "crash max_crashes (s\<lparr>asked := a\<rparr>) = (crash max_crashes s)\<lparr>asked := a\<rparr>" "s\<lparr>asked := a, phase_of := p\<rparr> = s\<lparr>phase_of := p, asked := a\<rparr>" for p
    by (simp_all add: step_effects)
  then show ?thesis unfolding own_step_iff by (cases "phase_of s") auto
qed

lemma own_steps_asked:
  "(own_step max_crashes ^^ k) (s\<lparr>asked := a\<rparr>) t \<longleftrightarrow> (\<exists>u. (own_step max_crashes ^^ k) s u \<and> t = u\<lparr>asked := a\<rparr>)"
proof (induction k arbitrary: t)
  case (Suc k)
  have "(own_step max_crashes ^^ Suc k) (s\<lparr>asked := a\<rparr>) t \<longleftrightarrow>
      (\<exists>v. (\<exists>u. (own_step max_crashes ^^ k) s u \<and> v = u\<lparr>asked := a\<rparr>) \<and> own_step max_crashes v t)"
    unfolding relpowp.simps relcompp_apply Suc.IH ..
  then show ?case unfolding relpowp.simps relcompp_apply using own_step_asked by blast
qed auto

text \<open>A thread that has been in \<open>start\<close> has a flag.\<close>

definition flag_made :: "supervised \<Rightarrow> bool" where
  "flag_made s = (phase_of s \<in> {In_Start, Backing_Off} \<longrightarrow> own_stop s \<noteq> None)"

lemma flag_made_run: "sup_run max_crashes new_thread s \<Longrightarrow> flag_made s"
proof (induction rule: rtranclp_induct)
  case (step s s')
  then show ?case by (elim sup_step_E) (auto simp: flag_made_def step_effects)
qed (simp add: flag_made_def new_thread_def)

text \<open>Three steps from the end of a wait to the loop of the adapter.\<close>

lemma back_in_start:
  assumes "phase_of s = Backing_Off" "\<not> gateway_stop s"
  shows "(own_step max_crashes ^^ 3) s t \<longleftrightarrow> t = make_flag (begin_start s)"
  using assms by (auto simp: numeral_3_eq_3 relcompp_apply own_step_iff step_effects)

section \<open>A stop that is lost\<close>

text \<open>C36: Stopping one machine while its adapter waits to be retried has no effect: as long as the event of the gateway is not
  set, the thread goes back into \<open>start\<close>, in three steps, with its flag clear; from there on it can reach exactly the
  states it could have reached without the stop, which is left only in the record that it was asked for.\<close>

theorem stop_lost_in_backoff:
  assumes "sup_run max_crashes new_thread s" "phase_of s = Backing_Off" "\<not> gateway_stop s"
  shows "asked (call_stop s) \<and> own_stop (call_stop s) = Some True
    \<and> (own_step max_crashes ^^ 3) (call_stop s) t
        = (t = s\<lparr>phase_of := In_Start, own_stop := Some False, begun := begun s + 1, asked := True\<rparr>)
    \<and> (3 \<le> k \<longrightarrow> (own_step max_crashes ^^ k) (call_stop s) t = (\<exists>u. (own_step max_crashes ^^ k) s u \<and> t = u\<lparr>asked := True\<rparr>))"
proof -
  have c: "call_stop s = s\<lparr>own_stop := Some True, asked := True\<rparr>"
    using flag_made_run [OF assms(1)] assms(2) by (auto simp: call_stop_def flag_made_def)
  have three: "(own_step max_crashes ^^ 3) (call_stop s) t \<longleftrightarrow> t = make_flag (begin_start (call_stop s))" for t
    by (rule back_in_start) (simp_all add: c assms)
  have same: "make_flag (begin_start (call_stop s)) = (make_flag (begin_start s))\<lparr>asked := True\<rparr>"
    by (simp add: c begin_start_def make_flag_def)
  have "(own_step max_crashes ^^ k) (call_stop s) t = (\<exists>u. (own_step max_crashes ^^ k) s u \<and> t = u\<lparr>asked := True\<rparr>)" if "3 \<le> k"
  proof -
    have k: "(own_step max_crashes ^^ k) = (own_step max_crashes ^^ 3) OO (own_step max_crashes ^^ (k - 3))"
      using that relpowp_add [of 3 "k - 3" "own_step max_crashes"] by simp
    show ?thesis
      unfolding k relcompp_apply three back_in_start [OF assms(2,3)] by (simp add: same own_steps_asked)
  qed
  moreover have "make_flag (begin_start (call_stop s))
      = s\<lparr>phase_of := In_Start, own_stop := Some False, begun := begun s + 1, asked := True\<rparr>"
    by (simp add: c begin_start_def make_flag_def)
  ultimately show ?thesis by (simp add: three) (simp add: c)
qed

theorem stop_lost_in_backoff_witness:
  "\<exists>s t. sup_run 5 new_thread s \<and> (own_step 5 ^^ 3) (call_stop s) t
     \<and> phase_of t = In_Start \<and> asked t \<and> own_stop t = Some False"
proof -
  let ?s = "crash 5 (make_flag (begin_start new_thread))"
  have "sup_step 5 new_thread (begin_start new_thread)" by (rule sup_begin) (simp_all add: new_thread_def)
  moreover have "sup_step 5 (begin_start new_thread) (make_flag (begin_start new_thread))"
    by (rule sup_flag) (simp add: begin_start_def)
  moreover have "sup_step 5 (make_flag (begin_start new_thread)) ?s" by (rule sup_crash) (simp add: make_flag_def)
  ultimately have r: "sup_run 5 new_thread ?s"
    by (meson converse_rtranclp_into_rtranclp r_into_rtranclp)
  have b: "phase_of ?s = Backing_Off" "\<not> gateway_stop ?s" by (simp_all add: step_effects new_thread_def)
  let ?t = "?s\<lparr>phase_of := In_Start, own_stop := Some False, begun := begun ?s + 1, asked := True\<rparr>"
  from stop_lost_in_backoff [OF r b, of ?t 3] have "(own_step 5 ^^ 3) (call_stop ?s) ?t" by simp
  with r show ?thesis by (intro exI [of _ ?s] exI [of _ ?t]) simp
qed

section \<open>The end after a stop of the gateway\<close>

text \<open>
  The steps a thread is bound to make: all but the end of \<open>start\<close>, which an adapter owes only to its own flag. In \<open>start\<close>
  with the flag clear there is none, whether the event of the gateway is set or not.
\<close>

definition bound_step :: "int \<Rightarrow> supervised \<Rightarrow> supervised \<Rightarrow> bool" where
  "bound_step max_crashes s s' =
     (own_step max_crashes s s' \<and> (phase_of s = In_Start \<longrightarrow> own_stop s = Some True))"

definition steps_left :: "phase \<Rightarrow> nat" where
  "steps_left p = (case p of Gone \<Rightarrow> 0 | Top \<Rightarrow> 1 | Backing_Off \<Rightarrow> 1 | In_Start \<Rightarrow> 2 | Entering \<Rightarrow> 3)"

lemma steps_left_step:
  "sup_step max_crashes s s' \<Longrightarrow> gateway_stop s \<Longrightarrow>
     gateway_stop s' \<and> (if phase_of s' = phase_of s then True else steps_left (phase_of s') < steps_left (phase_of s))"
  by (erule sup_step_E) (simp_all add: step_effects steps_left_def)

text \<open>The gateway and the adapter are both told: such an adapter is not about to make a new flag.\<close>

definition told :: "supervised \<Rightarrow> bool" where
  "told s = (gateway_stop s \<and> phase_of s \<noteq> Entering \<and> (phase_of s = In_Start \<longrightarrow> own_stop s = Some True))"

lemma told_step: "sup_step max_crashes s s' \<Longrightarrow> told s \<Longrightarrow> told s'"
  by (erule sup_step_E) (auto simp: told_def step_effects)

text \<open>The number of the thread's own steps in a run.\<close>

inductive run_counting :: "int \<Rightarrow> supervised \<Rightarrow> nat \<Rightarrow> supervised \<Rightarrow> bool" for max_crashes where
  counting_none: "run_counting max_crashes s 0 s"
| counting_own: "run_counting max_crashes s n s' \<Longrightarrow> own_step max_crashes s' s'' \<Longrightarrow> run_counting max_crashes s (Suc n) s''"
| counting_other: "run_counting max_crashes s n s' \<Longrightarrow> sup_step max_crashes s' s'' \<Longrightarrow> phase_of s'' = phase_of s' \<Longrightarrow>
    run_counting max_crashes s n s''"

lemma run_counting_bound:
  "run_counting max_crashes s n s' \<Longrightarrow> told s \<Longrightarrow>
     told s' \<and> n + steps_left (phase_of s') \<le> steps_left (phase_of s)"
proof (induction rule: run_counting.induct)
  case (counting_own s n s' s'')
  then have "sup_step max_crashes s' s''" "phase_of s'' \<noteq> phase_of s'" "told s'" by (simp_all add: own_step_def)
  moreover from \<open>told s'\<close> have "gateway_stop s'" by (simp add: told_def)
  ultimately show ?case using steps_left_step [of max_crashes s' s''] told_step [of max_crashes s' s''] counting_own by simp
next
  case (counting_other s n s' s'')
  with told_step [of max_crashes s' s''] show ?case by simp
qed simp

text \<open>C22: The thread of an adapter ends after the gateway is stopped, if the adapter is told as well. Let the event of
  the gateway be set, and let the adapter not be between the test of that event and the making of its flag; if it is in
  \<open>start\<close>, let its own flag be set. Then in any run from there, whatever the other threads do in between, the thread makes at most
  two steps of its own, and as long as it has not ended it is bound to make one. (An adapter in \<open>start\<close> whose own flag is
  clear need not do anything: the event of the gateway alone does not reach it.)\<close>

theorem thread_ends_after_stop:
  assumes "gateway_stop s" "phase_of s \<noteq> Entering" "phase_of s = In_Start \<Longrightarrow> own_stop s = Some True"
    and "run_counting max_crashes s n s'"
  shows "n \<le> 2 \<and> begun s' = begun s \<and> (phase_of s' = Gone \<or> (\<exists>s''. bound_step max_crashes s' s''))"
proof (intro conjI)
  have "told s" using assms(1-3) by (simp add: told_def)
  from run_counting_bound [OF assms(4) this] have b: "told s'" "n + steps_left (phase_of s') \<le> steps_left (phase_of s)" by simp_all
  with assms(2) show "n \<le> 2" by (cases "phase_of s") (simp_all add: steps_left_def)
  have "sup_run max_crashes s s'"
    using assms(4) by (induction rule: run_counting.induct) (auto simp: own_step_def)
  from gateway_stop_run [OF this assms(1)] show "begun s' = begun s" by simp
  show "phase_of s' = Gone \<or> (\<exists>s''. bound_step max_crashes s' s'')"
    using b(1) by (cases "phase_of s'") (auto simp: bound_step_def own_step_iff told_def)
qed

theorem thread_ends_after_stop_witness:
  "\<exists>s s'. phase_of s = In_Start \<and> run_counting 5 s 1 s' \<and> phase_of s' = Gone"
proof -
  let ?s = "call_stop (make_flag (begin_start new_thread))\<lparr>gateway_stop := True\<rparr>"
  have s: "gateway_stop ?s" "phase_of ?s = In_Start" "own_stop ?s = Some True"
    by (simp_all add: step_effects new_thread_def)
  have "run_counting 5 ?s 0 ?s" by (rule counting_none)
  from thread_ends_after_stop [OF s(1) _ s(3) this] s(2) obtain s' where "bound_step 5 ?s s'" by auto
  then have "own_step 5 ?s s'" by (simp add: bound_step_def)
  with s(2) have "own_step 5 ?s (?s\<lparr>phase_of := Gone\<rparr>)" by (simp add: own_step_iff)
  from counting_own [OF counting_none this] s(2) show ?thesis
    by (intro exI [of _ ?s] exI [of _ "?s\<lparr>phase_of := Gone\<rparr>"]) simp
qed

end
