(* ===== verification/Simulate_Stream.thy ===== *)
theory Simulate_Stream
  imports Simulate
begin

text \<open>
  What the simulator emits, for every generator that keeps the documented ranges: the numbers of a machine
  are consecutive, the checksums are those of the bodies, the loops end, and the range a run cites is the
  run's events.
\<close>

section \<open>Arithmetic of durations\<close>

lemma to_double_between:
  assumes "of_int a \<le> q" "q \<le> of_int b" "0 \<le> a" "b < 2 ^ 53"
  shows "\<exists>p. to_double q = Fin p \<and> of_int a \<le> p \<and> p \<le> of_int b"
proof (cases "q = 0")
  case True
  with assms show ?thesis by (simp add: to_double_def)
next
  case False
  have "(0::rat) \<le> of_int a" using assms(3) by simp
  with assms(1) False have q: "0 < q" by linarith
  have "(of_int b :: rat) < of_int (2 ^ 53)" using assms(4) by (subst of_int_less_iff)
  then have b: "of_int b < (2 ^ 53 :: rat)" by simp
  with assms(2) have q53: "q < 2 ^ 53" by linarith
  have r: "of_int a \<le> round_pos q" "round_pos q \<le> of_int b"
    using round_pos_ge_int [OF q q53 assms(1)] round_pos_le_int [OF q q53 assms(2)] .
  have "(2::rat) ^ 53 < pow2 1024" by (simp add: pow2_def)
  with r(2) b have "\<not> pow2 1024 \<le> round_pos q" by linarith
  with q r show ?thesis by (simp add: to_double_def)
qed

lemma float_mul_between:
  assumes "of_int a \<le> x * y" "x * y \<le> of_int b" "0 \<le> a" "b < 2 ^ 53"
  shows "\<exists>p. float_mul (Fin x) (Fin y) = Fin p \<and> of_int a \<le> p \<and> p \<le> of_int b"
  using to_double_between [OF assms] by (simp add: float_mul_def is_nan_def)

lemma float_add_between:
  assumes "of_int a \<le> x + y" "x + y \<le> of_int b" "0 \<le> a" "b < 2 ^ 53"
  shows "\<exists>p. float_add (Fin x) (Fin y) = Fin p \<and> of_int a \<le> p \<and> p \<le> of_int b"
  using to_double_between [OF assms] by (simp add: float_add_def)

lemma uniform_range:
  assumes "generator_ok g" "0 \<le> a" "a \<le> b" "b < 2 ^ 53"
  shows "\<exists>q r'. uniform g a b r = (Fin q, r') \<and> of_int a \<le> q \<and> q \<le> of_int b"
proof -
  obtain x r' where n: "next_random g r = (x, r')" by (cases "next_random g r")
  with assms(1) obtain y where y: "x = Fin y" "0 \<le> y" "y < 1" unfolding generator_ok_def by (metis fst_conv)
  have d: "(0::rat) \<le> of_int (b - a)" using assms(3) by simp
  have "of_int (b - a) * y \<le> of_int (b - a)" using mult_left_mono [of y 1, OF _ d] y by simp
  moreover have "0 \<le> of_int (b - a) * y" using d y by simp
  ultimately obtain p where p: "float_mul (Fin (of_int (b - a))) (Fin y) = Fin p" "0 \<le> p" "p \<le> of_int (b - a)"
    using float_mul_between [of 0 "of_int (b - a)" y "b - a"] assms by auto
  then obtain q where "float_add (Fin (of_int a)) (Fin p) = Fin q" "of_int a \<le> q" "q \<le> of_int b"
    using float_add_between [of a "of_int a" p b] assms by auto
  with p y n show ?thesis by (simp add: uniform_def)
qed

lemma float_us_between:
  assumes "of_int a \<le> q" "q \<le> of_int b" "0 \<le> a" "0 < u" "u < 2 ^ 53"
  shows "a * int u \<le> float_us u q" "float_us u q \<le> b * int u"
proof -
  have "(0::rat) \<le> of_int a" using assms(3) by simp
  with assms(1) have q0: "0 \<le> q" by linarith
  then have t: "trunc_rat q = \<lfloor>q\<rfloor>" by (simp add: trunc_rat_def)
  have lo: "a \<le> \<lfloor>q\<rfloor>" using assms(1) by linarith
  define f where "f = q - of_int \<lfloor>q\<rfloor>"
  have f: "0 \<le> f" "f < 1" unfolding f_def by linarith+
  have u: "(0::rat) \<le> of_nat u" by simp
  have "f * of_nat u \<le> of_nat u" using mult_right_mono [of f 1, OF _ u] f by simp
  moreover have "0 \<le> f * of_nat u" using f u by simp
  moreover have "int u < 2 ^ 53" using assms(5) by (metis of_nat_less_iff of_nat_numeral of_nat_power)
  ultimately obtain p where p: "to_double (f * of_nat u) = Fin p" "0 \<le> p" "p \<le> of_nat u"
    using to_double_between [of 0 "f * of_nat u" "int u"] by auto
  have r: "0 \<le> round_half_even p" using round_half_even_ge [of 0 p] p by simp
  have ru: "round_half_even p \<le> int u" using round_half_even_le [of p "int u"] p by simp
  have e: "float_us u q = \<lfloor>q\<rfloor> * int u + round_half_even p"
    by (simp add: float_us_def t p flip: f_def)
  have "a * int u \<le> \<lfloor>q\<rfloor> * int u" using lo by (simp add: mult_right_mono)
  then show "a * int u \<le> float_us u q" using r e by linarith
  show "float_us u q \<le> b * int u"
  proof (cases "\<lfloor>q\<rfloor> = b")
    case True
    with assms(2) have "f = 0" using f unfolding f_def by linarith
    with p have "p = 0" by (simp add: to_double_def)
    then have "round_half_even p = 0" using round_half_even_of_int [of 0] by simp
    with e True show ?thesis by simp
  next
    case False
    with assms(2) have "\<lfloor>q\<rfloor> + 1 \<le> b" by linarith
    then have "(\<lfloor>q\<rfloor> + 1) * int u \<le> b * int u" by (simp add: mult_right_mono)
    with e ru show ?thesis by (simp add: distrib_right)
  qed
qed

text \<open>The last instant a \<open>datetime\<close> can hold.\<close>

definition last_time :: datetime where
  "last_time = \<lparr>dt_year = 9999, dt_month = 12, dt_day = 31, dt_hour = 23, dt_minute = 59, dt_second = 59, dt_us = 999999\<rparr>"

lemma last_time_valid: "valid_datetime last_time"
  by (simp add: last_time_def valid_datetime_def days_in_month_def)

lemma instant_last_time: "instant last_time = 315537983999999999"
  by (simp add: last_time_def instant_def to_ordinal_def us_of_day_def day_us_def days_before_december days_before_year_def is_leap_def)

lemma instant_EPOCH: "instant EPOCH = 63920541600000000" and EPOCH_valid: "valid_datetime EPOCH"
proof -
  note step = days_before_month_Suc [of _ 2026]
  have february: "days_before_month 2026 2 = 31"
    by (simp add: numeral_2_eq_2 days_in_month_def)
  have "days_before_month 2026 7 = 181"
    using february step [of 2] step [of 3] step [of 4] step [of 5] step [of 6]
    by (simp add: days_in_month_def is_leap_def)
  then show "instant EPOCH = 63920541600000000"
    by (simp add: EPOCH_def instant_def to_ordinal_def us_of_day_def day_us_def days_before_year_def)
  show "valid_datetime EPOCH" by (simp add: EPOCH_def valid_datetime_def days_in_month_def)
qed

lemma later_between:
  assumes "valid_datetime t" "of_int a \<le> q" "q \<le> of_int b" "0 \<le> a" "b \<le> 220000000000"
    and "int (instant t) + b * 1000000 \<le> int (instant last_time)"
  shows "\<exists>t'. later t (Fin q) = Inr t' \<and> valid_datetime t' \<and> int (instant t) + a * 1000000 \<le> int (instant t')
    \<and> int (instant t') \<le> int (instant t) + b * 1000000"
proof -
  let ?d = "float_us 1000000 q"
  have d: "a * 1000000 \<le> ?d" "?d \<le> b * 1000000"
    using float_us_between [OF assms(2-4), of 1000000] by simp_all
  have d0: "0 \<le> ?d" using d(1) assms(4) by linarith
  have "?d div int day_us \<le> 999999999" using d(2) assms(5) by (simp add: day_us_def)
  moreover have "0 \<le> ?d div int day_us" using d0 by (simp add: day_us_def)
  ultimately have td: "timedelta_us ?d = Inr ?d" by (simp add: timedelta_us_def)
  have "1 \<le> to_ordinal t" using valid_date(3) [OF assms(1)] by linarith
  then have "int day_us \<le> int (instant t) + ?d" using d0 by (simp add: instant_def day_us_def)
  moreover have "int (instant t) + ?d \<le> int (instant last_time)" using d(2) assms(6) by linarith
  ultimately obtain t' where t': "of_instant (int (instant t) + ?d) = Inr t'"
    using of_instant_total [OF last_time_valid] by blast
  with of_instant_ok [OF t'] d td show ?thesis by (auto simp: later_def)
qed

section \<open>What a run adds to the stream\<close>

text \<open>An emission: schema, body, time. The envelope it becomes depends on the machine, not on its counter.\<close>

type_synonym item = "string \<times> json dict \<times> datetime"

definition sent_env :: "(string \<Rightarrow> string) \<Rightarrow> 'r sim_world \<Rightarrow> int \<Rightarrow> item \<Rightarrow> json dict" where
  "sent_env H w n x =
     (case x of (schema, body, t) \<Rightarrow>
        envelope_of body schema (sim_profile_ref (snd w)) (sim_gateway_id (snd w)) (sim_machine_id (fst w)) n
          (iso_of t) ''0.1.0'' None (H (dumps canonical_opts (JObj body))))"

fun numbered :: "(string \<Rightarrow> string) \<Rightarrow> 'r sim_world \<Rightarrow> int \<Rightarrow> item list \<Rightarrow> json dict list" where
  "numbered H w n [] = []"
| "numbered H w n (x # xs) = sent_env H w (n + 1) x # numbered H w (n + 1) xs"

definition item_ok :: "item \<Rightarrow> bool" where
  "item_ok x = (case x of (schema, body, t) \<Rightarrow> schema \<in> set core_schemas \<and> integral_floats (JObj body))"

text \<open>The world after the emissions \<open>xs\<close> and some draws.\<close>

definition adds :: "(string \<Rightarrow> string) \<Rightarrow> item list \<Rightarrow> 'r sim_world \<Rightarrow> 'r sim_world \<Rightarrow> bool" where
  "adds H xs w w' \<longleftrightarrow>
     list_all item_ok xs
     \<and> fst w' = (fst w)\<lparr>sim_seq := sim_seq (fst w) + int (length xs)\<rparr>
     \<and> (\<exists>r. snd w' = (snd w)\<lparr>sim_rng := r, sim_sent := sim_sent (snd w) @ numbered H w (sim_seq (fst w)) xs\<rparr>)"

lemma numbered_append: "numbered H w n (xs @ ys) = numbered H w n xs @ numbered H w (n + int (length xs)) ys"
  by (induction xs arbitrary: n) (simp_all add: algebra_simps)

lemma length_numbered [simp]: "length (numbered H w n xs) = length xs"
  by (induction xs arbitrary: n) simp_all

lemma numbered_same: "adds H xs w w' \<Longrightarrow> numbered H w' n ys = numbered H w n ys"
  by (induction ys arbitrary: n) (auto simp: adds_def sent_env_def)

lemma adds_Nil [intro]: "adds H [] w w"
  unfolding adds_def by (cases w) (auto intro!: exI [of _ "sim_rng (snd w)"])

lemma adds_trans [trans]:
  assumes "adds H xs w w'" "adds H ys w' w''"
  shows "adds H (xs @ ys) w w''"
proof -
  have "numbered H w' (sim_seq (fst w')) ys = numbered H w (sim_seq (fst w) + int (length xs)) ys"
    using numbered_same [OF assms(1)] assms(1) by (simp add: adds_def)
  with assms show ?thesis
    unfolding adds_def by (auto simp: numbered_append)
qed

lemma adds_seq: "adds H xs w w' \<Longrightarrow> sim_seq (fst w') = sim_seq (fst w) + int (length xs)"
  by (simp add: adds_def)

lemma adds_fixed:
  assumes "adds H xs w w'"
  shows "sim_machine_id (fst w') = sim_machine_id (fst w)" "sim_token (snd w') = sim_token (snd w)"
    "sim_class (fst w') = sim_class (fst w)" "sim_caps (fst w') = sim_caps (fst w)"
    "sim_profile (snd w') = sim_profile (snd w)"
    "sim_gateway_id (snd w') = sim_gateway_id (snd w)" "sim_profile_ref (snd w') = sim_profile_ref (snd w)"
  using assms by (auto simp: adds_def)

lemma emit_adds:
  assumes "item_ok (schema, body, t)"
  shows "\<exists>w'. emit H schema body t w = (Inr (), w') \<and> adds H [(schema, body, t)] w w'"
proof -
  let ?m = "(fst w)\<lparr>sim_seq := sim_seq (fst w) + 1\<rparr>"
  let ?s = "snd w"
  have "make_envelope H schema body (sim_profile_ref ?s) (sim_gateway_id ?s) (sim_machine_id ?m) (sim_seq ?m)
      (iso_of t) ''0.1.0'' None = Inr (sent_env H w (sim_seq (fst w) + 1) (schema, body, t))"
    using assms unfolding make_envelope_ok_iff checksum_ok_iff item_ok_def sent_env_def by simp
  then show ?thesis
    using assms by (auto simp: emit_def adds_def Let_def intro!: exI [of _ "sim_rng ?s"])
qed

lemma draw_adds: "\<exists>w'. draw d w = (Inr (fst (d (sim_rng (snd w)))), w') \<and> adds H [] w w'"
  by (cases "d (sim_rng (snd w))") (auto simp: draw_def adds_def)

section \<open>Cyclic machines\<close>

text \<open>The emissions are in order of time, between two instants.\<close>

definition item_instant :: "item \<Rightarrow> nat" where
  "item_instant x = instant (snd (snd x))"

definition in_window :: "nat \<Rightarrow> nat \<Rightarrow> item list \<Rightarrow> bool" where
  "in_window a b xs \<longleftrightarrow> sorted (map item_instant xs)
     \<and> (\<forall>x \<in> set xs. valid_datetime (snd (snd x)) \<and> a \<le> item_instant x \<and> item_instant x \<le> b)"

lemma in_window_Nil [simp]: "in_window a b []"
  by (simp add: in_window_def)

lemma in_window_Cons: "in_window a b (x # xs) \<longleftrightarrow> valid_datetime (snd (snd x)) \<and> a \<le> item_instant x \<and> item_instant x \<le> b \<and> in_window (item_instant x) b xs"
  by (auto simp: in_window_def)

lemma in_window_mono: "in_window a b xs \<Longrightarrow> c \<le> a \<Longrightarrow> b \<le> d \<Longrightarrow> in_window c d xs"
  by (force simp: in_window_def)

lemma in_window_append: "in_window a b xs \<Longrightarrow> in_window b c ys \<Longrightarrow> a \<le> b \<Longrightarrow> b \<le> c \<Longrightarrow> in_window a c (xs @ ys)"
  by (force simp: in_window_def sorted_append)

text \<open>What is emitted between the start and the end of a run.\<close>

definition run_item :: "string \<Rightarrow> item \<Rightarrow> bool" where
  "run_item run_id x = (case x of (schema, body, t) \<Rightarrow>
     (schema = ''event'' \<and> (\<exists>ty ms. body = event_body ty ms \<and> ty \<notin> {''run_start'', ''run_end'', ''phase_start''}))
     \<or> (schema = ''event'' \<and> (\<exists>nm. body = phase_event ''phase_start'' run_id nm))
     \<or> (schema = ''energy'' \<and> (\<exists>n a b src. body = energy_report n a b src run_id))
     \<or> (schema = ''telemetry'' \<and> (\<exists>a b lo hi n. body = bath_body run_id a b lo hi n)))"

lemma run_item_ok: "item_ok (''event'', event_body ty ms, t) \<longleftrightarrow> (\<forall>kv \<in> set ms. integral_floats (snd kv))"
  "item_ok (''energy'', energy_report n a b src run_id, t)"
  "item_ok (''telemetry'', bath_body run_id a b lo hi k, t)"
  by (simp_all add: item_ok_def core_schemas_def event_body_def energy_report_def bath_body_def interval_json_def)

lemma run_item_kinds [intro]:
  "ty \<notin> {''run_start'', ''run_end'', ''phase_start''} \<Longrightarrow> run_item run_id (''event'', event_body ty ms, t)"
  "run_item run_id (''event'', phase_event ''phase_start'' run_id nm, t)"
  "run_item run_id (''energy'', energy_report n a b src run_id, t)"
  "run_item run_id (''event'', phase_event ''phase_end'' run_id nm, t)"
  "run_item run_id (''telemetry'', bath_body run_id a b lo hi k, t)"
proof -
  show e: "ty \<notin> {''run_start'', ''run_end'', ''phase_start''} \<Longrightarrow> run_item run_id (''event'', event_body ty ms, t)" for ty ms
    unfolding run_item_def prod.case by (intro disjI1) blast
  show "run_item run_id (''event'', phase_event ''phase_start'' run_id nm, t)"
    unfolding run_item_def prod.case by (rule disjI2, rule disjI1) blast
  show "run_item run_id (''energy'', energy_report n a b src run_id, t)"
    unfolding run_item_def prod.case by (rule disjI2, rule disjI2, rule disjI1) blast
  show "run_item run_id (''event'', phase_event ''phase_end'' run_id nm, t)"
    unfolding phase_event_def by (rule e) simp
  show "run_item run_id (''telemetry'', bath_body run_id a b lo hi k, t)"
    unfolding run_item_def prod.case by (rule disjI2, rule disjI2, rule disjI2) blast
qed

text \<open>One pass of the loop adds \<open>xs\<close> and takes at least \<open>lo\<close> and at most \<open>hi\<close> microseconds.\<close>

definition passes ::
  "(string \<Rightarrow> string) \<Rightarrow> string \<Rightarrow> nat \<Rightarrow> nat \<Rightarrow> item list \<Rightarrow> cycle_vars \<Rightarrow> 'r sim_world \<Rightarrow> cycle_vars \<Rightarrow> 'r sim_world \<Rightarrow> bool" where
  "passes H run_id lo hi xs v w v' w' \<longleftrightarrow>
     adds H xs w w' \<and> list_all (run_item run_id) xs \<and> in_window (instant (cy_t v)) (instant (cy_t v')) xs
     \<and> valid_datetime (cy_t v')
     \<and> instant (cy_t v) + lo \<le> instant (cy_t v') \<and> instant (cy_t v') \<le> instant (cy_t v) + hi"

lemma uniform_draw:
  assumes "generator_ok g" "0 \<le> a" "a \<le> b" "b < 2 ^ 53"
  obtains q w' where "draw (uniform g a b) w = (Inr (Fin q), w')" "adds H [] w w'" "of_int a \<le> q" "q \<le> of_int b"
proof -
  obtain q r' where "uniform g a b (sim_rng (snd w)) = (Fin q, r')" "of_int a \<le> q" "q \<le> of_int b"
    using uniform_range [OF assms] by blast
  with draw_adds [of "uniform g a b" w H] that show thesis by auto
qed

lemma milliseconds:
  assumes "0 \<le> q" "q \<le> 1000000"
  obtains ms where "float_to_int (float_mul (Fin q) (Fin 1000)) = Inr ms"
  using float_mul_between [of 0 q 1000 "1000000000"] assms that by fastforce

lemma run_cycle_ok:
  assumes g: "generator_ok g" and v: "valid_datetime (cy_t v)"
    and room: "int (instant (cy_t v)) + 45000000 \<le> int (instant last_time)"
  obtains left v' w' xs where "run_cycle H g run_id stop v w = (Inr (left, v'), w')"
    "passes H run_id 18000000 45000000 xs v w v' w'" "left \<longrightarrow> instant stop \<le> instant (cy_t v')"
    "cy_anchor v' = cy_anchor v" "length xs \<le> 2"
proof -
  obtain q w1 where q: "draw (uniform g 18 45) w = (Inr (Fin q), w1)" "adds H [] w w1" "18 \<le> q" "q \<le> 45"
    by (rule uniform_draw [OF g, of 18 45 w H]) auto
  obtain t where t: "later (cy_t v) (Fin q) = Inr t" "valid_datetime t"
    "instant (cy_t v) + 18000000 \<le> instant t" "instant t \<le> instant (cy_t v) + 45000000"
    using later_between [OF v, of 18 q 45] q(3,4) room by (auto simp flip: of_nat_le_iff [where 'a = int])
  show thesis
  proof (cases "instant stop \<le> instant t")
    case True
    with q t show thesis
      by (intro that [of True "v\<lparr>cy_t := t\<rparr>" w1 "[]"]) (auto simp: run_cycle_def passes_def)
  next
    case False
    obtain ms where ms: "float_to_int (float_mul (Fin q) (Fin 1000)) = Inr ms"
      using milliseconds [of q] q(3,4) by auto
    let ?v = "v\<lparr>cy_t := t, cy_cycles := cy_cycles v + 1\<rparr>"
    let ?x = "(''event'', cycle_body run_id (cy_cycles v + 1) ms, t)"
    have i1: "item_ok ?x" "run_item run_id ?x"
      unfolding cycle_body_def by (auto simp: run_item_ok)
    obtain w2 where w2: "emit H ''event'' (cycle_body run_id (cy_cycles v + 1) ms) t w1 = (Inr (), w2)" "adds H [?x] w1 w2"
      using emit_adds [OF i1(1)] by blast
    obtain halts w3 where w3: "draw (chance g (4 / 100)) w2 = (Inr halts, w3)" "adds H [] w2 w3"
      using draw_adds by blast
    have a3: "adds H [?x] w w3" using adds_trans [OF adds_trans [OF q(2) w2(2)] w3(2)] by simp
    let ?b = "event_body ''stop'' [(''payload'', JObj [(''reason'', JStr ''unknown'')])]"
    have i2: "item_ok (''event'', ?b, t)" "run_item run_id (''event'', ?b, t)"
      by (auto simp: run_item_ok)
    obtain w4 where w4: "emit H ''event'' ?b t w3 = (Inr (), w4)" "adds H [(''event'', ?b, t)] w3 w4"
      using emit_adds [OF i2(1)] by blast
    have a4: "adds H [?x, (''event'', ?b, t)] w w4" using adds_trans [OF a3 w4(2)] by simp
    show thesis
    proof (cases halts)
      case True
      with q t False ms w2(1) w3(1) w4(1) have
        "run_cycle H g run_id stop v w = (Inr (False, ?v\<lparr>cy_running := False\<rparr>), w4)"
        by (simp add: run_cycle_def Let_def)
      then show thesis
        by (rule that [where xs = "[?x, (''event'', ?b, t)]"]) (use a4 i1 i2 t in \<open>simp_all add: passes_def in_window_Cons item_instant_def\<close>)
    next
      case False
      with q t \<open>\<not> instant stop \<le> instant t\<close> ms w2(1) w3(1) have
        "run_cycle H g run_id stop v w = (Inr (False, ?v), w3)"
        by (simp add: run_cycle_def Let_def)
      then show thesis
        by (rule that [where xs = "[?x]"]) (use a3 i1 t in \<open>simp_all add: passes_def in_window_Cons item_instant_def\<close>)
    qed
  qed
qed

lemma run_stop_ok:
  assumes g: "generator_ok g" and v: "valid_datetime (cy_t v)"
    and room: "int (instant (cy_t v)) + 240000000 \<le> int (instant last_time)"
  obtains v' w' xs where "run_stop H g v w = (Inr (False, v'), w')" "passes H run_id 30000000 240000000 xs v w v' w'"
    "cy_anchor v' = cy_anchor v" "length xs \<le> 2"
proof -
  obtain q w1 where q: "draw (uniform g 30 240) w = (Inr (Fin q), w1)" "adds H [] w w1" "30 \<le> q" "q \<le> 240"
    by (rule uniform_draw [OF g, of 30 240 w H]) auto
  obtain t where t: "later (cy_t v) (Fin q) = Inr t" "valid_datetime t"
    "instant (cy_t v) + 30000000 \<le> instant t" "instant t \<le> instant (cy_t v) + 240000000"
    using later_between [OF v, of 30 q 240] q(3,4) room by (auto simp flip: of_nat_le_iff [where 'a = int])
  obtain ms where ms: "float_to_int (float_mul (Fin q) (Fin 1000)) = Inr ms"
    using milliseconds [of q] q(3,4) by auto
  let ?x = "(''event'', restart_body ms, t)"
  have i: "item_ok ?x" "run_item run_id ?x"
    unfolding restart_body_def by (auto simp: run_item_ok)
  obtain w2 where w2: "emit H ''event'' (restart_body ms) t w1 = (Inr (), w2)" "adds H [?x] w1 w2"
    using emit_adds [OF i(1)] by blast
  have a: "adds H [?x] w w2" using adds_trans [OF q(2) w2(2)] by simp
  have "run_stop H g v w = (Inr (False, v\<lparr>cy_t := t, cy_running := True\<rparr>), w2)"
    using q(1) t(1) ms w2(1) by (simp add: run_stop_def)
  then show thesis
    by (rule that [where xs = "[?x]"]) (use a i t in \<open>simp_all add: passes_def in_window_Cons item_instant_def\<close>)
qed

lemma total_seconds_ok:
  assumes "instant a \<le> instant b" "instant b \<le> instant last_time"
  obtains x where "total_seconds a b = Inr x"
proof -
  define d where "d = int (instant b) - int (instant a)"
  have d: "0 \<le> d" "d \<le> 315537984000 * 1000000" using assms unfolding d_def instant_last_time by linarith+
  have "(of_int d :: rat) \<le> of_int (315537984000 * 1000000)" using d(2) by (subst of_int_le_iff)
  then obtain p where "to_double (of_int d / of_int 1000000) = Fin p"
    using to_double_between [of 0 "of_int d / of_int 1000000" 315537984000] d(1) by auto
  then show thesis using that by (simp add: total_seconds_def int_truediv_def d_def)
qed

lemma energy_tick_ok:
  assumes "valid_datetime (cy_t v)" "instant (cy_anchor v) \<le> instant (cy_t v)" "instant (cy_t v) \<le> instant last_time"
  obtains v' w' xs where "energy_tick H g run_id v w = (Inr v', w')" "adds H xs w w'" "list_all (run_item run_id) xs"
    "in_window (instant (cy_t v)) (instant (cy_t v)) xs" "cy_t v' = cy_t v" "cy_running v' = cy_running v"
    "instant (cy_anchor v') \<le> instant (cy_t v')" "length xs \<le> 1"
proof -
  obtain x where x: "total_seconds (cy_anchor v) (cy_t v) = Inr x"
    by (rule total_seconds_ok [OF assms(2,3)])
  show thesis
  proof (cases "float_less x (Fin 3600)")
    case True
    with x assms show thesis
      by (intro that [of v w "[]"]) (auto simp: energy_tick_def)
  next
    case False
    obtain n w1 where n: "draw (randint g 0 2) w = (Inr n, w1)" "adds H [] w w1" using draw_adds by blast
    let ?x = "(''energy'', energy_report n (cy_anchor v) (cy_t v) ''ct_clamp'' run_id, cy_t v)"
    have i: "item_ok ?x" "run_item run_id ?x" by (auto simp: run_item_ok)
    obtain w2 where w2: "emit H ''energy'' (energy_report n (cy_anchor v) (cy_t v) ''ct_clamp'' run_id) (cy_t v) w1 = (Inr (), w2)"
      "adds H [?x] w1 w2" using emit_adds [OF i(1)] by blast
    have a: "adds H [?x] w w2" using adds_trans [OF n(2) w2(2)] by simp
    have "energy_tick H g run_id v w = (Inr (v\<lparr>cy_anchor := cy_t v\<rparr>), w2)"
      using x False n(1) w2(1) by (simp add: energy_tick_def)
    then show thesis
      by (rule that [where xs = "[?x]"]) (use a i assms in \<open>simp_all add: in_window_Cons item_instant_def\<close>)
  qed
qed

lemma passes_weaken: "passes H run_id lo hi xs v w v' w' \<Longrightarrow> lo' \<le> lo \<Longrightarrow> hi \<le> hi' \<Longrightarrow> passes H run_id lo' hi' xs v w v' w'"
  by (auto simp: passes_def)

lemma passes_trans:
  assumes "passes H run_id lo hi xs v w v' w'" "passes H run_id lo' hi' ys v' w' v'' w''"
  shows "passes H run_id (lo + lo') (hi + hi') (xs @ ys) v w v'' w''"
  using assms adds_trans [of H xs w w' ys w'']
    in_window_append [of "instant (cy_t v)" "instant (cy_t v')" xs "instant (cy_t v'')" ys]
  by (simp add: passes_def)

lemma cyclic_step_ok:
  assumes g: "generator_ok g" and v: "valid_datetime (cy_t v)" "instant (cy_anchor v) \<le> instant (cy_t v)"
    and room: "int (instant (cy_t v)) + 240000000 \<le> int (instant last_time)"
  obtains left v' w' xs where "cyclic_step H g run_id stop v w = (Inr (left, v'), w')"
    "passes H run_id 18000000 240000000 xs v w v' w'" "left \<longrightarrow> instant stop \<le> instant (cy_t v')"
    "instant (cy_anchor v') \<le> instant (cy_t v')" "length xs \<le> 3"
proof -
  obtain left v1 w1 xs where b:
    "(if cy_running v then run_cycle H g run_id stop v w else run_stop H g v w) = (Inr (left, v1), w1)"
    "passes H run_id 18000000 240000000 xs v w v1 w1" "left \<longrightarrow> instant stop \<le> instant (cy_t v1)"
    "cy_anchor v1 = cy_anchor v" "length xs \<le> 2"
  proof (cases "cy_running v")
    case True
    obtain left v1 w1 xs where "run_cycle H g run_id stop v w = (Inr (left, v1), w1)"
      "passes H run_id 18000000 45000000 xs v w v1 w1" "left \<longrightarrow> instant stop \<le> instant (cy_t v1)"
      "cy_anchor v1 = cy_anchor v" "length xs \<le> 2"
      by (rule run_cycle_ok [OF g v(1), of H run_id stop w]) (use room in simp)
    with True show thesis by (intro that [of left v1 w1 xs]) (simp_all add: passes_weaken)
  next
    case False
    obtain v1 w1 xs where "run_stop H g v w = (Inr (False, v1), w1)" "passes H run_id 30000000 240000000 xs v w v1 w1"
      "cy_anchor v1 = cy_anchor v" "length xs \<le> 2"
      by (rule run_stop_ok [OF g v(1) room, of H w run_id])
    with False show thesis by (intro that [of False v1 w1 xs]) (simp_all add: passes_weaken)
  qed
  have le: "instant (cy_anchor v1) \<le> instant (cy_t v1)" "instant (cy_t v1) \<le> instant last_time"
    using b(2,4) v(2) room by (auto simp: passes_def)
  show thesis
  proof (cases left)
    case True
    then have "cyclic_step H g run_id stop v w = (Inr (True, v1), w1)" by (simp add: cyclic_step_def b(1))
    then show thesis by (rule that) (use b le True in auto)
  next
    case False
    obtain v2 w2 ys where e: "energy_tick H g run_id v1 w1 = (Inr v2, w2)" "adds H ys w1 w2" "list_all (run_item run_id) ys"
      "in_window (instant (cy_t v1)) (instant (cy_t v1)) ys" "cy_t v2 = cy_t v1" "instant (cy_anchor v2) \<le> instant (cy_t v2)"
      "length ys \<le> 1" by (rule energy_tick_ok [OF _ le, of H g run_id w1]) (use b(2) in \<open>simp add: passes_def\<close>)
    have "passes H run_id 0 0 ys v1 w1 v2 w2" using e b(2) by (simp add: passes_def)
    from passes_trans [OF b(2) this] have p: "passes H run_id 18000000 240000000 (xs @ ys) v w v2 w2" by simp
    from False have "cyclic_step H g run_id stop v w = (Inr (False, v2), w2)"
      by (simp add: cyclic_step_def b(1) e(1))
    then show thesis by (rule that [OF _ p]) (use b(5) e(6,7) in auto)
  qed
qed

text \<open>The most envelopes \<open>d\<close> microseconds of a cyclic machine produce: three for every 18 seconds begun.\<close>

definition pass_bound :: "nat \<Rightarrow> nat" where
  "pass_bound d = 3 * ((d + 17999999) div 18000000)"

lemma pass_bound_pos: "0 < d \<Longrightarrow> 3 \<le> pass_bound d"
  using div_le_mono [of 18000000 "d + 17999999" 18000000] by (simp add: pass_bound_def)

lemma pass_bound_step: "e + 18000000 \<le> d \<Longrightarrow> pass_bound e + 3 \<le> pass_bound d"
proof -
  assume "e + 18000000 \<le> d"
  then have "(e + 17999999 + 18000000) div 18000000 \<le> (d + 17999999) div 18000000" by (intro div_le_mono) simp
  moreover have "(e + 17999999 + 18000000) div 18000000 = (e + 17999999) div 18000000 + 1" by (rule div_add_self2) simp
  ultimately show ?thesis unfolding pass_bound_def by linarith
qed

text \<open>
  The loop ends: every pass moves the clock by at least 18 seconds, and leaves it at most four minutes after the end.
\<close>

lemma cyclic_loop_ok:
  assumes "generator_ok g" "valid_datetime (cy_t v)" "instant (cy_anchor v) \<le> instant (cy_t v)"
    "instant (cy_t v) \<le> instant stop" "int (instant stop) + 240000000 \<le> int (instant last_time)"
  shows "\<exists>v' w' xs. cyclic_loop H g run_id stop v w = Some (Inr v', w')
    \<and> passes H run_id 0 (instant stop - instant (cy_t v) + 240000000) xs v w v' w'
    \<and> instant stop \<le> instant (cy_t v')
    \<and> length xs \<le> pass_bound (instant stop - instant (cy_t v))"
  using assms(2-4)
proof (induction "instant stop - instant (cy_t v)" arbitrary: v w rule: less_induct)
  case less
  show ?case
  proof (cases "instant (cy_t v) < instant stop")
    case False
    with less.prems show ?thesis
      by (intro exI [of _ v] exI [of _ w] exI [of _ "[]"]) (auto simp: cyclic_loop.simps passes_def)
  next
    case True
    have room: "int (instant (cy_t v)) + 240000000 \<le> int (instant last_time)" using less.prems assms(5) by linarith
    obtain left v1 w1 xs where s: "cyclic_step H g run_id stop v w = (Inr (left, v1), w1)"
      "passes H run_id 18000000 240000000 xs v w v1 w1" "left \<longrightarrow> instant stop \<le> instant (cy_t v1)"
      "instant (cy_anchor v1) \<le> instant (cy_t v1)" "length xs \<le> 3"
      by (rule cyclic_step_ok [OF assms(1) less.prems(1,2) room, of H run_id stop w])
    have t1: "valid_datetime (cy_t v1)" "instant (cy_t v) + 18000000 \<le> instant (cy_t v1)"
      "instant (cy_t v1) \<le> instant (cy_t v) + 240000000"
      using s(2) by (simp_all add: passes_def)
    define d where "d = instant stop - instant (cy_t v)"
    show ?thesis
    proof (cases "instant stop \<le> instant (cy_t v1)")
      case stop: True
      have "cyclic_loop H g run_id stop v w = Some (Inr v1, w1)"
        using True stop s(1) by (cases left) (simp_all add: cyclic_loop.simps)
      moreover have "passes H run_id 0 (d + 240000000) xs v w v1 w1"
        using s(2) by (rule passes_weaken) simp_all
      moreover have "length xs \<le> pass_bound d"
        using s(5) pass_bound_pos [of d] True unfolding d_def by linarith
      ultimately show ?thesis unfolding d_def using stop by blast
    next
      case False
      define e where "e = instant stop - instant (cy_t v1)"
      have ed: "e + 18000000 \<le> d" using t1(2) False unfolding d_def e_def by linarith
      have "\<exists>v' w' ys. cyclic_loop H g run_id stop v1 w1 = Some (Inr v', w')
        \<and> passes H run_id 0 (e + 240000000) ys v1 w1 v' w' \<and> instant stop \<le> instant (cy_t v') \<and> length ys \<le> pass_bound e"
        unfolding e_def
      proof (rule less.hyps)
        show "instant stop - instant (cy_t v1) < instant stop - instant (cy_t v)" using t1(2) True by linarith
      qed (use t1 s(4) False in linarith)+
      then obtain v' w' ys where r: "cyclic_loop H g run_id stop v1 w1 = Some (Inr v', w')"
        "passes H run_id 0 (e + 240000000) ys v1 w1 v' w'"
        "instant stop \<le> instant (cy_t v')" "length ys \<le> pass_bound e" by blast
      have "\<not> left" using False s(3) by blast
      then have "cyclic_loop H g run_id stop v w = Some (Inr v', w')"
        using True s(1) r(1) by (simp add: cyclic_loop.simps [of H g run_id stop v])
      moreover have "passes H run_id 0 (d + 240000000) (xs @ ys) v w v' w'"
      proof -
        have "passes H run_id 0 (240000000 + (e + 240000000)) (xs @ ys) v w v' w'"
          using passes_trans [OF passes_weaken [OF s(2), of 0 240000000] r(2)] by simp
        moreover have "instant (cy_t v') \<le> instant (cy_t v) + (d + 240000000)"
          using r(2) t1(2) ed False True unfolding d_def e_def by (simp add: passes_def)
        ultimately show ?thesis by (simp add: passes_def)
      qed
      moreover have "length (xs @ ys) \<le> pass_bound d"
        using pass_bound_step [OF ed] r(4) s(5) by simp
      ultimately show ?thesis using r(3) unfolding d_def by blast
    qed
  qed
qed

section \<open>Complete runs\<close>

definition run_event :: "string \<Rightarrow> string \<Rightarrow> json dict" where
  "run_event ty run_id = event_body ty [(''run_id'', JStr run_id)]"

text \<open>
  The emissions of a machine: its announcement, the start of the run, the items of the run in order of time,
  its end, and the summary, which cites the numbers from the start to the end.
\<close>

definition complete_run :: "'r sim_world \<Rightarrow> string \<Rightarrow> item list \<Rightarrow> json dict \<Rightarrow> datetime \<Rightarrow> item list \<Rightarrow> bool" where
  "complete_run w run_id xs summary t items \<longleftrightarrow>
     items = (''machine'', machine_body w, EPOCH) # (''event'', run_event ''run_start'' run_id, EPOCH)
             # xs @ [(''event'', run_event ''run_end'' run_id, t), (''process_run'', summary, t)]
     \<and> list_all (run_item run_id) xs \<and> in_window (instant EPOCH) (instant t) xs \<and> valid_datetime t
     \<and> instant EPOCH \<le> instant t
     \<and> map_of summary ''run_id'' = Some (JStr run_id)
     \<and> map_of summary ''event_seq_range'' = Some (seq_range (sim_seq (fst w) + 2) (sim_seq (fst w) + int (length xs) + 3))"

lemma item_ok_run: "item_ok (''event'', run_event ty run_id, t)"
  by (simp add: run_event_def run_item_ok)

lemma item_ok_machine: "item_ok (''machine'', machine_body w, t)"
  by (simp add: item_ok_def core_schemas_def machine_body_def Let_def)

lemma opening_ok:
  obtains w1 w2 where "announce_machine H EPOCH w = (Inr (), w1)"
    "emit H ''event'' (run_event ''run_start'' run_id) EPOCH w1 = (Inr (), w2)"
    "adds H [(''machine'', machine_body w, EPOCH), (''event'', run_event ''run_start'' run_id, EPOCH)] w w2"
proof -
  obtain w1 where w1: "announce_machine H EPOCH w = (Inr (), w1)" "adds H [(''machine'', machine_body w, EPOCH)] w w1"
    unfolding announce_machine_def using emit_adds [OF item_ok_machine] by blast
  obtain w2 where w2: "emit H ''event'' (run_event ''run_start'' run_id) EPOCH w1 = (Inr (), w2)"
    "adds H [(''event'', run_event ''run_start'' run_id, EPOCH)] w1 w2"
    using emit_adds [OF item_ok_run] by blast
  from adds_trans [OF w1(2) w2(2)] have "adds H [(''machine'', machine_body w, EPOCH), (''event'', run_event ''run_start'' run_id, EPOCH)] w w2"
    by simp
  with w1 w2 that show thesis by blast
qed

text \<open>Durations up to a thousand years.\<close>

definition duration_ok :: "pyfloat \<Rightarrow> bool" where
  "duration_ok x = (case x of Fin q \<Rightarrow> 0 \<le> q \<and> q \<le> 31536000000 | _ \<Rightarrow> False)"

lemma run_cyclic_ok:
  fixes g :: "'r generator" and w :: "'r sim_world"
  assumes g: "generator_ok g" and d: "duration_ok seconds"
  defines "run_id \<equiv> ''run-'' @ sim_machine_id (fst w) @ ''-'' @ sim_token (snd w)"
  shows "\<exists>w' t cycles xs stop. run_cyclic_machine H g seconds w = Some (Inr (), w')
    \<and> adds H (((''machine'', machine_body w, EPOCH) # (''event'', run_event ''run_start'' run_id, EPOCH) # xs)
        @ [(''event'', run_event ''run_end'' run_id, t),
           (''process_run'', shift_body run_id t cycles (sim_seq (fst w) + 2) (sim_seq (fst w) + int (length xs) + 3), t)]) w w'
    \<and> list_all (run_item run_id) xs \<and> in_window (instant EPOCH) (instant t) xs \<and> valid_datetime t
    \<and> later EPOCH seconds = Inr stop \<and> instant EPOCH \<le> instant stop
    \<and> instant stop \<le> instant t \<and> instant t \<le> instant stop + 240000000
    \<and> length xs \<le> pass_bound (instant stop - instant EPOCH)"
proof -
  obtain q where q: "seconds = Fin q" "0 \<le> q" "q \<le> 31536000000"
    using d by (auto simp: duration_ok_def split: pyfloat.splits)
  obtain stop where stop: "later EPOCH seconds = Inr stop" "instant EPOCH \<le> instant stop"
    "int (instant stop) \<le> int (instant EPOCH) + 31536000000000000"
    using later_between [OF EPOCH_valid, of 0 q 31536000000] q by (auto simp: instant_EPOCH instant_last_time)
  obtain w1 w2 where o: "announce_machine H EPOCH w = (Inr (), w1)"
    "emit H ''event'' (run_event ''run_start'' run_id) EPOCH w1 = (Inr (), w2)"
    "adds H [(''machine'', machine_body w, EPOCH), (''event'', run_event ''run_start'' run_id, EPOCH)] w w2"
    by (rule opening_ok)
  let ?v = "\<lparr>cy_t = EPOCH, cy_cycles = 0, cy_anchor = EPOCH, cy_running = True\<rparr>"
  have "\<exists>v' w' xs. cyclic_loop H g run_id stop ?v w2 = Some (Inr v', w')
    \<and> passes H run_id 0 (instant stop - instant (cy_t ?v) + 240000000) xs ?v w2 v' w'
    \<and> instant stop \<le> instant (cy_t v') \<and> length xs \<le> pass_bound (instant stop - instant (cy_t ?v))"
    by (rule cyclic_loop_ok [OF g]) (use stop in \<open>simp_all add: EPOCH_valid instant_EPOCH instant_last_time\<close>)
  then obtain v w3 xs where l: "cyclic_loop H g run_id stop ?v w2 = Some (Inr v, w3)"
    "passes H run_id 0 (instant stop - instant EPOCH + 240000000) xs ?v w2 v w3"
    "instant stop \<le> instant (cy_t v)" "length xs \<le> pass_bound (instant stop - instant EPOCH)"
    by auto
  have a3: "adds H ((''machine'', machine_body w, EPOCH) # (''event'', run_event ''run_start'' run_id, EPOCH) # xs) w w3"
    using adds_trans [OF o(3)] l(2) by (fastforce simp: passes_def)
  let ?t = "cy_t v"
  obtain w4 where w4: "emit H ''event'' (run_event ''run_end'' run_id) ?t w3 = (Inr (), w4)"
    "adds H [(''event'', run_event ''run_end'' run_id, ?t)] w3 w4"
    using emit_adds [OF item_ok_run] by blast
  have n: "sim_seq (fst w2) = sim_seq (fst w) + 2" "sim_seq (fst w4) = sim_seq (fst w) + int (length xs) + 3"
    using adds_seq [OF o(3)] adds_seq [OF a3] adds_seq [OF w4(2)] by simp_all
  let ?b = "shift_body run_id ?t (cy_cycles v) (sim_seq (fst w) + 2) (sim_seq (fst w) + int (length xs) + 3)"
  have "item_ok (''process_run'', ?b, ?t)"
    by (simp add: item_ok_def core_schemas_def shift_body_def seq_range_def)
  then obtain w5 where w5: "emit H ''process_run'' ?b ?t w4 = (Inr (), w5)" "adds H [(''process_run'', ?b, ?t)] w4 w5"
    using emit_adds by blast
  have "run_cyclic_machine H g seconds w = Some (Inr (), w5)"
    using stop(1) o(1,2) l(1) w4(1) w5(1)
    by (simp add: run_cyclic_machine_def run_end_cyclic_def run_event_def run_id_def n Let_def)
  moreover have "adds H (((''machine'', machine_body w, EPOCH) # (''event'', run_event ''run_start'' run_id, EPOCH) # xs)
      @ [(''event'', run_event ''run_end'' run_id, ?t), (''process_run'', ?b, ?t)]) w w5"
    using adds_trans [OF a3 adds_trans [OF w4(2) w5(2)]] by simp
  moreover have "instant ?t \<le> instant stop + 240000000" using l(2) stop(2) by (simp add: passes_def)
  ultimately show ?thesis
    using l stop(1,2) by (intro exI [of _ w5] exI [of _ ?t] exI [of _ "cy_cycles v"] exI [of _ xs] exI [of _ stop] conjI)
      (simp_all add: passes_def)
qed

section \<open>Dyeing machines\<close>

text \<open>The phase an emission starts, as the audit reads it.\<close>

definition started_phase :: "item \<Rightarrow> json list" where
  "started_phase x = (case x of (schema, body, t) \<Rightarrow>
     if schema = ''event'' \<and> map_of body ''event_type'' = Some (JStr ''phase_start'')
     then (case map_of body ''payload'' of
             Some (JObj p) \<Rightarrow> (case map_of p ''phase'' of Some v \<Rightarrow> [v] | None \<Rightarrow> [])
           | _ \<Rightarrow> [])
     else [])"

lemma started_phase_simps [simp]:
  "started_phase (''event'', phase_event ''phase_start'' run_id name, t) = [JStr name]"
  "started_phase (''event'', phase_event ''phase_end'' run_id name, t) = []"
  "started_phase (''telemetry'', b, t) = []"
  "started_phase (''energy'', b, t) = []"
  "started_phase (''event'', event_body ''addition'' ms, t) = []"
  by (simp_all add: started_phase_def phase_event_def event_body_def)

text \<open>Each phase starts when the one before it ends.\<close>

fun phase_chain :: "int \<Rightarrow> (string \<times> rat) list \<Rightarrow> datetime \<Rightarrow> datetime \<Rightarrow> json list \<Rightarrow> bool" where
  "phase_chain k [] t t' js \<longleftrightarrow> js = [] \<and> t' = t"
| "phase_chain k (ph # phs) t t' js \<longleftrightarrow>
     (\<exists>t1 js'. js = phase_record (fst ph) t t1 (phase_params k (fst ph)) # js' \<and> instant t \<le> instant t1
        \<and> phase_chain k phs t1 t' js')"

lemma share_of_duration:
  assumes "duration_ok seconds" "0 \<le> share" "share \<le> 1"
  obtains r where "float_mul seconds (to_double share) = Fin r" "0 \<le> r" "r \<le> 31536000000"
proof -
  obtain q where q: "seconds = Fin q" "0 \<le> q" "q \<le> 31536000000"
    using assms(1) by (auto simp: duration_ok_def split: pyfloat.splits)
  obtain p where p: "to_double share = Fin p" "0 \<le> p" "p \<le> 1"
    using to_double_between [of 0 share 1] assms(2,3) by auto
  have "q * p \<le> q" using mult_left_mono [OF p(3) q(2)] by simp
  then have "q * p \<le> 31536000000" using q(3) by linarith
  then show thesis using float_mul_between [of 0 q p 31536000000] q p that by auto
qed

lemma floordiv_int: obtains n where "float_to_int (float_floordiv (Fin r) y) = Inr n"
proof -
  have f: "\<exists>n. float_floordiv (Fin r) y = Fin (of_int n)"
    unfolding float_floordiv_def Let_def is_finite.simps if_False simp_thms
    by (metis (no_types, lifting) of_int_1 of_int_add)
  then obtain n where "float_floordiv (Fin r) y = Fin (of_int n)" by blast
  then show thesis using that by simp
qed

lemma maybe_addition_ok:
  assumes t: "valid_datetime t"
  obtains w' xs where "maybe_addition H g run_id name t w = (Inr (), w')" "adds H xs w w'" "list_all (run_item run_id) xs"
    "in_window (instant t) (instant t) xs" "concat (map started_phase xs) = []" "length xs \<le> 1"
proof (cases "name = ''hold''")
  case False
  then show thesis by (intro that [of w "[]"]) (auto simp: maybe_addition_def)
next
  case True
  obtain b w1 where b: "draw (chance g (3 / 10)) w = (Inr b, w1)" "adds H [] w w1" using draw_adds by blast
  let ?e = "event_body ''addition'' [(''run_id'', JStr run_id), (''payload'', JObj [(''reason'', JStr ''shade_correction'')])]"
  have i: "item_ok (''event'', ?e, t)" "run_item run_id (''event'', ?e, t)" by (auto simp: run_item_ok)
  obtain w2 where w2: "emit H ''event'' ?e t w1 = (Inr (), w2)" "adds H [(''event'', ?e, t)] w1 w2"
    using emit_adds [OF i(1)] by blast
  show thesis
  proof (cases b)
    case True
    have "adds H [(''event'', ?e, t)] w w2" using adds_trans [OF b(2) w2(2)] by simp
    moreover have "maybe_addition H g run_id name t w = (Inr (), w2)"
      using \<open>name = ''hold''\<close> True b(1) w2(1) by (simp add: maybe_addition_def)
    ultimately show thesis using i t by (intro that [of w2 "[(''event'', ?e, t)]"]) (simp_all add: in_window_Cons item_instant_def)
  next
    case False
    with \<open>name = ''hold''\<close> b show thesis by (intro that [of w1 "[]"]) (simp_all add: maybe_addition_def)
  qed
qed

lemma run_phase_ok:
  assumes d: "duration_ok seconds" and share: "0 \<le> snd ph" "snd ph \<le> 1"
    and t: "valid_datetime (fst tt)" and room: "int (instant (fst tt)) + 31536000000000000 \<le> int (instant last_time)"
  obtains t' temp w' xs where
    "run_phase H g run_id k seconds ph tt w
       = (Inr (t', temp, phase_record (fst ph) (fst tt) t' (phase_params k (fst ph))), w')"
    "adds H xs w w'" "list_all (run_item run_id) xs" "in_window (instant (fst tt)) (instant t') xs"
    "concat (map started_phase xs) = [JStr (fst ph)]" "length xs \<le> 4" "valid_datetime t'"
    "instant (fst tt) \<le> instant t'" "instant t' \<le> instant (fst tt) + 31536000000000000"
proof -
  let ?name = "fst ph" and ?start = "fst tt"
  obtain lo hi temp where temps: "phase_temps ?name (snd tt) = ((lo, hi), temp)" by (metis surj_pair)
  obtain r where r: "float_mul seconds (to_double (snd ph)) = Fin r" "0 \<le> r" "r \<le> 31536000000"
    by (rule share_of_duration [OF d share])
  obtain t' where t': "later ?start (Fin r) = Inr t'" "valid_datetime t'" "instant ?start \<le> instant t'"
    "instant t' \<le> instant ?start + 31536000000000000"
  proof -
    have "\<exists>t'. later ?start (Fin r) = Inr t' \<and> valid_datetime t' \<and> int (instant ?start) + 0 * 1000000 \<le> int (instant t')
      \<and> int (instant t') \<le> int (instant ?start) + 31536000000 * 1000000"
      by (rule later_between [OF t]) (use r(2,3) room in simp_all)
    then obtain t' where "later ?start (Fin r) = Inr t'" "valid_datetime t'" "int (instant ?start) + 0 * 1000000 \<le> int (instant t')"
      "int (instant t') \<le> int (instant ?start) + 31536000000 * 1000000" by blast
    then show thesis by (intro that [of t']) linarith+
  qed
  obtain n where n: "float_to_int (float_floordiv (Fin r) 10) = Inr n" by (rule floordiv_int)
  let ?ps = "(''event'', phase_event ''phase_start'' run_id ?name, ?start)"
  let ?tl = "(''telemetry'', bath_body run_id ?start t' lo hi (max n 1), t')"
  let ?pe = "(''event'', phase_event ''phase_end'' run_id ?name, t')"
  have i: "item_ok ?ps" "item_ok ?tl" "item_ok ?pe" by (simp_all add: run_item_ok phase_event_def)
  have i': "run_item run_id ?ps" "run_item run_id ?tl" "run_item run_id ?pe" by (rule run_item_kinds)+
  obtain w1 where w1: "emit H ''event'' (phase_event ''phase_start'' run_id ?name) ?start w = (Inr (), w1)" "adds H [?ps] w w1"
    using emit_adds [OF i(1)] by blast
  obtain w2 where w2: "emit H ''telemetry'' (bath_body run_id ?start t' lo hi (max n 1)) t' w1 = (Inr (), w2)" "adds H [?tl] w1 w2"
    using emit_adds [OF i(2)] by blast
  obtain w3 ad where w3: "maybe_addition H g run_id ?name t' w2 = (Inr (), w3)" "adds H ad w2 w3" "list_all (run_item run_id) ad"
    "in_window (instant t') (instant t') ad" "concat (map started_phase ad) = []" "length ad \<le> 1"
    by (rule maybe_addition_ok [OF t'(2)])
  obtain w4 where w4: "emit H ''event'' (phase_event ''phase_end'' run_id ?name) t' w3 = (Inr (), w4)" "adds H [?pe] w3 w4"
    using emit_adds [OF i(3)] by blast
  show thesis
  proof (rule that)
    show "run_phase H g run_id k seconds ph tt w
       = (Inr (t', temp, phase_record ?name ?start t' (phase_params k ?name)), w4)"
      unfolding run_phase_def Let_def temps prod.case r(1) w1(1) and_then_simps t'(1) n w2(1) w3(1) w4(1) by (rule refl)
    show "adds H (?ps # ?tl # ad @ [?pe]) w w4"
      using adds_trans [OF adds_trans [OF w1(2) w2(2)] adds_trans [OF w3(2) w4(2)]] by simp
    have "in_window (instant t') (instant t') (ad @ [?pe])"
      using in_window_append [OF w3(4), of "instant t'" "[?pe]"] t'(2) by (simp add: in_window_Cons item_instant_def)
    then show "in_window (instant ?start) (instant t') (?ps # ?tl # ad @ [?pe])"
      using t'(2,3) t by (simp add: in_window_Cons item_instant_def)
    show "list_all (run_item run_id) (?ps # ?tl # ad @ [?pe])" using i' w3(3) by simp
    show "concat (map started_phase (?ps # ?tl # ad @ [?pe])) = [JStr ?name]" using w3(5) by simp
    show "length (?ps # ?tl # ad @ [?pe]) \<le> 4" using w3(6) by simp
  qed (use t' in auto)
qed

lemma run_phases_ok:
  assumes d: "duration_ok seconds" and shares: "\<forall>ph \<in> set phs. 0 \<le> snd ph \<and> snd ph \<le> 1"
    and t: "valid_datetime (fst tt)"
    and room: "int (instant (fst tt)) + int (length phs) * 31536000000000000 \<le> int (instant last_time)"
  shows "\<exists>t' js' w' xs. run_phases H g run_id k seconds phs tt js w = (Inr (t', js @ js'), w')
    \<and> adds H xs w w' \<and> list_all (run_item run_id) xs \<and> in_window (instant (fst tt)) (instant t') xs
    \<and> concat (map started_phase xs) = map (\<lambda>ph. JStr (fst ph)) phs \<and> length xs \<le> 4 * length phs
    \<and> valid_datetime t' \<and> instant (fst tt) \<le> instant t' \<and> phase_chain k phs (fst tt) t' js'"
  using shares t room
proof (induction phs arbitrary: tt js w)
  case Nil
  then show ?case by (intro exI [of _ "fst tt"] exI [of _ "[]"] exI [of _ w]) auto
next
  case (Cons ph phs)
  have room1: "int (instant (fst tt)) + 31536000000000000 \<le> int (instant last_time)" using Cons.prems(3) by simp
  obtain t1 temp w1 xs where p: "run_phase H g run_id k seconds ph tt w
       = (Inr (t1, temp, phase_record (fst ph) (fst tt) t1 (phase_params k (fst ph))), w1)"
    "adds H xs w w1" "list_all (run_item run_id) xs" "in_window (instant (fst tt)) (instant t1) xs"
    "concat (map started_phase xs) = [JStr (fst ph)]" "length xs \<le> 4" "valid_datetime t1"
    "instant (fst tt) \<le> instant t1" "instant t1 \<le> instant (fst tt) + 31536000000000000"
    by (rule run_phase_ok [OF d _ _ Cons.prems(2) room1, of ph H g run_id k w]) (use Cons.prems(1) in simp_all)
  let ?j = "phase_record (fst ph) (fst tt) t1 (phase_params k (fst ph))"
  have "\<exists>t' js' w' ys. run_phases H g run_id k seconds phs (t1, temp) (js @ [?j]) w1 = (Inr (t', (js @ [?j]) @ js'), w')
    \<and> adds H ys w1 w' \<and> list_all (run_item run_id) ys \<and> in_window (instant (fst (t1, temp))) (instant t') ys
    \<and> concat (map started_phase ys) = map (\<lambda>ph. JStr (fst ph)) phs \<and> length ys \<le> 4 * length phs
    \<and> valid_datetime t' \<and> instant (fst (t1, temp)) \<le> instant t' \<and> phase_chain k phs (fst (t1, temp)) t' js'"
    by (rule Cons.IH) (use Cons.prems p in simp_all)
  then obtain t' js' w' ys where r: "run_phases H g run_id k seconds phs (t1, temp) (js @ [?j]) w1 = (Inr (t', js @ ?j # js'), w')"
    "adds H ys w1 w'" "list_all (run_item run_id) ys" "in_window (instant t1) (instant t') ys"
    "concat (map started_phase ys) = map (\<lambda>ph. JStr (fst ph)) phs" "length ys \<le> 4 * length phs"
    "valid_datetime t'" "instant t1 \<le> instant t'" "phase_chain k phs t1 t' js'" by auto
  have "run_phases H g run_id k seconds (ph # phs) tt js w = (Inr (t', js @ ?j # js'), w')"
    using p(1) r(1) by simp
  moreover have "adds H (xs @ ys) w w'" using adds_trans [OF p(2) r(2)] .
  moreover have "in_window (instant (fst tt)) (instant t') (xs @ ys)" using in_window_append [OF p(4) r(4) p(8) r(8)] .
  moreover have "list_all (run_item run_id) (xs @ ys)" using p(3) r(3) by simp
  moreover have "concat (map started_phase (xs @ ys)) = map (\<lambda>ph. JStr (fst ph)) (ph # phs)" using p(5) r(5) by simp
  moreover have "length (xs @ ys) \<le> 4 * length (ph # phs)" using p(6) r(6) by simp
  moreover have "phase_chain k (ph # phs) (fst tt) t' (?j # js')" using p(8) r(9) by auto
  moreover have "instant (fst tt) \<le> instant t'" using p(8) r(8) by simp
  ultimately show ?case using r(7) by blast
qed

lemma phase_params_integral: "integral_floats (JObj (phase_params k name))"
  unfolding phase_params_def by (simp only: split: if_split) auto

lemma phase_chain_integral: "phase_chain k phs a b vs \<Longrightarrow> v \<in> set vs \<Longrightarrow> integral_floats v"
proof (induction phs arbitrary: a vs)
  case (Cons ph phs)
  have "integral_floats (phase_record n a t1 (phase_params k n))" for n a t1
    unfolding phase_record_def using phase_params_integral [of k n] by simp
  with Cons show ?case by auto
qed simp

lemma run_dye_ok:
  fixes g :: "'r generator" and w :: "'r sim_world"
  assumes d: "duration_ok seconds"
  defines "run_id \<equiv> ''batch-'' @ sim_machine_id (fst w) @ ''-'' @ sim_token (snd w)"
  shows "\<exists>w' t k js xs. run_dye_machine H g seconds w = (Inr (), w')
    \<and> adds H (((''machine'', machine_body w, EPOCH) # (''event'', run_event ''run_start'' run_id, EPOCH) # xs)
        @ [(''event'', run_event ''run_end'' run_id, t),
           (''process_run'', batch_body run_id t js k (sim_seq (fst w) + 2) (sim_seq (fst w) + int (length xs) + 3), t)]) w w'
    \<and> list_all (run_item run_id) xs \<and> in_window (instant EPOCH) (instant t) xs \<and> valid_datetime t
    \<and> instant EPOCH \<le> instant t
    \<and> concat (map started_phase xs) = map (\<lambda>ph. JStr (fst ph)) dye_plan \<and> length xs \<le> 29
    \<and> phase_chain k dye_plan EPOCH t js"
proof -
  obtain w1 w2 where o: "announce_machine H EPOCH w = (Inr (), w1)"
    "emit H ''event'' (run_event ''run_start'' run_id) EPOCH w1 = (Inr (), w2)"
    "adds H [(''machine'', machine_body w, EPOCH), (''event'', run_event ''run_start'' run_id, EPOCH)] w w2"
    by (rule opening_ok)
  have plan_length: "4 * length dye_plan = 28" by (simp add: dye_plan_def)
  obtain k w3 where k: "draw (randrange g 300 600 20) w2 = (Inr k, w3)" "adds H [] w2 w3" using draw_adds by blast
  have "\<exists>t' js' w' xs. run_phases H g run_id k seconds dye_plan (EPOCH, 30) [] w3 = (Inr (t', [] @ js'), w')
    \<and> adds H xs w3 w' \<and> list_all (run_item run_id) xs \<and> in_window (instant (fst (EPOCH, 30 :: int))) (instant t') xs
    \<and> concat (map started_phase xs) = map (\<lambda>ph. JStr (fst ph)) dye_plan \<and> length xs \<le> 4 * length dye_plan
    \<and> valid_datetime t' \<and> instant (fst (EPOCH, 30 :: int)) \<le> instant t' \<and> phase_chain k dye_plan (fst (EPOCH, 30 :: int)) t' js'"
    by (rule run_phases_ok [OF d]) (simp_all add: dye_plan_def EPOCH_valid instant_EPOCH instant_last_time)
  then obtain t js w4 xs where p: "run_phases H g run_id k seconds dye_plan (EPOCH, 30) [] w3 = (Inr (t, js), w4)"
    "adds H xs w3 w4" "list_all (run_item run_id) xs" "in_window (instant EPOCH) (instant t) xs"
    "concat (map started_phase xs) = map (\<lambda>ph. JStr (fst ph)) dye_plan" "length xs \<le> 28"
    "valid_datetime t" "instant EPOCH \<le> instant t" "phase_chain k dye_plan EPOCH t js"
    unfolding fst_conv append_Nil plan_length by blast
  obtain n w5 where n: "draw (randint g 30 60) w4 = (Inr n, w5)" "adds H [] w4 w5" using draw_adds by blast
  let ?e = "(''energy'', energy_report n EPOCH t ''submeter'' run_id, t)"
  have e: "item_ok ?e" "run_item run_id ?e" by (auto simp: run_item_ok)
  obtain w6 where w6: "emit H ''energy'' (energy_report n EPOCH t ''submeter'' run_id) t w5 = (Inr (), w6)" "adds H [?e] w5 w6"
    using emit_adds [OF e(1)] by blast
  obtain w7 where w7: "emit H ''event'' (run_event ''run_end'' run_id) t w6 = (Inr (), w7)"
    "adds H [(''event'', run_event ''run_end'' run_id, t)] w6 w7"
    using emit_adds [OF item_ok_run] by blast
  let ?xs = "xs @ [?e]"
  have a6: "adds H ((''machine'', machine_body w, EPOCH) # (''event'', run_event ''run_start'' run_id, EPOCH) # ?xs) w w6"
    using adds_trans [OF o(3) adds_trans [OF k(2) adds_trans [OF p(2) adds_trans [OF n(2) w6(2)]]]] by simp
  have s: "sim_seq (fst w2) = sim_seq (fst w) + 2" "sim_seq (fst w7) = sim_seq (fst w) + int (length ?xs) + 3"
    using adds_seq [OF o(3)] adds_seq [OF a6] adds_seq [OF w7(2)] by simp_all
  let ?b = "batch_body run_id t js k (sim_seq (fst w) + 2) (sim_seq (fst w) + int (length ?xs) + 3)"
  have "item_ok (''process_run'', ?b, t)"
    using phase_chain_integral [OF p(9)] by (simp add: item_ok_def core_schemas_def batch_body_def seq_range_def)
  then obtain w8 where w8: "emit H ''process_run'' ?b t w7 = (Inr (), w8)" "adds H [(''process_run'', ?b, t)] w7 w8"
    using emit_adds by blast
  have r: "run_dye_machine H g seconds w = (Inr (), w8)"
    using o(1,2) k(1) p(1) n(1) w6(1) w7(1) w8(1)
    by (simp add: run_dye_machine_def run_end_dye_def run_event_def run_id_def s Let_def)
  have a: "adds H (((''machine'', machine_body w, EPOCH) # (''event'', run_event ''run_start'' run_id, EPOCH) # ?xs)
      @ [(''event'', run_event ''run_end'' run_id, t), (''process_run'', ?b, t)]) w w8"
    using adds_trans [OF a6 adds_trans [OF w7(2) w8(2)]] by simp
  have win: "in_window (instant EPOCH) (instant t) ?xs"
    using in_window_append [OF p(4), of "instant t" "[?e]"] p(7,8) by (simp add: in_window_Cons item_instant_def)
  show ?thesis
    by (intro exI [of _ w8] exI [of _ t] exI [of _ k] exI [of _ js] exI [of _ ?xs] conjI)
      (use r a win p e in \<open>simp_all\<close>)
qed

section \<open>Any machine\<close>

text \<open>The names of the phases a summary declares, if it declares any, are those the items start.\<close>

definition phases_agree :: "json dict \<Rightarrow> item list \<Rightarrow> bool" where
  "phases_agree summary xs \<longleftrightarrow>
     map_of summary ''phases'' = None
     \<or> (\<exists>js. map_of summary ''phases'' = Some (JList js)
          \<and> res_map (\<lambda>p. get_item p ''name'') js = Inr (concat (map started_phase xs)))"

text \<open>The quantities of a summary: names and values.\<close>

definition quantities_are :: "json dict \<Rightarrow> (string \<times> json) list \<Rightarrow> bool" where
  "quantities_are summary qs \<longleftrightarrow>
     (\<exists>vs. map_of summary ''quantities'' = Some (JList vs)
        \<and> list_all2 (\<lambda>v q. get_item v ''name'' = Inr (JStr (fst q)) \<and> get_item v ''value'' = Inr (snd q)) vs qs)"

lemma phase_chain_names: "phase_chain k phs a b js \<Longrightarrow> res_map (\<lambda>p. get_item p ''name'') js = Inr (map (\<lambda>ph. JStr (fst ph)) phs)"
  by (induction phs arbitrary: a js) (auto simp: phase_record_def dict_item_def)

definition starts_as :: "'r simulator \<Rightarrow> nat \<Rightarrow> machine \<Rightarrow> bool" where
  "starts_as s i m \<longleftrightarrow> sim_machine_id m = ''sim-'' @ sim_line s @ ''-m'' @ two_digits_of i \<and> sim_seq m = 0"

text \<open>
  Every machine of every profile completes its run: the emissions form a complete run, no exception is raised,
  and their number is bounded by the duration.
\<close>

lemma run_machine_complete:
  assumes "generator_ok g" "duration_ok seconds"
  shows "\<exists>m w run_id xs summary t items stop qs. run_machine H g seconds i s = Some (Inr (), w) \<and> starts_as s i m
    \<and> complete_run (m, s) run_id xs summary t items \<and> adds H items (m, s) w
    \<and> phases_agree summary xs
    \<and> quantities_are summary qs \<and> ''kwh'' \<notin> fst ` set qs \<and> ''kwh_total'' \<notin> fst ` set qs
    \<and> later EPOCH seconds = Inr stop \<and> length xs \<le> max 29 (pass_bound (instant stop - instant EPOCH))"
proof (cases "sim_profile s = ''textile-dyeing''")
  case True
  let ?m = "new_machine s i ''jet_dyeing'' [''event'', ''process_run'', ''energy'', ''telemetry'']"
  let ?rid = "''batch-'' @ sim_machine_id (fst (?m, s)) @ ''-'' @ sim_token (snd (?m, s))"
  obtain w t k js xs where r: "run_dye_machine H g seconds (?m, s) = (Inr (), w)"
    "adds H (((''machine'', machine_body (?m, s), EPOCH) # (''event'', run_event ''run_start'' ?rid, EPOCH) # xs)
        @ [(''event'', run_event ''run_end'' ?rid, t),
           (''process_run'', batch_body ?rid t js k (sim_seq (fst (?m, s)) + 2) (sim_seq (fst (?m, s)) + int (length xs) + 3), t)]) (?m, s) w"
    "list_all (run_item ?rid) xs" "in_window (instant EPOCH) (instant t) xs" "valid_datetime t" "instant EPOCH \<le> instant t"
    "concat (map started_phase xs) = map (\<lambda>ph. JStr (fst ph)) dye_plan" "length xs \<le> 29"
    "phase_chain k dye_plan EPOCH t js"
    using run_dye_ok [OF assms(2), of H g "(?m, s)"] by blast
  obtain q where q: "seconds = Fin q" "0 \<le> q" "q \<le> 31536000000"
    using assms(2) by (auto simp: duration_ok_def split: pyfloat.splits)
  obtain stop where stop: "later EPOCH seconds = Inr stop"
    using later_between [OF EPOCH_valid, of 0 q 31536000000] q by (auto simp: instant_EPOCH instant_last_time)
  let ?b = "batch_body ?rid t js k (sim_seq (fst (?m, s)) + 2) (sim_seq (fst (?m, s)) + int (length xs) + 3)"
  have "phases_agree ?b xs"
    using phase_chain_names [OF r(9)] r(7) by (simp add: phases_agree_def batch_body_def)
  moreover have "quantities_are ?b [(''fabric_kg'', JInt k), (''water_l_total'', JInt (k * 4))]"
    by (simp add: quantities_are_def batch_body_def dict_item_def)
  moreover have "complete_run (?m, s) ?rid xs ?b t
    (((''machine'', machine_body (?m, s), EPOCH) # (''event'', run_event ''run_start'' ?rid, EPOCH) # xs)
      @ [(''event'', run_event ''run_end'' ?rid, t), (''process_run'', ?b, t)])"
    using r by (simp add: complete_run_def batch_body_def)
  moreover have "run_machine H g seconds i s = Some (Inr (), w)" using True r(1) by (simp add: run_machine_def)
  moreover have "starts_as s i ?m" by (simp add: starts_as_def new_machine_def)
  moreover have "''kwh'' \<notin> fst ` set [(''fabric_kg'', JInt k), (''water_l_total'', JInt (k * 4))]"
    "''kwh_total'' \<notin> fst ` set [(''fabric_kg'', JInt k), (''water_l_total'', JInt (k * 4))]" by simp_all
  moreover have "length xs \<le> max 29 (pass_bound (instant stop - instant EPOCH))" using r(8) by simp
  ultimately show ?thesis using r(2) stop by blast
next
  case False
  let ?m = "new_machine s i (if sim_profile s = ''textile-sewing'' then ''lockstitch'' else ''unclassified'')
     [''event'', ''process_run'', ''energy'']"
  let ?rid = "''run-'' @ sim_machine_id (fst (?m, s)) @ ''-'' @ sim_token (snd (?m, s))"
  obtain w t k xs stop where r: "run_cyclic_machine H g seconds (?m, s) = Some (Inr (), w)"
    "adds H (((''machine'', machine_body (?m, s), EPOCH) # (''event'', run_event ''run_start'' ?rid, EPOCH) # xs)
        @ [(''event'', run_event ''run_end'' ?rid, t),
           (''process_run'', shift_body ?rid t k (sim_seq (fst (?m, s)) + 2) (sim_seq (fst (?m, s)) + int (length xs) + 3), t)]) (?m, s) w"
    "list_all (run_item ?rid) xs" "in_window (instant EPOCH) (instant t) xs" "valid_datetime t"
    "later EPOCH seconds = Inr stop" "instant EPOCH \<le> instant stop" "instant stop \<le> instant t"
    "length xs \<le> pass_bound (instant stop - instant EPOCH)"
    using run_cyclic_ok [OF assms, of H "(?m, s)"] by blast
  let ?b = "shift_body ?rid t k (sim_seq (fst (?m, s)) + 2) (sim_seq (fst (?m, s)) + int (length xs) + 3)"
  have "phases_agree ?b xs" by (simp add: phases_agree_def shift_body_def)
  moreover have "quantities_are ?b [(''cycles_total'', JInt k)]"
    by (simp add: quantities_are_def shift_body_def dict_item_def)
  moreover have "complete_run (?m, s) ?rid xs ?b t
    (((''machine'', machine_body (?m, s), EPOCH) # (''event'', run_event ''run_start'' ?rid, EPOCH) # xs)
      @ [(''event'', run_event ''run_end'' ?rid, t), (''process_run'', ?b, t)])"
    using r by (simp add: complete_run_def shift_body_def)
  moreover have "run_machine H g seconds i s = Some (Inr (), w)" using False r(1) by (simp add: run_machine_def)
  moreover have "starts_as s i ?m" by (simp add: starts_as_def new_machine_def)
  moreover have "''kwh'' \<notin> fst ` set [(''cycles_total'', JInt k)]" "''kwh_total'' \<notin> fst ` set [(''cycles_total'', JInt k)]"
    by simp_all
  moreover have "length xs \<le> max 29 (pass_bound (instant stop - instant EPOCH))" using r(9) by simp
  ultimately show ?thesis using r(2,6) by blast
qed

section \<open>The stream of a machine\<close>

lemma nth_numbered: "k < length xs \<Longrightarrow> numbered H w n xs ! k = sent_env H w (n + int k + 1) (xs ! k)"
  by (induction xs arbitrary: n k) (auto simp: nth_Cons' algebra_simps of_nat_diff)

lemma sorted_map_mono:
  assumes "sorted (map f xs)" "\<And>x y. x \<in> set xs \<Longrightarrow> y \<in> set xs \<Longrightarrow> f x \<le> f y \<Longrightarrow> h x \<le> h y"
  shows "sorted (map h xs)"
  using assms by (induction xs) auto

definition envelope_ts :: "json dict \<Rightarrow> string" where
  "envelope_ts e = (case map_of e ''ts'' of Some (JStr ts) \<Rightarrow> ts | _ \<Rightarrow> [])"

lemma sent_env_simps [simp]:
  "map_of (sent_env H w n (sch, b, t)) ''seq'' = Some (JInt n)"
  "map_of (sent_env H w n (sch, b, t)) ''machine_id'' = Some (JStr (sim_machine_id (fst w)))"
  "map_of (sent_env H w n (sch, b, t)) ''gateway_id'' = Some (JStr (sim_gateway_id (snd w)))"
  "map_of (sent_env H w n (sch, b, t)) ''schema'' = Some (JStr sch)"
  "map_of (sent_env H w n (sch, b, t)) ''body'' = Some (JObj b)"
  "map_of (sent_env H w n (sch, b, t)) ''checksum'' = Some (JStr (H (dumps canonical_opts (JObj b))))"
  "envelope_ts (sent_env H w n (sch, b, t)) = iso_of t"
  by (simp_all add: sent_env_def envelope_ts_def)

lemma iso_of_mono:
  assumes "valid_datetime a" "valid_datetime b" "instant EPOCH \<le> instant a" "instant a \<le> instant b"
  shows "iso_of a \<le> iso_of b"
proof -
  have ms: "year_1000_ms \<le> instant_ms a" "instant_ms a \<le> instant_ms b"
    using assms(3) div_le_mono [OF assms(3), of 1000] div_le_mono [OF assms(4), of 1000]
    by (simp_all add: instant_ms_def instant_EPOCH year_1000_ms_def)
  then have "1000 \<le> dt_year a" "1000 \<le> dt_year b" using assms(1,2) year_1000 by (meson order_trans)+
  with assms(1,2) ms(2) iso_text_less_iff [of b a] show ?thesis by (simp add: iso_of_def not_less [symmetric])
qed

lemma map_ts_numbered: "map envelope_ts (numbered H w n xs) = map (\<lambda>x. iso_of (snd (snd x))) xs"
  by (induction xs arbitrary: n) (auto simp: split_paired_all)

lemma complete_run_sorted:
  assumes "complete_run w run_id xs summary t items"
  shows "sorted (map (\<lambda>x. iso_of (snd (snd x))) items)"
proof (rule sorted_map_mono)
  from assms have it: "items = (''machine'', machine_body w, EPOCH) # (''event'', run_event ''run_start'' run_id, EPOCH)
             # xs @ [(''event'', run_event ''run_end'' run_id, t), (''process_run'', summary, t)]"
    and c: "in_window (instant EPOCH) (instant t) xs" "valid_datetime t" "instant EPOCH \<le> instant t"
    by (simp_all add: complete_run_def)
  then have win: "in_window (instant EPOCH) (instant t) items"
    using in_window_append [OF c(1), of "instant t" "[(''event'', run_event ''run_end'' run_id, t), (''process_run'', summary, t)]"]
    by (simp add: in_window_Cons item_instant_def EPOCH_valid)
  then show "sorted (map item_instant items)" by (simp add: in_window_def)
  show "iso_of (snd (snd x)) \<le> iso_of (snd (snd y))" if "x \<in> set items" "y \<in> set items" "item_instant x \<le> item_instant y" for x y
    using win that by (intro iso_of_mono) (auto simp: in_window_def item_instant_def)
qed

text \<open>C37: What each machine of the simulator adds to the stream, for every generator that keeps the documented ranges and
  every duration up to a thousand years: its loops end without an exception, its envelopes are numbered 1, 2, 3 and so
  on, each carries the checksum of its body, the time stamps never go backwards, and there are at most four more than
  the larger of 29, which a dyeing machine needs for its batch however short the duration, and three for every 18 seconds
  begun.\<close>

theorem simulated_stream:
  assumes "generator_ok g" "duration_ok seconds"
  shows "\<exists>w new stop. run_machine H g seconds i s = Some (Inr (), w) \<and> sim_sent (snd w) = sim_sent s @ new
    \<and> (\<forall>k < length new. map_of (new ! k) ''seq'' = Some (JInt (int k + 1))
         \<and> map_of (new ! k) ''machine_id'' = Some (JStr (''sim-'' @ sim_line s @ ''-m'' @ two_digits_of i))
         \<and> (\<exists>b c. map_of (new ! k) ''body'' = Some (JObj b) \<and> checksum H b = Inr c
               \<and> map_of (new ! k) ''checksum'' = Some (JStr c)))
    \<and> sorted (map envelope_ts new)
    \<and> later EPOCH seconds = Inr stop \<and> length new \<le> max 29 (pass_bound (instant stop - instant EPOCH)) + 4"
proof -
  obtain m w run_id xs summary t items stop where r: "run_machine H g seconds i s = Some (Inr (), w)" "starts_as s i m"
    "complete_run (m, s) run_id xs summary t items" "adds H items (m, s) w" "later EPOCH seconds = Inr stop"
    "length xs \<le> max 29 (pass_bound (instant stop - instant EPOCH))"
    using run_machine_complete [OF assms, of H i s] by blast
  let ?new = "numbered H (m, s) 0 items"
  have sent: "sim_sent (snd w) = sim_sent s @ ?new"
    using r(2,4) by (auto simp: adds_def starts_as_def)
  have each: "map_of (?new ! k) ''seq'' = Some (JInt (int k + 1))
         \<and> map_of (?new ! k) ''machine_id'' = Some (JStr (''sim-'' @ sim_line s @ ''-m'' @ two_digits_of i))
         \<and> (\<exists>b c. map_of (?new ! k) ''body'' = Some (JObj b) \<and> checksum H b = Inr c
               \<and> map_of (?new ! k) ''checksum'' = Some (JStr c))" if k: "k < length ?new" for k
  proof -
    obtain sch b ts where x: "items ! k = (sch, b, ts)" by (metis prod_cases3)
    have "item_ok (items ! k)" using r(4) k by (simp add: adds_def list_all_length)
    then have "checksum H b = Inr (H (dumps canonical_opts (JObj b)))"
      unfolding checksum_ok_iff by (simp add: x item_ok_def)
    with k x r(2) show ?thesis by (simp add: nth_numbered starts_as_def)
  qed
  have len: "length ?new \<le> max 29 (pass_bound (instant stop - instant EPOCH)) + 4"
    using r(3,6) by (simp add: complete_run_def)
  have srt: "sorted (map envelope_ts ?new)"
    unfolding map_ts_numbered using complete_run_sorted [OF r(3)] .
  show ?thesis using r(1,5) sent each len srt by blast
qed

text \<open>A generator that keeps the ranges: it always draws the least value.\<close>

definition least_draws :: "unit generator" where
  "least_draws = \<lparr>next_random = \<lambda>r. (Fin 0, r), next_bits32 = \<lambda>r. (0, r), next_below = \<lambda>n r. (0, r)\<rparr>"

lemma least_draws_ok: "generator_ok least_draws"
  by (simp add: least_draws_def generator_ok_def)

theorem simulated_stream_witness:
  "\<exists>w new. run_machine (\<lambda>t. t) least_draws (Fin 600) 1 (new_simulator least_draws ''generic'' ''demo'' ''line1'' ()) = Some (Inr (), w)
    \<and> sim_sent (snd w) = new \<and> (\<forall>k < length new. map_of (new ! k) ''seq'' = Some (JInt (int k + 1)))"
proof -
  have "duration_ok (Fin 600)" by (simp add: duration_ok_def)
  from simulated_stream [OF least_draws_ok this, of "\<lambda>t. t" 1 "new_simulator least_draws ''generic'' ''demo'' ''line1'' ()"]
  show ?thesis by (auto simp: new_simulator_def least_draws_def)
qed

end
