(* ===== verification/Simulate_Audit.thy ===== *)
theory Simulate_Audit
  imports Simulate_Stream Evidence_Audit
begin

text \<open>
  The two tools together: the stream of a simulated machine, given to \<open>omp-validate --audit\<close>, passes the
  checks of completeness, integrity and consistency.
\<close>

section \<open>Comprehensions without exceptions\<close>

lemma res_filter_pure: "(\<And>x. x \<in> set xs \<Longrightarrow> f x = Inr (P x)) \<Longrightarrow> res_filter f xs = Inr (filter P xs)"
  by (induction xs) auto

section \<open>Envelopes of a machine in a bundle\<close>

text \<open>The values of the bundle that carry the items \<open>xs\<close>, whatever their numbers.\<close>

definition carries :: "(string \<Rightarrow> string) \<Rightarrow> 'r sim_world \<Rightarrow> json \<Rightarrow> item \<Rightarrow> bool" where
  "carries H w e x \<longleftrightarrow> item_ok x \<and> (\<exists>n. e = JObj (sent_env H w n x))"

lemma get_sent [simp]:
  "dict_item (sent_env H w n (sch, b, t)) ''seq'' = Inr (JInt n)"
  "dict_item (sent_env H w n (sch, b, t)) ''machine_id'' = Inr (JStr (sim_machine_id (fst w)))"
  "dict_item (sent_env H w n (sch, b, t)) ''gateway_id'' = Inr (JStr (sim_gateway_id (snd w)))"
  "dict_item (sent_env H w n (sch, b, t)) ''schema'' = Inr (JStr sch)"
  "dict_item (sent_env H w n (sch, b, t)) ''body'' = Inr (JObj b)"
  "dict_item (sent_env H w n (sch, b, t)) ''checksum'' = Inr (JStr (H (dumps canonical_opts (JObj b))))"
  by (simp_all add: dict_item_def [of "sent_env H w n (sch, b, t)"] del: dumps.simps)

lemma same_source_sent:
  "same_source (JStr (sim_gateway_id (snd w))) (JStr (sim_machine_id (fst w))) (JObj (sent_env H w n x)) = Inr True"
  by (cases x) (simp add: same_source_def)

definition is_event :: "string \<Rightarrow> item \<Rightarrow> bool" where
  "is_event ty x = (case x of (sch, b, t) \<Rightarrow> sch = ''event'' \<and> map_of b ''event_type'' = Some (JStr ty))"

lemma has_event_sent: "has_event ty (JObj (sent_env H w n x)) = Inr (is_event ty x)"
  by (cases x) (simp add: has_event_def is_event_def res_and_def dict_get_def split: option.splits)

lemma integrity_sent: "carries H w e x \<Longrightarrow> integrity_of H e = Inr []"
  by (cases x) (auto simp: carries_def item_ok_def integrity_of_def checksum_json_dict checksum_ok_iff [THEN iffD2]
      simp del: dumps.simps integral_floats.simps)

text \<open>An item whose phase the audit reads without an exception.\<close>

definition readable :: "item \<Rightarrow> bool" where
  "readable x \<longleftrightarrow> is_event ''phase_start'' x \<longrightarrow> (\<exists>run_id nm t. x = (''event'', phase_event ''phase_start'' run_id nm, t))"

lemma phase_started_sent: "readable x \<Longrightarrow> phase_started (JObj (sent_env H w n x)) = Inr (started_phase x)"
proof (cases "is_event ''phase_start'' x")
  case True
  moreover assume "readable x"
  ultimately obtain run_id nm t where x: "x = (''event'', phase_event ''phase_start'' run_id nm, t)"
    unfolding readable_def by blast
  show ?thesis
    using True unfolding phase_started_def starts_phase_def has_event_sent x
    by (simp add: phase_event_def event_body_def dict_access started_phase_def)
next
  case False
  then have "started_phase x = []" by (cases x) (auto simp: started_phase_def is_event_def)
  with False show ?thesis by (simp add: phase_started_def starts_phase_def has_event_sent)
qed

lemma run_item_readable: "run_item run_id x \<Longrightarrow> readable x"
  by (cases x) (auto simp: run_item_def readable_def is_event_def event_body_def)

lemma run_item_no_bounds: "run_item run_id x \<Longrightarrow> fst x \<in> {''event'', ''energy'', ''telemetry''}"
  by (cases x) (auto simp: run_item_def)

text \<open>An item whose energy the audit can add.\<close>

definition countable_energy :: "item \<Rightarrow> bool" where
  "countable_energy x \<longleftrightarrow> fst x = ''energy'' \<longrightarrow> (\<exists>n a b src run_id t. x = (''energy'', energy_report n a b src run_id, t))"

lemma run_item_energy: "run_item run_id x \<Longrightarrow> countable_energy x"
  by (cases x) (simp add: run_item_def countable_energy_def, blast)

definition kwh_only :: "json jdict \<Rightarrow> bool" where
  "kwh_only d \<longleftrightarrow> d = [] \<or> (\<exists>n. d = [(JStr ''kwh'', JInt n)])"

lemma add_energy_sent:
  assumes "countable_energy x" "kwh_only d"
  shows "\<exists>d'. add_energy (JObj (sent_env H w n x)) d = Inr d' \<and> kwh_only d'"
proof (cases "fst x = ''energy''")
  case False
  with assms(2) show ?thesis by (cases x) (simp add: add_energy_def)
next
  case True
  with assms(1) obtain k a b src run_id t where x: "x = (''energy'', energy_report k a b src run_id, t)"
    unfolding countable_energy_def by blast
  have e: "dict_item (energy_report k a b src run_id) ''metric'' = Inr (JStr ''kwh'')"
    "dict_item (energy_report k a b src run_id) ''value'' = Inr (JInt k)"
    by (simp_all add: energy_report_def dict_item_def)
  show ?thesis
    using assms(2) unfolding kwh_only_def x
    by (elim disjE exE) (simp_all add: add_energy_def e num_add_def arith_def)
qed

lemma energy_totals:
  assumes "list_all2 (carries H w) es xs" "list_all countable_energy xs" "kwh_only d"
  shows "\<exists>d'. res_fold add_energy es d = Inr d' \<and> kwh_only d'"
  using assms
proof (induction es xs arbitrary: d rule: list_all2_induct)
  case (Cons e es x xs)
  obtain n where e: "e = JObj (sent_env H w n x)" using Cons.hyps(1) by (auto simp: carries_def)
  obtain d1 where "add_energy e d = Inr d1" "kwh_only d1"
    using add_energy_sent [of x d H w n] Cons.prems unfolding e by auto
  with Cons show ?case by simp
qed simp

section \<open>The checks on the cited envelopes\<close>

lemma list_all2_member: "list_all2 P es xs \<Longrightarrow> e \<in> set es \<Longrightarrow> \<exists>x \<in> set xs. P e x"
  by (induction rule: list_all2_induct) auto

lemma integrity_of_sent:
  assumes "list_all2 (carries H w) cited xs"
  shows "\<exists>c. check_integrity H cited = Inr c \<and> passed c = Some True"
proof -
  have "res_map (integrity_of H) cited = Inr (map (\<lambda>_. []) cited)"
    by (rule res_map_all_Inr) (use list_all2_member [OF assms] integrity_sent in blast)
  moreover have "concat (map (\<lambda>_. []) cited) = []" by simp
  ultimately show ?thesis by (simp add: check_integrity_def)
qed

lemma phases_of_sent:
  assumes "list_all2 (carries H w) cited xs" "list_all readable xs" "phases_agree summary ys"
    "concat (map started_phase xs) = concat (map started_phase ys)"
  shows "\<exists>n. compare_phases (JObj summary) cited = Inr ([], n)"
proof (cases "map_of summary ''phases''")
  case None
  then show ?thesis by (simp add: compare_phases_def dict_get_def)
next
  case (Some v)
  with assms(3) obtain js where js: "map_of summary ''phases'' = Some (JList js)"
    "res_map (\<lambda>p. get_item p ''name'') js = Inr (concat (map started_phase ys))"
    unfolding phases_agree_def by auto
  have r: "res_map phase_started cited = Inr (map started_phase xs)"
    unfolding res_map_Inr_iff list.rel_map
    using assms(1,2) by (auto simp: list_all2_conv_all_nth list_all_length carries_def) (metis phase_started_sent)
  have i: "py_in v vs" if "v \<in> set vs" for v vs using that by (auto simp: py_in_def list_ex_iff)
  then have f: "filter (\<lambda>p. \<not> py_in p vs) vs = []" for vs by (simp add: filter_empty_conv)
  show ?thesis
    by (simp add: compare_phases_def dict_get_def js r assms(4) f Let_def del: concat_eq_Nil_conv)
qed

lemma item_jset: "jget (jset (JStr a) v d) (JStr k) = (if k = a then Some v else jget d (JStr k))"
  by (induction d) auto

lemma quantity_names:
  assumes "list_all2 (\<lambda>v q. get_item v ''name'' = Inr (JStr (fst q)) \<and> get_item v ''value'' = Inr (snd q)) vs qs"
  shows "\<exists>d'. res_fold (\<lambda>q d. res_bind (get_item q ''name'') (\<lambda>n. res_bind (get_item q ''value'') (\<lambda>v.
             if hashable n then Inr (jset n v d) else Inl TypeError))) vs d = Inr d'
    \<and> (\<forall>k. k \<notin> fst ` set qs \<longrightarrow> jget d' (JStr k) = jget d (JStr k))"
  using assms
proof (induction vs qs arbitrary: d rule: list_all2_induct)
  case (Cons v vs q qs)
  obtain d' where "res_fold (\<lambda>q d. res_bind (get_item q ''name'') (\<lambda>n. res_bind (get_item q ''value'') (\<lambda>v.
             if hashable n then Inr (jset n v d) else Inl TypeError))) vs (jset (JStr (fst q)) (snd q) d) = Inr d'"
    "\<forall>k. k \<notin> fst ` set qs \<longrightarrow> jget d' (JStr k) = jget (jset (JStr (fst q)) (snd q) d) (JStr k)"
    using Cons.IH by blast
  with Cons.hyps(1) show ?case by (auto simp: item_jset)
qed simp

lemma energy_of_sent:
  assumes "list_all2 (carries H w) cited xs" "list_all countable_energy xs"
    "quantities_are summary qs" "''kwh'' \<notin> fst ` set qs" "''kwh_total'' \<notin> fst ` set qs"
  shows "compare_energy (JObj summary) cited = Inr ([], 0)"
proof -
  from assms(3) obtain vs where vs: "map_of summary ''quantities'' = Some (JList vs)"
    "list_all2 (\<lambda>v q. get_item v ''name'' = Inr (JStr (fst q)) \<and> get_item v ''value'' = Inr (snd q)) vs qs"
    unfolding quantities_are_def by blast
  obtain qt where qt: "quantity_table (JObj summary) = Inr qt" "jget qt (JStr ''kwh'') = None" "jget qt (JStr ''kwh_total'') = None"
    using quantity_names [OF vs(2), of "[]"] assms(4,5) by (auto simp: quantity_table_def dict_get_def vs(1))
  obtain totals where totals: "res_fold add_energy cited [] = Inr totals" "kwh_only totals"
    using energy_totals [OF assms(1,2), of "[]"] by (auto simp: kwh_only_def)
  have "res_fold (compare_metric qt) totals ([], 0) = Inr ([], 0)"
    using totals(2) qt(2,3) by (auto simp: kwh_only_def compare_metric_def)
  with qt(1) totals(1) show ?thesis by (simp add: compare_energy_def)
qed

lemma bounds_of_sent:
  assumes "list_all2 (carries H w) cited xs" "x \<in> set xs" "is_event ''run_start'' x" "y \<in> set xs" "is_event ''run_end'' y"
  shows "compare_bounds body cited = Inr ([], 1)"
proof -
  have all: "res_any (has_event ty) cited = Inr (\<exists>z \<in> set xs. is_event ty z)" for ty
    using assms(1)
    by (induction rule: list_all2_induct) (auto simp: carries_def has_event_sent)
  have "\<exists>z \<in> set xs. is_event ''run_start'' z" "\<exists>z \<in> set xs. is_event ''run_end'' z"
    using assms(2-5) by blast+
  then show ?thesis by (simp add: compare_bounds_def all)
qed

section \<open>The bundle of a machine\<close>

lemma numbered_member:
  "d \<in> set (numbered H w n xs) \<Longrightarrow> \<exists>k x. d = sent_env H w k x \<and> n < k \<and> k \<le> n + int (length xs) \<and> x \<in> set xs"
proof (induction xs arbitrary: n)
  case (Cons x xs)
  show ?case
  proof (cases "d = sent_env H w (n + 1) x")
    case True
    then show ?thesis by (intro exI [of _ "n + 1"] exI [of _ x]) simp
  next
    case False
    with Cons.prems Cons.IH [of "n + 1"] show ?thesis by fastforce
  qed
qed simp

lemma numbered_carries:
  "list_all item_ok xs \<Longrightarrow> list_all2 (carries H w) (map JObj (numbered H w n xs)) xs"
  by (induction xs arbitrary: n) (auto simp: carries_def)

lemma is_cited_sent:
  "is_cited (seq_range lo hi) (JStr (sim_gateway_id (snd w))) (JStr (sim_machine_id (fst w))) (JObj (sent_env H w k x))
     = Inr (lo \<le> k \<and> k \<le> hi)"
proof -
  obtain sch b t where x: "x = (sch, b, t)" by (metis prod_cases3)
  show ?thesis
    unfolding is_cited_def same_source_sent
    by (simp add: in_range_def seq_range_def dict_item_def [of "[_, _]"] x res_and_def)
qed

lemma filter_all_false: "(\<And>x. x \<in> set xs \<Longrightarrow> \<not> P x) \<Longrightarrow> filter P xs = []"
  by (simp add: filter_empty_conv)

lemma filter_all: "(\<And>x. x \<in> set xs \<Longrightarrow> P x) \<Longrightarrow> filter P xs = xs"
  by (simp add: filter_id_conv)

lemma complete_run_selected:
  assumes "complete_run w run_id xs summary t items"
  defines "n \<equiv> int (length xs)"
  shows "select_run (map JObj (numbered H w 0 items)) None = Inr (JObj (sent_env H w (n + 4) (''process_run'', summary, t)))"
proof -
  let ?pr = "JObj (sent_env H w (n + 4) (''process_run'', summary, t))"
  let ?rest = "(''machine'', machine_body w, EPOCH) # (''event'', run_event ''run_start'' run_id, EPOCH)
             # xs @ [(''event'', run_event ''run_end'' run_id, t)]"
  let ?P = "\<lambda>e. get_item e ''schema'' = Inr (JStr ''process_run'')"
  have it: "items = ?rest @ [(''process_run'', summary, t)]" "list_all (run_item run_id) xs"
    using assms(1) by (simp_all add: complete_run_def)
  then have envs: "map JObj (numbered H w 0 items) = map JObj (numbered H w 0 ?rest) @ [?pr]"
    unfolding it(1) numbered_append by (simp add: n_def algebra_simps)
  have "list_all (\<lambda>x. fst x \<noteq> ''process_run'') xs"
    by (rule list.pred_mono_strong [OF it(2)]) (use run_item_no_bounds in fastforce)
  then have "list_all (\<lambda>x. fst x \<noteq> ''process_run'') ?rest" by simp
  then have no: "fst x \<noteq> ''process_run''" if "x \<in> set ?rest" for x
    using that unfolding list_all_iff by blast
  have P: "?P (JObj (sent_env H w k x)) \<longleftrightarrow> fst x = ''process_run''" for k x
    by (cases x) simp
  have "\<not> ?P e" if "e \<in> set (map JObj (numbered H w 0 ?rest))" for e
  proof -
    from that obtain d where d: "e = JObj d" "d \<in> set (numbered H w 0 ?rest)" unfolding set_map by (rule imageE)
    from numbered_member [OF d(2)] obtain k x where "d = sent_env H w k x" "x \<in> set ?rest" by blast
    with no [of x] d(1) P [of k x] show ?thesis by metis
  qed
  then have "filter ?P (map JObj (numbered H w 0 ?rest)) = []" by (rule filter_all_false)
  moreover have "?P ?pr" by simp
  ultimately have f: "filter ?P (map JObj (numbered H w 0 items)) = [?pr]"
    unfolding envs filter_append filter.simps by simp
  have "res_filter (\<lambda>e. res_bind (get_item e ''schema'') (\<lambda>s. Inr (s = JStr ''process_run''))) (map JObj (numbered H w 0 items))
      = Inr (filter ?P (map JObj (numbered H w 0 items)))"
  proof (rule res_filter_pure)
    fix e assume e: "e \<in> set (map JObj (numbered H w 0 items))"
    from e obtain d where d: "e = JObj d" "d \<in> set (numbered H w 0 items)" unfolding set_map by (rule imageE)
    from numbered_member [OF d(2)] obtain k x where "d = sent_env H w k x" by blast
    with d(1) show "res_bind (get_item e ''schema'') (\<lambda>s. Inr (s = JStr ''process_run'')) = Inr (?P e)" by (cases x) simp
  qed
  with f show ?thesis by (simp add: select_run_def is_given_def)
qed

lemma complete_run_cited:
  fixes H :: "string \<Rightarrow> string"
  assumes "complete_run w run_id xs summary t items"
  defines "n \<equiv> int (length xs)"
  defines "run \<equiv> JObj (sent_env H w (n + 4) (''process_run'', summary, t))"
    and "ours \<equiv> (''event'', run_event ''run_start'' run_id, EPOCH) # xs @ [(''event'', run_event ''run_end'' run_id, t)]"
  shows "cited_of (map JObj (numbered H w 0 items)) run (seq_range 2 (n + 3)) (JStr (sim_gateway_id (snd w))) (JStr (sim_machine_id (fst w)))
    = Inr (let cited = map JObj (numbered H w 1 ours) in if py_in run cited then cited else cited @ [run])"
proof -
  let ?a = "JObj (sent_env H w 1 (''machine'', machine_body w, EPOCH))"
  let ?cited = "map JObj (numbered H w 1 ours)"
  let ?p = "is_cited (seq_range 2 (n + 3)) (JStr (sim_gateway_id (snd w))) (JStr (sim_machine_id (fst w)))"
  have len: "int (length ours) = n + 2" by (simp add: ours_def n_def)
  have "items = (''machine'', machine_body w, EPOCH) # ours @ [(''process_run'', summary, t)]"
    using assms(1) by (simp add: complete_run_def ours_def)
  then have envs: "map JObj (numbered H w 0 items) = ?a # ?cited @ [run]"
    using len by (simp add: numbered_append run_def algebra_simps)
  have p: "?p ?a = Inr False" "?p run = Inr False"
    unfolding run_def is_cited_sent by simp_all
  have c: "?p e = Inr True" if e: "e \<in> set ?cited" for e
  proof -
    obtain k x where k: "e = JObj (sent_env H w k x)" "1 < k" "k \<le> 1 + int (length ours)"
      using e by (auto dest!: numbered_member)
    show ?thesis unfolding k(1) is_cited_sent using k(2,3) len by simp
  qed
  let ?P = "\<lambda>e. ?p e = Inr True"
  have "res_filter ?p (map JObj (numbered H w 0 items)) = Inr (filter ?P (map JObj (numbered H w 0 items)))"
    unfolding envs by (rule res_filter_total) (use p c in auto)
  also have "filter ?P (map JObj (numbered H w 0 items)) = ?cited"
    unfolding envs by (simp only: filter.simps filter_append p) (use filter_all [of ?cited ?P] c in simp)
  finally show ?thesis by (simp add: cited_of_def Let_def)
qed

text \<open>Every number of the cited range is carried.\<close>

lemma has_seq_numbered:
  assumes "map JObj (numbered H w m xs) = es" "set es \<subseteq> set cited" "m < i" "i \<le> m + int (length xs)"
  shows "has_seq cited (JStr (sim_gateway_id (snd w))) (JStr (sim_machine_id (fst w))) i"
proof -
  define k where "k = nat (i - m - 1)"
  have k: "k < length xs" "m + int k + 1 = i" using assms(3,4) by (auto simp: k_def)
  obtain sch b t where x: "xs ! k = (sch, b, t)" by (metis prod_cases3)
  have n: "numbered H w m xs ! k = sent_env H w i (xs ! k)" using nth_numbered [OF k(1), of H w m] k(2) by simp
  have "JObj (numbered H w m xs ! k) \<in> set es" using assms(1) k(1) by (auto simp: in_set_conv_nth)
  with n have "JObj (sent_env H w i (xs ! k)) \<in> set cited" using assms(2) by auto
  moreover have "get_item (JObj (sent_env H w i (xs ! k))) ''seq'' = Inr (JInt i)" by (simp add: x)
  ultimately show ?thesis unfolding has_seq_def using same_source_sent equals_int_int by blast
qed

lemma complete_run_checks:
  fixes H :: "string \<Rightarrow> string"
  assumes c: "complete_run w run_id xs summary t items" and ok: "list_all item_ok items"
    and ph: "phases_agree summary xs"
    and qs: "quantities_are summary qs" "''kwh'' \<notin> fst ` set qs" "''kwh_total'' \<notin> fst ` set qs"
  defines "n \<equiv> int (length xs)"
  defines "run \<equiv> JObj (sent_env H w (n + 4) (''process_run'', summary, t))"
    and "ours \<equiv> (''event'', run_event ''run_start'' run_id, EPOCH) # xs @ [(''event'', run_event ''run_end'' run_id, t)]"
  assumes seq0: "sim_seq (fst w) = 0"
    and cited: "cited = (let cs = map JObj (numbered H w 1 ours) in if py_in run cs then cs else cs @ [run])"
  shows "\<exists>c1 c2 c4. check_completeness cited run = Inr c1 \<and> passed c1 = Some True
    \<and> check_integrity H cited = Inr c2 \<and> passed c2 = Some True
    \<and> check_consistency cited run = Inr c4 \<and> passed c4 = Some True"
proof -
  let ?gw = "JStr (sim_gateway_id (snd w))" and ?mid = "JStr (sim_machine_id (fst w))"
  let ?pr = "(''process_run'', summary, t)"
  have it: "items = (''machine'', machine_body w, EPOCH) # ours @ [?pr]"
    and run_items: "list_all (run_item run_id) xs"
    and rng: "map_of summary ''event_seq_range'' = Some (seq_range 2 (n + 3))"
    using c seq0 by (simp_all add: complete_run_def ours_def n_def)
  obtain ys where ys: "list_all2 (carries H w) cited ys" "ys = ours \<or> ys = ours @ [?pr]"
  proof (cases "py_in run (map JObj (numbered H w 1 ours))")
    case True
    with ok show thesis by (intro that [of ours]) (auto simp: cited it Let_def numbered_carries)
  next
    case False
    have "carries H w run ?pr" using ok by (auto simp: carries_def run_def it)
    with False ok show thesis
      by (intro that [of "ours @ [?pr]"]) (simp_all add: cited it Let_def numbered_carries list_all2_appendI)
  qed
  have src: "\<forall>e \<in> set cited. same_source ?gw ?mid e = Inr True"
    using list_all2_member [OF ys(1)] same_source_sent unfolding carries_def by metis
  have body: "get_item run ''body'' = Inr (JObj summary)" "get_item run ''gateway_id'' = Inr ?gw"
    "get_item run ''machine_id'' = Inr ?mid" "get_or (JObj summary) ''event_seq_range'' JNull = Inr (seq_range 2 (n + 3))"
    using rng by (simp_all add: run_def dict_get_def)
  have one: "\<exists>c1. check_completeness cited run = Inr c1 \<and> passed c1 = Some True"
  proof -
    have "\<exists>ss. seq_from ?gw ?mid e = Inr ss" if "e \<in> set cited" for e
      using src that list_all2_member [OF ys(1) that]
      by (auto simp: carries_def seq_from_def)
    then obtain have' where h: "res_map (seq_from ?gw ?mid) cited = Inr have'"
      using res_map_all_Inr [of cited "seq_from ?gw ?mid" "\<lambda>e. projr (seq_from ?gw ?mid e)"] by (metis sum.sel(2))
    have "has_seq cited ?gw ?mid i" if "i \<in> {2..n + 3}" for i
      by (rule has_seq_numbered [of H w 1 ours]) (use that in \<open>auto simp: cited Let_def ours_def n_def\<close>)
    then have "missing_of 2 (n + 3) (concat have') = []" using missing_empty [OF h] by blast
    with h body show ?thesis
      by (simp add: check_completeness_def seq_range_def dict_item_def [of "[_, _]"] verdict_passed)
  qed
  have two: "\<exists>c2. check_integrity H cited = Inr c2 \<and> passed c2 = Some True"
    using integrity_of_sent [OF ys(1)] .
  have three: "\<exists>c4. check_consistency cited run = Inr c4 \<and> passed c4 = Some True"
  proof -
    have st: "is_event ''run_start'' (''event'', run_event ''run_start'' run_id, EPOCH)"
      "is_event ''run_end'' (''event'', run_event ''run_end'' run_id, t)"
      by (simp_all add: is_event_def run_event_def event_body_def)
    have simple: "readable (''event'', run_event ty run_id, u)" "started_phase (''event'', run_event ty run_id, u) = []"
      if "ty \<in> {''run_start'', ''run_end''}" for ty u
      using that by (auto simp: readable_def is_event_def run_event_def event_body_def started_phase_def)
    have pr: "readable ?pr" "started_phase ?pr = []" "countable_energy ?pr"
      by (simp_all add: readable_def is_event_def started_phase_def countable_energy_def)
    have mid: "list_all readable xs" "list_all countable_energy xs"
      using run_items run_item_readable run_item_energy by (auto simp: list_all_iff)
    have r: "list_all readable ys" "list_all countable_energy ys" "concat (map started_phase ys) = concat (map started_phase xs)"
      using ys(2) mid pr simple by (auto simp: ours_def countable_energy_def)
    obtain k where ph': "compare_phases (JObj summary) cited = Inr ([], k)"
      using phases_of_sent [OF ys(1) r(1) ph r(3)] by blast
    have en: "compare_energy (JObj summary) cited = Inr ([], 0)"
      using energy_of_sent [OF ys(1) r(2) qs] .
    have bd: "compare_bounds (JObj summary) cited = Inr ([], 1)"
      by (rule bounds_of_sent [OF ys(1) _ st(1) _ st(2)]) (use ys(2) in \<open>auto simp: ours_def\<close>)
    have "res_filter (same_source ?gw ?mid) cited = Inr cited"
      using res_filter_pure [of cited "same_source ?gw ?mid" "\<lambda>_. True"] src by simp
    with body ph' en bd show ?thesis by (simp add: check_consistency_def consistency_verdict_def)
  qed
  from one two three show ?thesis by blast
qed

section \<open>Property\<close>

text \<open>C38: The stream of a simulated machine is evidence the audit accepts: whatever the draws, the bundle of its envelopes
  selects its one run, the cited envelopes are found, and the checks of completeness, integrity and consistency of the
  audit return the verdict \<open>True\<close>.\<close>

theorem simulated_run_passes_audit:
  assumes "generator_ok g" "duration_ok seconds"
  shows "\<exists>w new run body rng gw mid cited c1 c2 c4. run_machine H g seconds i s = Some (Inr (), w)
    \<and> sim_sent (snd w) = sim_sent s @ new \<and> select_run (map JObj new) None = Inr run
    \<and> get_item run ''body'' = Inr body \<and> get_or body ''event_seq_range'' JNull = Inr rng
    \<and> get_item run ''gateway_id'' = Inr gw \<and> get_item run ''machine_id'' = Inr mid
    \<and> cited_of (map JObj new) run rng gw mid = Inr cited
    \<and> check_completeness cited run = Inr c1 \<and> passed c1 = Some True
    \<and> check_integrity H cited = Inr c2 \<and> passed c2 = Some True
    \<and> check_consistency cited run = Inr c4 \<and> passed c4 = Some True"
proof -
  obtain m w run_id xs summary t items stop qs where r: "run_machine H g seconds i s = Some (Inr (), w)" "starts_as s i m"
    "complete_run (m, s) run_id xs summary t items" "adds H items (m, s) w" "phases_agree summary xs"
    "quantities_are summary qs" "''kwh'' \<notin> fst ` set qs" "''kwh_total'' \<notin> fst ` set qs"
    using run_machine_complete [OF assms, of H i s] by blast
  let ?W = "(m, s)" and ?n = "int (length xs)"
  let ?new = "numbered H ?W 0 items" and ?run = "JObj (sent_env H ?W (?n + 4) (''process_run'', summary, t))"
  let ?gw = "JStr (sim_gateway_id (snd ?W))" and ?mid = "JStr (sim_machine_id (fst ?W))"
  have seq0: "sim_seq (fst ?W) = 0" using r(2) by (simp add: starts_as_def)
  have ok: "list_all item_ok items" using r(4) by (simp add: adds_def)
  have sent: "sim_sent (snd w) = sim_sent s @ ?new" using r(4) seq0 by (auto simp: adds_def)
  have rng: "map_of summary ''event_seq_range'' = Some (seq_range 2 (?n + 3))"
    using r(3) seq0 by (simp add: complete_run_def)
  have body: "get_item ?run ''body'' = Inr (JObj summary)" "get_or (JObj summary) ''event_seq_range'' JNull = Inr (seq_range 2 (?n + 3))"
    "get_item ?run ''gateway_id'' = Inr ?gw" "get_item ?run ''machine_id'' = Inr ?mid"
    using rng by (simp_all add: dict_get_def)
  define cited where "cited = (let cs = map JObj (numbered H ?W 1 ((''event'', run_event ''run_start'' run_id, EPOCH)
      # xs @ [(''event'', run_event ''run_end'' run_id, t)])) in if py_in ?run cs then cs else cs @ [?run])"
  have c: "cited_of (map JObj ?new) ?run (seq_range 2 (?n + 3)) ?gw ?mid = Inr cited"
    unfolding cited_def by (rule complete_run_cited [OF r(3)])
  obtain c1 c2 c4 where k: "check_completeness cited ?run = Inr c1" "passed c1 = Some True"
    "check_integrity H cited = Inr c2" "passed c2 = Some True" "check_consistency cited ?run = Inr c4" "passed c4 = Some True"
    using complete_run_checks [OF r(3) ok r(5,6,7,8) seq0 cited_def] by blast
  show ?thesis using r(1) sent complete_run_selected [OF r(3)] body c k by blast
qed

theorem simulated_run_passes_audit_witness:
  "\<exists>w run cited c1. run_machine (\<lambda>t. t) least_draws (Fin 3600) 1 (new_simulator least_draws ''textile-dyeing'' ''demo'' ''line1'' ()) = Some (Inr (), w)
    \<and> select_run (map JObj (sim_sent (snd w))) None = Inr run \<and> check_completeness cited run = Inr c1 \<and> passed c1 = Some True"
proof -
  have "duration_ok (Fin 3600)" by (simp add: duration_ok_def)
  moreover have "sim_sent (new_simulator least_draws ''textile-dyeing'' ''demo'' ''line1'' ()) = []"
    by (simp add: new_simulator_def least_draws_def)
  ultimately show ?thesis
    using simulated_run_passes_audit [OF least_draws_ok, of "Fin 3600" "\<lambda>t. t" 1
      "new_simulator least_draws ''textile-dyeing'' ''demo'' ''line1'' ()"] by (metis append_Nil)
qed

end
