(* ===== verification/Simulate_Chaos.thy ===== *)
theory Simulate_Chaos
  imports Simulate_Stream
begin

text \<open>
  \<open>--chaos corrupt-fields\<close>: what the corruption does to an envelope, and what a validator sees of it.
\<close>

section \<open>A changed payload is another value\<close>

inductive_cases jequiv_objE: "jequiv (JObj kvs) (JObj lvs)"
inductive_cases jequiv_int_strE: "jequiv (JInt i) (JStr s)"
inductive_cases jequiv_bool_strE: "jequiv (JBool i) (JStr s)"

lemma jequiv_member:
  assumes "jequiv (JObj d) (JObj e)" "map_of d k = Some v" "map_of e k = Some w"
  shows "jequiv v w"
  using assms(1)
proof (rule jequiv_objE)
  assume "\<And>k v w. (k, v) \<in> set d \<Longrightarrow> (k, w) \<in> set e \<Longrightarrow> jequiv v w"
  with assms(2,3) show ?thesis by (meson map_of_SomeD)
qed

lemma flip_first_keys: "flip_first d = Some d' \<Longrightarrow> map fst d' = map fst d"
  by (induction d arbitrary: d') (auto split: if_splits)

lemma flip_first_all:
  "flip_first d = Some d' \<Longrightarrow> list_all (\<lambda>kv. P (snd kv)) d \<Longrightarrow> (\<And>s. P (JStr s)) \<Longrightarrow> list_all (\<lambda>kv. P (snd kv)) d'"
  by (induction d arbitrary: d') (auto split: if_splits)

lemma flip_first_member:
  "flip_first d = Some d' \<Longrightarrow> distinct (map fst d) \<Longrightarrow>
     \<exists>k v. map_of d k = Some v \<and> is_int v \<and> map_of d' k = Some (JStr (str_json v))"
proof (induction d arbitrary: d')
  case (Cons kv d)
  obtain k0 v0 where kv: "kv = (k0, v0)" by (cases kv)
  show ?case
  proof (cases "is_int v0")
    case True
    with Cons.prems(1) show ?thesis by (intro exI [of _ k0] exI [of _ v0]) (auto simp: kv)
  next
    case False
    with Cons.prems(1) obtain e where e: "flip_first d = Some e" "d' = kv # e" by (auto simp: kv)
    have "distinct (map fst d)" "k0 \<notin> fst ` set d" using Cons.prems(2) by (simp_all add: kv)
    with Cons.IH [OF e(1)] obtain k v where IH: "map_of d k = Some v" "is_int v" "map_of e k = Some (JStr (str_json v))" by blast
    have "k \<noteq> k0" using \<open>k0 \<notin> fst ` set d\<close> map_of_SomeD [OF IH(1)] by force
    with IH show ?thesis by (intro exI [of _ k] exI [of _ v]) (simp add: kv e(2))
  qed
qed simp

lemma set_update_subset: "set (AList.update k v d) \<subseteq> insert (k, v) (set d)"
  by (induction d) auto

lemma flipped_body:
  assumes b: "wf_json (JObj b)" "floats_ok (JObj b)" "map_of b ''payload'' = Some (JObj d)"
    and f: "flip_first d = Some d'"
  defines "b' \<equiv> AList.update ''payload'' (JObj d') b"
  shows "dumps canonical_opts (JObj b') \<noteq> dumps canonical_opts (JObj b)"
proof -
  have m: "(''payload'', JObj d) \<in> set b" by (rule map_of_SomeD [OF b(3)])
  have "wf_json (snd (''payload'', JObj d))" "floats_ok (snd (''payload'', JObj d))"
    using b(1,2) m unfolding wf_json.simps(2) floats_ok.simps(3) by blast+
  then have pd: "wf_json (JObj d)" "floats_ok (JObj d)" by (simp_all only: snd_conv)
  then have dist: "distinct (map fst d)" and all: "list_all (\<lambda>kv. wf_json (snd kv)) d" "list_all (\<lambda>kv. floats_ok (snd kv)) d"
    unfolding list_all_iff wf_json.simps floats_ok.simps by blast+
  have d': "wf_json (JObj d')" "floats_ok (JObj d')"
    using flip_first_all [OF f all(1)] flip_first_all [OF f all(2)] flip_first_keys [OF f] dist
    by (simp_all add: list_all_iff)
  have sub: "set b' \<subseteq> insert (''payload'', JObj d') (set b)" unfolding b'_def by (rule set_update_subset)
  have "distinct (map fst b')" unfolding b'_def using b(1) by (intro distinct_update) simp
  moreover have "wf_json (snd kv) \<and> floats_ok (snd kv)" if "kv \<in> set b'" for kv
  proof -
    from that sub consider "kv = (''payload'', JObj d')" | "kv \<in> set b" by blast
    then show ?thesis
    proof cases
      case 1
      with d' show ?thesis by (simp only: snd_conv)
    next
      case 2
      with b(1,2) show ?thesis unfolding wf_json.simps(2) floats_ok.simps(3) by blast
    qed
  qed
  ultimately have wf: "wf_json (JObj b')" "floats_ok (JObj b')"
    unfolding wf_json.simps(2) floats_ok.simps(3) by blast+
  have "\<not> jequiv (JObj b') (JObj b)"
  proof
    assume "jequiv (JObj b') (JObj b)"
    then have j: "jequiv (JObj d') (JObj d)"
      by (rule jequiv_member [where k = "''payload''"]) (simp_all add: b'_def b(3))
    obtain k v where k: "map_of d k = Some v" "is_int v" "map_of d' k = Some (JStr (str_json v))" 
      using flip_first_member [OF f dist] by blast
    from jequiv_member [OF j k(3,1)] have "jequiv (JStr (str_json v)) v" .
    then show False using k(2) by (cases v) (auto simp: is_int_def elim: jequiv.cases)
  qed
  with dumps_canonical_eq_iff [OF wf(1) b(1) wf(2) b(2)] show ?thesis by blast
qed

section \<open>What a validator sees\<close>

text \<open>A claimed checksum that is not the one of the body is an error.\<close>

lemma mismatch_rejected:
  assumes "map_of env ''body'' = Some (JObj b)" "map_of env ''checksum'' = Some (JStr c)" "checksum H b \<noteq> Inr c"
  shows "validate_envelope H spec env fc \<noteq> Inr []"
  using assms by (auto simp: validate_ok_iff)

text \<open>What an emitted envelope is, as far as the corruption looks at it.\<close>

definition emitted :: "(string \<Rightarrow> string) \<Rightarrow> json dict \<Rightarrow> json dict \<Rightarrow> string \<Rightarrow> bool" where
  "emitted H env b c \<longleftrightarrow>
     wf_json (JObj env) \<and> floats_ok (JObj env) \<and> texts_ok default_opts (JObj env)
     \<and> map_of env ''body'' = Some (JObj b) \<and> (\<exists>sch. map_of env ''schema'' = Some (JStr sch))
     \<and> checksum H b = Inr c \<and> map_of env ''checksum'' = Some (JStr c) \<and> c \<noteq> [] \<and> c \<noteq> zero_checksum
     \<and> (\<forall>v. map_of b ''payload'' = Some v \<longrightarrow> (\<exists>d. v = JObj d))"

lemma emitted_body: "emitted H env b c \<Longrightarrow> wf_json (JObj b) \<and> floats_ok (JObj b)"
proof -
  assume e: "emitted H env b c"
  then have "(''body'', JObj b) \<in> set env" "wf_json (JObj env)" "floats_ok (JObj env)"
    by (auto simp: emitted_def dest: map_of_SomeD simp del: wf_json.simps floats_ok.simps)
  then have "wf_json (snd (''body'', JObj b)) \<and> floats_ok (snd (''body'', JObj b))"
    unfolding wf_json.simps(2) floats_ok.simps(3) by blast
  then show ?thesis by (simp only: snd_conv)
qed

text \<open>The three outcomes of the corruption.\<close>

lemma break_cases:
  assumes "emitted H env b c"
  obtains "break_envelope kind env = Inr (AList.update ''unexpected_field'' (JBool True) env)"
  | c' where "break_envelope kind env = Inr (AList.update ''checksum'' (JStr c') env)" "c' \<noteq> c"
  | d d' where "map_of b ''payload'' = Some (JObj d)" "flip_first d = Some d'"
      "break_envelope kind env = Inr (AList.update ''body'' (JObj (AList.update ''payload'' (JObj d') b)) env)"
proof -
  from assms obtain sch where e: "map_of env ''body'' = Some (JObj b)" "map_of env ''schema'' = Some (JStr sch)"
    "map_of env ''checksum'' = Some (JStr c)" "c \<noteq> []" "c \<noteq> zero_checksum"
    "\<forall>v. map_of b ''payload'' = Some v \<longrightarrow> (\<exists>d. v = JObj d)"
    by (auto simp: emitted_def)
  show thesis
  proof (cases "kind = ''type_flip'' \<and> sch = ''event'' \<and> map_of b ''payload'' \<noteq> None")
    case True
    then obtain d where d: "map_of b ''payload'' = Some (JObj d)" using e(6) by blast
    have s: "break_envelope kind env = flip_types env b"
      using True d e(1,2) by (simp add: break_envelope_def dict_item_def)
    show thesis
    proof (cases "flip_first d")
      case None
      then have "break_envelope kind env = Inr (AList.update ''checksum'' (JStr zero_checksum) env)"
        unfolding s by (simp add: flip_types_def dict_item_def d)
      then show thesis using that(2) e(5) by blast
    next
      case (Some d')
      then have "break_envelope kind env = Inr (AList.update ''body'' (JObj (AList.update ''payload'' (JObj d') b)) env)"
        unfolding s by (simp add: flip_types_def dict_item_def d)
      with that(3) d Some show thesis by blast
    qed
  next
    case False
    have s: "break_envelope kind env = (if kind = ''checksum'' then flip_checksum env
        else Inr (AList.update ''unexpected_field'' (JBool True) env))"
      using False e(1,2) by (auto simp: break_envelope_def dict_item_def)
    obtain x xs where c: "c = x # xs" using e(4) by (cases c) auto
    show thesis
    proof (cases "kind = ''checksum''")
      case True
      have "break_envelope kind env
          = Inr (AList.update ''checksum'' (JStr ((if x \<noteq> CHR ''f'' then CHR ''f'' else CHR ''0'') # xs)) env)"
        unfolding s using True by (simp add: flip_checksum_def dict_item_def e(3) c)
      moreover have "(if x \<noteq> CHR ''f'' then CHR ''f'' else CHR ''0'') # xs \<noteq> c" by (simp add: c)
      ultimately show thesis by (rule that(2))
    next
      case False
      with s that(1) show thesis by simp
    qed
  qed
qed

lemma corrupt_breaks:
  assumes "emitted H env b c"
  obtains kind where "fst (corrupt g env r) = break_envelope kind env"
proof -
  obtain kind r' where kind: "choice g [''type_flip'', ''checksum'', ''field''] r = (kind, r')"
    by (cases "choice g [''type_flip'', ''checksum'', ''field''] r")
  have read: "loads (dumps default_opts (JObj env)) = Inr (JObj env)"
    using assms unfolding emitted_def by (intro loads_dumps_default) blast+
  have "fst (corrupt g env r) = break_envelope kind env"
    by (simp only: corrupt_def kind prod.case fst_conv read res_bind_simps as_dict.simps)
  then show thesis by (rule that)
qed

text \<open>A body under the checksum of another one is rejected, unless the two canonical texts collide.\<close>

lemma other_body_rejected:
  assumes "map_of bad ''body'' = Some (JObj b')" "map_of bad ''checksum'' = Some (JStr c)" "checksum H b = Inr c"
  shows "validate_envelope H spec bad fc \<noteq> Inr []
    \<or> H (dumps canonical_opts (JObj b')) = H (dumps canonical_opts (JObj b))"
proof (cases "checksum H b' = Inr c")
  case True
  with assms(3) show ?thesis by (simp only: checksum_ok_iff) blast
next
  case False
  with mismatch_rejected [OF assms(1,2)] show ?thesis by blast
qed

section \<open>Property\<close>

text \<open>C39: Corruption never goes unseen: it returns a message (it does not raise), and that message has the unexpected field,
  or fails validation against every specification, or its body has another canonical text with the same hash as the
  one that was emitted.\<close>

theorem corruption_detected:
  assumes "emitted H env b c"
  shows "\<exists>bad. fst (corrupt g env r) = Inr bad
    \<and> (map_of bad ''unexpected_field'' = Some (JBool True)
       \<or> (\<forall>spec fc. validate_envelope H spec bad fc \<noteq> Inr [])
       \<or> (\<exists>b'. map_of bad ''body'' = Some (JObj b')
            \<and> dumps canonical_opts (JObj b') \<noteq> dumps canonical_opts (JObj b)
            \<and> H (dumps canonical_opts (JObj b')) = H (dumps canonical_opts (JObj b))))"
proof -
  have e: "map_of env ''body'' = Some (JObj b)" "map_of env ''checksum'' = Some (JStr c)" "checksum H b = Inr c"
    using assms by (simp_all add: emitted_def)
  obtain kind where f: "fst (corrupt g env r) = break_envelope kind env" by (rule corrupt_breaks [OF assms])
  show ?thesis
  proof (rule break_cases [OF assms, of kind])
    assume "break_envelope kind env = Inr (AList.update ''unexpected_field'' (JBool True) env)"
    then show ?thesis unfolding f by (intro exI conjI disjI1) (assumption, simp)
  next
    fix c' assume c': "break_envelope kind env = Inr (AList.update ''checksum'' (JStr c') env)" "c' \<noteq> c"
    then have "validate_envelope H spec (AList.update ''checksum'' (JStr c') env) fc \<noteq> Inr []" for spec fc
      by (intro mismatch_rejected [of _ b c']) (simp_all add: e)
    with c'(1) show ?thesis unfolding f by blast
  next
    fix d d' assume d: "map_of b ''payload'' = Some (JObj d)" "flip_first d = Some d'"
      "break_envelope kind env = Inr (AList.update ''body'' (JObj (AList.update ''payload'' (JObj d') b)) env)"
    let ?b = "AList.update ''payload'' (JObj d') b"
    let ?bad = "AList.update ''body'' (JObj ?b) env"
    have m: "map_of ?bad ''body'' = Some (JObj ?b)" "map_of ?bad ''checksum'' = Some (JStr c)" by (simp_all add: e)
    have ne: "dumps canonical_opts (JObj ?b) \<noteq> dumps canonical_opts (JObj b)"
      using flipped_body [OF _ _ d(1,2)] emitted_body [OF assms] by blast
    show ?thesis unfolding f using d(3) m(1) ne other_body_rejected [OF m e(3)] by blast
  qed
qed

text \<open>The envelope of the witness: a cycle of a simulated machine, with a constant for the hash.\<close>

definition cycle_envelope :: "json dict" where
  "cycle_envelope =
     envelope_of (cycle_body ''r1'' 1 18000) ''event'' ''generic/0.1'' ''gw-sim-01'' ''sim-line1-m01'' 3
       ''2026-07-24T02:00:18.000Z'' ''0.1.0'' None ''ab''"

lemma cycle_envelope_emitted: "emitted (\<lambda>_. ''ab'') cycle_envelope (cycle_body ''r1'' 1 18000) ''ab''"
proof -
  have z: "''ab'' \<noteq> zero_checksum"
  proof
    assume "''ab'' = zero_checksum"
    then have "length ''ab'' = length zero_checksum" by (rule arg_cong)
    then show False by (simp add: zero_checksum_def)
  qed
  have "texts_ok default_opts (JObj cycle_envelope)"
    by (simp add: cycle_envelope_def envelope_of_def cycle_body_def event_body_def text_ok_def utf8_ok_ascii)
  moreover have "wf_json (JObj cycle_envelope)" "floats_ok (JObj cycle_envelope)"
    by (simp_all add: cycle_envelope_def envelope_of_def cycle_body_def event_body_def)
  moreover have "checksum (\<lambda>_. ''ab'') (cycle_body ''r1'' 1 18000) = Inr ''ab''"
    unfolding checksum_ok_iff by (simp add: cycle_body_def event_body_def)
  moreover have "\<forall>v. map_of (cycle_body ''r1'' 1 18000) ''payload'' = Some v \<longrightarrow> (\<exists>d. v = JObj d)"
    by (simp add: cycle_body_def event_body_def)
  ultimately show ?thesis
    using z unfolding emitted_def by (simp add: cycle_envelope_def)
qed

theorem corruption_detected_witness:
  "\<exists>bad. fst (corrupt least_draws cycle_envelope ()) = Inr bad
    \<and> (map_of bad ''unexpected_field'' = Some (JBool True)
       \<or> (\<forall>spec fc. validate_envelope (\<lambda>_. ''ab'') spec bad fc \<noteq> Inr [])
       \<or> (\<exists>b'. map_of bad ''body'' = Some (JObj b')
            \<and> dumps canonical_opts (JObj b') \<noteq> dumps canonical_opts (JObj (cycle_body ''r1'' 1 18000))))"
  using corruption_detected [OF cycle_envelope_emitted, of least_draws "()"] by metis

end
