(* ===== verification/Spec2Isabelle.thy ===== *)
theory Spec2Isabelle
  imports End_To_End Signed_Delivery Spec_Load Validate_Main Modbus_Adapter Serial_Port Esp32 Loader Supervision Commands
    Simulate_Audit Simulate_Chaos Sniff
begin

text \<open>
  Open Machine Protocol: the gateway that turns the output of textile machines into signed, numbered envelopes, the
  adapters it runs, the tools that validate, audit, simulate and capture envelopes, and the reference consumer.
  All paths below are under \<open>src/\<close>.

  \<^bold>\<open>How the program works.\<close> An adapter (\<open>adapters/\<close>) talks to a machine and hands bodies to \<open>emit\<close>. The daemon
  (\<open>gateway/omp/cli.py\<close>) runs one thread for each machine of its registry and passes every body to the engine
  (\<open>core/engine.py\<close>), which draws the next sequence number of the machine, builds the envelope with the checksum of
  the canonical body and, if the gateway has a key, a signature, validates it against the schemas and the profile, and
  either appends it to the buffer of the store (\<open>core/store.py\<close>) or keeps it as a dead letter. Exporters read the
  buffer behind a cursor of their own and acknowledge what the destination took; the retention deletes old rows that
  every exporter has acknowledged. A consumer deduplicates by gateway, machine and number, stores what is new, raises
  an alarm when one number comes with two checksums, and reports gaps. An auditor checks that the envelopes a run
  cites are complete, unaltered, signed, conforming and consistent with its summary.

  \<^bold>\<open>Conventions\<close> (\<open>Omp_Prelude\<close>). A Python text is its UTF-8 bytes, a dict an association list in insertion order, an
  exception a value of \<open>pyexn\<close> in the left part of a sum; \<open>res_bind\<close> is the sequencing of operations that may raise, so
  each raise and each early return of the source is a branch of a definition. A value whose type the code does not
  know is a \<open>json\<close>, and subscripting, \<open>get\<close>, \<open>in\<close>, truth and comparison on it raise what Python raises
  (\<open>Py_Values\<close>, \<open>Py_Num\<close>). State is passed explicitly, in records; clocks, file contents and what devices deliver are
  arguments.
\<close>

text \<open>
  \<^bold>\<open>Theories and sources.\<close>

  \<^item> The language and its library: \<open>Py_Float\<close> (binary64, rounding, \<open>repr\<close> and \<open>float()\<close>), \<open>Json\<close>, \<open>Json_Read\<close> and
    \<open>Json_Roundtrip\<close> (\<open>json.dumps\<close>, \<open>json.loads\<close>), \<open>Json_Lines\<close> (files of lines), \<open>Py_Utf8\<close> (\<open>decode\<close>,
    \<open>splitlines\<close>), \<open>Iso_Time\<close> (\<open>datetime\<close>, \<open>timedelta\<close>, time stamps), \<open>Py_Num\<close>, \<open>Py_Values\<close>, \<open>Py_Text\<close>.
  \<^item> Envelopes: \<open>Envelope\<close> is \<open>tools/omp_tools/envelope.py\<close>; \<open>Spec_Profile\<close> and \<open>Spec_Load\<close> are \<open>specload.py\<close> and
    \<open>validate_envelope\<close>; \<open>Keys\<close> is \<open>core/keys.py\<close> and \<open>sigverify.py\<close>.
  \<^item> The gateway: \<open>Store\<close> is \<open>core/store.py\<close>, \<open>Engine\<close> is \<open>core/engine.py\<close>, \<open>Exporters\<close> is \<open>exporters/base.py\<close> and
    \<open>mqtt.py\<close>, \<open>Registry\<close> is \<open>core/registry.py\<close>; \<open>Daemon\<close> is \<open>cmd_run\<close> with start, stop and reload of machines,
    \<open>Commands\<close> the other commands of \<open>cli.py\<close>, \<open>Loader\<close> its \<open>load_adapter_class\<close>.
  \<^item> Adapters: \<open>Adapter_Base\<close> is \<open>gateway/omp/adapter.py\<close> with \<open>_supervise\<close> and \<open>_probe_with_timeout\<close> of \<open>cli.py\<close>;
    \<open>Supervision\<close> is the same thread interleaved with those that stop it; \<open>Stats\<close>, \<open>Modbus_Protocol\<close> and
    \<open>Modbus_Adapter\<close> are \<open>adapters/generic-modbus\<close>; \<open>Serial\<close> and \<open>Serial_Port\<close> are \<open>adapters/generic-serial\<close>;
    \<open>Esp32\<close> is \<open>adapters/retrofit-esp32\<close>.
  \<^item> Tools and consumer: \<open>Validate_Main\<close> and \<open>Evidence_Audit\<close> are \<open>tools/omp_tools/validate.py\<close> and \<open>audit.py\<close>,
    \<open>Simulate\<close> is \<open>simulate.py\<close>, \<open>Sniff\<close> is \<open>sniff.py\<close>, \<open>Ingest\<close> is
    \<open>examples/platform-ingest-reference/ingest.py\<close>.
  \<^item> Command lines: \<open>Arg_Parse\<close> is the part of \<open>argparse\<close> (Python 3.11) the programs use, \<open>Cli_Gateway\<close> the parser and the
    dispatch of \<open>cli.py\<close>, \<open>Cli_Tools\<close> those of the three tools and of the consumer, with the files they read.
  \<^item> Compositions: \<open>Gateway_System\<close> interleaves the transactions of adapters (a call of \<open>process\<close> is two, the drawing of the
    number and the rest), exporters and retention with crashes;
    \<open>End_To_End\<close> feeds what its exporters hand out to the consumer, \<open>Signed_Delivery\<close> what the exporters of a
    signing gateway hand out to the validator; \<open>Simulate_Stream\<close>, \<open>Simulate_Audit\<close> and
    \<open>Simulate_Chaos\<close> feed what the simulator emits to the validator and the auditor.

  A definition has the name of the function it models, with a prefix where two modules share one; the record of a
  component has the fields of its class.
\<close>

text \<open>
  \<^bold>\<open>What is proved.\<close>

  \<^item> Delivery: at every reachable state of the gateway, under every interleaving and after any crash, each exporter has
    acknowledged a prefix of everything ever buffered and still finds the rest; order is kept, an envelope is repeated only
    when its acknowledgement was lost, numbers are not reused,
    the retention never deletes a row some exporter still needs; the drain loop of \<open>Exporters\<close> is a run of the steps of
    \<open>Gateway_System\<close>, so that all this holds of it (\<open>drain_is_a_run\<close>). The consumer turns such a stream, repeated and
    reordered at will, into one row for each envelope, without an alarm.
  \<^item> Envelopes: equal canonical texts mean equal bodies, and equal bodies of integers have equal texts; what is valid cannot be altered unnoticed unless the hash
    collides; the signed bytes determine gateway, machine, number and checksum; \<open>process\<close> buffers what is valid and
    nothing else; printing and parsing JSON are inverse.
  \<^item> Adapters: Modbus frames are read back from both framings, no single byte error passes the CRC, only read requests
    are sent, the windows of the aggregators partition the samples, floats included, and report them exactly but for the
    average of floats; a lost serial connection loses no sample; a
    retrofit node's messages become exactly their bodies; supervision ends; the thread of an adapter ends when the gateway and the adapter are both told to stop, and a stop that
    comes while it waits to be retried is lost.
  \<^item> The daemon: a reload ends with exactly the machines of the new registry in the table of running machines, or their failed
    start reported, keeps unchanged ones untouched, and changes
    nothing when it is refused; \<open>stop_machine\<close> is called once for each adapter started. These are statements about what the
    daemon does, its table and its calls of \<open>stop\<close>; what such a call does to the thread is in \<open>Supervision\<close>.
  \<^item> Tools: what five passed checks of an audit establish; the exit codes; the simulator terminates with a numbered
    stream that passes the audit, and its corruptions are detectable; a capture can be listed without loss.
  \<^item> Command lines: no command starts on missing or ill-typed arguments, with its required options alone each command has the
    documented defaults, the
    service unit an installation prints starts the daemon it prepared, and what each exit code of the validator means.
    What \<open>run --sign\<close> exports passes \<open>omp-validate --pubkey\<close> with the key \<open>show-identity\<close> prints.

  Locales state the contracts between components: \<open>codec\<close> and \<open>line_codec\<close> (text forms, met by numerals, JSON, base64
  and hexadecimal text), \<open>seq_source\<close> and \<open>delivery_queue\<close> (what the engine and the exporters use of the store), and
  \<open>window_aggregator\<close> (met by both aggregators). Each is interpreted on the definitions of the component that provides it.

  \<^bold>\<open>Loops.\<close> The reader of JSON carries fuel, two units for a character, and \<open>pvalue_fuel\<close> shows that more changes
  nothing. The drain loop of an exporter carries fuel too, and one unit more than there are undelivered rows is enough
  (\<open>drain_is_deliver\<close>); the daemon gives it that. The loop of a simulated machine is a partial function, and it is shown
  to return for durations up to a thousand years. Loops that end when a flag is set (polling, reading a port,
  supervision, the main loop) run over a list of what the environment does at each turn.
\<close>

text \<open>
  \<^bold>\<open>Parameters.\<close> The hash, Ed25519, the PEM form of a key, the jsonschema library (a validator is a function to error
  messages), the regular expression engine (a pattern is a function to named groups), the YAML parser (its result is the
  input), the transports (Modbus, MQTT, pyserial, sockets), the generator of \<open>random\<close>, the file system where adapters
  and specs are read, and the size of the database file. Hypotheses about them are stated in the theorems that need
  them; none is assumed globally. SQLite is modelled by what its documentation says of the statements that are sent:
  one transaction for each method, \<open>AUTOINCREMENT\<close>, \<open>UNIQUE\<close>, 64-bit integers.

  \<^bold>\<open>Not modelled.\<close> The usage and help texts of the argument parsers; the construction of
  network clients and serial ports, which are libraries; Python's \<open>logging\<close> and \<open>print\<close> beyond the lines the commands
  print; lone surrogates and digits outside ASCII in numerals; the JSON schemas, which are data for the jsonschema
  library; the firmware of the retrofit node (C++), the documentation, the conformance generators and the tests.
\<close>

end
